(* ===== verification/Prelude.thy ===== *)
theory Prelude
  imports Main "HOL-Library.Word" "HOL-Library.Signed_Division" "HOL-Library.Monad_Syntax"
begin

unbundle bit_operations_syntax

text \<open>
  Shared vocabulary of the development: the machine integer types of the i386 target, the status
  codes of \<open>src/src/status.h\<close>, the constants of \<open>src/src/config.h\<close>, array accesses that are
  checked against the bounds of the array, and generic lemmas on options, lists and words.

  A C function that can leave the domain of defined behaviour (an access outside an object, a
  dereference of the null pointer or of freed memory, a signed overflow, a kernel panic) is a
  function into an \<open>option\<close> type: \<open>None\<close> says that there is no normal return. The error codes
  the C code returns are ordinary values of the result.
\<close>

section \<open>Machine types\<close>

type_synonym u8 = "8 word"
type_synonym u16 = "16 word"
type_synonym u32 = "32 word"

text \<open>
  C's \<open>int\<close> is the HOL type \<open>int\<close>; where an addition can leave the 32-bit range the model checks it
  with \<open>s32\<close>, because signed overflow has no defined result in C.
\<close>

definition s32 :: "int \<Rightarrow> int option" where
  "s32 x = (if - (2 ^ 31) \<le> x \<and> x < 2 ^ 31 then Some x else None)"

abbreviation to_int :: "u32 \<Rightarrow> int" where
  "to_int w \<equiv> sint w"

abbreviation to_u32 :: "int \<Rightarrow> u32" where
  "to_u32 i \<equiv> word_of_int i"

section \<open>Status codes and constants\<close>

definition PLUMOS_ALL_OK :: int where "PLUMOS_ALL_OK = 0"
definition EIO :: int where "EIO = 1"
definition EINVARG :: int where "EINVARG = 2"
definition ENOMEM :: int where "ENOMEM = 3"
definition EBADPATH :: int where "EBADPATH = 4"
definition EFSNOTUS :: int where "EFSNOTUS = 5"
definition ERDONLY :: int where "ERDONLY = 6"
definition EUNIMP :: int where "EUNIMP = 7"
definition EISTKN :: int where "EISTKN = 8"
definition EINVFORMAT :: int where "EINVFORMAT = 9"

named_theorems status_defs "the numeric values of the status codes"

lemmas status_codes [status_defs] =
  PLUMOS_ALL_OK_def EIO_def EINVARG_def ENOMEM_def EBADPATH_def EFSNOTUS_def ERDONLY_def
  EUNIMP_def EISTKN_def EINVFORMAT_def

section \<open>Bounds-checked arrays\<close>

definition arr_get :: "'a list \<Rightarrow> int \<Rightarrow> 'a option" where
  "arr_get xs i = (if 0 \<le> i \<and> i < int (length xs) then Some (xs ! nat i) else None)"

definition arr_set :: "'a list \<Rightarrow> int \<Rightarrow> 'a \<Rightarrow> 'a list option" where
  "arr_set xs i x = (if 0 \<le> i \<and> i < int (length xs) then Some (xs[nat i := x]) else None)"

named_theorems bind_Some "equations for successful results of monadic code"

lemma bind_Some_iff [bind_Some]:
  "Option.bind m f = Some y \<longleftrightarrow> (\<exists>x. m = Some x \<and> f x = Some y)"
  by (cases m) auto

lemma arr_get_Some [bind_Some]:
  "arr_get xs i = Some x \<longleftrightarrow> 0 \<le> i \<and> i < int (length xs) \<and> x = xs ! nat i"
  by (auto simp: arr_get_def)

lemma arr_set_Some [bind_Some]:
  "arr_set xs i x = Some ys \<longleftrightarrow> 0 \<le> i \<and> i < int (length xs) \<and> ys = xs[nat i := x]"
  by (auto simp: arr_set_def)

lemma s32_Some [bind_Some]: "s32 x = Some y \<longleftrightarrow> y = x \<and> - (2 ^ 31) \<le> x \<and> x < 2 ^ 31"
  by (auto simp: s32_def)

lemma s32_nat: "int n < 2 ^ 31 \<Longrightarrow> s32 (int n) = Some (int n)"
  by (simp add: s32_def)

lemma arr_get_nat [simp]: "n < length xs \<Longrightarrow> arr_get xs (int n) = Some (xs ! n)"
  by (simp add: arr_get_def)

lemma arr_set_nat [simp]: "n < length xs \<Longrightarrow> arr_set xs (int n) x = Some (xs[n := x])"
  by (simp add: arr_set_def)

lemma arr_get_out [simp]: "length xs \<le> n \<Longrightarrow> arr_get xs (int n) = None"
  by (simp add: arr_get_def)

lemma arr_set_out [simp]: "length xs \<le> n \<Longrightarrow> arr_set xs (int n) x = None"
  by (simp add: arr_set_def)

lemma arr_get_neg [simp]: "i < 0 \<Longrightarrow> arr_get xs i = None"
  by (simp add: arr_get_def)

lemma arr_set_neg [simp]: "i < 0 \<Longrightarrow> arr_set xs i x = None"
  by (simp add: arr_set_def)

lemma arr_set_length: "arr_set xs i x = Some ys \<Longrightarrow> length ys = length xs"
  by (auto simp: arr_set_def split: if_splits)

section \<open>Words\<close>

lemma sint_of_small_nat: "n < 2 ^ 31 \<Longrightarrow> sint (of_nat n :: u32) = int n"
  by (simp add: signed_of_nat signed_take_bit_int_eq_self)

lemma sint_eq_unat: "unat (w :: u32) < 2 ^ 31 \<Longrightarrow> sint w = int (unat w)"
  using sint_of_small_nat [of "unat w"] by simp

lemma unat_to_u32: "0 \<le> i \<Longrightarrow> i < 2 ^ 32 \<Longrightarrow> unat (to_u32 i) = nat i"
  by (simp add: unsigned_of_int nat_mod_distrib take_bit_eq_mod)

lemma to_u32_int [simp]: "to_u32 (int n) = of_nat n"
  by simp

lemma unat_of_small_nat: "n < 2 ^ 32 \<Longrightarrow> unat (of_nat n :: u32) = n"
  by (simp add: unsigned_of_nat take_bit_nat_eq_self)

lemma of_nat_u32_eq_iff:
  "m < 2 ^ 32 \<Longrightarrow> n < 2 ^ 32 \<Longrightarrow> ((of_nat m :: u32) = of_nat n) = (m = n)"
  by (metis unat_of_small_nat)

end
