(* ===== verification/CLib.thy ===== *)
theory CLib
  imports Prelude
begin

unbundle bit_operations_syntax

text \<open>
  The string and memory routines of \<open>src/src/string/string.c\<close> and \<open>src/src/memory/memory.c\<close> (the user
  library under \<open>src/programs/stdlib\<close> has the same functions). A pointer to characters is the list of
  bytes from the pointer to the end of the object it points into, so a read past the object has no
  result (\<open>None\<close>). A routine that writes returns the object as it is afterwards.
\<close>

section \<open>memory.c\<close>

function memset_loop :: "u8 list \<Rightarrow> u8 \<Rightarrow> nat \<Rightarrow> nat \<Rightarrow> u8 list option" where
  "memset_loop c_ptr c sz i =
     (if i < sz then do {
        c_ptr \<leftarrow> arr_set c_ptr (int i) c;
        memset_loop c_ptr c sz (i + 1)
      } else Some c_ptr)"
  by pat_completeness auto
termination by (relation "measure (\<lambda>(p, c, sz, i). sz - i)") auto

definition memset :: "u8 list \<Rightarrow> int \<Rightarrow> u32 \<Rightarrow> u8 list option" where
  "memset ptr c sz = memset_loop ptr (word_of_int c) (unat sz) 0"

text \<open>The comparison of two bytes is the comparison of (signed) C \<open>char\<close>s.\<close>

fun memcmp :: "u8 list \<Rightarrow> u8 list \<Rightarrow> int \<Rightarrow> int option" where
  "memcmp (c1 # s1) (c2 # s2) count =
     (if count > 0
      then (if c1 \<noteq> c2 then Some (if sint c1 < sint c2 then - 1 else 1)
            else memcmp s1 s2 (count - 1))
      else Some 0)"
| "memcmp s1 s2 count = (if count > 0 then None else Some 0)"

text \<open>\<open>while(len--)\<close>: a negative length runs until the objects are exhausted.\<close>

fun memcpy :: "u8 list \<Rightarrow> u8 list \<Rightarrow> int \<Rightarrow> u8 list option" where
  "memcpy (d # dest) (s # src) len =
     (if len \<noteq> 0 then map_option (\<lambda>r. s # r) (memcpy dest src (len - 1)) else Some (d # dest))"
| "memcpy dest src len = (if len \<noteq> 0 then None else Some dest)"

section \<open>string.c\<close>

definition tolower :: "u8 \<Rightarrow> u8" where
  "tolower s1 = (if sint s1 \<ge> 65 \<and> sint s1 \<le> 90 then s1 + 32 else s1)"

fun strlen_loop :: "u8 list \<Rightarrow> int \<Rightarrow> int option" where
  "strlen_loop [] count = None"
| "strlen_loop (c # ptr) count = (if c \<noteq> 0 then strlen_loop ptr (count + 1) else Some count)"

definition strlen :: "u8 list \<Rightarrow> int option" where
  "strlen ptr = strlen_loop ptr 0"

function strnlen_loop :: "u8 list \<Rightarrow> int \<Rightarrow> int \<Rightarrow> int option" where
  "strnlen_loop ptr mx i =
     (if i < mx then do {
        c \<leftarrow> arr_get ptr i;
        if c = 0 then Some i else strnlen_loop ptr mx (i + 1)
      } else Some i)"
  by pat_completeness auto
termination by (relation "measure (\<lambda>(ptr, mx, i). nat (mx - i))") auto

definition strnlen :: "u8 list \<Rightarrow> int \<Rightarrow> int option" where
  "strnlen ptr mx = strnlen_loop ptr mx 0"

definition isdigit :: "u8 \<Rightarrow> bool" where
  "isdigit c \<longleftrightarrow> sint c \<ge> 48 \<and> sint c \<le> 57"

definition toenumericdigit :: "u8 \<Rightarrow> int" where
  "toenumericdigit c = sint c - 48"

fun strcpy :: "u8 list \<Rightarrow> u8 list \<Rightarrow> u8 list option" where
  "strcpy dest [] = None"
| "strcpy [] src = None"
| "strcpy (d # dest) (c # src) =
     (if c \<noteq> 0 then map_option (\<lambda>r. c # r) (strcpy dest src) else Some (0 # dest))"

function strncpy_loop :: "u8 list \<Rightarrow> u8 list \<Rightarrow> int \<Rightarrow> int \<Rightarrow> u8 list option" where
  "strncpy_loop dest src count i =
     (if i < count - 1 then do {
        c \<leftarrow> arr_get src i;
        if c = 0 then arr_set dest i 0
        else do {
          dest \<leftarrow> arr_set dest i c;
          strncpy_loop dest src count (i + 1)
        }
      } else arr_set dest i 0)"
  by pat_completeness auto
termination by (relation "measure (\<lambda>(dest, src, count, i). nat (count - i))") auto

definition strncpy :: "u8 list \<Rightarrow> u8 list \<Rightarrow> int \<Rightarrow> u8 list option" where
  "strncpy dest src count = strncpy_loop dest src count 0"

fun istrncmp :: "u8 list \<Rightarrow> u8 list \<Rightarrow> int \<Rightarrow> int option" where
  "istrncmp (u1 # str1) (u2 # str2) n =
     (if n > 0 then
        (if u1 \<noteq> u2 \<and> tolower u1 \<noteq> tolower u2 then Some (uint u1 - uint u2)
         else if u1 = 0 then Some 0
         else istrncmp str1 str2 (n - 1))
      else Some 0)"
| "istrncmp str1 str2 n = (if n > 0 then None else Some 0)"

fun strncmp :: "u8 list \<Rightarrow> u8 list \<Rightarrow> int \<Rightarrow> int option" where
  "strncmp (u1 # str1) (u2 # str2) n =
     (if n > 0 then
        (if u1 \<noteq> u2 then Some (uint u1 - uint u2)
         else if u1 = 0 then Some 0
         else strncmp str1 str2 (n - 1))
      else Some 0)"
| "strncmp str1 str2 n = (if n > 0 then None else Some 0)"

function strnlen_terminator_loop :: "u8 list \<Rightarrow> int \<Rightarrow> u8 \<Rightarrow> int \<Rightarrow> int option" where
  "strnlen_terminator_loop str mx terminator i =
     (if i < mx then do {
        c \<leftarrow> arr_get str i;
        if c = 0 \<or> c = terminator then Some i
        else strnlen_terminator_loop str mx terminator (i + 1)
      } else Some i)"
  by pat_completeness auto
termination by (relation "measure (\<lambda>(str, mx, t, i). nat (mx - i))") auto

definition strnlen_terminator :: "u8 list \<Rightarrow> int \<Rightarrow> u8 \<Rightarrow> int option" where
  "strnlen_terminator str mx terminator = strnlen_terminator_loop str mx terminator 0"

declare memset_loop.simps [simp del] strnlen_loop.simps [simp del] strncpy_loop.simps [simp del]
  strnlen_terminator_loop.simps [simp del]

section \<open>What the routines compute\<close>

definition cstr :: "u8 list \<Rightarrow> u8 list" where
  "cstr s = takeWhile (\<lambda>c. c \<noteq> 0) s"

text \<open>A C string in memory: its characters and the terminator.\<close>

definition lit :: "string \<Rightarrow> u8 list" where
  "lit s = map (\<lambda>c. of_nat (of_char c :: nat)) s @ [0]"

lemma cstr_simps [simp]:
  "cstr [] = []" "cstr (c # s) = (if c = 0 then [] else c # cstr s)"
  by (simp_all add: cstr_def)

lemma cstr_nonzero: "c \<in> set (cstr s) \<Longrightarrow> c \<noteq> 0"
  unfolding cstr_def by (blast dest: set_takeWhileD)

lemma cstr_append: "0 \<in> set s \<Longrightarrow> cstr (s @ t) = cstr s"
  by (induction s) auto

lemma cstr_append_no0: "0 \<notin> set s \<Longrightarrow> cstr (s @ t) = s @ cstr t"
  by (induction s) auto

lemma length_cstr: "0 \<in> set s \<Longrightarrow> length (cstr s) < length s"
  by (induction s) auto

lemma cstr_terminated: "0 \<in> set s \<Longrightarrow> \<exists>t. s = cstr s @ 0 # t"
  by (induction s) auto

lemma strlen_loop: "strlen_loop s n = (if 0 \<in> set s then Some (n + int (length (cstr s))) else None)"
  by (induction s arbitrary: n) auto

lemma strlen_cstr: "strlen s = (if 0 \<in> set s then Some (int (length (cstr s))) else None)"
  by (simp add: strlen_def strlen_loop)

lemma nth_cstr: "i < length (cstr s) \<Longrightarrow> cstr s ! i = s ! i \<and> s ! i \<noteq> 0"
proof (induction s arbitrary: i)
  case (Cons c s)
  then show ?case by (cases i) (auto split: if_splits)
qed simp

lemma nth_length_cstr: "0 \<in> set s \<Longrightarrow> s ! length (cstr s) = 0"
  by (induction s) auto

lemma cstr_all: "0 \<notin> set s \<Longrightarrow> cstr s = s"
  by (induction s) auto

lemma strnlen_loop_cstr:
  assumes "0 \<le> i" "i \<le> int (length (cstr s))" "i \<le> mx" "0 \<in> set s \<or> mx \<le> int (length s)"
  shows "strnlen_loop s mx i = Some (min mx (int (length (cstr s))))"
  using assms
proof (induction s mx i rule: strnlen_loop.induct)
  case (1 s mx i)
  show ?case
  proof (cases "i < mx")
    case False
    then show ?thesis using 1 by (simp add: strnlen_loop.simps)
  next
    case True
    have len: "nat i < length s"
      using 1(2-5) True length_cstr [of s] by linarith
    show ?thesis
    proof (cases "s ! nat i = 0")
      case z: True
      then have "0 \<in> set s" using len by (metis nth_mem)
      have "i = int (length (cstr s))"
        using nth_cstr [of "nat i" s] z 1(2,3) by fastforce
      then show ?thesis using True z len 1(2) by (subst strnlen_loop.simps) (simp add: arr_get_def)
    next
      case nz: False
      have "i \<noteq> int (length (cstr s))"
      proof
        assume "i = int (length (cstr s))"
        with nz have "0 \<notin> set s" using nth_length_cstr [of s] by auto
        with \<open>i = _\<close> len show False by (simp add: cstr_all)
      qed
      then have "strnlen_loop s mx (i + 1) = Some (min mx (int (length (cstr s))))"
        using 1(2-5) True nz len by (intro 1(1)) (auto simp: arr_get_def)
      then show ?thesis using True nz len 1(2) by (subst strnlen_loop.simps) (simp add: arr_get_def)
    qed
  qed
qed

lemma strnlen_cstr:
  assumes "0 \<le> mx" "0 \<in> set s \<or> mx \<le> int (length s)"
  shows "strnlen s mx = Some (min mx (int (length (cstr s))))"
  unfolding strnlen_def using assms by (intro strnlen_loop_cstr) auto

lemma strcpy_cstr:
  "0 \<in> set src \<Longrightarrow> strcpy dest src =
     (if length (cstr src) < length dest
      then Some (cstr src @ 0 # drop (Suc (length (cstr src))) dest) else None)"
  by (induction dest src rule: strcpy.induct) auto

lemma strncpy_loop_cstr:
  assumes "0 \<in> set src \<or> count - 1 \<le> int (length src)"
    and n: "n \<le> nat (count - 1)" "n \<le> length (cstr src)"
      "n = nat (count - 1) \<or> n = length (cstr src)"
    and "k \<le> n" "n < length dest"
  shows "strncpy_loop dest src count (int k) =
    Some (take k dest @ drop k (take n (cstr src)) @ 0 # drop (Suc n) dest)"
  using assms(5,6)
proof (induction "n - k" arbitrary: k dest)
  case 0
  then have kn: "k = n" by simp
  have stop: "\<not> int k < count - 1 \<or> (k < length src \<and> src ! k = 0)"
  proof (cases "int k < count - 1")
    case True
    then have kl: "k = length (cstr src)" using n kn by linarith
    have "0 \<in> set src"
    proof (rule ccontr)
      assume "0 \<notin> set src"
      then show False using assms(1) True kl cstr_all [of src] by simp
    qed
    then show ?thesis using kl nth_length_cstr [of src] length_cstr [of src] by simp
  qed simp
  have w: "arr_set dest (int k) 0 = Some (take k dest @ 0 # drop (Suc k) dest)"
    using 0(3) kn by (simp add: arr_set_def upd_conv_take_nth_drop)
  have "strncpy_loop dest src count (int k) = arr_set dest (int k) 0"
    using stop by (subst strncpy_loop.simps) (elim disjE; simp)
  with w have "strncpy_loop dest src count (int k) = Some (take k dest @ 0 # drop (Suc k) dest)" by simp
  then show ?case unfolding kn by simp
next
  case (Suc m)
  then have "k < n" by simp
  then have k: "k < n" "k < length (cstr src)" "int k < count - 1" using n by linarith+
  then have c: "src ! k = cstr src ! k" "src ! k \<noteq> 0" using nth_cstr by metis+
  have ks: "k < length src"
    using k(2) by (metis cstr_def length_takeWhile_le less_le_trans)
  have "strncpy_loop (dest[k := src ! k]) src count (int (Suc k)) =
    Some (take (Suc k) (dest[k := src ! k]) @ drop (Suc k) (take n (cstr src)) @
      0 # drop (Suc n) (dest[k := src ! k]))"
    using Suc.hyps(2) Suc.prems k by (intro Suc.hyps(1)) simp_all
  moreover have "take (Suc k) (dest[k := src ! k]) = take k dest @ [cstr src ! k]"
    using Suc.prems k c by (simp add: take_Suc_conv_app_nth)
  moreover have "drop k (take n (cstr src)) = cstr src ! k # drop (Suc k) (take n (cstr src))"
    using k by (subst Cons_nth_drop_Suc [symmetric]) auto
  moreover have "arr_get src (int k) = Some (src ! k)"
    "arr_set dest (int k) (src ! k) = Some (dest[k := src ! k])"
    using ks k(1) Suc.prems(2) by simp_all
  ultimately show ?case using k(3) c k(1) by (subst strncpy_loop.simps) (simp add: add.commute)
qed

lemma strncpy_cstr:
  assumes "0 \<in> set src \<or> count - 1 \<le> int (length src)"
    "n = min (nat (count - 1)) (length (cstr src))" "n < length dest"
  shows "strncpy dest src count = Some (take n (cstr src) @ 0 # drop (Suc n) dest)"
  using strncpy_loop_cstr [OF assms(1), of n 0 dest] assms(2,3) by (simp add: strncpy_def min_def)

lemma strncmp_zero:
  "0 \<in> set s \<Longrightarrow> 0 \<in> set t \<Longrightarrow>
   \<exists>r. strncmp s t n = Some r \<and> (r = 0 \<longleftrightarrow> take (nat n) (cstr s) = take (nat n) (cstr t))"
proof (induction s t n rule: strncmp.induct)
  case (1 u1 s u2 t n)
  show ?case
  proof (cases "n > 0 \<and> u1 = u2 \<and> u1 \<noteq> 0")
    case True
    then have m: "nat n = Suc (nat (n - 1))" using conjunct1 [OF True] by linarith
    have u: "n > 0" "u1 = u2" "u2 \<noteq> 0" using True by auto
    with 1 obtain r where "strncmp s t (n - 1) = Some r"
      "r = 0 \<longleftrightarrow> take (nat (n - 1)) (cstr s) = take (nat (n - 1)) (cstr t)" by auto
    then show ?thesis using u unfolding m by simp
  next
    case False
    then consider "n \<le> 0" | "0 < n" "u1 \<noteq> u2" | "0 < n" "u1 = u2" "u1 = 0" by linarith
    then show ?thesis
    proof cases
      case 2
      then obtain k where "nat n = Suc k" by (metis zero_less_nat_eq Suc_pred)
      with 2 show ?thesis by (auto simp: word_uint_eq_iff)
    qed auto
  qed
qed auto

lemma istrncmp_zero:
  "0 \<in> set s \<Longrightarrow> 0 \<in> set t \<Longrightarrow>
   \<exists>r. istrncmp s t n = Some r \<and>
     (r = 0 \<longleftrightarrow> take (nat n) (map tolower (cstr s)) = take (nat n) (map tolower (cstr t)))"
proof (induction s t n rule: istrncmp.induct)
  case (1 u1 s u2 t n)
  have t0: "tolower x = 0 \<longleftrightarrow> x = 0" for x :: u8
  proof
    assume a: "tolower x = 0"
    show "x = 0"
    proof (rule ccontr)
      assume "x \<noteq> 0"
      with a have "x = - 32" "sint x \<ge> 65"
        by (auto simp: tolower_def eq_neg_iff_add_eq_0 split: if_splits)
      then show False by simp
    qed
  qed (simp add: tolower_def)
  show ?case
  proof (cases "n > 0 \<and> tolower u1 = tolower u2 \<and> u1 \<noteq> 0")
    case True
    then have m: "nat n = Suc (nat (n - 1))" using conjunct1 [OF True] by linarith
    have u: "n > 0" "tolower u1 = tolower u2" "u1 \<noteq> 0" "u2 \<noteq> 0" using True t0 by metis+
    with 1 obtain r where "istrncmp s t (n - 1) = Some r"
      "r = 0 \<longleftrightarrow> take (nat (n - 1)) (map tolower (cstr s)) = take (nat (n - 1)) (map tolower (cstr t))"
      by auto
    then show ?thesis using u unfolding m by simp
  next
    case False
    then consider "n \<le> 0" | "0 < n" "tolower u1 \<noteq> tolower u2" | "0 < n" "tolower u1 = tolower u2" "u1 = 0"
      by linarith
    then show ?thesis
    proof cases
      case 2
      then have "u1 \<noteq> u2" by auto
      then have "uint u1 \<noteq> uint u2" by (simp add: word_uint_eq_iff)
      moreover obtain k where "nat n = Suc k" using 2(1) by (metis zero_less_nat_eq Suc_pred)
      ultimately show ?thesis using 2 by (auto simp: t0)
    next
      case 3
      then have "u2 = 0" using t0 by metis
      with 3 show ?thesis by simp
    qed simp
  qed
qed auto

lemma memcpy_take:
  "n \<le> length src \<Longrightarrow> n \<le> length dest \<Longrightarrow>
   memcpy dest src (int n) = Some (take n src @ drop n dest)"
proof (induction n arbitrary: dest src)
  case 0
  then show ?case by (cases dest; cases src) auto
next
  case (Suc n)
  then show ?case by (cases dest; cases src) auto
qed

lemma memcmp_zero:
  "n \<le> length s \<Longrightarrow> n \<le> length t \<Longrightarrow>
   \<exists>r. memcmp s t (int n) = Some r \<and> (r = 0 \<longleftrightarrow> take n s = take n t)"
proof (induction n arbitrary: s t)
  case 0
  then show ?case by (cases s; cases t) auto
next
  case (Suc n)
  then obtain a s' b t' where st: "s = a # s'" "t = b # t'" by (cases s; cases t) auto
  show ?case using Suc by (auto simp: st)
qed

lemma memset_loop_take:
  "i \<le> n \<Longrightarrow> n \<le> length p \<Longrightarrow>
   memset_loop p c n i = Some (take i p @ replicate (n - i) c @ drop n p)"
proof (induction "n - i" arbitrary: i p)
  case 0
  then show ?case by (subst memset_loop.simps) simp
next
  case (Suc m)
  then have "memset_loop (p[i := c]) c n (Suc i) =
      Some (take (Suc i) (p[i := c]) @ replicate (n - Suc i) c @ drop n (p[i := c]))"
    by (intro Suc.hyps(1)) auto
  moreover have "take (Suc i) (p[i := c]) = take i p @ [c]"
    using Suc by (simp add: take_Suc_conv_app_nth)
  moreover have "n - i = Suc (n - Suc i)" using Suc by simp
  ultimately show ?case using Suc by (subst memset_loop.simps) simp
qed

lemma memset_take:
  "unat n \<le> length p \<Longrightarrow>
   memset p c n = Some (replicate (unat n) (word_of_int c) @ drop (unat n) p)"
  by (simp add: memset_def memset_loop_take)

lemma drop_after_copy: "length xs = n \<Longrightarrow> n < m \<Longrightarrow> drop m (xs @ x # drop (Suc n) d) = drop m d"
proof -
  assume a: "length xs = n" "n < m"
  then obtain k where "m = Suc n + k" using less_imp_Suc_add by auto
  with a show ?thesis by (simp add: drop_append add.commute)
qed

section \<open>Properties\<close>

text \<open>
  \<open>strncpy\<close> with a positive \<open>count\<close> copies at most \<open>count - 1\<close> characters of the string, always
  terminates the copy, leaves the rest of the destination alone and touches at most \<open>count\<close> bytes of
  it.
\<close>
lemma strncpy_terminated_copy:
  assumes "0 \<in> set src" "1 \<le> count" "count \<le> int (length dest)"
  shows "\<exists>dest'. strncpy dest src count = Some dest' \<and> length dest' = length dest \<and>
    cstr dest' = take (nat (count - 1)) (cstr src) \<and>
    drop (nat count) dest' = drop (nat count) dest"
proof -
  let ?n = "min (nat (count - 1)) (length (cstr src))"
  have n: "?n < length dest" "?n < nat count" using assms(2,3) by linarith+
  have "strncpy dest src count = Some (take ?n (cstr src) @ 0 # drop (Suc ?n) dest)"
    using assms n by (intro strncpy_cstr) auto
  moreover have "0 \<notin> set (take ?n (cstr src))" using cstr_nonzero in_set_takeD by metis
  then have "cstr (take ?n (cstr src) @ 0 # drop (Suc ?n) dest) = take ?n (cstr src)"
    by (simp add: cstr_append_no0)
  moreover have "length (take ?n (cstr src) @ 0 # drop (Suc ?n) dest) = length dest" using n by simp
  moreover have "length (take ?n (cstr src)) = ?n" by simp
  then have "drop (nat count) (take ?n (cstr src) @ 0 # drop (Suc ?n) dest) = drop (nat count) dest"
    using n(2) by (rule drop_after_copy)
  moreover have "take ?n (cstr src) = take (nat (count - 1)) (cstr src)"
    by (simp flip: take_take)
  ultimately show ?thesis by metis
qed

lemma strncpy_terminated_copy_witness:
  "\<exists>d. strncpy [9, 9, 9, 9, 9] (lit ''abcdef'') 4 = Some d \<and> cstr d = [97, 98, 99] \<and> drop 4 d = [9]"
  using strncpy_terminated_copy [of "lit ''abcdef''" 4 "[9, 9, 9, 9, 9]"]
  by (auto simp: lit_def numeral_3_eq_3)

end
