(* ===== verification/Heap.thy ===== *)
theory Heap
  imports Prelude
begin

unbundle bit_operations_syntax

text \<open>
  The block allocator of \<open>src/src/memory/heap/heap.c\<close>: a table with one byte per 4096-byte block
  (\<open>struct heap_table\<close>), the scan for a free run, marking and unmarking of runs, and the address
  arithmetic between blocks and addresses. The first part translates the C functions; the loops
  are recursions that fail with \<open>None\<close> exactly when the C code indexes outside the entry table.
  The second part states what the table means: a well-formed table is the encoding of a list of
  segments (\<open>seg\<close>), and the operations are proved to implement allocation and release on segments.
\<close>

section \<open>Data\<close>

definition HEAP_BLOCK_TABLE_ENTRY_TAKEN :: u8 where "HEAP_BLOCK_TABLE_ENTRY_TAKEN = 0x01"
definition HEAP_BLOCK_TABLE_ENTRY_FREE :: u8 where "HEAP_BLOCK_TABLE_ENTRY_FREE = 0x00"
definition HEAP_BLOCK_HAS_NEXT :: u8 where "HEAP_BLOCK_HAS_NEXT = 0x80"
definition HEAP_BLOCK_IS_FIRST :: u8 where "HEAP_BLOCK_IS_FIRST = 0x40"
definition PLUMOS_HEAP_BLOCK_SIZE :: nat where "PLUMOS_HEAP_BLOCK_SIZE = 4096"

lemmas heap_flag_defs =
  HEAP_BLOCK_TABLE_ENTRY_TAKEN_def HEAP_BLOCK_TABLE_ENTRY_FREE_def
  HEAP_BLOCK_HAS_NEXT_def HEAP_BLOCK_IS_FIRST_def

record heap_table =
  entries :: "u8 list"
  total :: u32

record heap =
  table :: heap_table
  saddr :: u32

section \<open>Operations\<close>

definition heap_validate_table :: "u32 \<Rightarrow> u32 \<Rightarrow> heap_table \<Rightarrow> int" where
  "heap_validate_table ptr end_ptr tb =
     (let table_size = end_ptr - ptr;
          total_blocks = table_size div of_nat PLUMOS_HEAP_BLOCK_SIZE
      in if total tb \<noteq> total_blocks then - EINVARG else 0)"

definition heap_validate_alignment :: "u32 \<Rightarrow> bool" where
  "heap_validate_alignment ptr \<longleftrightarrow> ptr mod of_nat PLUMOS_HEAP_BLOCK_SIZE = 0"

text \<open>
  The clearing \<open>memset\<close> of \<open>heap_create\<close>: the first \<open>total\<close> bytes behind \<open>entries\<close>.
\<close>

fun clear_entries :: "u8 list \<Rightarrow> nat \<Rightarrow> u8 list option" where
  "clear_entries es 0 = Some es"
| "clear_entries [] (Suc n) = None"
| "clear_entries (e # es) (Suc n) =
     map_option (\<lambda>r. HEAP_BLOCK_TABLE_ENTRY_FREE # r) (clear_entries es n)"

definition heap_create :: "heap \<Rightarrow> u32 \<Rightarrow> u32 \<Rightarrow> heap_table \<Rightarrow> (int \<times> heap) option" where
  "heap_create h ptr end_ptr tb =
     (if \<not> heap_validate_alignment ptr \<or> \<not> heap_validate_alignment end_ptr
      then Some (- EINVARG, h)
      else
        (let h = \<lparr>table = tb, saddr = ptr\<rparr>;
             res = heap_validate_table ptr end_ptr tb
         in if res < 0 then Some (res, h)
            else do {
              es \<leftarrow> clear_entries (entries tb) (unat (total tb));
              Some (res, h\<lparr>table := tb\<lparr>entries := es\<rparr>\<rparr>)
            }))"

text \<open>
  \<open>size_t\<close> arguments arrive as \<open>int\<close>, the remainder truncates towards zero, and the final addition
  overflows for values within one block of the largest \<open>int\<close>.
\<close>

definition heap_align_value_to_upper :: "int \<Rightarrow> u32 option" where
  "heap_align_value_to_upper val =
     (if val smod int PLUMOS_HEAP_BLOCK_SIZE = 0 then Some (to_u32 val)
      else do {
        v \<leftarrow> s32 (val - val smod int PLUMOS_HEAP_BLOCK_SIZE);
        v \<leftarrow> s32 (v + int PLUMOS_HEAP_BLOCK_SIZE);
        Some (to_u32 v)
      })"

definition heap_get_entry_type :: "u8 \<Rightarrow> u8" where
  "heap_get_entry_type entry = entry AND 0x0f"

function start_block_loop :: "u8 list \<Rightarrow> nat \<Rightarrow> u32 \<Rightarrow> nat \<Rightarrow> int \<Rightarrow> int \<Rightarrow> int option" where
  "start_block_loop es tot total_blocks i bs bc =
     (if i < tot then
        do {
          e \<leftarrow> arr_get es (int i);
          if heap_get_entry_type e \<noteq> HEAP_BLOCK_TABLE_ENTRY_FREE
          then start_block_loop es tot total_blocks (Suc i) (-1) 0
          else (let bs = (if bs = -1 then int i else bs); bc = bc + 1
                in if to_u32 bc = total_blocks then Some bs
                   else start_block_loop es tot total_blocks (Suc i) bs bc)
        }
      else Some bs)"
  by pat_completeness auto
termination
  by (relation "measure (\<lambda>(es, tot, tb, i, bs, bc). tot - i)") auto

definition heap_get_start_block :: "heap \<Rightarrow> u32 \<Rightarrow> int option" where
  "heap_get_start_block h total_blocks =
     do {
       bs \<leftarrow> start_block_loop (entries (table h)) (unat (total (table h))) total_blocks 0 (-1) 0;
       Some (if bs = -1 then - ENOMEM else bs)
     }"

definition heap_block_to_address :: "heap \<Rightarrow> int \<Rightarrow> u32" where
  "heap_block_to_address h block = saddr h + to_u32 (block * int PLUMOS_HEAP_BLOCK_SIZE)"

function mark_loop :: "u8 list \<Rightarrow> nat \<Rightarrow> int \<Rightarrow> u8 \<Rightarrow> u8 list option" where
  "mark_loop es i end_block entry =
     (if i \<le> unat (to_u32 end_block) then
        do {
          es' \<leftarrow> arr_set es (int i) entry;
          mark_loop es' (Suc i) end_block
            (if of_nat i \<noteq> to_u32 (end_block - 1)
             then HEAP_BLOCK_TABLE_ENTRY_TAKEN OR HEAP_BLOCK_HAS_NEXT
             else HEAP_BLOCK_TABLE_ENTRY_TAKEN)
        }
      else Some es)"
  by pat_completeness auto
termination
  by (relation "measure (\<lambda>(es, i, end_block, entry). Suc (unat (to_u32 end_block)) - i)") auto

definition heap_mark_blocks_taken :: "heap \<Rightarrow> int \<Rightarrow> int \<Rightarrow> heap option" where
  "heap_mark_blocks_taken h start_block total_blocks =
     (let end_block = (start_block + total_blocks) - 1;
          entry = HEAP_BLOCK_TABLE_ENTRY_TAKEN OR HEAP_BLOCK_IS_FIRST;
          entry = (if total_blocks > 1 then entry OR HEAP_BLOCK_HAS_NEXT else entry)
      in do {
        es \<leftarrow> mark_loop (entries (table h)) (unat (to_u32 start_block)) end_block entry;
        Some (h\<lparr>table := (table h)\<lparr>entries := es\<rparr>\<rparr>)
      })"

definition heap_address_to_block :: "heap \<Rightarrow> u32 \<Rightarrow> int" where
  "heap_address_to_block h address =
     to_int (address - saddr h) sdiv int PLUMOS_HEAP_BLOCK_SIZE"

function free_loop :: "u8 list \<Rightarrow> int \<Rightarrow> int \<Rightarrow> u8 list option" where
  "free_loop es tot i =
     (if i < tot then
        do {
          entry \<leftarrow> arr_get es i;
          es' \<leftarrow> arr_set es i HEAP_BLOCK_TABLE_ENTRY_FREE;
          if entry AND HEAP_BLOCK_HAS_NEXT = 0 then Some es'
          else free_loop es' tot (i + 1)
        }
      else Some es)"
  by pat_completeness auto
termination
  by (relation "measure (\<lambda>(es, tot, i). nat (tot - i))") auto

definition heap_mark_blocks_free :: "heap \<Rightarrow> int \<Rightarrow> heap option" where
  "heap_mark_blocks_free h starting_block =
     do {
       es \<leftarrow> free_loop (entries (table h)) (to_int (total (table h))) starting_block;
       Some (h\<lparr>table := (table h)\<lparr>entries := es\<rparr>\<rparr>)
     }"

definition heap_malloc_blcoks :: "heap \<Rightarrow> u32 \<Rightarrow> (u32 \<times> heap) option" where
  "heap_malloc_blcoks h total_blocks =
     do {
       start_block \<leftarrow> heap_get_start_block h total_blocks;
       if start_block < 0 then Some (0, h)
       else do {
         let address = heap_block_to_address h start_block;
         h' \<leftarrow> heap_mark_blocks_taken h start_block (to_int total_blocks);
         Some (address, h')
       }
     }"

definition heap_malloc :: "heap \<Rightarrow> u32 \<Rightarrow> (u32 \<times> heap) option" where
  "heap_malloc h sz =
     do {
       aligned_size \<leftarrow> heap_align_value_to_upper (to_int sz);
       heap_malloc_blcoks h (aligned_size div of_nat PLUMOS_HEAP_BLOCK_SIZE)
     }"

definition heap_free :: "heap \<Rightarrow> u32 \<Rightarrow> heap option" where
  "heap_free h ptr = heap_mark_blocks_free h (heap_address_to_block h ptr)"

declare start_block_loop.simps [simp del] mark_loop.simps [simp del] free_loop.simps [simp del]

section \<open>The meaning of a block table\<close>

text \<open>
  A table is a sequence of segments: a free block, or an allocation of \<open>Suc k\<close> blocks. The
  documentation in \<open>heap.h\<close> and \<open>heap.c\<close> fixes the bytes of each.
\<close>

datatype seg = Free | Used nat

fun tail_pattern :: "nat \<Rightarrow> u8 list" where
  "tail_pattern 0 = []"
| "tail_pattern (Suc k) = replicate k 0x81 @ [0x01]"

fun enc_seg :: "seg \<Rightarrow> u8 list" where
  "enc_seg Free = [0x00]"
| "enc_seg (Used k) = (if k = 0 then 0x41 else 0xC1) # tail_pattern k"

definition encode :: "seg list \<Rightarrow> u8 list" where
  "encode ss = concat (map enc_seg ss)"

fun seg_size :: "seg \<Rightarrow> nat" where
  "seg_size Free = 1"
| "seg_size (Used k) = Suc k"

definition blocks :: "seg list \<Rightarrow> nat" where
  "blocks ss = sum_list (map seg_size ss)"

fun spec_alloc :: "nat \<Rightarrow> seg list \<Rightarrow> (nat \<times> seg list) option" where
  "spec_alloc n [] = None"
| "spec_alloc n (s # ss) =
     (if take n (s # ss) = replicate n Free then Some (0, Used (n - 1) # drop n (s # ss))
      else map_option (\<lambda>(p, r). (seg_size s + p, s # r)) (spec_alloc n ss))"

fun spec_free :: "nat \<Rightarrow> seg list \<Rightarrow> seg list option" where
  "spec_free p [] = None"
| "spec_free p (s # ss) =
     (if p = 0 then (case s of Free \<Rightarrow> None | Used k \<Rightarrow> Some (replicate (Suc k) Free @ ss))
      else if seg_size s \<le> p then map_option (\<lambda>r. s # r) (spec_free (p - seg_size s) ss)
      else None)"

text \<open>The free blocks at the end of a table.\<close>

fun trailing_free :: "seg list \<Rightarrow> nat" where
  "trailing_free [] = 0"
| "trailing_free (s # ss) =
     (if list_all (\<lambda>s. s = Free) (s # ss) then Suc (length ss) else trailing_free ss)"

subsection \<open>Encoding\<close>

lemma encode_simps [simp]:
  "encode [] = []" "encode (s # ss) = enc_seg s @ encode ss"
  "encode (ss @ ts) = encode ss @ encode ts"
  by (simp_all add: encode_def)

lemma blocks_simps [simp]:
  "blocks [] = 0" "blocks (s # ss) = seg_size s + blocks ss"
  "blocks (ss @ ts) = blocks ss + blocks ts"
  by (simp_all add: blocks_def)

lemma length_tail_pattern [simp]: "length (tail_pattern k) = k"
  by (cases k) auto

lemma length_enc_seg [simp]: "length (enc_seg s) = seg_size s"
  by (cases s) auto

lemma length_encode [simp]: "length (encode ss) = blocks ss"
  by (induction ss) auto

lemma encode_replicate_Free [simp]: "encode (replicate n Free) = replicate n 0"
  by (induction n) auto

lemma blocks_replicate_Free [simp]: "blocks (replicate n Free) = n"
  by (induction n) auto

lemma entry_type_simps [simp]:
  "heap_get_entry_type 0x00 = 0" "heap_get_entry_type 0x01 = 1" "heap_get_entry_type 0x41 = 1"
  "heap_get_entry_type 0x81 = 1" "heap_get_entry_type 0xC1 = 1"
  by (simp_all add: heap_get_entry_type_def)

lemma tail_pattern_taken: "\<forall>e \<in> set (tail_pattern k). heap_get_entry_type e = 1"
  by (cases k) auto

lemma enc_Used_taken: "\<forall>e \<in> set (enc_seg (Used k)). heap_get_entry_type e = 1"
  using tail_pattern_taken by auto

subsection \<open>The scan for a free run\<close>

text \<open>The loop over indices, restated as a recursion over the rest of the table.\<close>

fun scan :: "u8 list \<Rightarrow> u32 \<Rightarrow> int \<Rightarrow> int \<Rightarrow> int \<Rightarrow> int" where
  "scan [] n i bs bc = bs"
| "scan (e # es) n i bs bc =
     (if heap_get_entry_type e \<noteq> 0 then scan es n (i + 1) (-1) 0
      else (let bs = (if bs = -1 then i else bs)
            in if to_u32 (bc + 1) = n then bs else scan es n (i + 1) bs (bc + 1)))"

lemma start_block_loop_scan:
  "i \<le> length es \<Longrightarrow>
   start_block_loop es (length es) n i bs bc = Some (scan (drop i es) n (int i) bs bc)"
proof (induction es "length es" n i bs bc rule: start_block_loop.induct)
  case (1 es n i bs bc)
  show ?case
  proof (cases "i < length es")
    case True
    then have d: "drop i es = es ! i # drop (Suc i) es" by (rule Cons_nth_drop_Suc [symmetric])
    have g: "arr_get es (int i) = Some (es ! i)" using True by simp
    show ?thesis
      using "1.hyps"(1) [OF True] "1.hyps"(2) [OF True] True
      by (subst start_block_loop.simps)
         (simp add: d g Let_def add.commute heap_flag_defs)
  next
    case False
    with "1.prems" show ?thesis by (subst start_block_loop.simps) simp
  qed
qed

lemma scan_taken:
  "\<forall>e \<in> set xs. heap_get_entry_type e = 1 \<Longrightarrow> xs \<noteq> [] \<Longrightarrow>
   scan (xs @ es) n i bs bc = scan es n (i + int (length xs)) (-1) 0"
proof (induction xs arbitrary: i bs bc)
  case (Cons x xs)
  then show ?case by (cases "xs = []") (auto simp: algebra_simps)
qed simp

lemma trailing_free_snoc_Used [simp]:
  "trailing_free (xs @ Used k # ss) = trailing_free ss"
  by (induction xs) auto

lemma trailing_free_replicate [simp]: "trailing_free (replicate n Free) = n"
  by (induction n) (auto simp: list_all_iff)

lemma trailing_free_le: "trailing_free ss \<le> length ss"
  by (induction ss) auto

lemma spec_alloc_skip:
  "m < n \<Longrightarrow> spec_alloc n (replicate m Free @ Used k # ss) =
     map_option (\<lambda>(p, r). (m + Suc k + p, replicate m Free @ Used k # r)) (spec_alloc n ss)"
proof (induction m)
  case 0
  then show ?case by (cases n) auto
next
  case (Suc m)
  have "take n (replicate (Suc m) Free @ Used k # ss) \<noteq> replicate n Free"
  proof
    assume "take n (replicate (Suc m) Free @ Used k # ss) = replicate n Free"
    then have "take n (replicate (Suc m) Free @ Used k # ss) ! Suc m = replicate n Free ! Suc m"
      by simp
    with Suc.prems show False by (simp add: nth_append)
  qed
  with Suc show ?case
    by (auto simp: option.map_comp comp_def split: prod.splits intro!: map_option_cong)
qed

lemma spec_alloc_short: "length ss < n \<Longrightarrow> spec_alloc n ss = None"
proof (induction ss)
  case (Cons s ss)
  have "take n (s # ss) \<noteq> replicate n Free"
    using Cons.prems by (auto dest: arg_cong [where f = length])
  with Cons show ?case by (simp del: take_Suc_Cons)
qed simp

lemma spec_alloc_hit: "0 < n \<Longrightarrow> spec_alloc n (replicate n Free @ ss) = Some (0, Used (n - 1) # ss)"
  by (cases n) auto

lemma spec_alloc_split:
  "spec_alloc n ss = Some (p, r) \<Longrightarrow>
   \<exists>xs ys. ss = xs @ replicate n Free @ ys \<and> r = xs @ Used (n - 1) # ys \<and> p = blocks xs"
proof (induction ss arbitrary: p r)
  case (Cons s ss)
  show ?case
  proof (cases "take n (s # ss) = replicate n Free")
    case True
    then have "s # ss = [] @ replicate n Free @ drop n (s # ss)"
      by (metis append_Nil append_take_drop_id)
    with True Cons.prems show ?thesis
      by (intro exI [of _ "[]"] exI [of _ "drop n (s # ss)"]) auto
  next
    case False
    with Cons.prems obtain q t where "spec_alloc n ss = Some (q, t)" "p = seg_size s + q" "r = s # t"
      by auto
    with Cons.IH obtain xs ys where "ss = xs @ replicate n Free @ ys"
      "t = xs @ Used (n - 1) # ys" "q = blocks xs" by blast
    then show ?thesis using \<open>p = _\<close> \<open>r = _\<close>
      by (intro exI [of _ "s # xs"] exI [of _ ys]) simp
  qed
qed simp

text \<open>
  The scan with \<open>bc\<close> free blocks already behind it finds what \<open>spec_alloc\<close> finds, and otherwise
  reports the start of the free run at the end of the table.
\<close>

definition scan_start :: "int \<Rightarrow> nat \<Rightarrow> int" where
  "scan_start i bc = (if bc = 0 then -1 else i - int bc)"

lemma scan_encode:
  assumes "bc < n" "n < 2 ^ 32" "int bc \<le> i"
  shows "scan (encode ss) (of_nat n) i (scan_start i bc) (int bc) =
    (case spec_alloc n (replicate bc Free @ ss) of
       Some (p, r) \<Rightarrow> i - int bc + int p
     | None \<Rightarrow> (let t = trailing_free (replicate bc Free @ ss)
               in if t = 0 then -1 else i + int (blocks ss) - int t))"
  using assms
proof (induction ss arbitrary: i bc)
  case Nil
  then show ?case by (simp add: spec_alloc_short scan_start_def)
next
  case (Cons s ss)
  show ?case
  proof (cases s)
    case Free
    have rot: "replicate bc Free @ Free # ss = replicate (Suc bc) Free @ ss"
      by (simp add: replicate_app_Cons_same)
    have start: "(if scan_start i bc = -1 then i else scan_start i bc) = i - int bc"
      using Cons.prems by (auto simp: scan_start_def)
    show ?thesis
    proof (cases "Suc bc = n")
      case True
      then have "to_u32 (int bc + 1) = (of_nat n :: u32)" by auto
      moreover have "spec_alloc n (replicate (Suc bc) Free @ ss) = Some (0, Used (n - 1) # ss)"
        using True by (simp add: spec_alloc_hit del: replicate_Suc)
      ultimately show ?thesis by (simp add: Free rot start Let_def del: replicate_Suc)
    next
      case False
      have "to_u32 (int bc + 1) = (of_nat (Suc bc) :: u32)" by simp
      then have ne: "to_u32 (int bc + 1) \<noteq> (of_nat n :: u32)"
        using False Cons.prems of_nat_u32_eq_iff [of "Suc bc" n] by (simp del: of_nat_Suc)
      have "scan (encode ss) (of_nat n) (i + 1) (scan_start (i + 1) (Suc bc)) (int (Suc bc)) =
        (case spec_alloc n (replicate (Suc bc) Free @ ss) of
           Some (p, r) \<Rightarrow> (i + 1) - int (Suc bc) + int p
         | None \<Rightarrow> (let t = trailing_free (replicate (Suc bc) Free @ ss)
                   in if t = 0 then -1 else (i + 1) + int (blocks ss) - int t))"
        using Cons.prems False by (intro Cons.IH) auto
      moreover have "scan (encode (Free # ss)) (of_nat n) i (scan_start i bc) (int bc) =
        scan (encode ss) (of_nat n) (i + 1) (scan_start (i + 1) (Suc bc)) (int (Suc bc))"
        using ne start Cons.prems(3) by (simp add: Let_def scan_start_def add.commute)
      ultimately show ?thesis
        unfolding Free rot by (simp only: Let_def blocks_simps seg_size.simps)
          (auto simp del: replicate_Suc trailing_free.simps spec_alloc.simps split: option.splits)
    qed
  next
    case (Used k)
    have "scan (encode (s # ss)) (of_nat n) i (scan_start i bc) (int bc) =
      scan (encode ss) (of_nat n) (i + int (Suc k)) (scan_start (i + int (Suc k)) 0) (int 0)"
      unfolding Used encode_simps using enc_Used_taken [of k]
      by (subst scan_taken) (auto simp: scan_start_def)
    also have "\<dots> = (case spec_alloc n ss of
           Some (p, r) \<Rightarrow> i + int (Suc k) + int p
         | None \<Rightarrow> (let t = trailing_free ss
                   in if t = 0 then -1 else i + int (Suc k) + int (blocks ss) - int t))"
      using Cons.IH [of 0 "i + int (Suc k)"] Cons.prems by (simp split: option.split)
    finally have eq: "scan (encode (s # ss)) (of_nat n) i (scan_start i bc) (int bc) = \<dots>" .
    show ?thesis unfolding eq
      using Cons.prems by (simp add: Used spec_alloc_skip Let_def split: option.split)
  qed
qed

lemma trailing_free_fits: "0 < n \<Longrightarrow> n \<le> trailing_free ss \<Longrightarrow> spec_alloc n ss \<noteq> None"
proof (induction ss)
  case (Cons s ss)
  show ?case
  proof (cases "list_all (\<lambda>s. s = Free) (s # ss)")
    case True
    then have "s # ss = replicate (Suc (length ss)) Free"
      using replicate_length_same [of "s # ss" Free] by (auto simp: list_all_iff)
    moreover have "n \<le> Suc (length ss)" using Cons.prems True by simp
    ultimately have "take n (s # ss) = replicate n Free" by (simp add: min_def del: replicate_Suc)
    then show ?thesis by simp
  next
    case False
    then have "trailing_free (s # ss) = trailing_free ss" by (simp only: trailing_free.simps if_False)
    then have "n \<le> trailing_free ss" using Cons.prems(2) by linarith
    then obtain q r where "spec_alloc n ss = Some (q, r)" using Cons.IH [OF Cons.prems(1)] by auto
    then show ?thesis by (simp only: spec_alloc.simps option.map split: if_split) simp
  qed
qed simp

subsection \<open>Marking and releasing a run\<close>

lemma next_bit_simps [simp]:
  "0x41 AND HEAP_BLOCK_HAS_NEXT = 0" "0x01 AND HEAP_BLOCK_HAS_NEXT = 0"
  "(0xC1 AND HEAP_BLOCK_HAS_NEXT = 0) = False" "(0x81 AND HEAP_BLOCK_HAS_NEXT = 0) = False"
  by (simp_all add: heap_flag_defs)

lemma taken_next: "HEAP_BLOCK_TABLE_ENTRY_TAKEN OR HEAP_BLOCK_HAS_NEXT = 0x81"
  by (simp add: heap_flag_defs)

lemma mark_loop_run:
  assumes "i + k < length es" "length es < 2 ^ 32 - 1"
  shows "mark_loop es i (int (i + k)) e =
    Some (take i es @ (e # tail_pattern k) @ drop (Suc (i + k)) es)"
  using assms
proof (induction k arbitrary: es i e)
  case 0
  have u: "unat (to_u32 (int i)) = i" using 0 by (simp add: unat_of_small_nat)
  have "mark_loop (es[i := e]) (Suc i) (int i) x = Some (es[i := e])" for x
    using u by (subst mark_loop.simps) simp
  then show ?case
    using 0 u by (subst mark_loop.simps) (simp add: upd_conv_take_nth_drop)
next
  case (Suc k)
  have u: "unat (to_u32 (int (i + Suc k))) = i + Suc k" using Suc.prems
    by (subst to_u32_int, subst unat_of_small_nat) auto
  let ?x = "if of_nat i \<noteq> to_u32 (int (i + Suc k) - 1)
    then HEAP_BLOCK_TABLE_ENTRY_TAKEN OR HEAP_BLOCK_HAS_NEXT else HEAP_BLOCK_TABLE_ENTRY_TAKEN"
  have "(of_nat i = to_u32 (int (i + Suc k) - 1)) = ((of_nat i :: u32) = of_nat (i + k))"
    by (simp add: algebra_simps)
  also have "\<dots> = (k = 0)"
    using Suc.prems by (subst of_nat_u32_eq_iff) auto
  finally have x: "?x # tail_pattern k = tail_pattern (Suc k)"
    by (cases k) (simp_all only: taken_next, simp_all add: heap_flag_defs)
  have step: "mark_loop es i (int (i + Suc k)) e = mark_loop (es[i := e]) (Suc i) (int (Suc i + k)) ?x"
    using Suc.prems u by (subst mark_loop.simps) simp
  have rest: "mark_loop (es[i := e]) (Suc i) (int (Suc i + k)) ?x =
    Some (take (Suc i) (es[i := e]) @ (?x # tail_pattern k) @ drop (Suc (Suc i + k)) (es[i := e]))"
    using Suc.prems by (intro Suc.IH) auto
  have "take (Suc i) (es[i := e]) = take i es @ [e]"
    using Suc.prems by (simp add: take_Suc_conv_app_nth)
  then show ?case using Suc.prems unfolding step rest x by simp
qed

text \<open>A run that does not fit leaves the table.\<close>

lemma mark_loop_overrun:
  assumes "i \<le> length es" "length es \<le> unat (to_u32 e)"
  shows "mark_loop es i e x = None"
  using assms
proof (induction "length es - i" arbitrary: es i x)
  case 0
  then show ?case by (subst mark_loop.simps) simp
next
  case (Suc d)
  then have "i < length es" by simp
  moreover have "mark_loop (es[i := x]) (Suc i) e y = None" for y
    using Suc.hyps(2) Suc.prems by (intro Suc.hyps(1)) auto
  ultimately show ?case using Suc.prems by (subst mark_loop.simps) simp
qed

lemma free_loop_tail:
  "free_loop (pre @ tail_pattern (Suc k) @ post) (int (length (pre @ tail_pattern (Suc k) @ post)))
     (int (length pre)) = Some (pre @ replicate (Suc k) 0 @ post)"
proof (induction k arbitrary: pre)
  case 0
  show ?case
    by (subst free_loop.simps) (simp add: arr_get_def arr_set_def HEAP_BLOCK_TABLE_ENTRY_FREE_def)
next
  case (Suc k)
  have t: "tail_pattern (Suc (Suc k)) = 0x81 # tail_pattern (Suc k)" by simp
  have "free_loop (pre @ tail_pattern (Suc (Suc k)) @ post)
      (int (length (pre @ tail_pattern (Suc (Suc k)) @ post))) (int (length pre)) =
    free_loop ((pre @ [0]) @ tail_pattern (Suc k) @ post)
      (int (length ((pre @ [0]) @ tail_pattern (Suc k) @ post))) (int (length (pre @ [0])))"
    unfolding t
    by (subst free_loop.simps) (simp add: arr_get_def arr_set_def HEAP_BLOCK_TABLE_ENTRY_FREE_def add.commute del: tail_pattern.simps)
  also have "\<dots> = Some ((pre @ [0]) @ replicate (Suc k) 0 @ post)" by (rule Suc.IH)
  finally show ?case by simp
qed

lemma free_loop_Used:
  "free_loop (pre @ enc_seg (Used k) @ post) (int (length (pre @ enc_seg (Used k) @ post)))
     (int (length pre)) = Some (pre @ replicate (Suc k) 0 @ post)"
proof (cases k)
  case 0
  then show ?thesis
    by (subst free_loop.simps) (simp add: arr_get_def arr_set_def HEAP_BLOCK_TABLE_ENTRY_FREE_def)
next
  case (Suc j)
  have "free_loop (pre @ enc_seg (Used k) @ post) (int (length (pre @ enc_seg (Used k) @ post)))
      (int (length pre)) =
    free_loop ((pre @ [0]) @ tail_pattern (Suc j) @ post)
      (int (length ((pre @ [0]) @ tail_pattern (Suc j) @ post))) (int (length (pre @ [0])))"
    unfolding Suc
    by (subst free_loop.simps) (simp add: arr_get_def arr_set_def HEAP_BLOCK_TABLE_ENTRY_FREE_def add.commute del: tail_pattern.simps)
  also have "\<dots> = Some ((pre @ [0]) @ replicate (Suc j) 0 @ post)" by (rule free_loop_tail)
  finally show ?thesis by (simp add: Suc)
qed

lemma spec_free_split:
  "spec_free p ss = Some r \<Longrightarrow>
   \<exists>xs k ys. ss = xs @ Used k # ys \<and> r = xs @ replicate (Suc k) Free @ ys \<and> p = blocks xs"
proof (induction ss arbitrary: p r)
  case (Cons s ss)
  show ?case
  proof (cases "p = 0")
    case True
    with Cons.prems show ?thesis
      by (intro exI [of _ "[]"]) (auto split: seg.splits)
  next
    case False
    with Cons.prems obtain t where t: "spec_free (p - seg_size s) ss = Some t" "r = s # t"
      "seg_size s \<le> p" by (auto split: if_splits)
    with Cons.IH obtain xs k ys where "ss = xs @ Used k # ys"
      "t = xs @ replicate (Suc k) Free @ ys" "p - seg_size s = blocks xs" by blast
    then show ?thesis using t
      by (intro exI [of _ "s # xs"] exI [of _ k] exI [of _ ys]) simp
  qed
qed simp

lemma spec_free_at: "spec_free (blocks xs) (xs @ Used k # ys) = Some (xs @ replicate (Suc k) Free @ ys)"
proof (induction xs)
  case (Cons x xs)
  then show ?case by (cases x) auto
qed simp

section \<open>Refinement of the allocator to segments\<close>

text \<open>
  \<open>table_rep h ss\<close>: the heap's table is the encoding of \<open>ss\<close>, its length is the recorded total,
  and the data pool lies in the address space, aligned, above address 0 and small enough that
  block offsets are positive as C \<open>int\<close>s (the kernel's pool has 25600 blocks).
\<close>

definition table_rep :: "heap \<Rightarrow> seg list \<Rightarrow> bool" where
  "table_rep h ss \<longleftrightarrow>
     entries (table h) = encode ss \<and> total (table h) = of_nat (blocks ss) \<and>
     blocks ss < 2 ^ 19 \<and> 4096 dvd unat (saddr h) \<and> 0 < unat (saddr h) \<and>
     unat (saddr h) + 4096 * blocks ss \<le> 2 ^ 32"

lemma table_rep_total:
  "table_rep h ss \<Longrightarrow> unat (total (table h)) = blocks ss"
  "table_rep h ss \<Longrightarrow> to_int (total (table h)) = int (blocks ss)"
  by (auto simp: table_rep_def unat_of_small_nat sint_of_small_nat)

lemma table_rep_entries:
  "table_rep h ss \<Longrightarrow> blocks ss' = blocks ss \<Longrightarrow>
   table_rep (h\<lparr>table := (table h)\<lparr>entries := encode ss'\<rparr>\<rparr>) ss'"
  by (auto simp: table_rep_def)

lemma spec_alloc_blocks:
  assumes "spec_alloc n ss = Some (p, r)" "0 < n"
  shows "blocks r = blocks ss" "p + n \<le> blocks ss"
  using spec_alloc_split [OF assms(1)] assms(2) by auto

lemma spec_free_blocks: "spec_free p ss = Some r \<Longrightarrow> blocks r = blocks ss"
  by (auto dest!: spec_free_split)

lemma spec_free_less: "spec_free p ss = Some r \<Longrightarrow> p < blocks ss"
  by (auto dest!: spec_free_split)

lemma length_le_blocks: "length ss \<le> blocks ss"
proof (induction ss)
  case (Cons s ss)
  then show ?case by (cases s) auto
qed simp

lemma get_start_block_rep:
  assumes "table_rep h ss" "0 < n" "n < 2 ^ 32"
  shows "heap_get_start_block h (of_nat n) = Some
    (case spec_alloc n ss of Some (p, r) \<Rightarrow> int p
     | None \<Rightarrow> (if trailing_free ss = 0 then - ENOMEM else int (blocks ss) - int (trailing_free ss)))"
proof -
  have s: "scan (encode ss) (of_nat n) 0 (-1) 0 =
    (case spec_alloc n ss of Some (p, r) \<Rightarrow> int p
     | None \<Rightarrow> (if trailing_free ss = 0 then -1 else int (blocks ss) - int (trailing_free ss)))"
    using scan_encode [of 0 n 0 ss] assms(2,3)
    by (simp add: scan_start_def Let_def split: option.splits)
  have "length ss \<le> blocks ss" by (rule length_le_blocks)
  then have le: "trailing_free ss \<le> blocks ss" using trailing_free_le le_trans by blast
  have "start_block_loop (entries (table h)) (unat (total (table h))) (of_nat n) 0 (-1) 0 =
      Some (scan (encode ss) (of_nat n) 0 (-1) 0)"
    using assms(1) start_block_loop_scan [of 0 "encode ss" "of_nat n" "-1" 0]
    by (simp add: table_rep_total) (simp add: table_rep_def)
  then show ?thesis using le
    by (auto simp: heap_get_start_block_def s split: option.split)
qed

lemma mark_blocks_rep:
  assumes "table_rep h (xs @ replicate n Free @ ys)" "0 < n"
  shows "heap_mark_blocks_taken h (int (blocks xs)) (int n) =
    Some (h\<lparr>table := (table h)\<lparr>entries := encode (xs @ Used (n - 1) # ys)\<rparr>\<rparr>)"
proof -
  let ?es = "encode (xs @ replicate n Free @ ys)"
  have b: "blocks xs + n + blocks ys < 2 ^ 19" using assms(1) by (auto simp: table_rep_def add.assoc)
  have e: "(int (blocks xs) + int n) - 1 = int (blocks xs + (n - 1))"
    using assms(2) by (simp add: of_nat_diff)
  have u: "unat (to_u32 (int (blocks xs))) = blocks xs"
    using b by (subst to_u32_int) (simp add: unat_of_small_nat)
  have ent: "(if int n > 1 then (HEAP_BLOCK_TABLE_ENTRY_TAKEN OR HEAP_BLOCK_IS_FIRST) OR HEAP_BLOCK_HAS_NEXT
      else HEAP_BLOCK_TABLE_ENTRY_TAKEN OR HEAP_BLOCK_IS_FIRST) # tail_pattern (n - 1) =
      enc_seg (Used (n - 1))"
    using assms(2) by (simp add: heap_flag_defs)
  have run: "mark_loop ?es (blocks xs) (int (blocks xs + (n - 1))) e =
      Some (encode xs @ (e # tail_pattern (n - 1)) @ encode ys)" for e
    using b assms(2) by (subst mark_loop_run) auto
  have tab: "entries (table h) = ?es" using assms(1) by (simp add: table_rep_def)
  show ?thesis
    unfolding heap_mark_blocks_taken_def Let_def e u tab run using ent by simp
qed

lemma malloc_blocks_rep:
  assumes "table_rep h ss" "0 < n" "spec_alloc n ss = Some (p, ss')"
  shows "heap_malloc_blcoks h (of_nat n) =
      Some (saddr h + of_nat (4096 * p), h\<lparr>table := (table h)\<lparr>entries := encode ss'\<rparr>\<rparr>)"
proof -
  obtain xs ys where split: "ss = xs @ replicate n Free @ ys" "ss' = xs @ Used (n - 1) # ys"
    "p = blocks xs" using spec_alloc_split [OF assms(3)] by blast
  have n: "n < 2 ^ 31" using assms(1) by (simp add: table_rep_def split)
  have "heap_mark_blocks_taken h (int p) (int n) = Some (h\<lparr>table := (table h)\<lparr>entries := encode ss'\<rparr>\<rparr>)"
    using mark_blocks_rep [of h xs n ys] assms(1,2) by (simp only: split)
  then show ?thesis
    using assms n by (simp add: heap_malloc_blcoks_def get_start_block_rep heap_block_to_address_def
        PLUMOS_HEAP_BLOCK_SIZE_def sint_of_small_nat mult.commute)
qed

lemma malloc_blocks_none:
  assumes "table_rep h ss" "0 < n" "n < 2 ^ 31" "spec_alloc n ss = None"
  shows "heap_malloc_blcoks h (of_nat n) = (if trailing_free ss = 0 then Some (0, h) else None)"
proof (cases "trailing_free ss = 0")
  case True
  then show ?thesis using assms
    by (simp add: heap_malloc_blcoks_def get_start_block_rep ENOMEM_def)
next
  case False
  let ?b = "blocks ss - trailing_free ss"
  have short: "trailing_free ss < n"
  proof (rule ccontr)
    assume "\<not> trailing_free ss < n"
    then show False using assms(4) assms(2) trailing_free_fits [of n ss] by simp
  qed
  have le: "trailing_free ss \<le> blocks ss" using trailing_free_le length_le_blocks le_trans by blast
  have b: "blocks ss < 2 ^ 19" "entries (table h) = encode ss" using assms(1) by (auto simp: table_rep_def)
  have e: "int ?b + int n - 1 = int (?b + n - 1)" using assms(2) by (simp add: of_nat_diff)
  have u: "unat (to_u32 (int (?b + n - 1))) = ?b + n - 1" "unat (to_u32 (int ?b)) = ?b"
    using b(1) assms(3) by (simp_all only: to_u32_int) (simp_all add: unat_of_small_nat)
  have "?b \<le> length (encode ss)" by simp
  moreover have "length (encode ss) \<le> unat (to_u32 (int (?b + n - 1)))"
    unfolding u length_encode using short le assms(2) by linarith
  ultimately have "mark_loop (encode ss) ?b (int (?b + n - 1)) x = None" for x
    by (rule mark_loop_overrun)
  then have "heap_mark_blocks_taken h (int ?b) (int n) = None"
    unfolding heap_mark_blocks_taken_def Let_def e u b(2) by simp
  then show ?thesis using assms False le
    by (simp add: heap_malloc_blcoks_def get_start_block_rep sint_of_small_nat of_nat_diff)
qed

lemma address_to_block:
  assumes "p < 2 ^ 19"
  shows "heap_address_to_block h (saddr h + of_nat (4096 * p)) = int p"
proof -
  have "sint (of_nat (4096 * p) :: u32) = int (4096 * p)"
    using assms by (intro sint_of_small_nat) simp
  then show ?thesis
    by (simp add: heap_address_to_block_def PLUMOS_HEAP_BLOCK_SIZE_def signed_divide_int_def sgn_if)
qed

lemma free_rep:
  assumes "table_rep h ss" "spec_free p ss = Some ss'"
  shows "heap_free h (saddr h + of_nat (4096 * p)) = Some (h\<lparr>table := (table h)\<lparr>entries := encode ss'\<rparr>\<rparr>)"
proof -
  obtain xs k ys where split: "ss = xs @ Used k # ys" "ss' = xs @ replicate (Suc k) Free @ ys"
    "p = blocks xs" using spec_free_split [OF assms(2)] by blast
  have b: "blocks ss < 2 ^ 19" "entries (table h) = encode ss" using assms(1) by (auto simp: table_rep_def)
  then have "heap_address_to_block h (saddr h + of_nat (4096 * p)) = int p"
    by (intro address_to_block) (simp add: split)
  moreover have "free_loop (encode ss) (int (blocks ss)) (int p) = Some (encode ss')"
    using free_loop_Used [of "encode xs" k "encode ys"] by (simp add: split)
  ultimately show ?thesis using assms(1) b
    by (simp add: heap_free_def heap_mark_blocks_free_def table_rep_total)
qed

lemma heap_address_inj:
  assumes "table_rep h ss" "p < blocks ss" "q < blocks ss"
  shows "(saddr h + of_nat (4096 * p) = saddr h + (of_nat (4096 * q) :: u32)) = (p = q)"
    "saddr h + of_nat (4096 * p) \<noteq> 0"
proof -
  have "blocks ss < 2 ^ 19" using assms(1) by (simp add: table_rep_def)
  then show "(saddr h + of_nat (4096 * p) = saddr h + (of_nat (4096 * q) :: u32)) = (p = q)"
    using assms(2,3) of_nat_u32_eq_iff [of "4096 * p" "4096 * q"] by simp
  have le: "unat (saddr h) + 4096 * p < 2 ^ 32" "0 < unat (saddr h)"
    using assms by (auto simp: table_rep_def)
  then have "unat (saddr h + of_nat (4096 * p)) = unat (saddr h) + 4096 * p"
    by (simp add: unat_word_ariths unat_of_small_nat del: of_nat_mult)
  with le show "saddr h + of_nat (4096 * p) \<noteq> 0" by auto
qed

section \<open>Sizes\<close>

definition blocks_for :: "nat \<Rightarrow> nat" where
  "blocks_for sz = (sz + 4095) div 4096"

lemma align_upper:
  assumes "0 \<le> v" "v \<le> 2 ^ 31 - 4096"
  shows "heap_align_value_to_upper v = Some (of_nat (4096 * blocks_for (nat v)))"
proof -
  obtain n where n: "v = int n" using assms(1) nonneg_int_cases by blast
  have m: "v smod 4096 = int (n mod 4096)" by (simp add: n signed_modulo_int_def sgn_if zmod_int)
  show ?thesis
  proof (cases "n mod 4096 = 0")
    case True
    then have "4096 * blocks_for n = n" by (auto simp: blocks_for_def)
    with True show ?thesis using m
      by (simp add: heap_align_value_to_upper_def PLUMOS_HEAP_BLOCK_SIZE_def n)
  next
    case False
    have "n + 4095 = n mod 4096 + 4095 + 4096 * (n div 4096)" by simp
    then have "blocks_for n = n div 4096 + (n mod 4096 + 4095) div 4096"
      unfolding blocks_for_def by (metis add.commute div_mult_self2 zero_neq_numeral)
    moreover have "(n mod 4096 + 4095) div 4096 = 1"
      using False mod_less_divisor [of 4096 n] by (intro div_nat_eqI) auto
    ultimately have r: "blocks_for n = Suc (n div 4096)" by simp
    have d: "int n - int (n mod 4096) = int (4096 * (n div 4096))"
      by (simp only: zmod_int zdiv_int of_nat_mult minus_mod_eq_mult_div of_nat_numeral)
    have "n \<noteq> 4096 * 524287" using False by auto
    then have "n < 4096 * 524287" using assms(2) n by simp
    then have le: "n div 4096 < 524287" by (simp add: div_less_iff_less_mult)
    then have "s32 (int n - int (n mod 4096)) = Some (int (4096 * (n div 4096)))"
      "s32 (int (4096 * (n div 4096)) + 4096) = Some (int (4096 * blocks_for n))"
      unfolding d by (simp_all add: s32_def r)
    then show ?thesis using m False
      by (simp add: heap_align_value_to_upper_def PLUMOS_HEAP_BLOCK_SIZE_def n del: of_nat_mult)
  qed
qed

lemma malloc_size:
  assumes "unat sz \<le> 2 ^ 31 - 4096"
  shows "heap_malloc h sz = heap_malloc_blcoks h (of_nat (blocks_for (unat sz)))"
proof -
  have s: "to_int sz = int (unat sz)" using assms by (intro sint_eq_unat) simp
  have le: "blocks_for (unat sz) < 2 ^ 19" using assms unfolding blocks_for_def by simp
  have a: "heap_align_value_to_upper (to_int sz) = Some (of_nat (4096 * blocks_for (unat sz)))"
  proof -
    obtain m where m: "unat sz = m" by blast
    have "int m \<le> 2 ^ 31 - 4096" using assms m by simp
    then show ?thesis unfolding s m by (simp only: align_upper of_nat_0_le_iff nat_int)
  qed
  have "unat (of_nat (4096 * blocks_for (unat sz)) div (of_nat 4096 :: u32)) = blocks_for (unat sz)"
    using le by (simp add: unat_div_distrib unat_of_small_nat del: of_nat_mult)
  then have "of_nat (4096 * blocks_for (unat sz)) div (of_nat 4096 :: u32) = of_nat (blocks_for (unat sz))"
    using le by (simp add: word_unat_eq_iff unat_of_small_nat del: of_nat_mult)
  then show ?thesis
    by (simp add: heap_malloc_def a PLUMOS_HEAP_BLOCK_SIZE_def del: of_nat_mult)
qed

section \<open>Properties\<close>

lemma spec_alloc_None_blocks: "n > blocks ss \<Longrightarrow> spec_alloc n ss = None"
  using length_le_blocks [of ss] by (intro spec_alloc_short) linarith

lemma heap_malloc_cases:
  assumes "table_rep h ss" "0 < unat sz" "unat sz \<le> 2 ^ 31 - 4096"
  shows "heap_malloc h sz =
    (case spec_alloc (blocks_for (unat sz)) ss of
       Some (p, ss') \<Rightarrow>
         Some (saddr h + of_nat (4096 * p), h\<lparr>table := (table h)\<lparr>entries := encode ss'\<rparr>\<rparr>)
     | None \<Rightarrow> if trailing_free ss = 0 then Some (0, h) else None)"
proof -
  have n: "0 < blocks_for (unat sz)" "blocks_for (unat sz) < 2 ^ 31"
    using assms(2,3) by (simp_all add: blocks_for_def)
  show ?thesis
    using malloc_blocks_rep [OF assms(1) n(1)] malloc_blocks_none [OF assms(1) n]
    by (simp add: malloc_size [OF assms(3)] del: of_nat_mult split: option.split)
qed

lemma heap_malloc_success:
  assumes "table_rep h ss" "0 < unat sz" "unat sz \<le> 2 ^ 31 - 4096"
    "heap_malloc h sz = Some (a, h')" "a \<noteq> 0"
  obtains p ss' where "spec_alloc (blocks_for (unat sz)) ss = Some (p, ss')"
    "a = saddr h + of_nat (4096 * p)" "h' = h\<lparr>table := (table h)\<lparr>entries := encode ss'\<rparr>\<rparr>"
    "table_rep h' ss'" "p + blocks_for (unat sz) \<le> blocks ss"
proof -
  have n: "0 < blocks_for (unat sz)" using assms(2) by (simp add: blocks_for_def)
  from heap_malloc_cases [OF assms(1-3)] assms(4,5) obtain p ss' where
    s: "spec_alloc (blocks_for (unat sz)) ss = Some (p, ss')"
    "a = saddr h + of_nat (4096 * p)" "h' = h\<lparr>table := (table h)\<lparr>entries := encode ss'\<rparr>\<rparr>"
    by (auto split: option.splits if_splits simp del: of_nat_mult)
  moreover have "table_rep h' ss'"
    using table_rep_entries [OF assms(1) spec_alloc_blocks(1) [OF s(1) n]] s(3) by simp
  ultimately show ?thesis using spec_alloc_blocks(2) [OF s(1) n] that by blast
qed

lemma heap_malloc_then_free:
  assumes "table_rep h ss" "0 < unat sz" "unat sz \<le> 2 ^ 31 - 4096"
    "heap_malloc h sz = Some (a, h')" "a \<noteq> 0"
  shows "heap_free h' a = Some h"
proof -
  let ?n = "blocks_for (unat sz)"
  have n: "0 < ?n" using assms(2) by (simp add: blocks_for_def)
  obtain p ss' where s: "spec_alloc ?n ss = Some (p, ss')" "a = saddr h + of_nat (4096 * p)"
    "h' = h\<lparr>table := (table h)\<lparr>entries := encode ss'\<rparr>\<rparr>" "table_rep h' ss'"
    using heap_malloc_success [OF assms] by metis
  obtain xs ys where "ss = xs @ replicate ?n Free @ ys" "ss' = xs @ Used (?n - 1) # ys"
    "p = blocks xs" using spec_alloc_split [OF s(1)] by blast
  then have "spec_free p ss' = Some ss"
    using spec_free_at [of xs "?n - 1" ys] n by simp
  from free_rep [OF s(4) this] show ?thesis
    using s(2,3) assms(1) by (simp add: table_rep_def)
qed

text \<open>
  C2. \<open>heap_malloc\<close> implements first fit: on a well-formed table a positive size that a C \<open>int\<close> can
  represent is served by the first run of free blocks that is long enough, and the returned
  address is the address of that run. When no run is long enough it returns the null pointer if
  the last block of the table is in use; if there is a free run at the end of the table that is
  too short, the code marks blocks past the end of the table (no defined result).
\<close>
theorem heap_malloc_first_fit:
  assumes "table_rep h ss" "0 < unat sz" "unat sz \<le> 2 ^ 31 - 4096"
  shows "heap_malloc h sz =
    (case spec_alloc (blocks_for (unat sz)) ss of
       Some (p, ss') \<Rightarrow>
         Some (saddr h + of_nat (4096 * p), h\<lparr>table := (table h)\<lparr>entries := encode ss'\<rparr>\<rparr>)
     | None \<Rightarrow> if trailing_free ss = 0 then Some (0, h) else None)"
  by (rule heap_malloc_cases [OF assms])

definition sample_heap :: "seg list \<Rightarrow> heap" where
  "sample_heap ss = \<lparr>table = \<lparr>entries = encode ss, total = of_nat (blocks ss)\<rparr>, saddr = 0x1000000\<rparr>"

lemma sample_heap_rep: "blocks ss < 100000 \<Longrightarrow> table_rep (sample_heap ss) ss"
  by (simp add: table_rep_def sample_heap_def)

theorem heap_malloc_first_fit_witness:
  "heap_malloc (sample_heap [Used 0, Free, Used 1, Free, Free]) 5000 =
     Some (0x1004000, sample_heap [Used 0, Free, Used 1, Used 1]) \<and>
   heap_malloc (sample_heap [Used 0, Free, Used 1, Free, Free]) 10000 = None"
proof -
  let ?ss = "[Used 0, Free, Used (Suc 0), Free, Free]"
  have n: "blocks_for 5000 = 2" "blocks_for 10000 = 3" by (simp_all add: blocks_for_def)
  have s: "spec_alloc 2 ?ss = Some (4, [Used 0, Free, Used 1, Used 1])" "spec_alloc 3 ?ss = None"
    by code_simp+
  have "table_rep (sample_heap ?ss) ?ss" by (rule sample_heap_rep) simp
  from heap_malloc_first_fit [OF this, of 5000] heap_malloc_first_fit [OF this, of 10000]
  show ?thesis by (simp add: n s sample_heap_def del: spec_alloc.simps)
qed

text \<open>
  C36. Releasing what was just allocated restores the heap exactly, entry table included.
\<close>
theorem heap_malloc_free_inverse:
  assumes "table_rep h ss" "0 < unat sz" "unat sz \<le> 2 ^ 31 - 4096"
    "heap_malloc h sz = Some (a, h')" "a \<noteq> 0"
  shows "heap_free h' a = Some h"
  by (rule heap_malloc_then_free [OF assms])

theorem heap_malloc_free_inverse_witness:
  "heap_free (sample_heap [Used 1, Used 0]) 0x1002000 = Some (sample_heap [Used 1, Free])"
proof -
  have "heap_malloc (sample_heap [Used 1, Free]) 7 = Some (0x1002000, sample_heap [Used 1, Used 0])"
    using heap_malloc_cases [OF sample_heap_rep, of "[Used 1, Free]" 7]
    by (simp add: blocks_for_def) (simp add: sample_heap_def)
  from heap_malloc_free_inverse [OF sample_heap_rep _ _ this] show ?thesis by simp
qed

lemma nth_encode_outside:
  assumes "ss = xs @ replicate n Free @ ys" "ss' = xs @ Used (n - 1) # ys" "0 < n"
    "i < blocks ss" "i < blocks xs \<or> blocks xs + n \<le> i"
  shows "encode ss' ! i = encode ss ! i"
proof -
  have l: "length (enc_seg (Used (n - 1))) = n" using assms(3) by (simp del: enc_seg.simps)
  show ?thesis using assms l by (auto simp: nth_append simp del: enc_seg.simps)
qed

lemma nth_encode_inside:
  assumes "ss = xs @ replicate n Free @ ys" "ss' = xs @ Used (n - 1) # ys" "0 < n"
    "blocks xs \<le> i" "i < blocks xs + n"
  shows "encode ss ! i = 0" "heap_get_entry_type (encode ss' ! i) = 1"
proof -
  show "encode ss ! i = 0" using assms by (auto simp: nth_append)
  have l: "length (enc_seg (Used (n - 1))) = n" using assms(3) by (simp del: enc_seg.simps)
  have "i - blocks xs < n" using assms(4,5) by linarith
  then have "encode ss' ! i = enc_seg (Used (n - 1)) ! (i - blocks xs)"
    using assms l by (simp add: nth_append del: enc_seg.simps)
  moreover have "enc_seg (Used (n - 1)) ! (i - blocks xs) \<in> set (enc_seg (Used (n - 1)))"
    using \<open>i - blocks xs < n\<close> l by (intro nth_mem) (simp only: l)
  ultimately show "heap_get_entry_type (encode ss' ! i) = 1"
    using enc_Used_taken [of "n - 1"] by metis
qed



text \<open>
  C37. \<open>heap_free\<close> of the address of a live allocation frees exactly its blocks and keeps the table
  well formed.
\<close>
theorem heap_free_refines:
  assumes "table_rep h ss" "spec_free p ss = Some ss'"
  shows "heap_free h (saddr h + of_nat (4096 * p)) =
      Some (h\<lparr>table := (table h)\<lparr>entries := encode ss'\<rparr>\<rparr>) \<and>
    table_rep (h\<lparr>table := (table h)\<lparr>entries := encode ss'\<rparr>\<rparr>) ss'"
  using free_rep [OF assms] table_rep_entries [OF assms(1) spec_free_blocks [OF assms(2)]] by simp

theorem heap_free_refines_witness:
  "heap_free (sample_heap [Free, Used 2, Used 0]) 0x1001000 =
     Some (sample_heap [Free, Free, Free, Free, Used 0])"
proof -
  have "table_rep (sample_heap [Free, Used 2, Used 0]) [Free, Used 2, Used 0]" by (rule sample_heap_rep) simp
  from heap_free_refines [OF this, of 1] show ?thesis by (simp add: sample_heap_def eval_nat_numeral)
qed

lemma heap_address_to_block_null:
  assumes "0 < unat (saddr h)" "unat (saddr h) < 2 ^ 31" "4096 \<le> unat (saddr h)"
  shows "heap_address_to_block h 0 < 0"
proof -
  let ?s = "saddr h"
  have u: "uint ?s = int (unat ?s)" by simp
  have "sint (- ?s) = - int (unat ?s)"
  proof -
    obtain m where m: "unat ?s = m" by blast
    have "- ?s = word_of_int (- int m)" by (simp flip: m)
    then have "sint (- ?s) = signed_take_bit 31 (- int m)"
      by (simp only: sint_sbintrunc') simp
    also have "\<dots> = - int m"
      using assms(2) m by (intro signed_take_bit_int_eq_self) simp_all
    finally show ?thesis by (simp only: m)
  qed
  then have "heap_address_to_block h 0 = - (int (unat ?s) div 4096)"
    by (simp add: heap_address_to_block_def PLUMOS_HEAP_BLOCK_SIZE_def signed_divide_int_def sgn_if)
  moreover obtain m where "unat ?s = m" by blast
  ultimately have "heap_address_to_block h 0 = - (int m div 4096)" "4096 \<le> m"
    using assms(3) by simp_all
  moreover have "0 < int m div 4096" using \<open>4096 \<le> m\<close> by (simp add: pos_imp_zdiv_pos_iff)
  ultimately show ?thesis by linarith
qed

lemma heap_free_null_None:
  assumes "4096 \<le> unat (saddr h)" "unat (saddr h) < 2 ^ 31" "0 < to_int (total (table h))"
  shows "heap_free h 0 = None"
proof -
  have "heap_address_to_block h 0 < 0" using assms by (intro heap_address_to_block_null) simp_all
  then show ?thesis using assms(3)
    by (simp add: heap_free_def heap_mark_blocks_free_def free_loop.simps)
qed

lemma clear_entries_replicate:
  "n \<le> length es \<Longrightarrow> clear_entries es n = Some (replicate n 0 @ drop n es)"
proof (induction n arbitrary: es)
  case (Suc n)
  then show ?case by (cases es) (simp_all add: HEAP_BLOCK_TABLE_ENTRY_FREE_def)
qed simp

lemma block_mod: "m \<le> 2 ^ 20 \<Longrightarrow> (of_nat (4096 * m) :: u32) mod 4096 = 0"
proof (cases "m = 2 ^ 20")
  case False
  moreover assume "m \<le> 2 ^ 20"
  ultimately have "unat ((of_nat (4096 * m) :: u32) mod 4096) = 0"
    by (simp add: unat_mod_distrib unat_of_small_nat del: of_nat_mult)
  then show ?thesis by (simp add: unat_eq_0)
qed simp

lemma heap_create_valid:
  assumes "s = of_nat (4096 * b)" "b + n \<le> 2 ^ 20" "n < 2 ^ 19" "end_ptr = s + of_nat (4096 * n)"
  shows "heap_validate_alignment s" "heap_validate_alignment end_ptr"
    "heap_validate_table s end_ptr tb = (if total tb \<noteq> of_nat n then - EINVARG else 0)"
proof -
  have e: "end_ptr = of_nat (4096 * (b + n))" using assms(1,4) by (simp add: algebra_simps)
  show "heap_validate_alignment s" "heap_validate_alignment end_ptr"
    using block_mod [of b] block_mod [of "b + n"] assms(2) unfolding e assms(1)
    by (simp_all add: heap_validate_alignment_def PLUMOS_HEAP_BLOCK_SIZE_def del: of_nat_mult of_nat_add)
  have "unat ((of_nat (4096 * n) :: u32) div 4096) = n"
    using assms(3) by (simp add: unat_div_distrib unat_of_small_nat del: of_nat_mult)
  then have d: "(of_nat (4096 * n) :: u32) div 4096 = of_nat n"
    using assms(3) by (simp add: word_unat_eq_iff unat_of_small_nat del: of_nat_mult)
  show "heap_validate_table s end_ptr tb = (if total tb \<noteq> of_nat n then - EINVARG else 0)"
    using assms(4) d
    by (simp add: heap_validate_table_def PLUMOS_HEAP_BLOCK_SIZE_def Let_def del: of_nat_mult)
qed

lemma heap_create_ok:
  assumes "s = of_nat (4096 * b)" "0 < b" "b < 2 ^ 20" "b + n \<le> 2 ^ 20" "n < 2 ^ 19"
    "end_ptr = s + of_nat (4096 * n)" "length (entries tb) = n" "total tb = of_nat n"
  shows "\<exists>h'. heap_create h s end_ptr tb = Some (0, h') \<and> saddr h' = s \<and>
    table_rep h' (replicate n Free)"
proof -
  have u: "unat (of_nat n :: u32) = n" "unat s = 4096 * b"
    using assms(3,5) unfolding assms(1) by (simp_all add: unat_of_small_nat del: of_nat_mult)
  show ?thesis
    using heap_create_valid(1,2) [OF assms(1,4,5,6)]
    heap_create_valid(3) [OF assms(1,4,5,6), of tb] assms(2-8) u
      clear_entries_replicate [of n "entries tb"]
    by (simp add: heap_create_def Let_def table_rep_def del: of_nat_mult)
qed

text \<open>
  Creating a heap over a block-aligned pool whose table has the right number of entries succeeds
  and leaves a well-formed table in which every block is free; misaligned bounds or a table of the
  wrong length give \<open>-EINVARG\<close>.
\<close>
lemma heap_create_correct:
  assumes "s = of_nat (4096 * b)" "0 < b" "b < 2 ^ 20" "b + n \<le> 2 ^ 20" "n < 2 ^ 19"
    "end_ptr = s + of_nat (4096 * n)" "length (entries tb) = n"
  shows "(total tb = of_nat n \<longrightarrow>
      (\<exists>h'. heap_create h s end_ptr tb = Some (0, h') \<and> saddr h' = s \<and>
         table_rep h' (replicate n Free))) \<and>
    (total tb \<noteq> of_nat n \<longrightarrow>
      heap_create h s end_ptr tb = Some (- EINVARG, \<lparr>table = tb, saddr = s\<rparr>)) \<and>
    (x mod 4096 \<noteq> 0 \<longrightarrow> heap_create h x end_ptr tb = Some (- EINVARG, h))"
  using heap_create_ok [OF assms] heap_create_valid(1,2) [OF assms(1,4,5,6)]
    heap_create_valid(3) [OF assms(1,4,5,6), of tb]
  by (auto simp: heap_create_def heap_validate_alignment_def PLUMOS_HEAP_BLOCK_SIZE_def EINVARG_def)

lemma heap_create_correct_witness:
  "\<exists>h'. heap_create (sample_heap []) 0x1000000 0x1003000 \<lparr>entries = [9, 9, 9], total = 3\<rparr> = Some (0, h') \<and>
     saddr h' = 0x1000000 \<and> table_rep h' [Free, Free, Free]"
  using heap_create_correct [where s = "0x1000000" and b = 4096 and n = 3 and end_ptr = "0x1003000"
      and tb = "\<lparr>entries = [9, 9, 9], total = 3\<rparr>" and h = "sample_heap []"]
  by (simp add: numeral_3_eq_3)

end
