(* ===== verification/KernelState.thy ===== *)
theory KernelState
  imports Heap CLib
begin

unbundle bit_operations_syntax

text \<open>
  The state of the kernel: its global variables and the objects on its heap. An object is found by
  its address and has the C type it was allocated for; reading or writing an address that holds no
  object of the expected type (a null, dangling or mistyped pointer) has no result. Byte arrays are
  lists of bytes, page tables lists of 32-bit words. The kernel heap of \<open>memory/heap/kheap.c\<close> allocates
  the addresses.
\<close>

section \<open>Structures\<close>

text \<open>\<open>fs/pparser.h\<close>\<close>

record path_root =
  pr_drive_no :: int
  pr_first :: u32

record path_part =
  pp_part :: u32
  pp_next :: u32

text \<open>
  \<open>struct disk*\<close> is null or points to the one global disk; \<open>struct filesystem*\<close> is null or points to
  the one driver, \<open>fat16_fs\<close>, so that a call through its function pointers is a call of the FAT16
  function.
\<close>

datatype disk_ptr = NullDisk | TheDisk
datatype fs_ptr = NullFs | Fat16Fs

text \<open>\<open>disk/disk.h\<close>, \<open>disk/streamer.h\<close>\<close>

record disk =
  dk_type :: u32
  dk_sector_size :: int
  dk_id :: int
  dk_filesystem :: fs_ptr
  dk_fs_private :: u32

record disk_stream =
  ds_pos :: int
  ds_disk :: disk_ptr

text \<open>\<open>fs/file.h\<close>\<close>

record file_descriptor =
  fd_index :: int
  fd_filesystem :: fs_ptr
  fd_private :: u32
  fd_disk :: disk_ptr

record file_stat =
  st_flags :: u32
  st_filesize :: u32

text \<open>\<open>fs/fat/fat16.c\<close>. A header and a directory entry are their bytes on the disk (packed structures).\<close>

record fat_directory =
  dir_item :: u32
  dir_total :: int
  dir_sector_pos :: int
  dir_end_sector_pos :: int

record fat_item =
  fi_ptr :: u32
  fi_type :: u32

record fat_file_descriptor =
  ffd_item :: u32
  ffd_pos :: u32

record fat_private =
  fp_header :: "u8 list"
  fp_root_directory :: fat_directory
  fp_cluster_read_stream :: u32
  fp_fat_read_stream :: u32
  fp_directory_stream :: u32

text \<open>\<open>loader/formats/elfloader.h\<close>\<close>

record elf_file =
  ef_filename :: "u8 list"
  ef_in_memory_size :: int
  ef_elf_memory :: u32
  ef_virtual_base_address :: u32
  ef_virtual_end_address :: u32
  ef_physical_base_address :: u32
  ef_physical_end_address :: u32

text \<open>\<open>task/task.h\<close>, \<open>idt/idt.h\<close>\<close>

record registers =
  r_edi :: u32
  r_esi :: u32
  r_ebp :: u32
  r_ebx :: u32
  r_edx :: u32
  r_ecx :: u32
  r_eax :: u32
  r_ip :: u32
  r_cs :: u32
  r_flags :: u32
  r_esp :: u32
  r_ss :: u32

record interrupt_frame =
  if_edi :: u32
  if_esi :: u32
  if_ebp :: u32
  if_reserved :: u32
  if_ebx :: u32
  if_edx :: u32
  if_ecx :: u32
  if_eax :: u32
  if_ip :: u32
  if_cs :: u32
  if_flags :: u32
  if_esp :: u32
  if_ss :: u32

record task =
  t_page_directory :: u32
  t_registers :: registers
  t_process :: u32
  t_next :: u32
  t_prev :: u32

text \<open>\<open>task/process.h\<close>. The union of \<open>ptr\<close> and \<open>elf_file\<close> is the one field \<open>p_ptr\<close>.\<close>

record process_allocation =
  pa_ptr :: u32
  pa_size :: u32

record keyboard_buffer =
  kb_buffer :: "u8 list"
  kb_tail :: int
  kb_head :: int

record process_arguments =
  arg_argc :: int
  arg_argv :: u32

record process =
  p_id :: u16
  p_filename :: "u8 list"
  p_task :: u32
  p_allocations :: "process_allocation list"
  p_filetype :: u8
  p_ptr :: u32
  p_stack :: u32
  p_size :: u32
  p_keyboard :: keyboard_buffer
  p_arguments :: process_arguments

text \<open>
  \<open>keyboard/keyboard.h\<close>. \<open>struct keyboard*\<close> is null or points to the one driver, \<open>classic_keyboard\<close>;
  \<open>kbd_init\<close> says whether its function pointer is set.
\<close>

datatype keyboard_ptr = NullKeyboard | TheClassic

record keyboard =
  kbd_init :: bool
  kbd_name :: "u8 list"
  kbd_capslock_state :: int
  kbd_next :: keyboard_ptr

datatype obj =
    OBytes "u8 list"
  | OWords "u32 list"
  | OPathRoot path_root
  | OPathPart path_part
  | OStream disk_stream
  | OFileDesc file_descriptor
  | OFatPrivate fat_private
  | OFatDirectory fat_directory
  | OFatItem fat_item
  | OFatFileDesc fat_file_descriptor
  | OChunk u32
  | OElfFile elf_file
  | OTask task
  | OProcess process

section \<open>Global variables\<close>

text \<open>
  The port instructions of \<open>io/io.asm\<close> reach devices outside the program. A device is a function
  from the accesses made so far (latest first) and the port to the value read.
\<close>

datatype io_event = OutB u16 u8 | InB u16 | InW u16

type_synonym device = "io_event list \<Rightarrow> u16 \<Rightarrow> u16"

datatype isr_command =
  Sum | Print | GetKey | PutChar | Malloc | FreeMem | ProcessLoadStart | InvokeSystemCommand
  | GetProgramArguments | Exit

datatype interrupt_callback = HandleException | Clock | ClassicKeyboard

record kernel =
  kernel_heap :: heap
  objs :: "u32 \<Rightarrow> obj option"
  current_directory :: u32
  cr3 :: u32
  kernel_chunk :: u32
  gdisk :: disk
  filesystems :: "fs_ptr list"
  file_descriptors :: "u32 list"
  device :: device
  io_log :: "io_event list"
  processes :: "u32 list"
  current_process :: u32
  current_task :: u32
  task_head :: u32
  task_tail :: u32
  video_mem :: "u16 list"
  terminal_row :: u16
  terminal_col :: u16
  classic_keyboard :: keyboard
  keyboard_list_head :: keyboard_ptr
  keyboard_list_last :: keyboard_ptr
  interrupt_callbacks :: "interrupt_callback option list"
  isr80h_commands :: "isr_command option list"

end
