(* ===== verification/Terminal.thy ===== *)
theory Terminal
  imports KernelState
begin

unbundle bit_operations_syntax

text \<open>
  The text terminal of \<open>src/src/kernel.c\<close>: a cursor (\<open>terminal_row\<close>, \<open>terminal_col\<close>, 16-bit and
  wrapping) over the VGA text memory. A write outside the mapped text memory has no result; a panic
  prints and never returns, so a call of \<open>panic\<close> is \<open>None\<close> wherever it appears in the model.
\<close>

section \<open>Operations\<close>

definition VGA_WIDTH :: nat where "VGA_WIDTH = 80"
definition VGA_HEIGHT :: nat where "VGA_HEIGHT = 20"

definition terminal_make_char :: "u8 \<Rightarrow> u8 \<Rightarrow> u16" where
  "terminal_make_char c color = ucast (push_bit 8 (scast color :: u32) OR (scast c :: u32))"

definition terminal_putchar :: "int \<Rightarrow> int \<Rightarrow> u8 \<Rightarrow> u8 \<Rightarrow> kernel \<Rightarrow> kernel option" where
  "terminal_putchar x y c color s =
     do {
       m \<leftarrow> arr_set (video_mem s) (y * int VGA_WIDTH + x) (terminal_make_char c color);
       Some (s\<lparr>video_mem := m\<rparr>)
     }"

function terminal_writechar :: "u8 \<Rightarrow> u8 \<Rightarrow> kernel \<Rightarrow> kernel option"
  and terminal_backspace :: "kernel \<Rightarrow> kernel option" where
  "terminal_writechar c color s =
     (if c = 0x0A then Some (s\<lparr>terminal_row := terminal_row s + 1, terminal_col := 0\<rparr>)
      else if c = 0x08 then terminal_backspace s
      else do {
        s \<leftarrow> terminal_putchar (uint (terminal_col s)) (uint (terminal_row s)) c color s;
        let s = s\<lparr>terminal_col := terminal_col s + 1\<rparr>;
        if terminal_col s \<ge> of_nat VGA_WIDTH
        then Some (s\<lparr>terminal_col := 0, terminal_row := terminal_row s + 1\<rparr>)
        else Some s
      })"
| "terminal_backspace s =
     (if terminal_row s = 0 \<and> terminal_col s = 0 then Some s
      else do {
        let s = (if terminal_col s = 0
                 then s\<lparr>terminal_row := terminal_row s - 1, terminal_col := of_nat VGA_WIDTH\<rparr>
                 else s);
        let s = s\<lparr>terminal_col := terminal_col s - 1\<rparr>;
        s \<leftarrow> terminal_writechar 0x20 15 s;
        Some (s\<lparr>terminal_col := terminal_col s - 1\<rparr>)
      })"
  by pat_completeness auto
termination
  by (relation "measure (\<lambda>x. case x of Inl (c, color, s) \<Rightarrow> (if c = 8 then 2 else 0)
        | Inr s \<Rightarrow> 1)") auto

fun print_loop :: "u8 list \<Rightarrow> kernel \<Rightarrow> kernel option" where
  "print_loop [] s = Some s"
| "print_loop (c # cs) s = Option.bind (terminal_writechar c 15 s) (print_loop cs)"

text \<open>\<open>print\<close> measures the string first and then writes that many characters.\<close>

definition print :: "u8 list \<Rightarrow> kernel \<Rightarrow> kernel option" where
  "print str s =
     do {
       len \<leftarrow> strlen str;
       print_loop (take (nat len) str) s
     }"

definition panic :: "u8 list \<Rightarrow> kernel \<Rightarrow> 'a option" where
  "panic msg s = Option.bind (print msg s) (\<lambda>s. None)"

fun clear_row :: "nat \<Rightarrow> nat \<Rightarrow> kernel \<Rightarrow> kernel option" where
  "clear_row y 0 s = Some s"
| "clear_row y (Suc n) s =
     Option.bind (terminal_putchar (int (VGA_WIDTH - Suc n)) (int y) 0x20 0 s) (clear_row y n)"

fun clear_rows :: "nat \<Rightarrow> kernel \<Rightarrow> kernel option" where
  "clear_rows 0 s = Some s"
| "clear_rows (Suc n) s =
     Option.bind (clear_row (VGA_HEIGHT - Suc n) VGA_WIDTH s) (clear_rows n)"

text \<open>The argument is the text memory at \<open>0xb8000\<close>.\<close>

definition terminal_initialize :: "u16 list \<Rightarrow> kernel \<Rightarrow> kernel option" where
  "terminal_initialize text_memory s = clear_rows VGA_HEIGHT (s\<lparr>video_mem := text_memory\<rparr>)"

declare terminal_writechar.simps [simp del] terminal_backspace.simps [simp del]

section \<open>The cursor as a linear position\<close>

definition cursor :: "kernel \<Rightarrow> nat" where
  "cursor s = unat (terminal_row s) * VGA_WIDTH + unat (terminal_col s)"

definition cursor_ok :: "kernel \<Rightarrow> bool" where
  "cursor_ok s \<longleftrightarrow> unat (terminal_col s) < VGA_WIDTH"

definition plain :: "u8 \<Rightarrow> bool" where
  "plain c \<longleftrightarrow> c \<noteq> 0 \<and> c \<noteq> 0x0A \<and> c \<noteq> 0x08"

lemma unat_add_1_u16: "unat (w :: u16) < 65535 \<Longrightarrow> unat (w + 1) = unat w + 1"
  by (simp add: unat_word_ariths)

lemma writechar_plain:
  assumes "plain c" "cursor_ok s" "cursor s < length (video_mem s)" "length (video_mem s) \<le> 65536"
  obtains row col where
    "terminal_writechar c 15 s = Some (s\<lparr>video_mem := (video_mem s)[cursor s := terminal_make_char c 15],
       terminal_row := row, terminal_col := col\<rparr>)"
    "unat row * VGA_WIDTH + unat col = Suc (cursor s)" "unat col < VGA_WIDTH"
proof -
  have i: "uint (terminal_row s) * int VGA_WIDTH + uint (terminal_col s) = int (cursor s)"
    by (simp add: cursor_def)
  have p: "terminal_putchar (uint (terminal_col s)) (uint (terminal_row s)) c 15 s =
      Some (s\<lparr>video_mem := (video_mem s)[cursor s := terminal_make_char c 15]\<rparr>)"
    using assms(3) unfolding terminal_putchar_def i by simp
  have c1: "unat (terminal_col s + 1) = unat (terminal_col s) + 1"
    using assms(2) by (intro unat_add_1_u16) (simp add: cursor_ok_def VGA_WIDTH_def)
  have "unat (terminal_row s) * 80 < 65536" using assms(3,4) by (simp add: cursor_def VGA_WIDTH_def)
  then have r1: "unat (terminal_row s + 1) = unat (terminal_row s) + 1"
    by (intro unat_add_1_u16) simp
  have w: "terminal_col s + 1 \<ge> (of_nat VGA_WIDTH :: u16) \<longleftrightarrow> unat (terminal_col s) + 1 \<ge> 80"
    using c1 by (simp add: VGA_WIDTH_def word_le_nat_alt)
  let ?s = "s\<lparr>video_mem := (video_mem s)[cursor s := terminal_make_char c 15]\<rparr>"
  show thesis
  proof (cases "unat (terminal_col s) + 1 \<ge> 80")
    case True
    then have e: "terminal_writechar c 15 s =
        Some (?s\<lparr>terminal_row := terminal_row s + 1, terminal_col := 0\<rparr>)"
      using assms(1) w by (simp add: terminal_writechar.simps plain_def Let_def p)
    have "unat (terminal_col s) = 79"
      using True assms(2) by (simp add: cursor_ok_def VGA_WIDTH_def)
    then show thesis
      by (intro that [OF e]) (simp_all add: r1 cursor_def VGA_WIDTH_def)
  next
    case False
    then have e: "terminal_writechar c 15 s =
        Some (?s\<lparr>terminal_row := terminal_row s, terminal_col := terminal_col s + 1\<rparr>)"
      using assms(1) w by (simp add: terminal_writechar.simps plain_def Let_def p)
    show thesis using False
      by (intro that [OF e]) (simp_all add: c1 cursor_def VGA_WIDTH_def)
  qed
qed

lemma terminal_update_id:
  "s\<lparr>video_mem := video_mem s, terminal_row := terminal_row s, terminal_col := terminal_col s\<rparr> = s"
  by (rule kernel.equality) simp_all

lemma print_loop_plain:
  assumes "list_all plain cs" "cursor_ok s" "cursor s + length cs \<le> length (video_mem s)"
    "length (video_mem s) \<le> 65536"
  shows "\<exists>row col. print_loop cs s = Some (s\<lparr>video_mem := take (cursor s) (video_mem s) @
             map (\<lambda>c. terminal_make_char c 15) cs @ drop (cursor s + length cs) (video_mem s),
           terminal_row := row, terminal_col := col\<rparr>) \<and>
     unat row * VGA_WIDTH + unat col = cursor s + length cs \<and> unat col < VGA_WIDTH"
  using assms
proof (induction cs arbitrary: s)
  case Nil
  have "unat (terminal_row s) * VGA_WIDTH + unat (terminal_col s) = cursor s + length ([] :: u8 list)"
    "unat (terminal_col s) < VGA_WIDTH" using Nil(2) by (simp_all add: cursor_def cursor_ok_def)
  moreover have "print_loop [] s = Some (s\<lparr>video_mem := take (cursor s) (video_mem s) @
      map (\<lambda>c. terminal_make_char c 15) [] @ drop (cursor s + length ([] :: u8 list)) (video_mem s),
      terminal_row := terminal_row s, terminal_col := terminal_col s\<rparr>)"
    by (simp only: print_loop.simps list.map list.size add_0_right append_Nil append_take_drop_id
        terminal_update_id)
  ultimately show ?case by blast
next
  case (Cons c cs)
  have pre: "plain c" "cursor_ok s" "cursor s < length (video_mem s)" "length (video_mem s) \<le> 65536"
    using Cons.prems by simp_all
  obtain row col where w: "terminal_writechar c 15 s =
      Some (s\<lparr>video_mem := (video_mem s)[cursor s := terminal_make_char c 15],
       terminal_row := row, terminal_col := col\<rparr>)" (is "_ = Some ?s")
    "unat row * VGA_WIDTH + unat col = Suc (cursor s)" "unat col < VGA_WIDTH"
    by (rule writechar_plain [OF pre])
  have c1: "cursor ?s = Suc (cursor s)" "cursor_ok ?s" using w by (simp_all add: cursor_def cursor_ok_def)
  have "take (Suc (cursor s)) ((video_mem s)[cursor s := terminal_make_char c 15]) =
      take (cursor s) (video_mem s) @ [terminal_make_char c 15]"
    using Cons.prems(3) by (simp add: take_Suc_conv_app_nth)
  then show ?case using Cons.IH [of ?s] Cons.prems c1 w by simp
qed

text \<open>
  C40. Printing a string without control characters writes its characters into consecutive cells from
  the cursor on, wraps at the end of a row, moves the cursor by the length of the string and changes
  nothing else.
\<close>
theorem print_writes_cells:
  assumes "0 \<in> set str" "list_all plain (cstr str)" "cursor_ok s"
    "cursor s + length (cstr str) \<le> length (video_mem s)" "length (video_mem s) \<le> 65536"
  shows "\<exists>row col. print str s = Some (s\<lparr>video_mem := take (cursor s) (video_mem s) @
             map (\<lambda>c. terminal_make_char c 15) (cstr str) @
             drop (cursor s + length (cstr str)) (video_mem s),
           terminal_row := row, terminal_col := col\<rparr>) \<and>
     unat row * VGA_WIDTH + unat col = cursor s + length (cstr str) \<and> unat col < VGA_WIDTH"
proof -
  obtain t where "str = cstr str @ 0 # t" using cstr_terminated [OF assms(1)] by blast
  then have "take (length (cstr str)) str = cstr str" by (metis append_eq_conv_conj)
  then have "print str s = print_loop (cstr str) s"
    using assms(1) by (simp add: print_def strlen_cstr)
  then show ?thesis using print_loop_plain [OF assms(2-5)] by simp
qed

definition sample_terminal :: "u16 \<Rightarrow> u16 \<Rightarrow> kernel" where
  "sample_terminal row col =
     \<lparr>kernel_heap = \<lparr>table = \<lparr>entries = [], total = 0\<rparr>, saddr = 0\<rparr>, objs = \<lambda>_. None,
      current_directory = 0, cr3 = 0, kernel_chunk = 0,
      gdisk = \<lparr>dk_type = 0, dk_sector_size = 512, dk_id = 0, dk_filesystem = NullFs, dk_fs_private = 0\<rparr>,
      filesystems = [], file_descriptors = [], device = \<lambda>_ _. 0, io_log = [], processes = [],
      current_process = 0, current_task = 0, task_head = 0, task_tail = 0,
      video_mem = replicate 200 0, terminal_row = row, terminal_col = col,
      classic_keyboard = \<lparr>kbd_init = True, kbd_name = [], kbd_capslock_state = 0, kbd_next = NullKeyboard\<rparr>,
      keyboard_list_head = NullKeyboard, keyboard_list_last = NullKeyboard,
      interrupt_callbacks = [], isr80h_commands = []\<rparr>"

theorem print_writes_cells_witness:
  "\<exists>s. print (lit ''Hi'') (sample_terminal 0 79) = Some s \<and> terminal_row s = 1 \<and> terminal_col s = 1 \<and>
     take 3 (drop 79 (video_mem s)) = [0x0F48, 0x0F69, 0]"
proof -
  let ?s = "sample_terminal 0 79"
  have c: "cstr (lit ''Hi'') = [0x48, 0x69]" "0 \<in> set (lit ''Hi'')" by (simp_all add: lit_def)
  have v: "cursor ?s = 79" "cursor_ok ?s" "video_mem ?s = replicate 200 0"
    by (simp_all add: cursor_def cursor_ok_def VGA_WIDTH_def sample_terminal_def)
  obtain row col where r: "print (lit ''Hi'') ?s = Some (?s\<lparr>video_mem := replicate 79 0 @
      [terminal_make_char 0x48 15, terminal_make_char 0x69 15] @ replicate 119 0,
      terminal_row := row, terminal_col := col\<rparr>)"
    "unat row * VGA_WIDTH + unat col = 81" "unat col < VGA_WIDTH"
    using print_writes_cells [of "lit ''Hi''" ?s] c v by (auto simp: plain_def)
  have "unat row = 1" "unat col = 1" using r(2,3) unfolding VGA_WIDTH_def by presburger+
  then have "row = 1" "col = 1" by (metis unat_1 word_unat_eq_iff)+
  with r(1) show ?thesis by (simp add: terminal_make_char_def)
qed

text \<open>
  A backspace at the start of a row (other than the first) leaves the column at 65535 instead of
  the last cell of the previous row: the space it writes wraps the cursor to the next row before
  the column is decremented once more.
\<close>
lemma backspace_at_row_start:
  assumes "terminal_col s = 0" "terminal_row s \<noteq> 0"
    "(unat (terminal_row s) - 1) * VGA_WIDTH + 79 < length (video_mem s)"
  shows "\<exists>s'. terminal_writechar 0x08 15 s = Some s' \<and> terminal_row s' = terminal_row s \<and>
    terminal_col s' = 65535"
proof -
  have r: "unat (terminal_row s - 1) = unat (terminal_row s) - 1"
    using assms(2) by (simp add: unat_minus_one)
  have i: "uint (terminal_row s - 1) * 80 + 79 = int ((unat (terminal_row s) - 1) * VGA_WIDTH + 79)"
    unfolding r [symmetric] by (simp add: VGA_WIDTH_def)
  show ?thesis
    using assms i
    by (simp add: terminal_writechar.simps terminal_backspace.simps Let_def VGA_WIDTH_def
        terminal_putchar_def arr_set_def)
qed

lemma backspace_at_row_start_witness:
  "\<exists>s'. terminal_writechar 0x08 15 (sample_terminal 1 0) = Some s' \<and> terminal_col s' = 65535"
  using backspace_at_row_start [of "sample_terminal 1 0"]
  by (auto simp: sample_terminal_def VGA_WIDTH_def)

end
