(* ===== verification/KHeap.thy ===== *)
theory KHeap
  imports Terminal
begin

unbundle bit_operations_syntax

text \<open>
  The kernel heap of \<open>src/src/memory/heap/kheap.c\<close> over the block allocator of \<open>Heap\<close>, and the
  interface its clients use: an allocation is a fresh non-null address that holds the zeroed object,
  a release of a live address succeeds and removes exactly that object (\<open>locale allocator\<close>).
\<close>

section \<open>Operations\<close>

definition PLUMOS_HEAP_SIZE_BYTES :: nat where "PLUMOS_HEAP_SIZE_BYTES = 0x6400000"
definition PLUMOS_HEAP_ADDRESS :: u32 where "PLUMOS_HEAP_ADDRESS = 0x01000000"

text \<open>The argument is what memory holds at \<open>PLUMOS_HEAP_TABLE_ADDRESS\<close> when the kernel starts.\<close>

definition kheap_init :: "u8 list \<Rightarrow> kernel \<Rightarrow> kernel option" where
  "kheap_init table_memory s =
     do {
       let total_table_entries = PLUMOS_HEAP_SIZE_BYTES div PLUMOS_HEAP_BLOCK_SIZE;
       let kernel_heap_table = \<lparr>entries = table_memory, total = of_nat total_table_entries\<rparr>;
       (res, h) \<leftarrow> heap_create (kernel_heap s) PLUMOS_HEAP_ADDRESS
         (PLUMOS_HEAP_ADDRESS + of_nat PLUMOS_HEAP_SIZE_BYTES) kernel_heap_table;
       let s = s\<lparr>kernel_heap := h\<rparr>;
       if res < 0 then print (lit (''Failed to create heap'' @ [CHR 0x0A])) s else Some s
     }"

definition kmalloc :: "u32 \<Rightarrow> kernel \<Rightarrow> (u32 \<times> kernel) option" where
  "kmalloc sz s = map_option (\<lambda>(a, h). (a, s\<lparr>kernel_heap := h\<rparr>)) (heap_malloc (kernel_heap s) sz)"

text \<open>
  The \<open>memset\<close> zeroes the object: afterwards the address holds \<open>z\<close>, the all-zero value of the type it
  is allocated for. A size above \<open>2 ^ 31\<close> is cleared far beyond the blocks it was given.
\<close>

definition kzalloc :: "u32 \<Rightarrow> obj \<Rightarrow> kernel \<Rightarrow> (u32 \<times> kernel) option" where
  "kzalloc sz z s =
     do {
       (ptr, s) \<leftarrow> kmalloc sz s;
       if ptr = 0 then Some (0, s)
       else if to_int sz < 0 then None
       else Some (ptr, s\<lparr>objs := (objs s)(ptr \<mapsto> z)\<rparr>)
     }"

definition kfree :: "u32 \<Rightarrow> kernel \<Rightarrow> kernel option" where
  "kfree ptr s =
     map_option (\<lambda>h. s\<lparr>kernel_heap := h, objs := (objs s)(ptr := None)\<rparr>) (heap_free (kernel_heap s) ptr)"

subsection \<open>Typed access to objects\<close>

definition get_bytes :: "kernel \<Rightarrow> u32 \<Rightarrow> u8 list option" where
  "get_bytes s p = (case objs s p of Some (OBytes b) \<Rightarrow> Some b | _ \<Rightarrow> None)"

definition get_words :: "kernel \<Rightarrow> u32 \<Rightarrow> u32 list option" where
  "get_words s p = (case objs s p of Some (OWords w) \<Rightarrow> Some w | _ \<Rightarrow> None)"

definition get_path_root :: "kernel \<Rightarrow> u32 \<Rightarrow> path_root option" where
  "get_path_root s p = (case objs s p of Some (OPathRoot r) \<Rightarrow> Some r | _ \<Rightarrow> None)"

definition get_path_part :: "kernel \<Rightarrow> u32 \<Rightarrow> path_part option" where
  "get_path_part s p = (case objs s p of Some (OPathPart r) \<Rightarrow> Some r | _ \<Rightarrow> None)"

definition get_stream :: "kernel \<Rightarrow> u32 \<Rightarrow> disk_stream option" where
  "get_stream s p = (case objs s p of Some (OStream r) \<Rightarrow> Some r | _ \<Rightarrow> None)"

definition get_file_desc :: "kernel \<Rightarrow> u32 \<Rightarrow> file_descriptor option" where
  "get_file_desc s p = (case objs s p of Some (OFileDesc r) \<Rightarrow> Some r | _ \<Rightarrow> None)"

definition get_fat_private :: "kernel \<Rightarrow> u32 \<Rightarrow> fat_private option" where
  "get_fat_private s p = (case objs s p of Some (OFatPrivate r) \<Rightarrow> Some r | _ \<Rightarrow> None)"

definition get_fat_directory :: "kernel \<Rightarrow> u32 \<Rightarrow> fat_directory option" where
  "get_fat_directory s p = (case objs s p of Some (OFatDirectory r) \<Rightarrow> Some r | _ \<Rightarrow> None)"

definition get_fat_item :: "kernel \<Rightarrow> u32 \<Rightarrow> fat_item option" where
  "get_fat_item s p = (case objs s p of Some (OFatItem r) \<Rightarrow> Some r | _ \<Rightarrow> None)"

definition get_fat_file_desc :: "kernel \<Rightarrow> u32 \<Rightarrow> fat_file_descriptor option" where
  "get_fat_file_desc s p = (case objs s p of Some (OFatFileDesc r) \<Rightarrow> Some r | _ \<Rightarrow> None)"

definition get_chunk :: "kernel \<Rightarrow> u32 \<Rightarrow> u32 option" where
  "get_chunk s p = (case objs s p of Some (OChunk d) \<Rightarrow> Some d | _ \<Rightarrow> None)"

definition get_elf_file :: "kernel \<Rightarrow> u32 \<Rightarrow> elf_file option" where
  "get_elf_file s p = (case objs s p of Some (OElfFile r) \<Rightarrow> Some r | _ \<Rightarrow> None)"

definition get_task :: "kernel \<Rightarrow> u32 \<Rightarrow> task option" where
  "get_task s p = (case objs s p of Some (OTask r) \<Rightarrow> Some r | _ \<Rightarrow> None)"

definition get_process :: "kernel \<Rightarrow> u32 \<Rightarrow> process option" where
  "get_process s p = (case objs s p of Some (OProcess r) \<Rightarrow> Some r | _ \<Rightarrow> None)"

text \<open>A store to a live object.\<close>

definition put :: "u32 \<Rightarrow> obj \<Rightarrow> kernel \<Rightarrow> kernel option" where
  "put p x s = (if objs s p = None then None else Some (s\<lparr>objs := (objs s)(p \<mapsto> x)\<rparr>))"

lemmas get_defs = get_bytes_def get_words_def get_path_root_def get_path_part_def get_stream_def
  get_file_desc_def get_fat_private_def get_fat_directory_def get_fat_item_def
  get_fat_file_desc_def get_chunk_def get_elf_file_def get_task_def get_process_def

lemma get_Some [bind_Some]:
  "get_bytes s p = Some b \<longleftrightarrow> objs s p = Some (OBytes b)"
  "get_words s p = Some w \<longleftrightarrow> objs s p = Some (OWords w)"
  "get_path_root s p = Some pr \<longleftrightarrow> objs s p = Some (OPathRoot pr)"
  "get_path_part s p = Some pp \<longleftrightarrow> objs s p = Some (OPathPart pp)"
  "get_stream s p = Some ds \<longleftrightarrow> objs s p = Some (OStream ds)"
  "get_file_desc s p = Some fd \<longleftrightarrow> objs s p = Some (OFileDesc fd)"
  "get_fat_private s p = Some fp \<longleftrightarrow> objs s p = Some (OFatPrivate fp)"
  "get_fat_directory s p = Some dir \<longleftrightarrow> objs s p = Some (OFatDirectory dir)"
  "get_fat_item s p = Some fi \<longleftrightarrow> objs s p = Some (OFatItem fi)"
  "get_fat_file_desc s p = Some ffd \<longleftrightarrow> objs s p = Some (OFatFileDesc ffd)"
  "get_chunk s p = Some d \<longleftrightarrow> objs s p = Some (OChunk d)"
  "get_elf_file s p = Some ef \<longleftrightarrow> objs s p = Some (OElfFile ef)"
  "get_task s p = Some t \<longleftrightarrow> objs s p = Some (OTask t)"
  "get_process s p = Some pc \<longleftrightarrow> objs s p = Some (OProcess pc)"
  by (auto simp: get_defs split: option.splits obj.splits)

lemma put_Some [bind_Some]:
  "put p x s = Some s' \<longleftrightarrow> objs s p \<noteq> None \<and> s' = s\<lparr>objs := (objs s)(p \<mapsto> x)\<rparr>"
  by (auto simp: put_def)

section \<open>The allocator interface\<close>

locale allocator =
  fixes alloc :: "u32 \<Rightarrow> 'o \<Rightarrow> 's \<Rightarrow> (u32 \<times> 's) option"
    and free :: "u32 \<Rightarrow> 's \<Rightarrow> 's option"
    and look :: "'s \<Rightarrow> u32 \<Rightarrow> 'o option"
    and inv :: "'s \<Rightarrow> bool"
    and size_ok :: "u32 \<Rightarrow> bool"
  assumes alloc_fresh: "inv s \<Longrightarrow> size_ok n \<Longrightarrow> alloc n z s = Some (a, s') \<Longrightarrow> a \<noteq> 0 \<Longrightarrow>
      look s a = None \<and> look s' = (look s)(a \<mapsto> z) \<and> inv s' \<and> a mod 4096 = 0"
    and alloc_null: "alloc n z s = Some (0, s') \<Longrightarrow> inv s \<Longrightarrow> size_ok n \<Longrightarrow> s' = s"
    and free_live: "inv s \<Longrightarrow> look s a \<noteq> None \<Longrightarrow>
      \<exists>s'. free a s = Some s' \<and> look s' = (look s)(a := None) \<and> inv s'"
    and null_dead: "inv s \<Longrightarrow> look s 0 = None"
begin

lemma alloc_preserves_others:
  "inv s \<Longrightarrow> size_ok n \<Longrightarrow> alloc n z s = Some (a, s') \<Longrightarrow> look s p = Some x \<Longrightarrow> look s' p = Some x"
  using alloc_fresh [of s n z a s'] alloc_null [of n z s s'] by (cases "a = 0") auto

lemma alloc_inv: "inv s \<Longrightarrow> size_ok n \<Longrightarrow> alloc n z s = Some (a, s') \<Longrightarrow> inv s'"
  using alloc_fresh [of s n z a s'] alloc_null [of n z s s'] by (cases "a = 0") auto

lemma alloc_free_objects:
  assumes "inv s" "size_ok n" "alloc n z s = Some (a, s')" "a \<noteq> 0"
  shows "\<exists>s''. free a s' = Some s'' \<and> look s'' = look s \<and> inv s''"
proof -
  have f: "look s a = None" "look s' = (look s)(a \<mapsto> z)" "inv s'"
    using alloc_fresh [OF assms] by auto
  moreover from f have "look s' a \<noteq> None" by simp
  then obtain s'' where "free a s' = Some s''" "look s'' = (look s')(a := None)" "inv s''"
    using free_live f(3) by blast
  ultimately show ?thesis by (auto simp: fun_upd_idem)
qed

text \<open>Releasing a list of distinct live addresses.\<close>

fun free_list :: "u32 list \<Rightarrow> 's \<Rightarrow> 's option" where
  "free_list [] s = Some s"
| "free_list (a # as) s = Option.bind (free a s) (free_list as)"

lemma free_list_live:
  "inv s \<Longrightarrow> distinct as \<Longrightarrow> set as \<subseteq> dom (look s) \<Longrightarrow>
   \<exists>s'. free_list as s = Some s' \<and> look s' = (look s) |` (- set as) \<and> inv s'"
proof (induction as arbitrary: s)
  case Nil
  have "look s |` (- {}) = look s" by (simp add: restrict_map_def)
  then show ?case using Nil by simp
next
  case (Cons a as)
  then have "look s a \<noteq> None" by auto
  then obtain s1 where s1: "free a s = Some s1" "look s1 = (look s)(a := None)" "inv s1"
    using free_live Cons.prems(1) by blast
  have "set as \<subseteq> dom (look s1)" using Cons.prems s1(2) by auto
  then obtain s2 where "free_list as s1 = Some s2" "look s2 = (look s1) |` (- set as)" "inv s2"
    using Cons.IH s1(3) Cons.prems(2) by auto
  moreover have "(look s1) |` (- set as) = (look s) |` (- set (a # as))"
    unfolding s1(2) by (auto simp: restrict_map_def fun_eq_iff)
  ultimately show ?case using s1 by simp
qed

end

section \<open>The kernel heap implements the interface\<close>

text \<open>
  The heap table is well formed and its allocations are exactly the live objects.
\<close>

definition block_addr :: "heap \<Rightarrow> nat \<Rightarrow> u32" where
  "block_addr h p = saddr h + of_nat (4096 * p)"

definition live :: "seg list \<Rightarrow> nat set" where
  "live ss = {p. spec_free p ss \<noteq> None}"

definition mem_inv :: "kernel \<Rightarrow> bool" where
  "mem_inv s \<longleftrightarrow> (\<exists>ss. table_rep (kernel_heap s) ss \<and>
     dom (objs s) = block_addr (kernel_heap s) ` live ss)"

definition size_ok :: "u32 \<Rightarrow> bool" where
  "size_ok n \<longleftrightarrow> 0 < unat n \<and> unat n \<le> 2 ^ 31 - 4096"

lemma live_less: "p \<in> live ss \<Longrightarrow> p < blocks ss"
  using spec_free_less by (fastforce simp: live_def)

lemma live_append: "p \<in> live (xs @ ys) \<longleftrightarrow> p \<in> live xs \<or> (blocks xs \<le> p \<and> p - blocks xs \<in> live ys)"
proof (induction xs arbitrary: p)
  case Nil
  then show ?case by (simp add: live_def)
next
  case (Cons x xs)
  have pos: "0 < seg_size x" by (cases x) auto
  show ?case
  proof (cases "p = 0")
    case True
    then show ?thesis using pos by (auto simp: live_def split: seg.splits)
  next
    case False
    then show ?thesis using Cons.IH [of "p - seg_size x"] by (auto simp: live_def)
  qed
qed

lemma live_replicate_Free: "live (replicate n Free) = {}"
proof -
  have "spec_free p (replicate n Free) = None" for p by (induction n arbitrary: p) auto
  then show ?thesis by (simp add: live_def)
qed

lemma live_Used: "p \<in> live (Used k # ys) \<longleftrightarrow> p = 0 \<or> (Suc k \<le> p \<and> p - Suc k \<in> live ys)"
  by (auto simp: live_def)

lemma live_alloc:
  assumes "ss = xs @ replicate n Free @ ys" "ss' = xs @ Used (n - 1) # ys" "0 < n"
  shows "live ss' = insert (blocks xs) (live ss)" "blocks xs \<notin> live ss"
proof -
  have "p \<in> live ss' \<longleftrightarrow> p \<in> insert (blocks xs) (live ss)" for p
    unfolding assms(1,2) using assms(3)
    by (auto simp: live_append live_Used live_replicate_Free)
  then show "live ss' = insert (blocks xs) (live ss)" by blast
  show "blocks xs \<notin> live ss"
    unfolding assms(1) using assms(3) live_less [of "blocks xs" xs]
    by (auto simp: live_append live_replicate_Free)
qed

lemma block_addr_inj:
  assumes "table_rep h ss" "p < blocks ss" "q < blocks ss"
  shows "block_addr h p = block_addr h q \<longleftrightarrow> p = q" "block_addr h p \<noteq> 0"
  unfolding block_addr_def using heap_address_inj [OF assms] by blast+

lemma mem_inv_nonnull:
  assumes "mem_inv s"
  shows "objs s 0 = None"
proof -
  obtain ss where ss: "table_rep (kernel_heap s) ss"
    "dom (objs s) = block_addr (kernel_heap s) ` live ss" using assms mem_inv_def by auto
  have "0 \<notin> block_addr (kernel_heap s) ` live ss"
    using block_addr_inj(2) [OF ss(1)] live_less [of _ ss] by (metis imageE)
  then show ?thesis using ss(2) by (metis domIff)
qed

lemma block_addr_aligned:
  assumes "table_rep h ss" "p < blocks ss"
  shows "block_addr h p mod 4096 = 0"
proof -
  have le: "unat (saddr h) + 4096 * p < 2 ^ 32" "4096 dvd unat (saddr h)"
    using assms by (auto simp: table_rep_def)
  then have "unat (block_addr h p) = unat (saddr h) + 4096 * p"
    by (simp add: block_addr_def unat_word_ariths unat_of_small_nat del: of_nat_mult)
  then have "unat (block_addr h p mod 4096) = (unat (saddr h) + 4096 * p) mod 4096"
    by (simp add: unat_mod_distrib)
  also have "\<dots> = 0" using le(2) by (simp add: dvd_imp_mod_0 mod_add_left_eq)
  finally show ?thesis by (simp add: unat_eq_0)
qed

lemma kzalloc_spec:
  assumes "mem_inv s" "size_ok n" "kzalloc n z s = Some (a, s')" "a \<noteq> 0"
  shows "objs s a = None" "objs s' = (objs s)(a \<mapsto> z)" "mem_inv s'" "a mod 4096 = 0"
    "s' = s\<lparr>kernel_heap := kernel_heap s', objs := objs s'\<rparr>"
proof -
  obtain ss where ss: "table_rep (kernel_heap s) ss"
    "dom (objs s) = block_addr (kernel_heap s) ` live ss"
    using assms(1) by (auto simp: mem_inv_def)
  have sz: "0 < unat n" "unat n \<le> 2 ^ 31 - 4096" using assms(2) by (auto simp: size_ok_def)
  let ?n = "blocks_for (unat n)"
  have n: "0 < ?n" using sz by (simp add: blocks_for_def)
  from assms(3,4) obtain h' where m: "heap_malloc (kernel_heap s) n = Some (a, h')"
    "s' = s\<lparr>kernel_heap := h', objs := (objs s)(a \<mapsto> z)\<rparr>"
    by (auto simp: kzalloc_def kmalloc_def bind_Some split: if_splits)
  obtain p ss' where p: "spec_alloc ?n ss = Some (p, ss')"
    "a = block_addr (kernel_heap s) p"
    "h' = (kernel_heap s)\<lparr>table := (table (kernel_heap s))\<lparr>entries := encode ss'\<rparr>\<rparr>"
    "table_rep h' ss'" "p + ?n \<le> blocks ss"
    using heap_malloc_success [OF ss(1) sz m(1) assms(4)] unfolding block_addr_def by metis
  obtain xs ys where x: "ss = xs @ replicate ?n Free @ ys" "ss' = xs @ Used (?n - 1) # ys"
    "p = blocks xs" using spec_alloc_split [OF p(1)] by blast
  have lv: "live ss' = insert p (live ss)" "p \<notin> live ss"
    using live_alloc [OF x(1,2) n] x(3) by simp_all
  have pl: "p < blocks ss" using p(5) n by linarith
  have "a \<notin> dom (objs s)"
    unfolding ss(2) p(2) using block_addr_inj(1) [OF ss(1) pl live_less] lv(2) by (metis imageE)
  then show "objs s a = None" by (simp add: domIff)
  show o: "objs s' = (objs s)(a \<mapsto> z)" using m(2) by simp
  have sd: "block_addr h' = block_addr (kernel_heap s)"
    using p(3) by (simp add: block_addr_def fun_eq_iff)
  have "dom (objs s') = block_addr h' ` live ss'"
    unfolding o sd lv(1) image_insert p(2) [symmetric] using ss(2) by simp
  then show "mem_inv s'" using p(4) m(2) by (auto simp: mem_inv_def)
  show "a mod 4096 = 0" unfolding p(2) using pl by (rule block_addr_aligned [OF ss(1)])
  show "s' = s\<lparr>kernel_heap := kernel_heap s', objs := objs s'\<rparr>" using m(2) by simp
qed

lemma kzalloc_null:
  assumes "kzalloc n z s = Some (0, s')" "mem_inv s" "size_ok n"
  shows "s' = s"
proof -
  obtain ss where ss: "table_rep (kernel_heap s) ss" using assms(2) by (auto simp: mem_inv_def)
  have sz: "0 < unat n" "unat n \<le> 2 ^ 31 - 4096" using assms(3) by (auto simp: size_ok_def)
  have n: "0 < blocks_for (unat n)" using sz by (simp add: blocks_for_def)
  from assms(1) obtain h' where m: "heap_malloc (kernel_heap s) n = Some (0, h')"
    "s' = s\<lparr>kernel_heap := h'\<rparr>"
    by (auto simp: kzalloc_def kmalloc_def bind_Some split: if_splits)
  have "h' = kernel_heap s"
  proof (cases "spec_alloc (blocks_for (unat n)) ss")
    case None
    then show ?thesis using heap_malloc_cases [OF ss sz] m(1) by (auto split: if_splits)
  next
    case (Some r)
    then obtain p t where r: "spec_alloc (blocks_for (unat n)) ss = Some (p, t)" by (cases r) auto
    then have "p < blocks ss" using spec_alloc_blocks(2) [OF r n] n by linarith
    then show ?thesis
      using heap_malloc_cases [OF ss sz] m(1) heap_address_inj(2) [OF ss, of p p] r
      by (simp del: of_nat_mult)
  qed
  then show ?thesis using m(2) by simp
qed

lemma kfree_spec:
  assumes "mem_inv s" "objs s a \<noteq> None"
  shows "\<exists>h. kfree a s = Some (s\<lparr>kernel_heap := h, objs := (objs s)(a := None)\<rparr>) \<and>
    mem_inv (s\<lparr>kernel_heap := h, objs := (objs s)(a := None)\<rparr>)"
proof -
  obtain ss where ss: "table_rep (kernel_heap s) ss"
    "dom (objs s) = block_addr (kernel_heap s) ` live ss"
    using assms(1) by (auto simp: mem_inv_def)
  then obtain p where p: "a = block_addr (kernel_heap s) p" "p \<in> live ss"
    using assms(2) by (auto simp: dom_def)
  then obtain ss' where ss': "spec_free p ss = Some ss'" by (auto simp: live_def)
  let ?h = "(kernel_heap s)\<lparr>table := (table (kernel_heap s))\<lparr>entries := encode ss'\<rparr>\<rparr>"
  let ?s = "s\<lparr>kernel_heap := ?h, objs := (objs s)(a := None)\<rparr>"
  have "kfree a s = Some ?s"
    using free_rep [OF ss(1) ss'] p(1) by (simp add: kfree_def block_addr_def)
  moreover have "table_rep ?h ss'" using table_rep_entries [OF ss(1) spec_free_blocks [OF ss']] .
  moreover have "dom (objs ?s) = block_addr ?h ` live ss'"
  proof -
    obtain xs k ys where x: "ss = xs @ Used k # ys" "ss' = xs @ replicate (Suc k) Free @ ys"
      "p = blocks xs" using spec_free_split [OF ss'] by blast
    have lv: "live ss = insert p (live ss')" "p \<notin> live ss'"
      using live_alloc [OF x(2), of ss] x(1,3) by simp_all
    have "block_addr (kernel_heap s) p \<notin> block_addr (kernel_heap s) ` live ss'"
      using block_addr_inj(1) [OF ss(1) live_less [OF p(2)] live_less] lv by (metis imageE insertCI)
    moreover have "block_addr ?h = block_addr (kernel_heap s)" by (simp add: block_addr_def fun_eq_iff)
    ultimately show ?thesis using ss(2) p(1) lv(1) by simp
  qed
  ultimately show ?thesis by (auto simp: mem_inv_def)
qed

interpretation kh: allocator kzalloc kfree objs mem_inv size_ok
proof unfold_locales
  fix s n z a s'
  assume "mem_inv s" "size_ok n" "kzalloc n z s = Some (a, s')" "a \<noteq> 0"
  from kzalloc_spec [OF this]
  show "objs s a = None \<and> objs s' = (objs s)(a \<mapsto> z) \<and> mem_inv s' \<and> a mod 4096 = 0" by blast
next
  fix s a
  assume "mem_inv s" "objs s a \<noteq> None"
  from kfree_spec [OF this]
  show "\<exists>s'. kfree a s = Some s' \<and> objs s' = (objs s)(a := None) \<and> mem_inv s'" by auto
qed (auto dest: kzalloc_null mem_inv_nonnull)
section \<open>Enough memory\<close>

text \<open>The free blocks of the heap, the number that says that an allocation of one block succeeds.\<close>

definition free_blocks :: "kernel \<Rightarrow> nat" where
  "free_blocks s = count_list (entries (table (kernel_heap s))) 0"

lemma count_list_append: "count_list (xs @ ys) x = count_list xs x + count_list ys x"
  by (induction xs) auto

lemma count_list_replicate: "count_list (replicate n y) x = (if x = y then n else 0)"
  by (induction n) auto

lemma count_enc_Used [simp]: "count_list (enc_seg (Used k)) 0 = 0"
  by (cases k) (auto simp: count_list_append count_list_replicate)

lemma spec_alloc_1:
  "0 < count_list (encode ss) 0 \<Longrightarrow> \<exists>p r. spec_alloc 1 ss = Some (p, r)"
proof (induction ss)
  case (Cons s ss)
  then show ?case by (cases s) (auto simp: count_list_append simp del: enc_seg.simps(2))
qed simp

lemma mem_inv_put:
  "objs s p \<noteq> None \<Longrightarrow> mem_inv (s\<lparr>objs := (objs s)(p \<mapsto> x)\<rparr>) = mem_inv s"
  by (auto simp: mem_inv_def insert_absorb domIff)

lemma free_blocks_put [simp]: "free_blocks (s\<lparr>objs := x\<rparr>) = free_blocks s"
  by (simp add: free_blocks_def)

text \<open>
  The heap and its objects are all that differs between two states; the place and the size of the
  heap stay.
\<close>

definition heap_shape :: "heap \<Rightarrow> u32 \<times> nat" where
  "heap_shape h = (saddr h, length (entries (table h)))"

definition heap_step :: "kernel \<Rightarrow> kernel \<Rightarrow> bool" where
  "heap_step s s' \<longleftrightarrow> s' = s\<lparr>kernel_heap := kernel_heap s', objs := objs s'\<rparr> \<and>
     heap_shape (kernel_heap s') = heap_shape (kernel_heap s)"

lemma heap_step_refl [simp]: "heap_step s s"
  by (simp add: heap_step_def)

lemma heap_step_trans [trans]: "heap_step s s' \<Longrightarrow> heap_step s' s'' \<Longrightarrow> heap_step s s''"
  unfolding heap_step_def
  by (metis (no_types, lifting) kernel.surjective kernel.update_convs(1,2))

lemma heap_step_put [simp]: "heap_step s (s\<lparr>objs := x\<rparr>)"
  by (simp add: heap_step_def)

lemma heap_step_heap [simp]:
  "heap_shape h = heap_shape (kernel_heap s) \<Longrightarrow> heap_step s (s\<lparr>kernel_heap := h, objs := x\<rparr>)"
  by (simp add: heap_step_def)

lemma put_live:
  assumes "objs s p \<noteq> None"
  obtains s' where "put p x s = Some s'" "objs s' = (objs s)(p \<mapsto> x)" "mem_inv s' = mem_inv s"
    "free_blocks s' = free_blocks s" "heap_step s s'"
proof -
  let ?s = "s\<lparr>objs := (objs s)(p \<mapsto> x)\<rparr>"
  have "put p x s = Some ?s" using assms by (simp add: put_def)
  moreover have "mem_inv ?s = mem_inv s" by (rule mem_inv_put [OF assms])
  ultimately show thesis using that [of ?s] by simp
qed

lemma kzalloc_block:
  assumes "mem_inv s" "0 < free_blocks s" "0 < unat n" "unat n \<le> 4096"
  obtains a s' where "kzalloc n z s = Some (a, s')" "a \<noteq> 0" "objs s a = None" "a mod 4096 = 0"
    "objs s' = (objs s)(a \<mapsto> z)" "mem_inv s'" "free_blocks s' = free_blocks s - 1" "heap_step s s'"
proof -
  obtain ss where ss: "table_rep (kernel_heap s) ss" using assms(1) by (auto simp: mem_inv_def)
  have sz: "unat n \<le> 2 ^ 31 - 4096" "size_ok n" using assms(3,4) by (auto simp: size_ok_def)
  have "blocks_for (unat n) = 1"
    unfolding blocks_for_def using assms(3,4) by (intro div_nat_eqI) auto
  moreover have fb: "free_blocks s = count_list (encode ss) 0"
    using ss by (simp add: free_blocks_def table_rep_def)
  ultimately obtain p r where r: "spec_alloc (blocks_for (unat n)) ss = Some (p, r)"
    using spec_alloc_1 [of ss] assms(2) by auto
  let ?a = "saddr (kernel_heap s) + of_nat (4096 * p)"
  let ?h = "(kernel_heap s)\<lparr>table := (table (kernel_heap s))\<lparr>entries := encode r\<rparr>\<rparr>"
  have one: "blocks_for (unat n) = 1" by fact
  then have p: "p < blocks ss" using spec_alloc_blocks(2) [OF r] by simp
  have nz: "?a \<noteq> 0" using heap_address_inj(2) [OF ss p p] .
  have "\<not> to_int n < 0" using assms(4) by (simp add: sint_eq_unat)
  then have k: "kzalloc n z s = Some (?a, s\<lparr>kernel_heap := ?h, objs := (objs s)(?a \<mapsto> z)\<rparr>)"
    using heap_malloc_cases [OF ss assms(3) sz(1)] r nz
    by (simp add: kzalloc_def kmalloc_def del: of_nat_mult)
  obtain xs ys where x: "ss = xs @ replicate 1 Free @ ys" "r = xs @ Used (1 - 1) # ys"
    using spec_alloc_split [OF r [unfolded one]] by blast
  have "count_list (encode r) 0 = count_list (encode ss) 0 - 1"
    unfolding x by (simp add: count_list_append)
  then show thesis
    using that [OF k nz] kzalloc_spec [OF assms(1) sz(2) k nz] fb ss spec_alloc_blocks(1) [OF r [unfolded one]]
    by (simp add: free_blocks_def heap_shape_def table_rep_def)
qed

lemma kfree_block:
  assumes "mem_inv s" "objs s a \<noteq> None"
  obtains s' where "kfree a s = Some s'" "objs s' = (objs s)(a := None)" "mem_inv s'"
    "free_blocks s < free_blocks s'" "heap_step s s'"
proof -
  obtain h where h: "kfree a s = Some (s\<lparr>kernel_heap := h, objs := (objs s)(a := None)\<rparr>)"
    "mem_inv (s\<lparr>kernel_heap := h, objs := (objs s)(a := None)\<rparr>)"
    using kfree_spec [OF assms] by blast
  obtain ss where ss: "table_rep (kernel_heap s) ss"
    "dom (objs s) = block_addr (kernel_heap s) ` live ss"
    using assms(1) by (auto simp: mem_inv_def)
  then obtain p where p: "a = saddr (kernel_heap s) + of_nat (4096 * p)" "p \<in> live ss"
    using assms(2) by (auto simp: dom_def block_addr_def simp del: of_nat_mult)
  then obtain ss' where ss': "spec_free p ss = Some ss'" by (auto simp: live_def)
  have "h = (kernel_heap s)\<lparr>table := (table (kernel_heap s))\<lparr>entries := encode ss'\<rparr>\<rparr>"
    using h(1) free_rep [OF ss(1) ss'] p(1) by (auto simp: kfree_def dest: arg_cong [of _ _ kernel_heap])
  moreover obtain xs k ys where "ss = xs @ Used k # ys" "ss' = xs @ replicate (Suc k) Free @ ys"
    using spec_free_split [OF ss'] by blast
  then have "count_list (encode ss) 0 < count_list (encode ss') 0"
    by (simp add: count_list_append count_list_replicate del: enc_seg.simps(2) replicate_Suc)
  moreover have "entries (table (kernel_heap s)) = encode ss" using ss(1) by (simp add: table_rep_def)
  ultimately show thesis using that h spec_free_blocks [OF ss']
    by (simp add: free_blocks_def heap_shape_def)
qed

text \<open>A heap below 2 GiB: its addresses are not taken for error codes.\<close>

definition low_heap :: "kernel \<Rightarrow> bool" where
  "low_heap s \<longleftrightarrow> (case heap_shape (kernel_heap s) of (a, n) \<Rightarrow> unat a + 4096 * n \<le> 2 ^ 31)"

lemma low_heap_step: "heap_step s s' \<Longrightarrow> low_heap s' = low_heap s"
  by (simp add: low_heap_def heap_step_def)

lemma low_heap_address:
  assumes "mem_inv s" "low_heap s" "objs s a \<noteq> None"
  shows "0 < to_int a"
proof -
  obtain ss where ss: "table_rep (kernel_heap s) ss" "dom (objs s) = block_addr (kernel_heap s) ` live ss"
    using assms(1) by (auto simp: mem_inv_def)
  have "a \<in> dom (objs s)" using assms(3) by (simp add: domIff)
  then obtain p where p: "a = block_addr (kernel_heap s) p" "p < blocks ss"
    unfolding ss(2) using live_less by blast
  have b: "unat (saddr (kernel_heap s)) + 4096 * p < 2 ^ 31" "0 < unat (saddr (kernel_heap s))"
    using assms(2) ss(1) p(2) by (auto simp: low_heap_def heap_shape_def table_rep_def)
  then have "unat a = unat (saddr (kernel_heap s)) + 4096 * p"
    by (simp add: p(1) block_addr_def unat_word_ariths unat_of_small_nat del: of_nat_mult)
  then have "unat a < 2 ^ 31" "0 < unat a" using b by simp_all
  then show ?thesis using sint_eq_unat [of a] by linarith
qed

section \<open>Properties\<close>

lemma kheap_init_ok:
  assumes "length m = 25600" "objs s = (\<lambda>_. None)"
  shows "\<exists>h. kheap_init m s = Some (s\<lparr>kernel_heap := h\<rparr>) \<and>
    table_rep h (replicate 25600 Free) \<and> mem_inv (s\<lparr>kernel_heap := h\<rparr>) \<and>
    heap_shape h = (PLUMOS_HEAP_ADDRESS, 25600) \<and> free_blocks (s\<lparr>kernel_heap := h\<rparr>) = 25600"
proof -
  let ?tb = "\<lparr>entries = m, total = (of_nat 25600 :: u32)\<rparr>"
  have n: "PLUMOS_HEAP_SIZE_BYTES div PLUMOS_HEAP_BLOCK_SIZE = 25600"
    by (simp add: PLUMOS_HEAP_SIZE_BYTES_def PLUMOS_HEAP_BLOCK_SIZE_def)
  have e: "PLUMOS_HEAP_ADDRESS + of_nat PLUMOS_HEAP_SIZE_BYTES =
      PLUMOS_HEAP_ADDRESS + of_nat (4096 * 25600)" by (simp add: PLUMOS_HEAP_SIZE_BYTES_def)
  obtain h where h: "heap_create (kernel_heap s) PLUMOS_HEAP_ADDRESS
      (PLUMOS_HEAP_ADDRESS + of_nat PLUMOS_HEAP_SIZE_BYTES) ?tb = Some (0, h)"
    "table_rep h (replicate 25600 Free)" "saddr h = PLUMOS_HEAP_ADDRESS"
    using heap_create_ok [OF _ _ _ _ _ e, of 4096 ?tb] assms(1)
    by (auto simp: PLUMOS_HEAP_ADDRESS_def)
  have "kheap_init m s = Some (s\<lparr>kernel_heap := h\<rparr>)"
    unfolding kheap_init_def n Let_def h(1) by simp
  moreover have "mem_inv (s\<lparr>kernel_heap := h\<rparr>)"
    unfolding mem_inv_def using h(2) assms(2)
    by (intro exI [of _ "replicate 25600 Free"]) (simp add: live_replicate_Free)
  moreover have "encode (replicate n Free) = replicate n 0" for n by (induction n) (simp_all add: encode_def)
  then have "entries (table h) = replicate 25600 0" using h(2) by (simp add: table_rep_def)
  moreover have "count_list (replicate n x) x = n" for n and x :: u8 by (induction n) simp_all
  ultimately show ?thesis using h(2,3) by (auto simp: heap_shape_def free_blocks_def simp del: replicate_Suc)
qed

text \<open>
  \<open>kheap_init\<close> on the 25600-entry table at \<open>0x7E00\<close>, whatever it held, succeeds and leaves a heap
  of 100 MiB that is entirely free and satisfies the invariant of the allocator interface.
\<close>
theorem kheap_init_correct:
  assumes "length m = 25600" "objs s = (\<lambda>_. None)"
  shows "\<exists>h. kheap_init m s = Some (s\<lparr>kernel_heap := h\<rparr>) \<and>
    table_rep h (replicate 25600 Free) \<and> mem_inv (s\<lparr>kernel_heap := h\<rparr>)"
  using kheap_init_ok [OF assms] by blast

theorem kheap_init_correct_witness:
  "\<exists>h. kheap_init (replicate 25600 7) (sample_terminal 0 0) = Some ((sample_terminal 0 0)\<lparr>kernel_heap := h\<rparr>)"
  using kheap_init_correct [of "replicate 25600 7" "sample_terminal 0 0"]
  by (auto simp: sample_terminal_def)


text \<open>A kernel state whose heap has \<open>n\<close> free blocks and no object.\<close>

definition sample_kernel :: "nat \<Rightarrow> kernel" where
  "sample_kernel n = (sample_terminal 0 0)\<lparr>kernel_heap := sample_heap (replicate n Free),
     filesystems := replicate 12 NullFs, file_descriptors := replicate 512 0,
     processes := replicate 12 0\<rparr>"

lemma sample_kernel_inv: "n < 1000 \<Longrightarrow> mem_inv (sample_kernel n)"
  unfolding mem_inv_def using sample_heap_rep [of "replicate n Free"]
  by (intro exI [of _ "replicate n Free"])
    (simp add: sample_kernel_def live_replicate_Free sample_terminal_def)


end
