(* ===== verification/Room.thy ===== *)
theory Room
  imports KHeap
begin

text \<open>
  When an allocation of several blocks succeeds: a heap with enough free blocks, few allocations apart,
  has a run of free blocks.
\<close>

section \<open>Numbers of blocks\<close>

lemma blocks_mult: "blocks_for (4096 * k + m) = k + blocks_for m"
  unfolding blocks_for_def by (simp add: add.assoc)

lemma blocks_bounds: "n \<le> 4096 * blocks_for n" "4096 * blocks_for n \<le> n + 4095"
  using div_mod_decomp [of "n + 4095" 4096] mod_less_divisor [of 4096 "n + 4095"]
  unfolding blocks_for_def by linarith+

lemma blocks_one: "0 < r \<Longrightarrow> r \<le> 4096 \<Longrightarrow> blocks_for r = 1"
  unfolding blocks_for_def by (intro div_nat_eqI) auto

section \<open>Runs of free blocks\<close>

definition used_segs :: "seg list \<Rightarrow> nat" where
  "used_segs ss = length (filter (\<lambda>x. x \<noteq> Free) ss)"

lemma used_segs_simps [simp]:
  "used_segs [] = 0" "used_segs (Free # ss) = used_segs ss" "used_segs (Used k # ss) = Suc (used_segs ss)"
  by (simp_all add: used_segs_def)

text \<open>Between the allocations lie at most one more gap than there are allocations, each shorter than \<open>n\<close>.\<close>

lemma spec_alloc_gaps:
  "m < n \<Longrightarrow> spec_alloc n (replicate m Free @ ss) = None \<Longrightarrow>
     m + count_list (encode ss) 0 \<le> (n - 1) * Suc (used_segs ss)"
proof (induction ss arbitrary: m)
  case (Cons x ss)
  show ?case
  proof (cases x)
    case Free
    have e: "replicate m Free @ x # ss = replicate (Suc m) Free @ ss"
      using replicate_append_same [of m Free] by (simp add: Free)
    show ?thesis
    proof (cases "Suc m = n")
      case True
      then show ?thesis using Cons.prems e spec_alloc_hit [of "Suc m" ss] by simp
    next
      case False
      then have "Suc m + count_list (encode ss) 0 \<le> (n - 1) * Suc (used_segs ss)"
        using Cons.prems(2) False Cons.prems(1) unfolding e by (intro Cons.IH) simp_all
      then show ?thesis by (simp add: Free)
    qed
  next
    case (Used k)
    have "spec_alloc n ss = None" using Cons.prems spec_alloc_skip [OF Cons.prems(1), of k ss] by (simp add: Used)
    then show ?thesis using Cons.IH [of 0] Cons.prems(1) by (simp add: Used count_list_append del: enc_seg.simps(2))
  qed
qed simp

lemma used_free_blocks: "used_segs ss + count_list (encode ss) 0 \<le> blocks ss"
proof (induction ss)
  case (Cons x ss)
  then show ?case by (cases x) (simp_all add: count_list_append del: enc_seg.simps(2))
qed simp

text \<open>After any \<open>k\<close> further blocks are taken there is still a run of \<open>n\<close> blocks.\<close>

definition room :: "kernel \<Rightarrow> nat \<Rightarrow> nat \<Rightarrow> bool" where
  "room s k n \<longleftrightarrow>
     n * (snd (heap_shape (kernel_heap s)) - free_blocks s + k + 1) + k \<le> free_blocks s"

lemma room_step:
  assumes "room s k n" "heap_shape (kernel_heap s') = heap_shape (kernel_heap s)"
    "free_blocks s \<le> free_blocks s' + j" "j + k' \<le> k" "m \<le> n"
  shows "room s' k' m"
proof -
  let ?L = "snd (heap_shape (kernel_heap s))"
  have "m * (?L - free_blocks s' + k' + 1) \<le> n * (?L - free_blocks s + k + 1)"
    by (rule mult_le_mono [OF assms(5)]) (use assms(3,4) in linarith)
  then show ?thesis using assms(1-4) by (simp add: room_def)
qed

lemma kzalloc_run:
  assumes "mem_inv s" "room s k (blocks_for (unat n))" "size_ok n"
  obtains a s' where "kzalloc n z s = Some (a, s')" "a \<noteq> 0" "objs s a = None" "a mod 4096 = 0"
    "objs s' = (objs s)(a \<mapsto> z)" "mem_inv s'" "free_blocks s = free_blocks s' + blocks_for (unat n)" "heap_step s s'"
proof -
  let ?n = "blocks_for (unat n)"
  obtain ss where ss: "table_rep (kernel_heap s) ss" using assms(1) by (auto simp: mem_inv_def)
  have sz: "0 < unat n" "unat n \<le> 2 ^ 31 - 4096" using assms(3) by (auto simp: size_ok_def)
  have n: "0 < ?n" using sz(1) by (simp add: blocks_for_def)
  have e: "entries (table (kernel_heap s)) = encode ss" "length (encode ss) = blocks ss"
    using ss by (simp_all add: table_rep_def)
  have fb: "free_blocks s = count_list (encode ss) 0" by (simp add: free_blocks_def e)
  have "(?n - 1) * Suc (used_segs ss) < count_list (encode ss) 0"
  proof -
    have "(?n - 1) * Suc (used_segs ss) \<le> (?n - 1) * (blocks ss - count_list (encode ss) 0 + 1)"
      by (rule mult_le_mono2) (use used_free_blocks [of ss] in linarith)
    also have "\<dots> < ?n * (blocks ss - count_list (encode ss) 0 + 1)" by (rule mult_less_mono1) (use n in simp_all)
    also have "\<dots> \<le> ?n * (blocks ss - count_list (encode ss) 0 + k + 1)" by simp
    finally show ?thesis using assms(2) e fb by (simp add: room_def heap_shape_def)
  qed
  then have "spec_alloc ?n ss \<noteq> None" using spec_alloc_gaps [of 0 ?n ss, OF n] by (metis add_0 append_Nil not_le replicate_0)
  then obtain p r where r: "spec_alloc ?n ss = Some (p, r)" by (metis not_None_eq surj_pair)
  let ?a = "saddr (kernel_heap s) + of_nat (4096 * p)"
  let ?h = "(kernel_heap s)\<lparr>table := (table (kernel_heap s))\<lparr>entries := encode r\<rparr>\<rparr>"
  have p: "p < blocks ss" using spec_alloc_blocks(2) [OF r n] n by simp
  have nz: "?a \<noteq> 0" using heap_address_inj(2) [OF ss p p] .
  have "\<not> to_int n < 0" using sz(2) by (simp add: sint_eq_unat)
  then have k: "kzalloc n z s = Some (?a, s\<lparr>kernel_heap := ?h, objs := (objs s)(?a \<mapsto> z)\<rparr>)"
    using heap_malloc_cases [OF ss sz] r nz by (simp add: kzalloc_def kmalloc_def del: of_nat_mult)
  obtain xs ys where x: "ss = xs @ replicate ?n Free @ ys" "r = xs @ Used (?n - 1) # ys"
    using spec_alloc_split [OF r] by blast
  have "count_list (encode ss) 0 = count_list (encode r) 0 + ?n"
    unfolding x by (simp add: count_list_append count_list_replicate del: enc_seg.simps(2))
  then show thesis
    using that [OF k nz] kzalloc_spec [OF assms(1,3) k nz] fb ss spec_alloc_blocks(1) [OF r n]
    by (simp add: free_blocks_def heap_shape_def table_rep_def)
qed

lemma live_place:
  assumes "mem_inv s" "low_heap s" "objs s a \<noteq> None"
  shows "a mod 4096 = 0" "unat a \<le> 2 ^ 31" "unat (fst (heap_shape (kernel_heap s))) \<le> unat a"
proof -
  obtain ss where ss: "table_rep (kernel_heap s) ss" "dom (objs s) = block_addr (kernel_heap s) ` live ss"
    using assms(1) by (auto simp: mem_inv_def)
  have "a \<in> dom (objs s)" using assms(3) by auto
  then obtain p where p: "a = block_addr (kernel_heap s) p" "p < blocks ss" unfolding ss(2) using live_less by blast
  show "a mod 4096 = 0" unfolding p(1) by (rule block_addr_aligned [OF ss(1) p(2)])
  have b: "unat (saddr (kernel_heap s)) + 4096 * p < 2 ^ 31"
    using assms(2) ss(1) p(2) by (auto simp: low_heap_def heap_shape_def table_rep_def)
  then have "unat a = unat (saddr (kernel_heap s)) + 4096 * p"
    by (simp add: p(1) block_addr_def unat_word_ariths unat_of_small_nat del: of_nat_mult)
  then show "unat a \<le> 2 ^ 31" "unat (fst (heap_shape (kernel_heap s))) \<le> unat a" using b by (simp_all add: heap_shape_def)
qed

end
