(* ===== verification/PathParser.thy ===== *)
theory PathParser
  imports KHeap
begin

unbundle bit_operations_syntax

text \<open>
  The path parser of \<open>src/src/fs/pparser.c\<close>: \<open>0:/dev/text.txt\<close> becomes a heap-allocated root (the drive
  number) and a linked list of parts, each with its own name buffer. The string pointer that the C
  code advances is the list of the characters that are left.
\<close>

section \<open>Operations\<close>

definition PLUMOS_MAX_PATH :: nat where "PLUMOS_MAX_PATH = 108"

definition pathparser_path_valid_format :: "u8 list \<Rightarrow> bool option" where
  "pathparser_path_valid_format filename =
     do {
       len \<leftarrow> strnlen filename (int PLUMOS_MAX_PATH);
       if \<not> len \<ge> 3 then Some False
       else do {
         c \<leftarrow> arr_get filename 0;
         if \<not> isdigit c then Some False
         else do {
           r \<leftarrow> memcmp (drop 1 filename) (lit '':/'') 2;
           Some (r = 0)
         }
       }
     }"

definition pathparser_get_drive_by_path :: "u8 list \<Rightarrow> (int \<times> u8 list) option" where
  "pathparser_get_drive_by_path path =
     do {
       valid \<leftarrow> pathparser_path_valid_format path;
       if \<not> valid then Some (- EBADPATH, path)
       else do {
         c \<leftarrow> arr_get path 0;
         Some (toenumericdigit c, drop 3 path)
       }
     }"

definition pathparser_create_root :: "int \<Rightarrow> kernel \<Rightarrow> (u32 \<times> kernel) option" where
  "pathparser_create_root drive_number s =
     do {
       (path_r, s) \<leftarrow> kzalloc 8 (OPathRoot \<lparr>pr_drive_no = 0, pr_first = 0\<rparr>) s;
       s \<leftarrow> put path_r (OPathRoot \<lparr>pr_drive_no = drive_number, pr_first = 0\<rparr>) s;
       Some (path_r, s)
     }"

fun part_loop :: "u8 list \<Rightarrow> u32 \<Rightarrow> int \<Rightarrow> kernel \<Rightarrow> (u8 list \<times> int \<times> kernel) option" where
  "part_loop [] result_path_part i s = None"
| "part_loop (c # path) result_path_part i s =
     (if c \<noteq> 0x2F \<and> c \<noteq> 0 then do {
        b \<leftarrow> get_bytes s result_path_part;
        b \<leftarrow> arr_set b i c;
        s \<leftarrow> put result_path_part (OBytes b) s;
        part_loop path result_path_part (i + 1) s
      } else Some (c # path, i, s))"

definition pathparser_get_path_part :: "u8 list \<Rightarrow> kernel \<Rightarrow> (u32 \<times> u8 list \<times> kernel) option" where
  "pathparser_get_path_part path s =
     do {
       (result_path_part, s) \<leftarrow> kzalloc (of_nat PLUMOS_MAX_PATH) (OBytes (replicate PLUMOS_MAX_PATH 0)) s;
       (path, i, s) \<leftarrow> part_loop path result_path_part 0 s;
       let path = (if hd path = 0x2F then tl path else path);
       if i = 0 then do {
         s \<leftarrow> kfree result_path_part s;
         Some (0, path, s)
       } else Some (result_path_part, path, s)
     }"

definition pathparser_parse_path_part ::
  "u32 \<Rightarrow> u8 list \<Rightarrow> kernel \<Rightarrow> (u32 \<times> u8 list \<times> kernel) option" where
  "pathparser_parse_path_part last_part path s =
     do {
       (path_part_str, path, s) \<leftarrow> pathparser_get_path_part path s;
       if path_part_str = 0 then Some (0, path, s)
       else do {
         (part, s) \<leftarrow> kzalloc 8 (OPathPart \<lparr>pp_part = 0, pp_next = 0\<rparr>) s;
         s \<leftarrow> put part (OPathPart \<lparr>pp_part = path_part_str, pp_next = 0\<rparr>) s;
         s \<leftarrow> (if last_part \<noteq> 0 then do {
                 lp \<leftarrow> get_path_part s last_part;
                 put last_part (OPathPart (lp\<lparr>pp_next := part\<rparr>)) s
               } else Some s);
         Some (part, path, s)
       }
     }"

partial_function (option) free_parts :: "u32 \<Rightarrow> kernel \<Rightarrow> kernel option" where
  "free_parts part s =
     (if part \<noteq> 0 then do {
        p \<leftarrow> get_path_part s part;
        let next_part = pp_next p;
        s \<leftarrow> kfree (pp_part p) s;
        s \<leftarrow> kfree part s;
        free_parts next_part s
      } else Some s)"

definition pathparser_free :: "u32 \<Rightarrow> kernel \<Rightarrow> kernel option" where
  "pathparser_free root s =
     do {
       r \<leftarrow> get_path_root s root;
       s \<leftarrow> free_parts (pr_first r) s;
       kfree root s
     }"

partial_function (option) parse_rest :: "u32 \<Rightarrow> u8 list \<Rightarrow> kernel \<Rightarrow> kernel option" where
  "parse_rest part path s =
     (if part \<noteq> 0 then do {
        (part, path, s) \<leftarrow> pathparser_parse_path_part part path s;
        parse_rest part path s
      } else Some s)"

text \<open>The second argument of the C function is unused; every caller passes null.\<close>

definition pathparser_parse :: "u8 list \<Rightarrow> kernel \<Rightarrow> (u32 \<times> kernel) option" where
  "pathparser_parse path s =
     do {
       len \<leftarrow> strlen path;
       if len > int PLUMOS_MAX_PATH then Some (0, s)
       else do {
         (res, tmp_path) \<leftarrow> pathparser_get_drive_by_path path;
         if res < 0 then Some (0, s)
         else do {
           (path_root, s) \<leftarrow> pathparser_create_root res s;
           if path_root = 0 then Some (0, s)
           else do {
             (first_part, tmp_path, s) \<leftarrow> pathparser_parse_path_part 0 tmp_path s;
             if first_part = 0 then Some (path_root, s)
             else do {
               r \<leftarrow> get_path_root s path_root;
               s \<leftarrow> put path_root (OPathRoot (r\<lparr>pr_first := first_part\<rparr>)) s;
               (part, tmp_path, s) \<leftarrow> pathparser_parse_path_part first_part tmp_path s;
               s \<leftarrow> parse_rest part tmp_path s;
               Some (path_root, s)
             }
           }
         }
       }
     }"

declare free_parts.simps [code] parse_rest.simps [code]

section \<open>Specification\<close>

text \<open>The components of a path up to the first empty one.\<close>

fun split_at_slash :: "u8 list \<Rightarrow> u8 list \<times> u8 list" where
  "split_at_slash [] = ([], [])"
| "split_at_slash (c # cs) =
     (if c = 0x2F then ([], cs) else (let (w, r) = split_at_slash cs in (c # w, r)))"

lemma split_at_slash_length: "split_at_slash cs = (w, r) \<Longrightarrow> length w + length r \<le> length cs"
  by (induction cs arbitrary: w r) (auto split: if_splits prod.splits)

function components :: "u8 list \<Rightarrow> u8 list list" where
  "components cs = (let (w, r) = split_at_slash cs in if w = [] then [] else w # components r)"
  by pat_completeness auto
termination by (relation "measure length") (auto dest!: split_at_slash_length [OF sym], metis add_gr_0 length_greater_0_conv less_add_same_cancel2 order_less_le_trans)

declare components.simps [simp del]

definition name_buffer :: "u8 list \<Rightarrow> obj" where
  "name_buffer w = OBytes (w @ replicate (PLUMOS_MAX_PATH - length w) 0)"

text \<open>The linked list of parts from \<open>p\<close> on: pointer, name buffer and name of each.\<close>

fun path_parts :: "(u32 \<Rightarrow> obj option) \<Rightarrow> u32 \<Rightarrow> (u32 \<times> u32 \<times> u8 list) list \<Rightarrow> bool" where
  "path_parts m p [] \<longleftrightarrow> p = 0"
| "path_parts m p ((q, str, name) # xs) \<longleftrightarrow> p = q \<and> q \<noteq> 0 \<and>
     (\<exists>nxt. m q = Some (OPathPart \<lparr>pp_part = str, pp_next = nxt\<rparr>) \<and>
        m str = Some (name_buffer name) \<and>
        length name < PLUMOS_MAX_PATH \<and> path_parts m nxt xs)"

definition part_ptrs :: "(u32 \<times> u32 \<times> u8 list) list \<Rightarrow> u32 list" where
  "part_ptrs xs = concat (map (\<lambda>(q, str, _). [str, q]) xs)"

lemma part_ptrs_simps [simp]:
  "part_ptrs [] = []" "part_ptrs ((q, str, n) # xs) = str # q # part_ptrs xs"
  "part_ptrs (xs @ ys) = part_ptrs xs @ part_ptrs ys"
  by (simp_all add: part_ptrs_def)

subsection \<open>The loops\<close>

lemma part_loop_word:
  assumes "\<forall>x \<in> set w. x \<noteq> 0x2F \<and> x \<noteq> 0" "c = 0x2F \<or> c = 0"
    "objs s p = Some (OBytes b)" "i + length w \<le> length b"
  shows "part_loop (w @ c # rest) p (int i) s = Some (c # rest, int (i + length w),
    s\<lparr>objs := (objs s)(p \<mapsto> OBytes (take i b @ w @ drop (i + length w) b))\<rparr>)"
  using assms
proof (induction w arbitrary: s i b)
  case Nil
  then have "(objs s)(p \<mapsto> OBytes b) = objs s" by auto
  then show ?case using Nil by (cases "c = 0x2F") simp_all
next
  case (Cons x w)
  let ?b = "b[i := x]"
  let ?s = "s\<lparr>objs := (objs s)(p \<mapsto> OBytes ?b)\<rparr>"
  have "part_loop (w @ c # rest) p (int (Suc i)) ?s = Some (c # rest, int (Suc i + length w),
    ?s\<lparr>objs := (objs ?s)(p \<mapsto> OBytes (take (Suc i) ?b @ w @ drop (Suc i + length w) ?b))\<rparr>)"
    using Cons.prems by (intro Cons.IH) auto
  moreover have "take (Suc i) ?b = take i b @ [x]"
    using Cons.prems(4) by (simp add: take_Suc_conv_app_nth)
  moreover have "arr_set b (int i) x = Some ?b" using Cons.prems(4) by simp
  ultimately show ?case using Cons.prems
    by (simp add: get_bytes_def put_def add.commute) (simp add: fun_upd_def)
qed

lemma split_word:
  assumes "0 \<notin> set cs"
  obtains w r where "split_at_slash cs = (w, r)" "\<forall>x \<in> set w. x \<noteq> 0x2F \<and> x \<noteq> 0" "0 \<notin> set r"
    "(\<exists>t. cs = w @ 0x2F # t \<and> r = t) \<or> (cs = w \<and> r = [])"
  using assms
proof (induction cs arbitrary: thesis)
  case Nil
  then show ?case by simp
next
  case (Cons c cs)
  show ?case
  proof (cases "c = 0x2F")
    case True
    then show ?thesis using Cons.prems by (intro Cons.prems(1) [of "[]" cs]) auto
  next
    case False
    obtain w r where "split_at_slash cs = (w, r)" "\<forall>x \<in> set w. x \<noteq> 0x2F \<and> x \<noteq> 0" "0 \<notin> set r"
      "(\<exists>t. cs = w @ 0x2F # t \<and> r = t) \<or> (cs = w \<and> r = [])"
      using Cons.IH Cons.prems(2) by auto
    then show ?thesis using False Cons.prems by (intro Cons.prems(1) [of "c # w" r]) auto
  qed
qed
lemma split_word_end:
  assumes "0 \<notin> set cs" "split_at_slash cs = (w, r)"
  obtains c rest where "cs @ 0 # t = w @ c # rest" "c = 0x2F \<or> c = 0"
    "(if c = 0x2F then rest else c # rest) = r @ 0 # t" "\<forall>x \<in> set w. x \<noteq> 0x2F \<and> x \<noteq> 0"
proof -
  obtain w' r' where w: "split_at_slash cs = (w', r')" "\<forall>x \<in> set w'. x \<noteq> 0x2F \<and> x \<noteq> 0"
    "(\<exists>t. cs = w' @ 0x2F # t \<and> r' = t) \<or> (cs = w' \<and> r' = [])"
    using split_word [OF assms(1)] by metis
  then have e: "w' = w" "r' = r" using assms(2) by simp_all
  from w(3) show thesis
  proof (elim disjE exE conjE)
    fix u assume "cs = w' @ 0x2F # u" "r' = u"
    then show thesis using w(2) e by (intro that [of "0x2F" "r @ 0 # t"]) simp_all
  next
    assume "cs = w'" "r' = []"
    then show thesis using w(2) e by (intro that [of 0 t]) simp_all
  qed
qed

lemma get_path_part_word:
  assumes "mem_inv s" "0 < free_blocks s" "0 \<notin> set cs" "split_at_slash cs = (w, r)" "w \<noteq> []"
    "length w < PLUMOS_MAX_PATH"
  obtains a s' where "pathparser_get_path_part (cs @ 0 # t) s = Some (a, r @ 0 # t, s')"
    "a \<noteq> 0" "objs s a = None" "objs s' = (objs s)(a \<mapsto> name_buffer w)" "mem_inv s'"
    "free_blocks s' = free_blocks s - 1" "heap_step s s'"
proof -
  let ?z = "OBytes (replicate PLUMOS_MAX_PATH 0)"
  obtain a s1 where k: "kzalloc (of_nat PLUMOS_MAX_PATH) ?z s = Some (a, s1)"
    "a \<noteq> 0" "objs s a = None" "objs s1 = (objs s)(a \<mapsto> ?z)" "mem_inv s1"
    "free_blocks s1 = free_blocks s - 1" "heap_step s s1"
    by (rule kzalloc_block [OF assms(1,2), of "of_nat PLUMOS_MAX_PATH" ?z])
      (auto simp: PLUMOS_MAX_PATH_def)
  obtain c rest where c: "cs @ 0 # t = w @ c # rest" "c = 0x2F \<or> c = 0"
    "(if c = 0x2F then rest else c # rest) = r @ 0 # t" "\<forall>x \<in> set w. x \<noteq> 0x2F \<and> x \<noteq> 0"
    by (rule split_word_end [OF assms(3,4), of t])
  let ?s2 = "s1\<lparr>objs := (objs s1)(a \<mapsto> name_buffer w)\<rparr>"
  have l: "part_loop (w @ c # rest) a (int 0) s1 = Some (c # rest, int (0 + length w),
      s1\<lparr>objs := (objs s1)(a \<mapsto> OBytes (take 0 (replicate PLUMOS_MAX_PATH 0) @ w @
        drop (0 + length w) (replicate PLUMOS_MAX_PATH 0)))\<rparr>)"
    using c assms(6) k(4) by (intro part_loop_word) auto
  have "pathparser_get_path_part (cs @ 0 # t) s = Some (a, r @ 0 # t, ?s2)"
    using l assms(5) unfolding c(1)
    by (simp add: pathparser_get_path_part_def k(1) name_buffer_def)
      (use c(3) in \<open>simp split: if_splits\<close>)
  moreover have "objs ?s2 = (objs s)(a \<mapsto> name_buffer w)" using k(4) by simp
  moreover have "mem_inv ?s2" using mem_inv_put [of s1 a] k(4,5) by simp
  moreover have "heap_step s ?s2" using k(7) heap_step_put heap_step_trans by blast
  ultimately show thesis using that k by simp
qed

lemma get_path_part_empty:
  assumes "mem_inv s" "0 < free_blocks s" "0 \<notin> set cs" "split_at_slash cs = ([], r)"
  obtains s' where "pathparser_get_path_part (cs @ 0 # t) s = Some (0, r @ 0 # t, s')"
    "objs s' = objs s" "mem_inv s'" "free_blocks s \<le> free_blocks s'" "heap_step s s'"
proof -
  let ?z = "OBytes (replicate PLUMOS_MAX_PATH 0)"
  obtain a s1 where k: "kzalloc (of_nat PLUMOS_MAX_PATH) ?z s = Some (a, s1)"
    "a \<noteq> 0" "objs s a = None" "objs s1 = (objs s)(a \<mapsto> ?z)" "mem_inv s1"
    "free_blocks s1 = free_blocks s - 1" "heap_step s s1"
    by (rule kzalloc_block [OF assms(1,2), of "of_nat PLUMOS_MAX_PATH" ?z])
      (auto simp: PLUMOS_MAX_PATH_def)
  obtain c rest where c: "cs @ 0 # t = [] @ c # rest" "c = 0x2F \<or> c = 0"
    "(if c = 0x2F then rest else c # rest) = r @ 0 # t"
    by (rule split_word_end [OF assms(3,4), of t])
  have l: "part_loop (cs @ 0 # t) a 0 s1 = Some (c # rest, 0, s1)" unfolding c(1) using c(2) by auto
  have "objs s1 a \<noteq> None" using k(4) by simp
  then obtain s2 where f: "kfree a s1 = Some s2" "objs s2 = (objs s1)(a := None)" "mem_inv s2"
    "free_blocks s1 < free_blocks s2" "heap_step s1 s2"
    using kfree_block [OF k(5)] by blast
  have "pathparser_get_path_part (cs @ 0 # t) s = Some (0, r @ 0 # t, s2)"
    by (simp add: pathparser_get_path_part_def k(1) l f(1)) (use c(3) in \<open>simp split: if_splits\<close>)
  moreover have "objs s2 = objs s" using k(3,4) f(2) by (auto simp: fun_upd_idem)
  moreover have "free_blocks s \<le> free_blocks s2" using f(4) k(6) assms(2) by linarith
  moreover have "heap_step s s2" using k(7) f(5) by (rule heap_step_trans)
  ultimately show thesis using that f(3) by blast
qed
lemma parse_part_empty:
  assumes "mem_inv s" "0 < free_blocks s" "0 \<notin> set cs" "split_at_slash cs = ([], r)"
  obtains s' where "pathparser_parse_path_part lst (cs @ 0 # t) s = Some (0, r @ 0 # t, s')"
    "objs s' = objs s" "mem_inv s'" "free_blocks s \<le> free_blocks s'" "heap_step s s'"
proof -
  obtain s' where "pathparser_get_path_part (cs @ 0 # t) s = Some (0, r @ 0 # t, s')"
    "objs s' = objs s" "mem_inv s'" "free_blocks s \<le> free_blocks s'" "heap_step s s'"
    by (rule get_path_part_empty [OF assms, of t])
  then show thesis using that [of s'] by (simp add: pathparser_parse_path_part_def)
qed

text \<open>What parsing one more part stores: its name, its node and the link from the lst node.\<close>

definition link_part :: "u32 \<Rightarrow> u32 \<Rightarrow> (u32 \<Rightarrow> obj option) \<Rightarrow> (u32 \<Rightarrow> obj option)" where
  "link_part lst q m = (case m lst of
     Some (OPathPart lp) \<Rightarrow> m(lst \<mapsto> OPathPart (lp\<lparr>pp_next := q\<rparr>)) | _ \<Rightarrow> m)"

lemma parse_part_word:
  assumes "mem_inv s" "1 < free_blocks s" "0 \<notin> set cs" "split_at_slash cs = (w, r)" "w \<noteq> []"
    "length w < PLUMOS_MAX_PATH" "lst = 0 \<or> (\<exists>lp. objs s lst = Some (OPathPart lp))"
  obtains str q s' where "pathparser_parse_path_part lst (cs @ 0 # t) s = Some (q, r @ 0 # t, s')"
    "str \<noteq> 0" "q \<noteq> 0" "objs s str = None" "objs s q = None" "str \<noteq> q"
    "objs s' = (link_part lst q (objs s))
       (str \<mapsto> name_buffer w, q \<mapsto> OPathPart \<lparr>pp_part = str, pp_next = 0\<rparr>)"
    "mem_inv s'" "free_blocks s' = free_blocks s - 2" "heap_step s s'"
proof -
  let ?z = "OPathPart \<lparr>pp_part = 0, pp_next = 0\<rparr>"
  have fb0: "0 < free_blocks s" using assms(2) by simp
  obtain str s1 where g: "pathparser_get_path_part (cs @ 0 # t) s = Some (str, r @ 0 # t, s1)"
    "str \<noteq> 0" "objs s str = None" "objs s1 = (objs s)(str \<mapsto> name_buffer w)" "mem_inv s1"
    "free_blocks s1 = free_blocks s - 1" "heap_step s s1"
    by (rule get_path_part_word [OF assms(1) fb0 assms(3-6), of t])
  have fb: "0 < free_blocks s1" using g(6) assms(2) by simp
  obtain q s2 where k: "kzalloc 8 ?z s1 = Some (q, s2)" "q \<noteq> 0" "objs s1 q = None"
    "objs s2 = (objs s1)(q \<mapsto> ?z)" "mem_inv s2" "free_blocks s2 = free_blocks s1 - 1" "heap_step s1 s2"
    by (rule kzalloc_block [OF g(5) fb, of 8 ?z]) auto
  have ne: "q \<noteq> str" using k(3) g(4) by auto
  have qn: "objs s q = None" using k(3) g(4) ne by (simp split: if_splits)
  let ?p = "OPathPart \<lparr>pp_part = str, pp_next = 0\<rparr>"
  have "objs s2 q \<noteq> None" using k(4) by simp
  then obtain s3 where s3: "put q ?p s2 = Some s3" "objs s3 = (objs s2)(q \<mapsto> ?p)"
    "mem_inv s3 = mem_inv s2" "free_blocks s3 = free_blocks s2" "heap_step s2 s3" by (rule put_live)
  have o3: "objs s3 = (objs s)(str \<mapsto> name_buffer w, q \<mapsto> ?p)" using s3(2) k(4) g(4) by simp
  have m3: "mem_inv s3" using s3(3) k(5) by simp
  have f3: "free_blocks s3 = free_blocks s - 2" using s3(4) k(6) g(6) by simp
  have hs: "heap_step s s3" using g(7) k(7) s3(5) heap_step_trans by metis
  show thesis
  proof (cases "lst = 0")
    case True
    have "objs s 0 = None" using assms(1) by (rule mem_inv_nonnull)
    then have l: "link_part lst q (objs s) = objs s" using True by (simp add: link_part_def)
    have p: "pathparser_parse_path_part lst (cs @ 0 # t) s = Some (q, r @ 0 # t, s3)"
      using True g(2) by (simp add: pathparser_parse_path_part_def g(1) k(1) s3(1))
    have o: "objs s3 = (link_part lst q (objs s))(str \<mapsto> name_buffer w, q \<mapsto> ?p)" unfolding l by (rule o3)
    show thesis by (rule that [OF p g(2) k(2) g(3) qn ne [symmetric] o m3 f3 hs])
  next
    case False
    then obtain lp where lp: "objs s lst = Some (OPathPart lp)" using assms(7) by blast
    have d: "lst \<noteq> str" "lst \<noteq> q" using lp g(3) qn by auto
    have l3: "objs s3 lst = Some (OPathPart lp)" using d lp o3 by simp
    then have "objs s3 lst \<noteq> None" by simp
    then obtain s4 where s4: "put lst (OPathPart (lp\<lparr>pp_next := q\<rparr>)) s3 = Some s4"
      "objs s4 = (objs s3)(lst \<mapsto> OPathPart (lp\<lparr>pp_next := q\<rparr>))"
      "mem_inv s4 = mem_inv s3" "free_blocks s4 = free_blocks s3" "heap_step s3 s4" by (rule put_live)
    have "get_path_part s3 lst = Some lp" using l3 by (simp add: get_path_part_def)
    then have p: "pathparser_parse_path_part lst (cs @ 0 # t) s = Some (q, r @ 0 # t, s4)"
      using False g(2) by (simp add: pathparser_parse_path_part_def g(1) k(1) s3(1) s4(1))
    have o: "objs s4 = (link_part lst q (objs s))(str \<mapsto> name_buffer w, q \<mapsto> ?p)"
      unfolding s4(2) o3 using lp d by (simp add: link_part_def fun_upd_twist)
    have m4: "mem_inv s4" using s4(3) m3 by simp
    have f4: "free_blocks s4 = free_blocks s - 2" using s4(4) f3 by simp
    have h4: "heap_step s s4" using hs s4(5) by (rule heap_step_trans)
    show thesis by (rule that [OF p g(2) k(2) g(3) qn ne [symmetric] o m4 f4 h4])
  qed
qed
subsection \<open>Parsing\<close>

lemma path_parts_map_add: "path_parts new p xs \<Longrightarrow> path_parts (m ++ new) p xs"
  by (induction new p xs rule: path_parts.induct) (auto simp: map_add_Some_iff)

definition part_names :: "(u32 \<times> u32 \<times> u8 list) list \<Rightarrow> u8 list list" where
  "part_names xs = map (\<lambda>(q, str, name). name) xs"

lemma part_names_simps [simp]:
  "part_names [] = []" "part_names ((q, str, n) # xs) = n # part_names xs"
  by (simp_all add: part_names_def)

lemma components_split:
  "split_at_slash cs = (w, r) \<Longrightarrow> components cs = (if w = [] then [] else w # components r)"
  by (subst components.simps) simp

lemma split_no_null: "0 \<notin> set cs \<Longrightarrow> split_at_slash cs = (w, r) \<Longrightarrow> 0 \<notin> set r"
  using split_word [of cs] by (metis prod.inject)

text \<open>
  \<open>list_built\<close>: parsing went from \<open>s\<close> to \<open>s'\<close> by allocating the list of parts \<open>xs\<close> that starts at \<open>p\<close>,
  on addresses that held no object, over the objects \<open>m\<close>.
\<close>

definition list_built ::
  "kernel \<Rightarrow> (u32 \<Rightarrow> obj option) \<Rightarrow> u32 \<Rightarrow> (u32 \<times> u32 \<times> u8 list) list \<Rightarrow> kernel \<Rightarrow> bool" where
  "list_built s m p xs s' \<longleftrightarrow> mem_inv s' \<and> heap_step s s' \<and> distinct (part_ptrs xs) \<and>
     (\<exists>new. objs s' = m ++ new \<and> dom new = set (part_ptrs xs) \<and>
        dom new \<inter> dom m = {} \<and> path_parts new p xs)"

lemma list_built_Cons:
  assumes "list_built s1 (m(str \<mapsto> name_buffer w, q \<mapsto> OPathPart \<lparr>pp_part = str, pp_next = nxt\<rparr>)) nxt xs s'"
    "heap_step s s1" "str \<notin> dom m" "q \<notin> dom m" "str \<noteq> q" "q \<noteq> 0" "length w < PLUMOS_MAX_PATH"
  shows "list_built s m q ((q, str, w) # xs) s'"
proof -
  let ?u = "[str \<mapsto> name_buffer w, q \<mapsto> OPathPart \<lparr>pp_part = str, pp_next = nxt\<rparr>]"
  let ?m = "m(str \<mapsto> name_buffer w, q \<mapsto> OPathPart \<lparr>pp_part = str, pp_next = nxt\<rparr>)"
  obtain new where n: "mem_inv s'" "heap_step s1 s'" "distinct (part_ptrs xs)" "objs s' = ?m ++ new"
    "dom new = set (part_ptrs xs)" "dom new \<inter> dom ?m = {}" "path_parts new nxt xs"
    using assms(1) unfolding list_built_def by blast
  have m: "?m = m ++ ?u" by simp
  have nd: "str \<notin> dom new" "q \<notin> dom new" using n(6) by auto
  have du: "dom (?u ++ new) = set (part_ptrs ((q, str, w) # xs))" using n(5) by auto
  have "objs s' = m ++ (?u ++ new)" using n(4) unfolding m by (simp only: map_add_assoc)
  moreover have "dom (?u ++ new) \<inter> dom m = {}" using n(6) assms(3,4) by auto
  moreover have "path_parts (?u ++ new) q ((q, str, w) # xs)"
    using nd assms(5-7) path_parts_map_add [OF n(7), of ?u]
    by (auto simp: map_add_def domIff)
  moreover have "distinct (part_ptrs ((q, str, w) # xs))" using n(3,5) nd assms(5) by auto
  moreover have "heap_step s s'" using assms(2) n(2) by (rule heap_step_trans)
  ultimately show ?thesis unfolding list_built_def using n(1) du by blast
qed

lemma parse_rest_ok:
  assumes "mem_inv s" "objs s q = Some (OPathPart \<lparr>pp_part = str, pp_next = 0\<rparr>)" "0 \<notin> set cs"
    "\<forall>w \<in> set (components cs). length w < PLUMOS_MAX_PATH"
    "2 * length (components cs) < free_blocks s"
  shows "\<exists>s' nxt xs. parse_rest q (cs @ 0 # t) s = Some s' \<and> part_names xs = components cs \<and>
    list_built s ((objs s)(q \<mapsto> OPathPart \<lparr>pp_part = str, pp_next = nxt\<rparr>)) nxt xs s' \<and>
    free_blocks s \<le> free_blocks s' + 2 * length (components cs)"
  using assms
proof (induction cs arbitrary: s q str rule: components.induct)
  case (1 cs)
  obtain w r where sp: "split_at_slash cs = (w, r)" by (cases "split_at_slash cs")
  have q: "q \<noteq> 0" using 1(2,3) mem_inv_nonnull by force
  show ?case
  proof (cases "w = []")
    case True
    have sp0: "split_at_slash cs = ([], r)" using sp True by simp
    have fb: "0 < free_blocks s" using 1(6) by simp
    obtain s' where p: "pathparser_parse_path_part q (cs @ 0 # t) s = Some (0, r @ 0 # t, s')"
      "objs s' = objs s" "mem_inv s'" "free_blocks s \<le> free_blocks s'" "heap_step s s'"
      by (rule parse_part_empty [OF 1(2) fb 1(4) sp0, of q t])
    have "parse_rest q (cs @ 0 # t) s = Some s'"
      using q by (subst parse_rest.simps) (simp add: p(1) parse_rest.simps [of 0])
    moreover have "(objs s)(q \<mapsto> OPathPart \<lparr>pp_part = str, pp_next = 0\<rparr>) = objs s'"
      using p(2) 1(3) by auto
    then have "list_built s ((objs s)(q \<mapsto> OPathPart \<lparr>pp_part = str, pp_next = 0\<rparr>)) 0 [] s'"
      using p(3,5) unfolding list_built_def by (simp add: exI [of _ Map.empty])
    moreover have "part_names [] = components cs" using components_split [OF sp] True by simp
    ultimately show ?thesis using p(4) by fastforce
  next
    case False
    have comps: "components cs = w # components r" using components_split [OF sp] False by simp
    have fb: "1 < free_blocks s" and lw: "length w < PLUMOS_MAX_PATH" using 1(5,6) comps by simp_all
    have lst: "q = 0 \<or> (\<exists>lp. objs s q = Some (OPathPart lp))" using 1(3) by blast
    obtain str1 q1 s1 where p: "pathparser_parse_path_part q (cs @ 0 # t) s = Some (q1, r @ 0 # t, s1)"
      "str1 \<noteq> 0" "q1 \<noteq> 0" "objs s str1 = None" "objs s q1 = None" "str1 \<noteq> q1"
      "objs s1 = (link_part q q1 (objs s))
         (str1 \<mapsto> name_buffer w, q1 \<mapsto> OPathPart \<lparr>pp_part = str1, pp_next = 0\<rparr>)"
      "mem_inv s1" "free_blocks s1 = free_blocks s - 2" "heap_step s s1"
      by (rule parse_part_word [OF 1(2) fb 1(4) sp False lw lst, of t])
    let ?m = "(objs s)(q \<mapsto> OPathPart \<lparr>pp_part = str, pp_next = q1\<rparr>)"
    have lp: "link_part q q1 (objs s) = ?m" using 1(3) by (simp add: link_part_def)
    have r0: "0 \<notin> set r" using split_no_null [OF 1(4) sp] .
    have "objs s1 q1 = Some (OPathPart \<lparr>pp_part = str1, pp_next = 0\<rparr>)" using p(7) by simp
    moreover have "\<forall>w \<in> set (components r). length w < PLUMOS_MAX_PATH" using 1(5) comps by simp
    moreover have "2 * length (components r) < free_blocks s1" using 1(6) comps p(9) by simp
    ultimately obtain s' nxt xs where ih: "parse_rest q1 (r @ 0 # t) s1 = Some s'"
      "part_names xs = components r"
      "list_built s1 ((objs s1)(q1 \<mapsto> OPathPart \<lparr>pp_part = str1, pp_next = nxt\<rparr>)) nxt xs s'"
      "free_blocks s1 \<le> free_blocks s' + 2 * length (components r)"
      using 1(1) [OF sp [symmetric] refl False p(8) _ r0] by blast
    have "parse_rest q (cs @ 0 # t) s = Some s'"
      using q by (subst parse_rest.simps) (simp add: p(1) ih(1))
    moreover have "list_built s ?m q1 ((q1, str1, w) # xs) s'"
    proof (rule list_built_Cons [OF _ p(10)])
      show "list_built s1 (?m(str1 \<mapsto> name_buffer w, q1 \<mapsto> OPathPart \<lparr>pp_part = str1, pp_next = nxt\<rparr>)) nxt xs s'"
        using ih(3) unfolding p(7) lp by simp
      show "str1 \<notin> dom ?m" "q1 \<notin> dom ?m" using p(4,5) 1(3) by auto
    qed (use p(3,6) lw in auto)
    moreover have "free_blocks s \<le> free_blocks s' + 2 * length (components cs)" using ih(4) p(9) comps by simp
    ultimately show ?thesis using comps ih(2) by (metis part_names_simps(2))
  qed
qed
lemma memcmp_done [simp]: "n \<le> 0 \<Longrightarrow> memcmp s t n = Some 0"
  by (cases s; cases t) auto

lemma valid_format_iff:
  assumes "0 \<in> set path"
  shows "pathparser_path_valid_format path =
    Some (case cstr path of d # a # b # _ \<Rightarrow> isdigit d \<and> a = 0x3A \<and> b = 0x2F | _ \<Rightarrow> False)"
proof -
  have l: "strnlen path (int PLUMOS_MAX_PATH) = Some (min (int PLUMOS_MAX_PATH) (int (length (cstr path))))"
    using assms by (intro strnlen_cstr) auto
  obtain t where t: "path = cstr path @ 0 # t" using cstr_terminated [OF assms] by blast
  show ?thesis
  proof (cases "3 \<le> length (cstr path)")
    case False
    then show ?thesis
      by (auto simp: pathparser_path_valid_format_def l split: list.splits)
  next
    case True
    then obtain d a b r where c: "cstr path = d # a # b # r"
      by (metis Suc_le_length_iff numeral_3_eq_3)
    have p: "path = d # a # b # (r @ 0 # t)" using t unfolding c by simp
    have m: "int PLUMOS_MAX_PATH = 108" by (simp add: PLUMOS_MAX_PATH_def)
    have "arr_get path 0 = Some d" unfolding p by (simp add: arr_get_def)
    moreover have "memcmp (drop 1 path) (lit '':/'') 2 =
        Some (if a \<noteq> 0x3A then (if sint a < sint (0x3A :: u8) then -1 else 1)
              else if b \<noteq> 0x2F then (if sint b < sint (0x2F :: u8) then -1 else 1) else 0)"
      unfolding p lit_def by simp
    moreover have "strnlen path 108 = Some (min 108 (int (length (cstr path))))"
      using l unfolding m .
    ultimately show ?thesis using True
      by (simp add: pathparser_path_valid_format_def m c)
  qed
qed

lemma isdigit_nonneg: "isdigit d \<Longrightarrow> \<not> toenumericdigit d < 0"
  by (simp add: isdigit_def toenumericdigit_def)

lemma length_component: "w \<in> set (components cs) \<Longrightarrow> length w \<le> length cs"
proof (induction cs rule: components.induct)
  case (1 cs)
  obtain w1 r where sp: "split_at_slash cs = (w1, r)" by (cases "split_at_slash cs")
  have "length w1 + length r \<le> length cs" using split_at_slash_length [OF sp] .
  then show ?case using 1 sp components_split [OF sp] by (fastforce split: if_splits)
qed

text \<open>\<open>pathparser_parse\<close> up to the first part: the root, with the drive number of the path.\<close>

lemma parse_start:
  assumes "mem_inv s" "0 \<in> set path" "cstr path = d # 0x3A # 0x2F # cs" "isdigit d"
    "length (cstr path) \<le> PLUMOS_MAX_PATH" "0 < free_blocks s"
  obtains root s2 t where "root \<noteq> 0" "objs s root = None" "mem_inv s2"
    "objs s2 = (objs s)(root \<mapsto> OPathRoot \<lparr>pr_drive_no = toenumericdigit d, pr_first = 0\<rparr>)"
    "free_blocks s2 = free_blocks s - 1" "heap_step s s2"
    "pathparser_parse path s = do {
      (first_part, tmp_path, s) \<leftarrow> pathparser_parse_path_part 0 (cs @ 0 # t) s2;
      if first_part = 0 then Some (root, s)
      else do {
        r \<leftarrow> get_path_root s root;
        s \<leftarrow> put root (OPathRoot (r\<lparr>pr_first := first_part\<rparr>)) s;
        (part, tmp_path, s) \<leftarrow> pathparser_parse_path_part first_part tmp_path s;
        s \<leftarrow> parse_rest part tmp_path s;
        Some (root, s)
      }}"
proof -
  let ?root = "OPathRoot \<lparr>pr_drive_no = toenumericdigit d, pr_first = 0\<rparr>"
  let ?z = "OPathRoot \<lparr>pr_drive_no = 0, pr_first = 0\<rparr>"
  obtain t where "path = cstr path @ 0 # t" using cstr_terminated [OF assms(2)] by blast
  then have path: "path = d # 0x3A # 0x2F # cs @ 0 # t" using assms(3) by simp
  have len: "strlen path = Some (int (length (cstr path)))" using assms(2) by (simp add: strlen_cstr)
  have drv: "pathparser_get_drive_by_path path = Some (toenumericdigit d, cs @ 0 # t)"
    using assms(4)
    by (simp add: pathparser_get_drive_by_path_def valid_format_iff [OF assms(2)] assms(3))
      (simp add: path arr_get_def)
  obtain root s1 where k: "kzalloc 8 ?z s = Some (root, s1)" "root \<noteq> 0" "objs s root = None"
    "objs s1 = (objs s)(root \<mapsto> ?z)" "mem_inv s1" "free_blocks s1 = free_blocks s - 1" "heap_step s s1"
    by (rule kzalloc_block [OF assms(1,6), of 8 ?z]) auto
  have "objs s1 root \<noteq> None" using k(4) by simp
  then obtain s2 where s2: "put root ?root s1 = Some s2" "objs s2 = (objs s1)(root \<mapsto> ?root)"
    "mem_inv s2 = mem_inv s1" "free_blocks s2 = free_blocks s1" "heap_step s1 s2" by (rule put_live)
  have len108: "\<not> int (length (cstr path)) > int PLUMOS_MAX_PATH" using assms(5) by simp
  have start: "pathparser_parse path s = do {
      (first_part, tmp_path, s) \<leftarrow> pathparser_parse_path_part 0 (cs @ 0 # t) s2;
      if first_part = 0 then Some (root, s)
      else do {
        r \<leftarrow> get_path_root s root;
        s \<leftarrow> put root (OPathRoot (r\<lparr>pr_first := first_part\<rparr>)) s;
        (part, tmp_path, s) \<leftarrow> pathparser_parse_path_part first_part tmp_path s;
        s \<leftarrow> parse_rest part tmp_path s;
        Some (root, s)
      }}"
    using len108 isdigit_nonneg [OF assms(4)] k(2)
    by (simp add: pathparser_parse_def len drv pathparser_create_root_def k(1) s2(1))
  have "mem_inv s2" "objs s2 = (objs s)(root \<mapsto> ?root)" "free_blocks s2 = free_blocks s - 1" "heap_step s s2"
    using s2(2-5) k(4-7) heap_step_trans by auto
  then show thesis using that [OF k(2,3) _ _ _ _ start] by blast
qed

text \<open>Appending the part just parsed to the root, and the parts that follow it.\<close>

lemma parse_parts:
  assumes "mem_inv s2" "objs s2 = (objs s)(root \<mapsto> OPathRoot \<lparr>pr_drive_no = n, pr_first = 0\<rparr>)" "heap_step s s2"
    "0 \<notin> set cs" "split_at_slash cs = (w, r)" "w \<noteq> []" "2 * length (components cs) < free_blocks s2"
    "\<forall>v \<in> set (components cs). length v < PLUMOS_MAX_PATH"
  obtains q s3 s4 s' xs where "pathparser_parse_path_part 0 (cs @ 0 # t) s2 = Some (q, r @ 0 # t, s3)" "q \<noteq> 0"
    "get_path_root s3 root = Some \<lparr>pr_drive_no = n, pr_first = 0\<rparr>"
    "put root (OPathRoot \<lparr>pr_drive_no = n, pr_first = q\<rparr>) s3 = Some s4" "parse_rest q (r @ 0 # t) s4 = Some s'"
    "part_names xs = components cs"
    "list_built s ((objs s)(root \<mapsto> OPathRoot \<lparr>pr_drive_no = n, pr_first = q\<rparr>)) q xs s'"
    "free_blocks s2 \<le> free_blocks s' + 2 * length (components cs)"
proof -
  let ?root = "\<lambda>p. OPathRoot \<lparr>pr_drive_no = n, pr_first = p\<rparr>"
  have comps: "components cs = w # components r" using components_split [OF assms(5)] assms(6) by simp
  have fb2: "1 < free_blocks s2" using assms(7) comps by simp
  have lw: "length w < PLUMOS_MAX_PATH" using assms(8) comps by simp
  obtain str q s3 where p: "pathparser_parse_path_part 0 (cs @ 0 # t) s2 = Some (q, r @ 0 # t, s3)"
    "str \<noteq> 0" "q \<noteq> 0" "objs s2 str = None" "objs s2 q = None" "str \<noteq> q"
    "objs s3 = (link_part 0 q (objs s2))
       (str \<mapsto> name_buffer w, q \<mapsto> OPathPart \<lparr>pp_part = str, pp_next = 0\<rparr>)"
    "mem_inv s3" "free_blocks s3 = free_blocks s2 - 2" "heap_step s2 s3"
    by (rule parse_part_word [OF assms(1) fb2 assms(4-6) lw disjI1 [OF refl], of t])
  have l0: "link_part 0 q (objs s2) = objs s2" using mem_inv_nonnull [OF assms(1)] by (simp add: link_part_def)
  have p7: "objs s3 = (objs s2)
      (str \<mapsto> name_buffer w, q \<mapsto> OPathPart \<lparr>pp_part = str, pp_next = 0\<rparr>)" using p(7) unfolding l0 .
  have ne: "root \<noteq> str" "root \<noteq> q" using p(4,5) assms(2) by auto
  have r3: "objs s3 root = Some (?root 0)" using ne assms(2) p7 by simp
  then have "objs s3 root \<noteq> None" by simp
  then obtain s4 where s4: "put root (?root q) s3 = Some s4" "objs s4 = (objs s3)(root \<mapsto> ?root q)"
    "mem_inv s4 = mem_inv s3" "free_blocks s4 = free_blocks s3" "heap_step s3 s4" by (rule put_live)
  have m4: "mem_inv s4" using s4(3) p(8) by simp
  have q4: "objs s4 q = Some (OPathPart \<lparr>pp_part = str, pp_next = 0\<rparr>)" using s4(2) p7 ne by simp
  have r0: "0 \<notin> set r" using split_no_null [OF assms(4,5)] .
  have short_r: "\<forall>v \<in> set (components r). length v < PLUMOS_MAX_PATH" using assms(8) comps by simp
  have f4: "2 * length (components r) < free_blocks s4" using assms(7) comps p(9) s4(4) by simp
  obtain s' nxt xs where ih: "parse_rest q (r @ 0 # t) s4 = Some s'" "part_names xs = components r"
    "list_built s4 ((objs s4)(q \<mapsto> OPathPart \<lparr>pp_part = str, pp_next = nxt\<rparr>)) nxt xs s'"
    "free_blocks s4 \<le> free_blocks s' + 2 * length (components r)"
    using parse_rest_ok [OF m4 q4 r0 short_r f4] by blast
  have "list_built s ((objs s)(root \<mapsto> ?root q)) q ((q, str, w) # xs) s'"
  proof (rule list_built_Cons)
    have "(objs s4)(q \<mapsto> OPathPart \<lparr>pp_part = str, pp_next = nxt\<rparr>) =
        (objs s)(root \<mapsto> ?root q, str \<mapsto> name_buffer w, q \<mapsto> OPathPart \<lparr>pp_part = str, pp_next = nxt\<rparr>)"
      using ne p(6) unfolding s4(2) p7 assms(2) by (auto simp: fun_eq_iff)
    then show "list_built s4 ((objs s)(root \<mapsto> ?root q, str \<mapsto> name_buffer w,
        q \<mapsto> OPathPart \<lparr>pp_part = str, pp_next = nxt\<rparr>)) nxt xs s'" using ih(3) by simp
    show "heap_step s s4" using assms(3) p(10) s4(5) heap_step_trans by metis
    show "str \<notin> dom ((objs s)(root \<mapsto> ?root q))" "q \<notin> dom ((objs s)(root \<mapsto> ?root q))"
      using p(4,5) ne assms(2) by auto
  qed (use p(3,6) lw in auto)
  moreover have "part_names ((q, str, w) # xs) = components cs" using comps ih(2) by simp
  moreover have "free_blocks s2 \<le> free_blocks s' + 2 * length (components cs)" using ih(4) s4(4) p(9) comps by simp
  moreover have "get_path_root s3 root = Some \<lparr>pr_drive_no = n, pr_first = 0\<rparr>" using r3 by (simp add: get_path_root_def)
  ultimately show thesis using that [OF p(1,3) _ s4(1) ih(1)] by blast
qed

lemma parse_ok:
  assumes "mem_inv s" "0 \<in> set path" "cstr path = d # 0x3A # 0x2F # cs" "isdigit d"
    "length (cstr path) \<le> PLUMOS_MAX_PATH" "2 * length (components cs) + 1 < free_blocks s"
  shows "\<exists>root s' p xs. pathparser_parse path s = Some (root, s') \<and> root \<noteq> 0 \<and> objs s root = None \<and>
    part_names xs = components cs \<and>
    list_built s ((objs s)(root \<mapsto> OPathRoot \<lparr>pr_drive_no = toenumericdigit d, pr_first = p\<rparr>)) p xs s' \<and>
    free_blocks s \<le> free_blocks s' + 2 * length (components cs) + 1"
proof -
  have "0 \<notin> set (cstr path)" using cstr_nonzero by blast
  then have cs0: "0 \<notin> set cs" unfolding assms(3) by simp
  have fb: "0 < free_blocks s" using assms(6) by simp
  obtain root s2 t where o: "root \<noteq> 0" "objs s root = None" "mem_inv s2"
    "objs s2 = (objs s)(root \<mapsto> OPathRoot \<lparr>pr_drive_no = toenumericdigit d, pr_first = 0\<rparr>)"
    "free_blocks s2 = free_blocks s - 1" "heap_step s s2" and start: "pathparser_parse path s = do {
      (first_part, tmp_path, s) \<leftarrow> pathparser_parse_path_part 0 (cs @ 0 # t) s2;
      if first_part = 0 then Some (root, s)
      else do {
        r \<leftarrow> get_path_root s root;
        s \<leftarrow> put root (OPathRoot (r\<lparr>pr_first := first_part\<rparr>)) s;
        (part, tmp_path, s) \<leftarrow> pathparser_parse_path_part first_part tmp_path s;
        s \<leftarrow> parse_rest part tmp_path s;
        Some (root, s)
      }}"
    by (rule parse_start [OF assms(1-5) fb])
  obtain w r where sp: "split_at_slash cs = (w, r)" by (cases "split_at_slash cs")
  show ?thesis
  proof (cases "w = []")
    case True
    have sp0: "split_at_slash cs = ([], r)" using sp True by simp
    have fb2: "0 < free_blocks s2" using o(5) assms(6) by simp
    obtain s3 where p: "pathparser_parse_path_part 0 (cs @ 0 # t) s2 = Some (0, r @ 0 # t, s3)"
      "objs s3 = objs s2" "mem_inv s3" "free_blocks s2 \<le> free_blocks s3" "heap_step s2 s3"
      by (rule parse_part_empty [OF o(3) fb2 cs0 sp0, of 0 t])
    have "pathparser_parse path s = Some (root, s3)" unfolding start p(1) by simp
    moreover have "list_built s ((objs s)(root \<mapsto> OPathRoot \<lparr>pr_drive_no = toenumericdigit d, pr_first = 0\<rparr>)) 0 [] s3"
      using p(2,3,5) o(4,6) heap_step_trans unfolding list_built_def by (auto intro: exI [of _ Map.empty])
    moreover have "part_names [] = components cs" using components_split [OF sp] True by simp
    moreover have "free_blocks s \<le> free_blocks s3 + 2 * length (components cs) + 1" using p(4) o(5) by simp
    ultimately show ?thesis using o(1,2) by blast
  next
    case False
    have "\<forall>v \<in> set (components cs). length v < PLUMOS_MAX_PATH"
      using length_component [of _ cs] assms(5) unfolding assms(3) by fastforce
    moreover have "2 * length (components cs) < free_blocks s2" using assms(6) o(5) by simp
    ultimately obtain q s3 s4 s' xs where p: "pathparser_parse_path_part 0 (cs @ 0 # t) s2 = Some (q, r @ 0 # t, s3)" "q \<noteq> 0"
      "get_path_root s3 root = Some \<lparr>pr_drive_no = toenumericdigit d, pr_first = 0\<rparr>"
      "put root (OPathRoot \<lparr>pr_drive_no = toenumericdigit d, pr_first = q\<rparr>) s3 = Some s4"
      "parse_rest q (r @ 0 # t) s4 = Some s'" "part_names xs = components cs"
      "list_built s ((objs s)(root \<mapsto> OPathRoot \<lparr>pr_drive_no = toenumericdigit d, pr_first = q\<rparr>)) q xs s'"
      "free_blocks s2 \<le> free_blocks s' + 2 * length (components cs)"
      using parse_parts [OF o(3,4,6) cs0 sp False, of t] by blast
    have "pathparser_parse path s = Option.bind (parse_rest q (r @ 0 # t) s4) (\<lambda>s. Some (root, s))"
      unfolding start p(1) using p(2-4) by (subst parse_rest.simps) (simp add: case_prod_unfold)
    then have "pathparser_parse path s = Some (root, s')" using p(5) by simp
    moreover have "free_blocks s \<le> free_blocks s' + 2 * length (components cs) + 1" using p(8) o(5) by simp
    ultimately show ?thesis using o(1,2) p(6,7) by blast
  qed
qed

subsection \<open>Release\<close>

lemma path_parts_restrict:
  "path_parts m p xs \<Longrightarrow> a \<notin> set (part_ptrs xs) \<Longrightarrow> path_parts (m(a := x)) p xs"
  by (induction m p xs rule: path_parts.induct) auto

lemma path_parts_live: "path_parts m p xs \<Longrightarrow> set (part_ptrs xs) \<subseteq> dom m"
  by (induction m p xs rule: path_parts.induct) auto

text \<open>Walking the list releases exactly its addresses, in order.\<close>

lemma free_parts_free_list:
  assumes "mem_inv s" "path_parts (objs s) p xs" "distinct (part_ptrs xs)"
  shows "free_parts p s = kh.free_list (part_ptrs xs) s"
  using assms
proof (induction xs arbitrary: p s)
  case Nil
  then show ?case by (simp add: free_parts.simps)
next
  case (Cons x xs)
  obtain q str name where x: "x = (q, str, name)" by (cases x) auto
  obtain nxt where l: "p = q" "q \<noteq> 0" "objs s q = Some (OPathPart \<lparr>pp_part = str, pp_next = nxt\<rparr>)"
    "objs s str = Some (name_buffer name)" "path_parts (objs s) nxt xs"
    using Cons.prems(2) by (auto simp: x)
  have d: "str \<noteq> q" "str \<notin> set (part_ptrs xs)" "q \<notin> set (part_ptrs xs)" "distinct (part_ptrs xs)"
    using Cons.prems(3) by (auto simp: x)
  obtain s1 where s1: "kfree str s = Some s1" "objs s1 = (objs s)(str := None)" "mem_inv s1"
    using kh.free_live [OF Cons.prems(1), of str] l(4) by auto
  have "objs s1 q \<noteq> None" using s1(2) l(3) d(1) by simp
  then obtain s2 where s2: "kfree q s1 = Some s2" "objs s2 = (objs s1)(q := None)" "mem_inv s2"
    using kh.free_live [OF s1(3)] by blast
  have "path_parts (objs s2) nxt xs"
    unfolding s1(2) s2(2) using l(5) d by (intro path_parts_restrict)
  then have "free_parts nxt s2 = kh.free_list (part_ptrs xs) s2"
    using Cons.IH s2(3) d(4) by blast
  moreover have "get_path_part s q = Some \<lparr>pp_part = str, pp_next = nxt\<rparr>"
    using l(3) by (simp add: get_path_part_def)
  ultimately show ?case using l(1,2) by (subst free_parts.simps) (simp add: x s1(1) s2(1))
qed

lemma free_ok:
  assumes "list_built s0 (m(root \<mapsto> OPathRoot \<lparr>pr_drive_no = d, pr_first = p\<rparr>)) p xs s" "m root = None"
  shows "\<exists>s'. pathparser_free root s = Some s' \<and> objs s' = m \<and> mem_inv s'"
proof -
  let ?m = "m(root \<mapsto> OPathRoot \<lparr>pr_drive_no = d, pr_first = p\<rparr>)"
  obtain new where n: "mem_inv s" "distinct (part_ptrs xs)" "objs s = ?m ++ new"
    "dom new = set (part_ptrs xs)" "dom new \<inter> dom ?m = {}" "path_parts new p xs"
    using assms(1) unfolding list_built_def by blast
  have r: "objs s root = Some (OPathRoot \<lparr>pr_drive_no = d, pr_first = p\<rparr>)"
    using n(3,5) by (auto simp: map_add_def split: option.split)
  have pp: "path_parts (objs s) p xs" unfolding n(3) using n(6) by (rule path_parts_map_add)
  obtain s1 where s1: "kh.free_list (part_ptrs xs) s = Some s1"
    "objs s1 = objs s |` (- set (part_ptrs xs))" "mem_inv s1"
    using kh.free_list_live [OF n(1,2) path_parts_live [OF pp]] by blast
  have o1: "objs s1 = ?m"
  proof
    fix a
    show "objs s1 a = ?m a"
    proof (cases "a \<in> dom new")
      case True
      then have "a \<notin> dom ?m" using n(5) by blast
      then have "?m a = None" by (simp add: domIff)
      then show ?thesis using True n(4) by (simp add: s1(2) restrict_map_def)
    next
      case False
      then show ?thesis using n(4) by (simp add: s1(2) n(3) restrict_map_def map_add_dom_app_simps(3))
    qed
  qed
  have "objs s1 root \<noteq> None" unfolding o1 by simp
  then obtain s2 where s2: "kfree root s1 = Some s2" "objs s2 = (objs s1)(root := None)" "mem_inv s2"
    using kh.free_live [OF s1(3)] by blast
  have "objs s2 = m" unfolding s2(2) o1 using assms(2) by (simp add: fun_upd_idem)
  moreover have "pathparser_free root s = Some s2"
    using free_parts_free_list [OF n(1) pp n(2)] s1(1) r
    by (simp add: pathparser_free_def get_path_root_def s2(1))
  ultimately show ?thesis using s2(3) by blast
qed
section \<open>Properties\<close>

text \<open>
  C5. Parsing a well-formed path of at most 108 characters, on a heap with enough free blocks, returns
  a root with the drive number and a linked list whose names are the components of the path up to
  the first empty one; root, nodes and names are distinct fresh objects and nothing else changes. A
  name always fits its 108-byte buffer.
\<close>
theorem pathparser_parse_correct:
  assumes "mem_inv s" "0 \<in> set path" "cstr path = d # 0x3A # 0x2F # cs" "isdigit d"
    "length (cstr path) \<le> PLUMOS_MAX_PATH" "2 * length (components cs) + 1 < free_blocks s"
  shows "\<exists>root s' p xs. pathparser_parse path s = Some (root, s') \<and> root \<noteq> 0 \<and> objs s root = None \<and>
    part_names xs = components cs \<and>
    list_built s ((objs s)(root \<mapsto> OPathRoot \<lparr>pr_drive_no = toenumericdigit d, pr_first = p\<rparr>)) p xs s'"
  using parse_ok [OF assms] by blast

lemma sample_kernel_free_blocks: "free_blocks (sample_kernel n) = n"
  by (simp add: free_blocks_def sample_kernel_def sample_heap_def count_list_replicate)

lemma components_example: "components [97, 47, 98] = [[97], [98]]" "components [97, 47, 47, 98] = [[97]]"
  by (simp_all add: components.simps)

theorem pathparser_parse_correct_witness:
  "\<exists>root s' p xs. pathparser_parse (lit ''0:/a/b'') (sample_kernel 9) = Some (root, s') \<and>
     part_names xs = [[97], [98]] \<and> path_parts (objs s') p xs"
proof -
  have c: "cstr (lit ''0:/a/b'') = 48 # 0x3A # 0x2F # [97, 47, 98]" "0 \<in> set (lit ''0:/a/b'')"
    by (simp_all add: lit_def)
  have i: "mem_inv (sample_kernel 9)" by (rule sample_kernel_inv) simp
  obtain root s' p xs where r: "pathparser_parse (lit ''0:/a/b'') (sample_kernel 9) = Some (root, s')"
    "part_names xs = [[97], [98]]"
    "list_built (sample_kernel 9) ((objs (sample_kernel 9))
       (root \<mapsto> OPathRoot \<lparr>pr_drive_no = toenumericdigit 48, pr_first = p\<rparr>)) p xs s'"
    using pathparser_parse_correct [OF i c(2) c(1)]
    by (auto simp: isdigit_def PLUMOS_MAX_PATH_def c components_example sample_kernel_free_blocks)
  then show ?thesis using path_parts_map_add unfolding list_built_def by metis
qed

text \<open>
  C39. \<open>pathparser_free\<close> undoes \<open>pathparser_parse\<close>: after parsing and freeing, the objects on the heap
  are exactly those there were before, and the heap is still well formed.
\<close>
theorem pathparser_parse_free:
  assumes "mem_inv s" "0 \<in> set path" "cstr path = d # 0x3A # 0x2F # cs" "isdigit d"
    "length (cstr path) \<le> PLUMOS_MAX_PATH" "2 * length (components cs) + 1 < free_blocks s"
  shows "\<exists>root s' s''. pathparser_parse path s = Some (root, s') \<and>
    pathparser_free root s' = Some s'' \<and> objs s'' = objs s \<and> mem_inv s''"
proof -
  obtain root s' p xs where r: "pathparser_parse path s = Some (root, s')" "objs s root = None"
    "list_built s ((objs s)(root \<mapsto> OPathRoot \<lparr>pr_drive_no = toenumericdigit d, pr_first = p\<rparr>)) p xs s'"
    using parse_ok [OF assms] by blast
  then show ?thesis using free_ok [OF r(3,2)] by blast
qed

theorem pathparser_parse_free_witness:
  "\<exists>root s' s''. pathparser_parse (lit ''0:/a/b'') (sample_kernel 9) = Some (root, s') \<and>
     pathparser_free root s' = Some s'' \<and> objs s'' = (\<lambda>_. None)"
proof -
  have c: "cstr (lit ''0:/a/b'') = 48 # 0x3A # 0x2F # [97, 47, 98]" "0 \<in> set (lit ''0:/a/b'')"
    by (simp_all add: lit_def)
  have i: "mem_inv (sample_kernel 9)" by (rule sample_kernel_inv) simp
  have o: "objs (sample_kernel 9) = (\<lambda>_. None)" by (simp add: sample_kernel_def sample_terminal_def)
  show ?thesis
    using pathparser_parse_free [OF i c(2) c(1)]
    by (simp add: isdigit_def PLUMOS_MAX_PATH_def c components_example sample_kernel_free_blocks o) blast
qed

text \<open>
  A path that is too long or does not start with a digit, a colon and a slash is rejected with the
  null pointer, and the heap is not touched.
\<close>
theorem pathparser_parse_rejects:
  assumes "0 \<in> set path"
    "length (cstr path) > PLUMOS_MAX_PATH \<or>
     \<not> (\<exists>d cs. cstr path = d # 0x3A # 0x2F # cs \<and> isdigit d)"
  shows "pathparser_parse path s = Some (0, s)"
proof -
  have "strlen path = Some (int (length (cstr path)))" using assms(1) by (simp add: strlen_cstr)
  moreover have "\<not> (\<exists>d cs. cstr path = d # 0x3A # 0x2F # cs \<and> isdigit d) \<Longrightarrow>
      pathparser_get_drive_by_path path = Some (- EBADPATH, path)"
    by (auto simp: pathparser_get_drive_by_path_def valid_format_iff [OF assms(1)] split: list.split)
  ultimately show ?thesis using assms(2) by (auto simp: pathparser_parse_def EBADPATH_def)
qed

theorem pathparser_parse_rejects_witness:
  "pathparser_parse (lit ''a:/x'') (sample_kernel 1) = Some (0, sample_kernel 1) \<and>
   pathparser_parse (lit ''0:x'') (sample_kernel 1) = Some (0, sample_kernel 1)"
  using pathparser_parse_rejects [of "lit ''a:/x''" "sample_kernel 1"] pathparser_parse_rejects [of "lit ''0:x''" "sample_kernel 1"]
  by (simp add: lit_def isdigit_def)

end
