(* ===== verification/Paging.thy ===== *)
theory Paging
  imports KHeap
begin

unbundle bit_operations_syntax

text \<open>
  Paging, \<open>src/src/memory/paging/paging.c\<close>: page directories of 1024 page tables of 1024 entries, all of
  them heap objects (\<open>OWords\<close>), creation and release of an address space, mapping of pages and ranges,
  and the translation of a virtual address. \<open>cr3\<close> is the register that \<open>paging_load_directory\<close>
  (\<open>paging.asm\<close>) loads.
\<close>

section \<open>Operations\<close>

definition PAGING_ACCESS_FROM_ALL :: u32 where "PAGING_ACCESS_FROM_ALL = 0x04"
definition PAGING_IS_WRITEABLE :: u32 where "PAGING_IS_WRITEABLE = 0x02"
definition PAGING_IS_PRESENT :: u32 where "PAGING_IS_PRESENT = 0x01"
definition PAGING_TOTAL_ENTRIES_PER_TABLE :: nat where "PAGING_TOTAL_ENTRIES_PER_TABLE = 1024"
definition PAGING_PAGE_SIZE :: u32 where "PAGING_PAGE_SIZE = 4096"

lemmas paging_consts = PAGING_ACCESS_FROM_ALL_def PAGING_IS_WRITEABLE_def PAGING_IS_PRESENT_def
  PAGING_TOTAL_ENTRIES_PER_TABLE_def PAGING_PAGE_SIZE_def

text \<open>Reading and writing \<open>p[i]\<close> for a pointer to a table of words.\<close>

definition get_word :: "kernel \<Rightarrow> u32 \<Rightarrow> u32 \<Rightarrow> u32 option" where
  "get_word s p i = Option.bind (get_words s p) (\<lambda>ws. arr_get ws (uint i))"

definition set_word :: "u32 \<Rightarrow> u32 \<Rightarrow> u32 \<Rightarrow> kernel \<Rightarrow> kernel option" where
  "set_word p i v s =
     do {
       ws \<leftarrow> get_words s p;
       ws \<leftarrow> arr_set ws (uint i) v;
       put p (OWords ws) s
     }"

text \<open>
  The C code computes the addresses in \<open>int\<close>, which overflows from the 512th table on; the model has
  the wrap-around of the machine addition.
\<close>

fun fill_table :: "nat \<Rightarrow> u32 \<Rightarrow> u32 \<Rightarrow> u8 \<Rightarrow> kernel \<Rightarrow> kernel option" where
  "fill_table 0 entry offset flags s = Some s"
| "fill_table (Suc n) entry offset flags s =
     (let b = of_nat (PAGING_TOTAL_ENTRIES_PER_TABLE - Suc n)
      in do {
        s \<leftarrow> set_word entry b ((offset + b * PAGING_PAGE_SIZE) OR ucast flags) s;
        fill_table n entry offset flags s
      })"

fun fill_directory :: "nat \<Rightarrow> u32 \<Rightarrow> u32 \<Rightarrow> u8 \<Rightarrow> kernel \<Rightarrow> kernel option" where
  "fill_directory 0 directory offset flags s = Some s"
| "fill_directory (Suc n) directory offset flags s =
     (let i = of_nat (PAGING_TOTAL_ENTRIES_PER_TABLE - Suc n)
      in do {
        (entry, s) \<leftarrow> kzalloc (of_nat (4 * PAGING_TOTAL_ENTRIES_PER_TABLE))
          (OWords (replicate PAGING_TOTAL_ENTRIES_PER_TABLE 0)) s;
        s \<leftarrow> fill_table PAGING_TOTAL_ENTRIES_PER_TABLE entry offset flags s;
        s \<leftarrow> set_word directory i (entry OR ucast flags OR PAGING_IS_WRITEABLE) s;
        fill_directory n directory (offset + of_nat PAGING_TOTAL_ENTRIES_PER_TABLE * PAGING_PAGE_SIZE)
          flags s
      })"

definition paging_new_4gb :: "u8 \<Rightarrow> kernel \<Rightarrow> (u32 \<times> kernel) option" where
  "paging_new_4gb flags s =
     do {
       (directory, s) \<leftarrow> kzalloc (of_nat (4 * PAGING_TOTAL_ENTRIES_PER_TABLE))
         (OWords (replicate PAGING_TOTAL_ENTRIES_PER_TABLE 0)) s;
       s \<leftarrow> fill_directory PAGING_TOTAL_ENTRIES_PER_TABLE directory 0 flags s;
       (chunk_4gb, s) \<leftarrow> kzalloc 4 (OChunk 0) s;
       s \<leftarrow> put chunk_4gb (OChunk directory) s;
       Some (chunk_4gb, s)
     }"

definition paging_load_directory :: "u32 \<Rightarrow> kernel \<Rightarrow> kernel" where
  "paging_load_directory directory s = s\<lparr>cr3 := directory\<rparr>"

definition paging_switch :: "u32 \<Rightarrow> kernel \<Rightarrow> kernel option" where
  "paging_switch directory s =
     do {
       d \<leftarrow> get_chunk s directory;
       let s = paging_load_directory d s;
       Some (s\<lparr>current_directory := d\<rparr>)
     }"

definition paging_4gb_chunk_get_directory :: "u32 \<Rightarrow> kernel \<Rightarrow> u32 option" where
  "paging_4gb_chunk_get_directory chunk s = get_chunk s chunk"

definition paging_is_aligned :: "u32 \<Rightarrow> bool" where
  "paging_is_aligned addr \<longleftrightarrow> addr mod PAGING_PAGE_SIZE = 0"

text \<open>The result code and the two indices; the outputs stay 0 when the address is not aligned.\<close>

definition paging_get_indexes :: "u32 \<Rightarrow> int \<times> u32 \<times> u32" where
  "paging_get_indexes virtual_address =
     (if \<not> paging_is_aligned virtual_address then (- EINVARG, 0, 0)
      else (0, virtual_address div (of_nat PAGING_TOTAL_ENTRIES_PER_TABLE * PAGING_PAGE_SIZE),
            virtual_address mod (of_nat PAGING_TOTAL_ENTRIES_PER_TABLE * PAGING_PAGE_SIZE)
              div PAGING_PAGE_SIZE))"

definition paging_set :: "u32 \<Rightarrow> u32 \<Rightarrow> u32 \<Rightarrow> kernel \<Rightarrow> (int \<times> kernel) option" where
  "paging_set directory virt val s =
     (if \<not> paging_is_aligned virt then Some (- EINVARG, s)
      else (let (res, directory_index, table_index) = paging_get_indexes virt
            in if res < 0 then Some (res, s)
               else do {
                 entry \<leftarrow> get_word s directory directory_index;
                 let table = entry AND 0xfffff000;
                 s \<leftarrow> set_word table table_index val s;
                 Some (res, s)
               }))"

fun free_tables :: "nat \<Rightarrow> u32 \<Rightarrow> kernel \<Rightarrow> kernel option" where
  "free_tables 0 chunk s = Some s"
| "free_tables (Suc n) chunk s =
     do {
       d \<leftarrow> get_chunk s chunk;
       entry \<leftarrow> get_word s d (of_nat (PAGING_TOTAL_ENTRIES_PER_TABLE - Suc n));
       let table = entry AND 0xfffff000;
       s \<leftarrow> kfree table s;
       free_tables n chunk s
     }"

definition paging_free_4gb :: "u32 \<Rightarrow> kernel \<Rightarrow> kernel option" where
  "paging_free_4gb chunk s =
     do {
       s \<leftarrow> free_tables PAGING_TOTAL_ENTRIES_PER_TABLE chunk s;
       d \<leftarrow> get_chunk s chunk;
       s \<leftarrow> kfree d s;
       kfree chunk s
     }"

definition paging_align_address :: "u32 \<Rightarrow> u32" where
  "paging_align_address ptr =
     (if ptr mod PAGING_PAGE_SIZE \<noteq> 0 then ptr + PAGING_PAGE_SIZE - ptr mod PAGING_PAGE_SIZE
      else ptr)"

definition paging_align_to_lower_page :: "u32 \<Rightarrow> u32" where
  "paging_align_to_lower_page addr = addr - addr mod PAGING_PAGE_SIZE"

definition paging_map :: "u32 \<Rightarrow> u32 \<Rightarrow> u32 \<Rightarrow> int \<Rightarrow> kernel \<Rightarrow> (int \<times> kernel) option" where
  "paging_map directory virt phys flags s =
     (if virt mod PAGING_PAGE_SIZE \<noteq> 0 \<or> phys mod PAGING_PAGE_SIZE \<noteq> 0 then Some (- EINVARG, s)
      else do {
        d \<leftarrow> get_chunk s directory;
        paging_set d virt (phys OR to_u32 flags) s
      })"

fun map_range_loop ::
  "nat \<Rightarrow> int \<Rightarrow> u32 \<Rightarrow> u32 \<Rightarrow> u32 \<Rightarrow> int \<Rightarrow> kernel \<Rightarrow> (int \<times> kernel) option" where
  "map_range_loop 0 res directory virt phys flags s = Some (res, s)"
| "map_range_loop (Suc n) res directory virt phys flags s =
     do {
       (res, s) \<leftarrow> paging_map directory virt phys flags s;
       if res < 0 then Some (res, s)
       else map_range_loop n res directory (virt + PAGING_PAGE_SIZE) (phys + PAGING_PAGE_SIZE) flags s
     }"

definition paging_map_range ::
  "u32 \<Rightarrow> u32 \<Rightarrow> u32 \<Rightarrow> int \<Rightarrow> int \<Rightarrow> kernel \<Rightarrow> (int \<times> kernel) option" where
  "paging_map_range directory virt phys count flags s =
     map_range_loop (nat count) 0 directory virt phys flags s"

definition paging_map_to ::
  "u32 \<Rightarrow> u32 \<Rightarrow> u32 \<Rightarrow> u32 \<Rightarrow> int \<Rightarrow> kernel \<Rightarrow> (int \<times> kernel) option" where
  "paging_map_to directory virt phys phys_end flags s =
     (if virt mod PAGING_PAGE_SIZE \<noteq> 0 then Some (- EINVARG, s)
      else if phys mod PAGING_PAGE_SIZE \<noteq> 0 then Some (- EINVARG, s)
      else if phys_end mod PAGING_PAGE_SIZE \<noteq> 0 then Some (- EINVARG, s)
      else if phys_end < phys then Some (- EINVARG, s)
      else (let total_bytes = phys_end - phys;
                total_pages = to_int (total_bytes div PAGING_PAGE_SIZE)
            in paging_map_range directory virt phys total_pages flags s))"

definition paging_get :: "u32 \<Rightarrow> u32 \<Rightarrow> kernel \<Rightarrow> u32 option" where
  "paging_get directory virt s =
     (let (_, directory_index, table_index) = paging_get_indexes virt
      in do {
        entry \<leftarrow> get_word s directory directory_index;
        let table = entry AND 0xfffff000;
        get_word s table table_index
      })"

definition paging_get_phyiscal_address :: "u32 \<Rightarrow> u32 \<Rightarrow> kernel \<Rightarrow> u32 option" where
  "paging_get_phyiscal_address directory virt s =
     (let virt_addr_new = paging_align_to_lower_page virt;
          offset = virt - virt_addr_new
      in map_option (\<lambda>e. (e AND 0xfffff000) + offset) (paging_get directory virt_addr_new s))"

section \<open>Words\<close>

lemma page_mask_eq: "(0xfffff000 :: u32) = NOT (mask 12)"
  by (simp add: mask_eq_exp_minus_1)

lemma take_bit_12: "(a :: u32) mod 4096 = take_bit 12 a"
  by (simp add: take_bit_eq_mod)

lemma aligned_bit: "(a :: u32) mod 4096 = 0 \<Longrightarrow> n < 12 \<Longrightarrow> \<not> bit a n"
  unfolding take_bit_12 by (metis bit_take_bit_iff bit_0_eq bot_apply bot_bool_def)

lemma small_bit: "(f :: u32) < 4096 \<Longrightarrow> 12 \<le> n \<Longrightarrow> \<not> bit f n"
proof -
  assume f: "f < 4096" "12 \<le> n"
  then have "unat f < 4096" by (simp add: word_less_nat_alt)
  then have "f mod 4096 = f" by (simp add: word_unat_eq_iff unat_mod_distrib)
  then have "take_bit 12 f = f" by (simp add: take_bit_12)
  then show ?thesis using f(2) by (metis bit_take_bit_iff not_le)
qed

lemma page_of_entry:
  assumes "(a :: u32) mod 4096 = 0" "f < 4096"
  shows "(a OR f) AND 0xfffff000 = a"
proof -
  have "\<not> bit a n" if "n < 12" for n using aligned_bit [OF assms(1) that] .
  moreover have "\<not> bit f n" if "12 \<le> n" for n using small_bit [OF assms(2) that] .
  ultimately show ?thesis unfolding page_mask_eq
    by (intro bit_word_eqI) (metis bit_and_iff bit_not_iff bit_or_iff bit_mask_iff not_le possible_bit_def len_of_numeral_defs(1) possible_bit_word)
qed

lemma unat_bound: "unat (w :: u32) < 2 ^ 32"
proof -
  have "unat w < 2 ^ LENGTH(32)" by (rule unsigned_less)
  then show ?thesis by simp
qed

lemma unat_page_mask: "unat ((w :: u32) AND 0xfffff000) = unat w div 4096 * 4096"
proof -
  have "w AND NOT (mask 12) = push_bit 12 (drop_bit 12 w)"
    by (rule bit_word_eqI) (auto simp: bit_simps)
  also have "\<dots> = (w div 4096) * 4096" by (simp add: push_bit_eq_mult drop_bit_eq_div)
  finally have "w AND 0xfffff000 = (w div 4096) * 4096" unfolding page_mask_eq .
  moreover have "unat (w div 4096) = unat w div 4096" by (simp add: unat_div_distrib)
  moreover have "unat w div 4096 * 4096 < 2 ^ 32" using unat_bound [of w] by simp
  ultimately show ?thesis by (simp add: unat_word_ariths(2) del: unat_div)
qed

lemma aligned_unat: "(v :: u32) mod 4096 = 0 \<longleftrightarrow> 4096 dvd unat v"
proof -
  have "v mod 4096 = 0 \<longleftrightarrow> unat (v mod 4096) = 0" by (simp add: unat_eq_0)
  then show ?thesis by (simp add: unat_mod_distrib dvd_eq_mod_eq_0)
qed
section \<open>Address spaces\<close>

text \<open>
  A well-formed directory: 1024 entries whose addresses are distinct page tables of 1024 entries.
\<close>

definition table_of :: "u32 list \<Rightarrow> nat \<Rightarrow> u32" where
  "table_of d i = d ! i AND 0xfffff000"

definition pd_ok :: "(u32 \<Rightarrow> obj option) \<Rightarrow> u32 \<Rightarrow> bool" where
  "pd_ok m dir \<longleftrightarrow> (\<exists>d. m dir = Some (OWords d) \<and> length d = 1024 \<and>
     (\<forall>i < 1024. (\<exists>t. m (table_of d i) = Some (OWords t) \<and> length t = 1024) \<and> table_of d i \<noteq> dir) \<and>
     inj_on (table_of d) {..<1024})"

text \<open>The number of the page of an address, and the entry of a page.\<close>

definition page :: "u32 \<Rightarrow> nat" where
  "page v = unat v div 4096"

definition page_entry :: "(u32 \<Rightarrow> obj option) \<Rightarrow> u32 \<Rightarrow> nat \<Rightarrow> u32" where
  "page_entry m dir n = (case m dir of Some (OWords d) \<Rightarrow>
     (case m (table_of d (n div 1024)) of Some (OWords t) \<Rightarrow> t ! (n mod 1024) | _ \<Rightarrow> 0) | _ \<Rightarrow> 0)"

text \<open>Only page tables differ.\<close>

definition words_step :: "kernel \<Rightarrow> kernel \<Rightarrow> bool" where
  "words_step s s' \<longleftrightarrow> s' = s\<lparr>objs := objs s'\<rparr> \<and>
     (\<forall>a. objs s' a = objs s a \<or>
        (\<exists>w w'. objs s a = Some (OWords w) \<and> objs s' a = Some (OWords w') \<and> length w = length w'))"

lemma words_step_refl [simp]: "words_step s s"
  by (simp add: words_step_def)

lemma words_step_trans [trans]:
  assumes "words_step s s'" "words_step s' s''"
  shows "words_step s s''"
proof -
  have "s'' = s\<lparr>objs := objs s''\<rparr>"
    using assms unfolding words_step_def by (metis (no_types, lifting) kernel.surjective kernel.update_convs(2))
  moreover have "objs s'' a = objs s a \<or>
      (\<exists>w w'. objs s a = Some (OWords w) \<and> objs s'' a = Some (OWords w') \<and> length w = length w')" for a
    using assms unfolding words_step_def by (metis obj.inject(2) option.inject)
  ultimately show ?thesis unfolding words_step_def by blast
qed

lemma words_step_heap:
  assumes "words_step s s'"
  shows "heap_step s s'"
proof -
  have "s' = s\<lparr>objs := objs s'\<rparr>" using assms by (simp add: words_step_def)
  then show ?thesis by (metis heap_step_put)
qed

lemma words_step_dom: "words_step s s' \<Longrightarrow> dom (objs s') = dom (objs s)"
  unfolding words_step_def dom_def by (metis option.distinct(1))

lemma words_step_inv:
  assumes "words_step s s'"
  shows "mem_inv s' = mem_inv s" "free_blocks s' = free_blocks s"
proof -
  have k: "kernel_heap s' = kernel_heap s" using assms unfolding words_step_def
    by (metis (no_types, lifting) kernel.select_convs(1) kernel.surjective kernel.update_convs(2))
  then show "mem_inv s' = mem_inv s" using words_step_dom [OF assms] by (simp add: mem_inv_def)
  show "free_blocks s' = free_blocks s" using k by (simp add: free_blocks_def)
qed

lemma words_step_keeps:
  "words_step s s' \<Longrightarrow> objs s a = Some x \<Longrightarrow> (\<forall>w. x \<noteq> OWords w) \<Longrightarrow> objs s' a = Some x"
  unfolding words_step_def by (metis option.inject)

text \<open>The page tables of a directory; only they differ.\<close>

definition tables_of :: "(u32 \<Rightarrow> obj option) \<Rightarrow> u32 \<Rightarrow> u32 set" where
  "tables_of m dir = (case m dir of Some (OWords d) \<Rightarrow> table_of d ` {..<1024} | _ \<Rightarrow> {})"

definition tables_step :: "u32 \<Rightarrow> kernel \<Rightarrow> kernel \<Rightarrow> bool" where
  "tables_step dir s s' \<longleftrightarrow> words_step s s' \<and> objs s' dir = objs s dir \<and>
     (\<forall>a. a \<notin> tables_of (objs s) dir \<longrightarrow> objs s' a = objs s a)"

lemma tables_step_refl [simp]: "tables_step dir s s"
  by (simp add: tables_step_def)

lemma tables_step_tables: "tables_step dir s s' \<Longrightarrow> tables_of (objs s') dir = tables_of (objs s) dir"
  by (simp add: tables_step_def tables_of_def)

lemma tables_step_trans [trans]:
  assumes "tables_step dir s s'" "tables_step dir s' s''"
  shows "tables_step dir s s''"
  using assms tables_step_tables [OF assms(1)] words_step_trans unfolding tables_step_def by metis

lemma tables_stepD:
  assumes "tables_step dir s s'"
  shows "words_step s s'" "a \<notin> tables_of (objs s) dir \<Longrightarrow> objs s' a = objs s a"
  using assms by (simp_all add: tables_step_def)

lemma page_less: "page v < 2 ^ 20"
  using unat_bound [of v] by (simp add: page_def)

lemma indexes_page:
  assumes "v mod 4096 = 0"
  shows "paging_get_indexes v = (0, of_nat (page v div 1024), of_nat (page v mod 1024))"
    "uint (of_nat (page v div 1024) :: u32) = int (page v div 1024)"
    "uint (of_nat (page v mod 1024) :: u32) = int (page v mod 1024)"
proof -
  have b: "page v div 1024 < 2 ^ 32" "page v mod 1024 < 2 ^ 32" using page_less [of v] by auto
  have "unat v div 4194304 = page v div 1024" by (simp add: page_def div_mult2_eq [symmetric])
  then have d: "v div 4194304 = of_nat (page v div 1024)"
    using b by (simp add: word_unat_eq_iff unat_div_distrib unat_of_small_nat)
  have "unat v mod 4194304 div 4096 = page v mod 1024"
    unfolding page_def using mod_mult2_eq [of "unat v" 4096 1024] by simp
  then have m: "v mod 4194304 div 4096 = of_nat (page v mod 1024)"
    using b by (simp add: word_unat_eq_iff unat_div_distrib unat_mod_distrib unat_of_small_nat)
  show "paging_get_indexes v = (0, of_nat (page v div 1024), of_nat (page v mod 1024))"
    using assms d m by (simp add: paging_get_indexes_def paging_is_aligned_def paging_consts)
  show "uint (of_nat (page v div 1024) :: u32) = int (page v div 1024)"
    "uint (of_nat (page v mod 1024) :: u32) = int (page v mod 1024)"
    using b by (simp_all add: unsigned_of_nat take_bit_nat_eq_self)
qed

lemma pd_ok_entry:
  assumes "pd_ok m dir" "i < 1024"
  obtains d t where "m dir = Some (OWords d)" "length d = 1024" "m (table_of d i) = Some (OWords t)"
    "length t = 1024" "table_of d i \<noteq> dir" "inj_on (table_of d) {..<1024}"
  using assms unfolding pd_ok_def by blast

lemma paging_get_ok:
  assumes "pd_ok (objs s) dir" "v mod 4096 = 0"
  shows "paging_get dir v s = Some (page_entry (objs s) dir (page v))"
proof -
  have i: "page v div 1024 < 1024" using page_less [of v] by simp
  obtain d t where d: "objs s dir = Some (OWords d)" "length d = 1024"
    "objs s (table_of d (page v div 1024)) = Some (OWords t)" "length t = 1024"
    by (rule pd_ok_entry [OF assms(1) i])
  show ?thesis using d i indexes_page [OF assms(2)]
    by (simp add: paging_get_def get_word_def get_words_def page_entry_def table_of_def)
qed

lemma paging_set_ok:
  assumes "pd_ok (objs s) dir" "v mod 4096 = 0"
  obtains s' where "paging_set dir v val s = Some (0, s')" "tables_step dir s s'" "pd_ok (objs s') dir"
    "\<forall>n < 2 ^ 20. page_entry (objs s') dir n = (if n = page v then val else page_entry (objs s) dir n)"
proof -
  let ?i = "page v div 1024" and ?j = "page v mod 1024"
  have i: "?i < 1024" "?j < 1024" using page_less [of v] by simp_all
  obtain d t where d: "objs s dir = Some (OWords d)" "length d = 1024"
    "objs s (table_of d ?i) = Some (OWords t)" "length t = 1024" "table_of d ?i \<noteq> dir"
    "inj_on (table_of d) {..<1024}"
    by (rule pd_ok_entry [OF assms(1) i(1)])
  let ?t = "table_of d ?i"
  let ?s = "s\<lparr>objs := (objs s)(?t \<mapsto> OWords (t[?j := val]))\<rparr>"
  have "set_word ?t (of_nat ?j) val s = Some ?s"
    using d i indexes_page(3) [OF assms(2)] by (simp add: set_word_def get_words_def put_def)
  moreover have "get_word s dir (of_nat ?i) = Some (d ! ?i)"
    using d i indexes_page(2) [OF assms(2)] by (simp add: get_word_def get_words_def)
  ultimately have "paging_set dir v val s = Some (0, ?s)"
    using assms(2) indexes_page(1) [OF assms(2)]
    by (simp add: paging_set_def paging_is_aligned_def paging_consts table_of_def)
  moreover have "tables_step dir s ?s" using d i(1) by (auto simp: tables_step_def words_step_def tables_of_def)
  moreover have dd: "objs ?s dir = Some (OWords d)" using d by simp
  have "\<exists>t'. objs ?s (table_of d k) = Some (OWords t') \<and> length t' = 1024" if "k < 1024" for k
    using assms(1) that d(1,4) by (auto simp: pd_ok_def)
  then have "pd_ok (objs ?s) dir"
    unfolding pd_ok_def using dd d(2,6) assms(1) d(1) by (auto simp: pd_ok_def)
  moreover have "page_entry (objs ?s) dir n = (if n = page v then val else page_entry (objs s) dir n)"
    if n: "n < 2 ^ 20" for n
  proof -
    have k: "n div 1024 < 1024" using n by simp
    have eq: "n = page v \<longleftrightarrow> n div 1024 = ?i \<and> n mod 1024 = ?j" by (metis div_mod_decomp)
    show ?thesis
    proof (cases "n div 1024 = ?i")
      case True
      then show ?thesis using d i eq
        by (simp add: page_entry_def)
    next
      case False
      then have "table_of d (n div 1024) \<noteq> ?t" using d(6) i k by (auto simp: inj_on_def)
      then show ?thesis using False eq d by (simp add: page_entry_def)
    qed
  qed
  ultimately show thesis by (intro that) blast+
qed
subsection \<open>Mapping ranges\<close>

lemma paging_map_ok:
  assumes "objs s c = Some (OChunk dir)" "pd_ok (objs s) dir" "v mod 4096 = 0" "p mod 4096 = 0"
  obtains s' where "paging_map c v p flags s = Some (0, s')" "tables_step dir s s'" "pd_ok (objs s') dir"
    "\<forall>n < 2 ^ 20.
       page_entry (objs s') dir n = (if n = page v then p OR to_u32 flags else page_entry (objs s) dir n)"
proof -
  obtain s' where s': "paging_set dir v (p OR to_u32 flags) s = Some (0, s')" "tables_step dir s s'"
    "pd_ok (objs s') dir" "\<forall>n < 2 ^ 20.
       page_entry (objs s') dir n = (if n = page v then p OR to_u32 flags else page_entry (objs s) dir n)"
    by (rule paging_set_ok [OF assms(2,3), of "p OR to_u32 flags"])
  have "paging_map c v p flags s = Some (0, s')"
    using assms s'(1) by (simp add: paging_map_def get_chunk_def paging_consts)
  then show thesis using s'(2-4) by (rule that)
qed

lemma page_Suc:
  assumes "v mod 4096 = 0" "Suc (page v) < 2 ^ 20"
  shows "page (v + 4096) = Suc (page v)" "(v + 4096) mod 4096 = 0"
proof -
  have "unat v + 4096 < 2 ^ 32" using assms(2) unfolding page_def by simp
  then have u: "unat (v + 4096) = unat v + 4096" by (simp add: unat_word_ariths)
  then show "page (v + 4096) = Suc (page v)" by (simp add: page_def)
  show "(v + 4096) mod 4096 = 0" using assms(1) u by (simp add: aligned_unat)
qed

lemma aligned_add: "(p :: u32) mod 4096 = 0 \<Longrightarrow> (p + 4096) mod 4096 = 0"
proof -
  assume "p mod 4096 = 0"
  then have "4096 dvd unat p" by (simp add: aligned_unat)
  then have "4096 dvd (unat p + 4096) mod 2 ^ 32" by (simp add: dvd_mod_iff)
  then show ?thesis by (simp add: aligned_unat unat_word_ariths)
qed

lemma map_range_loop_ok:
  assumes "objs s c = Some (OChunk dir)" "pd_ok (objs s) dir" "v mod 4096 = 0" "p mod 4096 = 0"
    "page v + k \<le> 2 ^ 20"
  shows "\<exists>s'. map_range_loop k 0 c v p flags s = Some (0, s') \<and> tables_step dir s s' \<and> pd_ok (objs s') dir \<and>
    (\<forall>n < 2 ^ 20. page_entry (objs s') dir n =
       (if page v \<le> n \<and> n < page v + k then (p + of_nat (4096 * (n - page v))) OR to_u32 flags
        else page_entry (objs s) dir n))"
  using assms
proof (induction k arbitrary: s v p)
  case 0
  then show ?case by (intro exI [of _ s]) auto
next
  case (Suc k)
  obtain s1 where s1: "paging_map c v p flags s = Some (0, s1)" "tables_step dir s s1" "pd_ok (objs s1) dir"
    "\<forall>n < 2 ^ 20.
       page_entry (objs s1) dir n = (if n = page v then p OR to_u32 flags else page_entry (objs s) dir n)"
    by (rule paging_map_ok [OF Suc.prems(1-4), of flags])
  show ?case
  proof (cases k)
    case 0
    then show ?thesis using s1
      by (intro exI [of _ s1]) (auto simp: le_less_Suc_eq)
  next
    case (Suc j)
    then have pg: "Suc (page v) < 2 ^ 20" using Suc.prems(5) by simp
    have c1: "objs s1 c = Some (OChunk dir)" using words_step_keeps [OF tables_stepD(1) [OF s1(2)] Suc.prems(1)] by simp
    obtain s' where s': "map_range_loop k 0 c (v + 4096) (p + 4096) flags s1 = Some (0, s')"
      "tables_step dir s1 s'" "pd_ok (objs s') dir"
      "\<forall>n < 2 ^ 20. page_entry (objs s') dir n =
        (if Suc (page v) \<le> n \<and> n < Suc (page v) + k
         then (p + 4096 + of_nat (4096 * (n - Suc (page v)))) OR to_u32 flags
         else page_entry (objs s1) dir n)"
      using Suc.IH [OF c1 s1(3) page_Suc(2) [OF Suc.prems(3) pg] aligned_add [OF Suc.prems(4)]]
        Suc.prems(5) unfolding page_Suc(1) [OF Suc.prems(3) pg] by auto
    have "page_entry (objs s') dir n =
       (if page v \<le> n \<and> n < page v + Suc k then (p + of_nat (4096 * (n - page v))) OR to_u32 flags
        else page_entry (objs s) dir n)" if n: "n < 2 ^ 20" for n
    proof -
      consider "n = page v" | "Suc (page v) \<le> n" "n < Suc (page v) + k"
        | "n < page v \<or> page v + Suc k \<le> n" by linarith
      then show ?thesis
      proof cases
        case 2
        then obtain m where m: "n = Suc (page v) + m" by (metis le_Suc_ex)
        then show ?thesis using 2 s'(4) n by (simp add: algebra_simps)
      qed (use s'(4) s1(4) n in auto)
    qed
    then show ?thesis using s1(1,2) s'(1-3)
      by (intro exI [of _ s']) (auto simp: paging_consts intro: tables_step_trans)
  qed
qed

lemma paging_map_to_ok:
  assumes "objs s c = Some (OChunk dir)" "pd_ok (objs s) dir" "v mod 4096 = 0" "p mod 4096 = 0"
    "e mod 4096 = 0" "p \<le> e" "unat v + unat (e - p) \<le> 2 ^ 32"
  shows "\<exists>s'. paging_map_to c v p e flags s = Some (0, s') \<and> tables_step dir s s' \<and> pd_ok (objs s') dir \<and>
    (\<forall>n < 2 ^ 20. page_entry (objs s') dir n =
       (if page v \<le> n \<and> n < page v + unat (e - p) div 4096
        then (p + of_nat (4096 * (n - page v))) OR to_u32 flags
        else page_entry (objs s) dir n))"
proof -
  let ?k = "unat (e - p) div 4096"
  have d: "unat (e - p) = unat e - unat p" using assms(6) by (simp add: unat_sub)
  have kb: "?k < 2 ^ 31" using unat_bound [of "e - p"] by simp
  have "unat ((e - p) div 4096) = ?k" by (simp add: unat_div_distrib)
  then have t: "to_int ((e - p) div 4096) = int ?k" using kb by (simp add: sint_eq_unat del: unat_div)
  have "4096 dvd unat v" "4096 dvd unat (e - p)"
    using assms(3-5) d by (simp_all add: aligned_unat dvd_diff_nat)
  then have "page v + ?k = (unat v + unat (e - p)) div 4096" by (auto simp: page_def)
  also have "\<dots> \<le> 2 ^ 32 div 4096" using assms(7) by (rule div_le_mono)
  finally have "page v + ?k \<le> 2 ^ 20" by simp
  note loop = map_range_loop_ok [OF assms(1-4) this, of flags]
  have "paging_map_to c v p e flags s = map_range_loop ?k 0 c v p flags s"
    using assms(3-5) leD [OF assms(6)] unfolding paging_map_to_def paging_map_range_def paging_consts t
    by (simp only: t Let_def nat_int simp_thms if_False)
  then show ?thesis using loop by simp
qed

lemma paging_translate:
  assumes "pd_ok (objs s) dir"
  shows "paging_get_phyiscal_address dir v s =
    Some ((page_entry (objs s) dir (page v) AND 0xfffff000) + v mod 4096)"
proof -
  let ?l = "paging_align_to_lower_page v"
  have "v mod 4096 \<le> v" by (simp add: word_le_nat_alt unat_mod_distrib)
  then have u: "unat ?l = unat v - unat v mod 4096"
    by (simp add: paging_align_to_lower_page_def paging_consts unat_sub unat_mod_distrib)
  then have "unat ?l = unat v div 4096 * 4096" by (simp add: minus_mod_eq_div_mult)
  then have "?l mod 4096 = 0" "page ?l = page v" by (simp_all add: aligned_unat page_def)
  then have "paging_get dir ?l s = Some (page_entry (objs s) dir (page v))"
    using paging_get_ok [OF assms] by metis
  moreover have "v - ?l = v mod 4096" by (simp add: paging_align_to_lower_page_def paging_consts)
  ultimately show ?thesis by (simp add: paging_get_phyiscal_address_def Let_def)
qed
subsection \<open>Creating an address space\<close>

lemma set_word_ok:
  assumes "objs s p = Some (OWords ws)" "i < length ws" "i < 2 ^ 32"
  obtains s' where "set_word p (of_nat i) v s = Some s'" "objs s' = (objs s)(p \<mapsto> OWords (ws[i := v]))"
    "mem_inv s' = mem_inv s" "free_blocks s' = free_blocks s" "heap_step s s'"
proof -
  have "uint (of_nat i :: u32) = int i"
    using assms(3) by (simp add: unsigned_of_nat take_bit_nat_eq_self)
  then have "set_word p (of_nat i) v s = put p (OWords (ws[i := v])) s"
    using assms(1,2) by (simp add: set_word_def get_words_def)
  moreover have "objs s p \<noteq> None" using assms(1) by simp
  then obtain s' where "put p (OWords (ws[i := v])) s = Some s'"
    "objs s' = (objs s)(p \<mapsto> OWords (ws[i := v]))" "mem_inv s' = mem_inv s"
    "free_blocks s' = free_blocks s" "heap_step s s'" by (rule put_live)
  ultimately show thesis using that by simp
qed

definition page_table :: "u32 \<Rightarrow> u8 \<Rightarrow> u32 list" where
  "page_table offset flags = map (\<lambda>b. (offset + of_nat b * 4096) OR ucast flags) [0..<1024]"

lemma length_page_table [simp]: "length (page_table offset flags) = 1024"
  by (simp add: page_table_def)

lemma fill_table_ok:
  assumes "objs s e = Some (OWords t)" "length t = 1024" "n \<le> 1024"
    "take (1024 - n) t = take (1024 - n) (page_table offset flags)"
  shows "\<exists>s'. fill_table n e offset flags s = Some s' \<and>
    objs s' = (objs s)(e \<mapsto> OWords (page_table offset flags)) \<and>
    mem_inv s' = mem_inv s \<and> free_blocks s' = free_blocks s \<and> heap_step s s'"
  using assms
proof (induction n arbitrary: s t)
  case 0
  then have "(objs s)(e \<mapsto> OWords (page_table offset flags)) = objs s" by (auto simp: fun_upd_idem)
  then show ?case by simp
next
  case (Suc n)
  let ?i = "1024 - Suc n"
  let ?v = "(offset + of_nat ?i * 4096) OR ucast flags"
  have i: "?i < length t" "?i < 2 ^ 32" using Suc.prems(2) by auto
  obtain s1 where s1: "set_word e (of_nat ?i) ?v s = Some s1" "objs s1 = (objs s)(e \<mapsto> OWords (t[?i := ?v]))"
    "mem_inv s1 = mem_inv s" "free_blocks s1 = free_blocks s" "heap_step s s1"
    by (rule set_word_ok [OF Suc.prems(1) i, of ?v])
  have sn: "1024 - n = Suc ?i" using Suc.prems(3) by simp
  have pv: "page_table offset flags ! ?i = ?v" using i(1) Suc.prems(2) by (simp add: page_table_def)
  have "take (1024 - n) (t[?i := ?v]) = take (1024 - n) (page_table offset flags)"
    unfolding sn using i(1) Suc.prems(2,4) pv by (simp add: take_Suc_conv_app_nth)
  moreover have e1: "objs s1 e = Some (OWords (t[?i := ?v]))" using s1(2) by simp
  moreover have l1: "length (t[?i := ?v]) = 1024" using Suc.prems(2) by simp
  moreover have n1: "n \<le> 1024" using Suc.prems(3) by simp
  ultimately obtain s' where s': "fill_table n e offset flags s1 = Some s'"
    "objs s' = (objs s1)(e \<mapsto> OWords (page_table offset flags))"
    "mem_inv s' = mem_inv s1" "free_blocks s' = free_blocks s1" "heap_step s1 s'"
    using Suc.IH [OF e1 l1 n1] by blast
  have "fill_table (Suc n) e offset flags s = Some s'"
    using s1(1) s'(1) by (simp add: Let_def paging_consts)
  moreover have "objs s' = (objs s)(e \<mapsto> OWords (page_table offset flags))"
    unfolding s'(2) s1(2) by simp
  moreover have "mem_inv s' = mem_inv s" "free_blocks s' = free_blocks s" using s1(3,4) s'(3,4) by simp_all
  ultimately show ?case using heap_step_trans [OF s1(5) s'(5)] by blast
qed

lemma flags_small: "ucast (f :: u8) < (4096 :: u32)" "ucast (f :: u8) OR (2 :: u32) < 4096"
proof -
  have b: "\<not> bit (ucast f :: u32) n" if "12 \<le> n" for n
    using that by (auto simp: bit_simps dest: bit_imp_le_length)
  have small: "w < 4096" if "\<And>n. 12 \<le> n \<Longrightarrow> \<not> bit w n" for w :: u32
  proof -
    have "take_bit 12 w = w" using that by (intro bit_word_eqI) (auto simp: bit_simps, meson not_less)
    then have "w mod 4096 = w" by (simp add: take_bit_12)
    then have "unat (w mod 4096) = unat w" by (rule arg_cong)
    then have "unat w mod 4096 = unat w" by (simp add: unat_mod_distrib)
    then have "unat w < 4096" by (simp add: mod_eq_self_iff_div_eq_0)
    then show ?thesis by (simp add: word_less_nat_alt)
  qed
  show "ucast f < (4096 :: u32)" using b by (rule small)
  have "\<not> bit (ucast f OR (2 :: u32)) n" if "12 \<le> n" for n
    using b [OF that] small_bit [OF _ that, of 2] by (auto simp: bit_or_iff word_less_nat_alt)
  then show "ucast f OR (2 :: u32) < 4096" by (rule small)
qed
lemma fill_directory_ok:
  assumes "mem_inv s" "objs s dir = Some (OWords d)" "length d = 1024" "n \<le> 1024" "n \<le> free_blocks s"
  shows "\<exists>s' d' new. fill_directory n dir offset flags s = Some s' \<and> mem_inv s' \<and> heap_step s s' \<and>
    free_blocks s' = free_blocks s - n \<and> length d' = 1024 \<and>
    (\<forall>j < 1024 - n. d' ! j = d ! j) \<and>
    objs s' = ((objs s)(dir \<mapsto> OWords d')) ++ new \<and> dom new \<inter> dom (objs s) = {} \<and>
    dom new = table_of d' ` {1024 - n..<1024} \<and> inj_on (table_of d') {1024 - n..<1024} \<and>
    (\<forall>j < n. new (table_of d' (1024 - n + j)) =
       Some (OWords (page_table (offset + of_nat j * 0x400000) flags)))"
  using assms
proof (induction n arbitrary: s d offset)
  case 0
  have "objs s = ((objs s)(dir \<mapsto> OWords d)) ++ Map.empty" using 0(2) by auto
  then show ?case using 0
    by (intro exI [of _ s] exI [of _ d] exI [of _ Map.empty]) simp
next
  case (Suc n)
  let ?i = "1024 - Suc n"
  let ?z = "OWords (replicate PAGING_TOTAL_ENTRIES_PER_TABLE 0)"
  have i: "?i < length d" "?i < 2 ^ 32" "?i < 1024" using Suc.prems(3) by auto
  have fb: "0 < free_blocks s" using Suc.prems(5) by simp
  obtain e s1 where s1: "kzalloc (of_nat (4 * PAGING_TOTAL_ENTRIES_PER_TABLE)) ?z s = Some (e, s1)"
    "e \<noteq> 0" "objs s e = None" "e mod 4096 = 0" "objs s1 = (objs s)(e \<mapsto> ?z)" "mem_inv s1"
    "free_blocks s1 = free_blocks s - 1" "heap_step s s1"
    by (rule kzalloc_block [OF Suc.prems(1) fb, of "of_nat (4 * PAGING_TOTAL_ENTRIES_PER_TABLE)" ?z])
      (simp_all add: paging_consts)
  have e1: "objs s1 e = Some (OWords (replicate 1024 0))" using s1(5) by (simp add: paging_consts)
  obtain s2 where s2: "fill_table 1024 e offset flags s1 = Some s2"
    "objs s2 = (objs s1)(e \<mapsto> OWords (page_table offset flags))" "mem_inv s2 = mem_inv s1"
    "free_blocks s2 = free_blocks s1" "heap_step s1 s2"
    using fill_table_ok [OF e1, of 1024 offset flags] by auto
  have ne: "e \<noteq> dir" using s1(3) Suc.prems(2) by auto
  have d2: "objs s2 dir = Some (OWords d)" using s2(2) s1(5) ne Suc.prems(2) by simp
  let ?v = "e OR ucast flags OR PAGING_IS_WRITEABLE"
  obtain s3 where s3: "set_word dir (of_nat ?i) ?v s2 = Some s3" "objs s3 = (objs s2)(dir \<mapsto> OWords (d[?i := ?v]))"
    "mem_inv s3 = mem_inv s2" "free_blocks s3 = free_blocks s2" "heap_step s2 s3"
    by (rule set_word_ok [OF d2 i(1,2), of ?v])
  let ?d = "d[?i := ?v]"
  let ?new1 = "[e \<mapsto> OWords (page_table offset flags)]"
  have o3: "objs s3 = ((objs s)(dir \<mapsto> OWords ?d)) ++ ?new1"
    unfolding s3(2) s2(2) s1(5) using ne by (simp add: fun_upd_twist)
  have m3: "mem_inv s3" and f3: "free_blocks s3 = free_blocks s - 1" and h3: "heap_step s s3"
    using s3(3,4) s2(3,4) s1(6,7) heap_step_trans [OF heap_step_trans [OF s1(8) s2(5)] s3(5)] by simp_all
  have d3: "objs s3 dir = Some (OWords ?d)" using s3(2) by simp
  have l3: "length ?d = 1024" "n \<le> 1024" "n \<le> free_blocks s3"
    using Suc.prems(3-5) f3 by simp_all
  obtain s' d' new where ih: "fill_directory n dir (offset + 0x400000) flags s3 = Some s'" "mem_inv s'"
    "heap_step s3 s'" "free_blocks s' = free_blocks s3 - n" "length d' = 1024"
    "\<forall>j < 1024 - n. d' ! j = ?d ! j" "objs s' = ((objs s3)(dir \<mapsto> OWords d')) ++ new"
    "dom new \<inter> dom (objs s3) = {}" "dom new = table_of d' ` {1024 - n..<1024}"
    "inj_on (table_of d') {1024 - n..<1024}"
    "\<forall>j < n. new (table_of d' (1024 - n + j)) =
       Some (OWords (page_table (offset + 0x400000 + of_nat j * 0x400000) flags))"
    using Suc.IH [OF m3 d3 l3, of "offset + 0x400000"] by blast
  have sn: "1024 - n = Suc ?i" using Suc.prems(4) by simp
  have di: "d' ! ?i = ?v" using ih(6) sn i(1) by simp
  have ti: "table_of d' ?i = e"
    unfolding table_of_def di using page_of_entry [OF s1(4) flags_small(2) [of flags]]
    by (simp add: paging_consts or.assoc)
  have en: "e \<notin> dom new" using ih(8) o3 by auto
  let ?new = "?new1 ++ new"
  have dn: "dom ?new = insert e (dom new)" by auto
  have iv: "{?i..<1024} = insert ?i {Suc ?i..<1024}" using i(3) by auto
  have "dom ?new = table_of d' ` {?i..<1024}" unfolding dn ih(9) sn iv using ti by simp
  moreover have "inj_on (table_of d') {?i..<1024}"
    unfolding iv using ih(9,10) en ti unfolding sn by (simp add: inj_on_insert)
  moreover have "objs s' = ((objs s)(dir \<mapsto> OWords d')) ++ ?new"
    unfolding ih(7) o3 using ne
    by (auto simp: map_add_def fun_eq_iff split: option.split)
  moreover have "dom ?new \<inter> dom (objs s) = {}"
    unfolding dn using ih(8) o3 s1(3) by (auto simp: domIff)
  moreover have "\<forall>j < ?i. d' ! j = d ! j" using ih(6) sn by simp
  moreover have "?new (table_of d' (?i + j)) =
      Some (OWords (page_table (offset + of_nat j * 0x400000) flags))" if "j < Suc n" for j
  proof (cases j)
    case 0
    then show ?thesis using en ti by (simp add: map_add_def domIff)
  next
    case (Suc k)
    then have "new (table_of d' (1024 - n + k)) =
        Some (OWords (page_table (offset + of_nat j * 0x400000) flags))"
      using ih(11) that by (simp add: algebra_simps)
    then show ?thesis unfolding sn using Suc by simp
  qed
  moreover have "fill_directory (Suc n) dir offset flags s = Some s'"
    using s1(1) s2(1) s3(1) ih(1) by (simp add: Let_def paging_consts)
  moreover have "free_blocks s' = free_blocks s - Suc n" using ih(4) f3 by simp
  ultimately show ?case using ih(2,5) heap_step_trans [OF h3 ih(3)] by blast
qed
text \<open>
  \<open>identity_space s m c dir flags s'\<close>: over the objects \<open>m\<close>, \<open>s'\<close> has a new chunk \<open>c\<close> with a new directory
  \<open>dir\<close> whose tables map every page to itself.
\<close>

definition identity_space ::
  "(u32 \<Rightarrow> obj option) \<Rightarrow> u32 \<Rightarrow> u32 \<Rightarrow> u8 \<Rightarrow> (u32 \<Rightarrow> obj option) \<Rightarrow> bool" where
  "identity_space m c dir flags m' \<longleftrightarrow> m' c = Some (OChunk dir) \<and> pd_ok m' dir \<and>
     m c = None \<and> m dir = None \<and> c \<noteq> dir \<and>
     (\<forall>n < 2 ^ 20. page_entry m' dir n = of_nat (4096 * n) OR ucast flags) \<and>
     (\<exists>d. m' dir = Some (OWords d) \<and> c \<notin> table_of d ` {..<1024} \<and>
        dom m' = dom m \<union> {c, dir} \<union> table_of d ` {..<1024} \<and> dom m \<inter> table_of d ` {..<1024} = {}) \<and>
     (\<forall>a \<in> dom m. m' a = m a)"

lemma identity_facts:
  assumes "identity_space m c dir flags m'"
  shows "m' c = Some (OChunk dir)" "pd_ok m' dir"
    "\<forall>n < 2 ^ 20. page_entry m' dir n = of_nat (4096 * n) OR ucast flags"
proof -
  note i = assms [unfolded identity_space_def]
  show "m' c = Some (OChunk dir)" by (rule conjunct1 [OF i])
  show "pd_ok m' dir" by (rule conjunct1 [OF conjunct2 [OF i]])
  show "\<forall>n < 2 ^ 20. page_entry m' dir n = of_nat (4096 * n) OR ucast flags"
    using i by (elim conjE)
qed

lemma identity_fresh:
  assumes "identity_space m c dir flags m'"
  shows "insert dir (tables_of m' dir) \<inter> dom m = {}"
proof -
  obtain d where "m' dir = Some (OWords d)" "dom m \<inter> table_of d ` {..<1024} = {}" "m dir = None"
    using assms unfolding identity_space_def by blast
  then show ?thesis by (auto simp: tables_of_def)
qed

text \<open>An address space depends on the directory and its tables only.\<close>

lemma pd_ok_tables:
  assumes "pd_ok m dir"
  shows "insert dir (tables_of m dir) \<subseteq> dom m"
proof -
  obtain d where "m dir = Some (OWords d)" "\<And>i. i < 1024 \<Longrightarrow> \<exists>t. m (table_of d i) = Some (OWords t)"
    using assms unfolding pd_ok_def by blast
  then show ?thesis by (fastforce simp: tables_of_def)
qed

lemma same_space:
  assumes "\<And>a. a \<in> insert dir (tables_of m dir) \<Longrightarrow> m' a = m a" "pd_ok m dir"
  shows "pd_ok m' dir" "tables_of m' dir = tables_of m dir"
    "n < 2 ^ 20 \<Longrightarrow> page_entry m' dir n = page_entry m dir n"
proof -
  obtain d where d: "m dir = Some (OWords d)" "length d = 1024" "inj_on (table_of d) {..<1024}"
    "\<And>i. i < 1024 \<Longrightarrow> (\<exists>t. m (table_of d i) = Some (OWords t) \<and> length t = 1024) \<and> table_of d i \<noteq> dir"
    using assms(2) unfolding pd_ok_def by blast
  have d': "m' dir = Some (OWords d)" using assms(1) [of dir] d(1) by simp
  have t: "m' (table_of d i) = m (table_of d i)" if "i < 1024" for i
    by (rule assms(1)) (use d(1) that in \<open>simp add: tables_of_def\<close>)
  show "pd_ok m' dir" unfolding pd_ok_def using d' d(2,3,4) t by metis
  show "tables_of m' dir = tables_of m dir" using d(1) d' by (simp add: tables_of_def)
  show "n < 2 ^ 20 \<Longrightarrow> page_entry m' dir n = page_entry m dir n"
    using d(1) d' t [of "n div 1024"] by (simp add: page_entry_def)
qed

lemma paging_new_4gb_ok:
  assumes "mem_inv s" "1026 \<le> free_blocks s"
  shows "\<exists>c dir s'. paging_new_4gb flags s = Some (c, s') \<and> mem_inv s' \<and> heap_step s s' \<and>
    free_blocks s' = free_blocks s - 1026 \<and> c \<noteq> 0 \<and> identity_space (objs s) c dir flags (objs s')"
proof -
  let ?z = "OWords (replicate PAGING_TOTAL_ENTRIES_PER_TABLE 0)"
  have fb: "0 < free_blocks s" using assms(2) by simp
  obtain dir s1 where s1: "kzalloc (of_nat (4 * PAGING_TOTAL_ENTRIES_PER_TABLE)) ?z s = Some (dir, s1)"
    "dir \<noteq> 0" "objs s dir = None" "dir mod 4096 = 0" "objs s1 = (objs s)(dir \<mapsto> ?z)" "mem_inv s1"
    "free_blocks s1 = free_blocks s - 1" "heap_step s s1"
    by (rule kzalloc_block [OF assms(1) fb, of "of_nat (4 * PAGING_TOTAL_ENTRIES_PER_TABLE)" ?z])
      (simp_all add: paging_consts)
  have e1: "objs s1 dir = Some (OWords (replicate 1024 0))" using s1(5) by (simp add: paging_consts)
  have fb1: "1024 \<le> free_blocks s1" using s1(7) assms(2) by simp
  obtain s2 d new where s2: "fill_directory 1024 dir 0 flags s1 = Some s2" "mem_inv s2" "heap_step s1 s2"
    "free_blocks s2 = free_blocks s1 - 1024" "length d = 1024"
    "objs s2 = ((objs s1)(dir \<mapsto> OWords d)) ++ new" "dom new \<inter> dom (objs s1) = {}"
    "dom new = table_of d ` {..<1024}" "inj_on (table_of d) {..<1024}"
    "\<forall>j < 1024. new (table_of d j) = Some (OWords (page_table (of_nat j * 0x400000) flags))"
    using fill_directory_ok [OF s1(6) e1 _ _ fb1, of 0 flags] by (auto simp: atLeast0LessThan)
  have o2: "objs s2 = ((objs s)(dir \<mapsto> OWords d)) ++ new" using s2(6) s1(5) by simp
  have dn: "dir \<notin> dom new" "dom new \<inter> dom (objs s) = {}" using s2(7) s1(5) by auto
  have fb2: "0 < free_blocks s2" using s2(4) s1(7) assms(2) by simp
  obtain c s3 where s3: "kzalloc 4 (OChunk 0) s2 = Some (c, s3)" "c \<noteq> 0" "objs s2 c = None"
    "objs s3 = (objs s2)(c \<mapsto> OChunk 0)" "mem_inv s3" "free_blocks s3 = free_blocks s2 - 1" "heap_step s2 s3"
    by (rule kzalloc_block [OF s2(2) fb2, of 4 "OChunk 0"]) auto
  have "objs s3 c \<noteq> None" using s3(4) by simp
  then obtain s4 where s4: "put c (OChunk dir) s3 = Some s4" "objs s4 = (objs s3)(c \<mapsto> OChunk dir)"
    "mem_inv s4 = mem_inv s3" "free_blocks s4 = free_blocks s3" "heap_step s3 s4" by (rule put_live)
  have o4: "objs s4 = (objs s2)(c \<mapsto> OChunk dir)" using s4(2) s3(4) by simp
  have cn: "c \<noteq> dir" "c \<notin> dom new" "objs s c = None"
    using s3(3) o2 by (auto simp: map_add_None domIff split: if_splits)
  have dir4: "objs s4 dir = Some (OWords d)"
    using o4 o2 cn dn(1) by (simp add: map_add_dom_app_simps(3))
  have tab4: "objs s4 (table_of d j) = Some (OWords (page_table (of_nat j * 0x400000) flags))" if "j < 1024" for j
  proof -
    have "table_of d j \<in> dom new" using s2(8) that by blast
    then have "table_of d j \<noteq> c" using cn(2) by blast
    then show ?thesis using s2(10) that o4 o2 by (simp add: map_add_Some_iff)
  qed
  have "table_of d j \<noteq> dir" if "j < 1024" for j using s2(8) dn(1) that by blast
  then have pd: "pd_ok (objs s4) dir"
    unfolding pd_ok_def using dir4 s2(5,9) tab4 by auto
  have pe: "page_entry (objs s4) dir n = of_nat (4096 * n) OR ucast flags" if n: "n < 2 ^ 20" for n
  proof -
    have k: "n div 1024 < 1024" using n by simp
    have "(of_nat (n div 1024) * 0x400000 + of_nat (n mod 1024) * 4096 :: u32) =
        of_nat (n div 1024 * 0x400000 + n mod 1024 * 4096)" by simp
    also have "n div 1024 * 0x400000 + n mod 1024 * 4096 = 4096 * n"
      using div_mod_decomp [of n 1024] by linarith
    finally show ?thesis using dir4 tab4 [OF k] by (simp add: page_entry_def page_table_def)
  qed
  have dom4: "dom (objs s4) = dom (objs s) \<union> {c, dir} \<union> table_of d ` {..<1024}"
    unfolding o4 o2 using s2(8) by auto
  have keep: "objs s4 a = objs s a" if "a \<in> dom (objs s)" for a
  proof -
    have "a \<notin> dom new" "a \<noteq> dir" "a \<noteq> c" using that dn(2) s1(3) cn(3) by auto
    then show ?thesis by (simp add: o4 o2 map_add_dom_app_simps(3))
  qed
  have "identity_space (objs s) c dir flags (objs s4)"
    unfolding identity_space_def
    using o4 pd cn s1(3) pe dir4 dom4 s2(8) dn(2) keep by auto
  moreover have "paging_new_4gb flags s = Some (c, s4)"
    using s1(1) s2(1) s3(1) s4(1) by (simp add: paging_new_4gb_def paging_consts)
  moreover have "free_blocks s4 = free_blocks s - 1026" using s4(4) s3(6) s2(4) s1(7) by simp
  moreover have "heap_step s s4" using s1(8) s2(3) s3(7) s4(5) heap_step_trans by metis
  ultimately show ?thesis using s4(3) s3(2,5) by blast
qed
lemma identity_translate:
  assumes "identity_space m c dir flags (objs s)"
  shows "paging_get_phyiscal_address dir v s = Some v"
proof -
  let ?a = "of_nat (4096 * page v) :: u32"
  have pd: "pd_ok (objs s) dir" using assms by (simp add: identity_space_def)
  have e: "page_entry (objs s) dir (page v) = ?a OR ucast flags"
    using assms page_less [of v] by (simp add: identity_space_def)
  have b: "4096 * page v < 2 ^ 32" using page_less [of v] by simp
  have ua: "unat ?a = 4096 * page v" using b by (rule unat_of_small_nat)
  then have "?a mod 4096 = 0" by (simp add: aligned_unat)
  then have "(?a OR ucast flags) AND 0xfffff000 = ?a" using flags_small(1) by (rule page_of_entry)
  moreover have "?a + v mod 4096 = v"
  proof -
    have "4096 * page v + unat v mod 4096 = unat v" by (simp add: page_def)
    then have "unat (?a + v mod 4096) = unat v"
      using ua unat_bound [of v] by (simp add: unat_word_ariths(1) unat_mod_distrib del: of_nat_mult)
    then show ?thesis by (simp add: word_unat_eq_iff)
  qed
  ultimately show ?thesis unfolding paging_translate [OF pd] e by simp
qed

subsection \<open>Releasing an address space\<close>

lemma free_tables_list:
  assumes "mem_inv s" "objs s c = Some (OChunk dir)" "objs s dir = Some (OWords d)" "length d = 1024"
    "inj_on (table_of d) {1024 - n..<1024}" "n \<le> 1024" "c \<notin> table_of d ` {..<1024}"
    "dir \<notin> table_of d ` {..<1024}" "table_of d ` {1024 - n..<1024} \<subseteq> dom (objs s)"
  shows "free_tables n c s = kh.free_list (map (table_of d) [1024 - n..<1024]) s"
  using assms
proof (induction n arbitrary: s)
  case 0
  then show ?case by simp
next
  case (Suc n)
  let ?i = "1024 - Suc n"
  let ?t = "table_of d ?i"
  have sn: "1024 - n = Suc ?i" "?i < 1024" using Suc.prems(6) by simp_all
  have up: "[?i..<1024] = ?i # [1024 - n..<1024]" unfolding sn(1) using sn(2) by (rule upt_conv_Cons)
  have iv: "{?i..<1024} = insert ?i {1024 - n..<1024}" unfolding sn(1) using sn(2) by auto
  have "objs s ?t \<noteq> None" using Suc.prems(9) unfolding iv by auto
  then obtain s1 where s1: "kfree ?t s = Some s1" "objs s1 = (objs s)(?t := None)" "mem_inv s1"
    using kh.free_live [OF Suc.prems(1)] by blast
  have ne: "c \<noteq> ?t" "dir \<noteq> ?t" using Suc.prems(7,8) sn(2) by auto
  have in1: "inj_on (table_of d) {1024 - n..<1024}" "?t \<notin> table_of d ` {1024 - n..<1024}"
    using Suc.prems(5) unfolding iv by (auto simp: inj_on_insert sn(1))
  have "free_tables n c s1 = kh.free_list (map (table_of d) [1024 - n..<1024]) s1"
  proof (rule Suc.IH [OF s1(3) _ _ Suc.prems(4) in1(1) _ Suc.prems(7,8)])
    show "objs s1 c = Some (OChunk dir)" "objs s1 dir = Some (OWords d)"
      using s1(2) ne Suc.prems(2,3) by simp_all
    show "n \<le> 1024" using Suc.prems(6) by simp
    have "dom (objs s1) = dom (objs s) - {?t}" unfolding s1(2) by (simp only: dom_fun_upd simp_thms if_True)
    moreover have "table_of d ` {1024 - n..<1024} \<subseteq> dom (objs s)"
      using Suc.prems(9) unfolding iv image_insert by (simp only: insert_subset)
    ultimately show "table_of d ` {1024 - n..<1024} \<subseteq> dom (objs s1)"
      using in1(2) by (simp only: subset_Diff_insert Diff_empty simp_thms)
  qed
  moreover have "get_chunk s c = Some dir" using Suc.prems(2) by (simp add: get_chunk_def)
  moreover have "uint (of_nat ?i :: u32) = int ?i"
    using sn(2) by (simp add: unsigned_of_nat take_bit_nat_eq_self)
  then have "get_word s dir (of_nat ?i) = Some (d ! ?i)"
    using Suc.prems(3,4) sn(2) by (simp add: get_word_def get_words_def)
  ultimately show ?case unfolding up
    using s1(1) by (simp add: paging_consts flip: table_of_def)
qed

lemma paging_free_ok:
  assumes "mem_inv s" "identity_space m c dir flags (objs s)"
  shows "\<exists>s'. paging_free_4gb c s = Some s' \<and> objs s' = m \<and> mem_inv s'"
proof -
  obtain d where d: "objs s dir = Some (OWords d)" "c \<notin> table_of d ` {..<1024}"
    "dom (objs s) = dom m \<union> {c, dir} \<union> table_of d ` {..<1024}" "dom m \<inter> table_of d ` {..<1024} = {}"
    and c: "objs s c = Some (OChunk dir)" "m c = None" "m dir = None" "c \<noteq> dir" "pd_ok (objs s) dir"
    "\<forall>a \<in> dom m. objs s a = m a"
    using assms(2) unfolding identity_space_def by blast
  have p: "length d = 1024" "inj_on (table_of d) {..<1024}" "dir \<notin> table_of d ` {..<1024}"
    using c(5) d(1) unfolding pd_ok_def by auto
  let ?ts = "map (table_of d) [0..<1024]"
  have ts: "set ?ts = table_of d ` {..<1024}" "distinct ?ts"
    using p(2) by (auto simp: distinct_map atLeast0LessThan)
  have "free_tables 1024 c s = kh.free_list ?ts s"
    using free_tables_list [OF assms(1) c(1) d(1) p(1), of 1024] p(2,3) d(2,3)
    by (auto simp: atLeast0LessThan)
  moreover obtain s1 where s1: "kh.free_list ?ts s = Some s1"
    "objs s1 = objs s |` (- set ?ts)" "mem_inv s1"
    using kh.free_list_live [OF assms(1) ts(2)] unfolding ts(1) d(3) by blast
  moreover have o1: "objs s1 c = Some (OChunk dir)" "objs s1 dir \<noteq> None"
    using c(1) d(1,2) p(3) unfolding s1(2) ts(1) by (simp_all add: restrict_map_def)
  moreover obtain s2 where s2: "kfree dir s1 = Some s2" "objs s2 = (objs s1)(dir := None)" "mem_inv s2"
    using kh.free_live [OF s1(3) o1(2)] by blast
  moreover have "objs s2 c \<noteq> None" using s2(2) o1(1) c(4) by simp
  then obtain s3 where s3: "kfree c s2 = Some s3" "objs s3 = (objs s2)(c := None)" "mem_inv s3"
    using kh.free_live [OF s2(3)] by blast
  moreover have "get_chunk s1 c = Some dir" using o1(1) by (simp add: get_chunk_def)
  ultimately have "paging_free_4gb c s = Some s3" by (simp add: paging_free_4gb_def paging_consts)
  moreover have "objs s3 = m"
  proof
    fix a
    have "objs s a = m a" if "a \<noteq> c" "a \<noteq> dir" "a \<notin> table_of d ` {..<1024}"
    proof (cases "a \<in> dom m")
      case True
      then show ?thesis using c(6) by blast
    next
      case False
      then have "a \<notin> dom (objs s)" using that unfolding d(3) by simp
      then show ?thesis using False by (simp add: domIff)
    qed
    moreover have "m a = None" if "a \<in> table_of d ` {..<1024}"
      using that d(4) by (auto simp: domIff)
    ultimately show "objs s3 a = m a"
      unfolding s3(2) s2(2) s1(2) ts(1) using c(2,3)
      by (cases "a \<in> table_of d ` {..<1024}") (auto simp: restrict_map_def)
  qed
  ultimately show ?thesis using s3(3) by blast
qed
section \<open>Properties\<close>


lemma big_kernel_inv: "mem_inv (sample_kernel 2000)" "free_blocks (sample_kernel 2000) = 2000"
proof -
  have "table_rep (kernel_heap (sample_kernel 2000)) (replicate 2000 Free)"
    by (simp add: table_rep_def sample_kernel_def sample_heap_def)
  then show "mem_inv (sample_kernel 2000)"
    unfolding mem_inv_def by (intro exI [of _ "replicate 2000 Free"])
      (simp add: sample_kernel_def live_replicate_Free sample_terminal_def)
  show "free_blocks (sample_kernel 2000) = 2000"
    by (simp add: free_blocks_def sample_kernel_def sample_heap_def count_list_replicate)
qed


text \<open>
  Setting one entry: on a page-aligned address \<open>paging_set\<close> succeeds, the entry of that page becomes
  the value, every other page keeps its entry and nothing but a page table of the directory changes; on an address
  that is not aligned it returns \<open>-EINVARG\<close> and changes nothing.
\<close>
lemma paging_set_correct:
  assumes "pd_ok (objs s) dir"
  shows "(v mod 4096 = 0 \<longrightarrow> (\<exists>s'. paging_set dir v val s = Some (0, s') \<and> tables_step dir s s' \<and>
      pd_ok (objs s') dir \<and> paging_get dir v s' = Some val \<and>
      (\<forall>n < 2 ^ 20. n \<noteq> page v \<longrightarrow> page_entry (objs s') dir n = page_entry (objs s) dir n))) \<and>
    (v mod 4096 \<noteq> 0 \<longrightarrow> paging_set dir v val s = Some (- EINVARG, s))"
proof (cases "v mod 4096 = 0")
  case True
  obtain s' where s': "paging_set dir v val s = Some (0, s')" "tables_step dir s s'" "pd_ok (objs s') dir"
    "\<forall>n < 2 ^ 20. page_entry (objs s') dir n = (if n = page v then val else page_entry (objs s) dir n)"
    by (rule paging_set_ok [OF assms True])
  then show ?thesis using paging_get_ok [OF s'(3) True] page_less [of v] True by auto
next
  case False
  then show ?thesis by (simp add: paging_set_def paging_is_aligned_def paging_consts)
qed

text \<open>
  C4. \<open>paging_map_to\<close> maps exactly the pages of the physical range to consecutive virtual pages with
  the given flags and leaves the entry of every other page alone; no object but the page tables of the
  directory changes, so no other address space does. A misaligned argument or a range
  whose end lies below its start gives \<open>-EINVARG\<close> and changes nothing.
\<close>
theorem paging_map_to_correct:
  assumes "objs s c = Some (OChunk dir)" "pd_ok (objs s) dir"
  shows "(v mod 4096 = 0 \<and> p mod 4096 = 0 \<and> e mod 4096 = 0 \<and> p \<le> e \<and>
      unat v + unat (e - p) \<le> 2 ^ 32 \<longrightarrow>
      (\<exists>s'. paging_map_to c v p e flags s = Some (0, s') \<and> tables_step dir s s' \<and> pd_ok (objs s') dir \<and>
         (\<forall>n < 2 ^ 20. page_entry (objs s') dir n =
            (if page v \<le> n \<and> n < page v + unat (e - p) div 4096
             then (p + of_nat (4096 * (n - page v))) OR to_u32 flags
             else page_entry (objs s) dir n)))) \<and>
    (v mod 4096 \<noteq> 0 \<or> p mod 4096 \<noteq> 0 \<or> e mod 4096 \<noteq> 0 \<or> e < p \<longrightarrow>
      paging_map_to c v p e flags s = Some (- EINVARG, s))"
proof (rule conjI impI)+
  assume "v mod 4096 = 0 \<and> p mod 4096 = 0 \<and> e mod 4096 = 0 \<and> p \<le> e \<and> unat v + unat (e - p) \<le> 2 ^ 32"
  then show "\<exists>s'. paging_map_to c v p e flags s = Some (0, s') \<and> tables_step dir s s' \<and> pd_ok (objs s') dir \<and>
         (\<forall>n < 2 ^ 20. page_entry (objs s') dir n =
            (if page v \<le> n \<and> n < page v + unat (e - p) div 4096
             then (p + of_nat (4096 * (n - page v))) OR to_u32 flags
             else page_entry (objs s) dir n))"
    by (intro paging_map_to_ok [OF assms]) blast+
qed (simp add: paging_map_to_def paging_consts)

text \<open>
  The physical address of a virtual address is the frame of its page's entry plus the offset in
  the page.
\<close>
lemma paging_translate_correct:
  assumes "pd_ok (objs s) dir"
  shows "paging_get_phyiscal_address dir v s =
    Some ((page_entry (objs s) dir (page v) AND 0xfffff000) + v mod 4096)"
  by (rule paging_translate [OF assms])

text \<open>A small well-formed space for the witnesses: the tables of a new address space.\<close>

lemma sample_space:
  "\<exists>c dir (s :: kernel). objs s c = Some (OChunk dir) \<and> pd_ok (objs s) dir \<and>
     (\<forall>n < 2 ^ 20. page_entry (objs s) dir n = of_nat (4096 * n) OR ucast (7 :: u8))"
proof -
  have fb: "1026 \<le> free_blocks (sample_kernel 2000)" using big_kernel_inv(2) by simp
  have "\<exists>c dir (s :: kernel). identity_space (objs (sample_kernel 2000)) c dir 7 (objs s)"
    using paging_new_4gb_ok [OF big_kernel_inv(1) fb, of 7] by (elim exE conjE) (intro exI, assumption)
  then obtain c dir and s :: kernel where "identity_space (objs (sample_kernel 2000)) c dir 7 (objs s)"
    by (elim exE)
  from identity_facts [OF this] show ?thesis by (intro exI conjI)
qed

lemma paging_set_correct_witness:
  "\<exists>dir s s'. paging_set dir 0x1000 0xABC007 s = Some (0, s') \<and> paging_get dir 0x1000 s' = Some 0xABC007"
proof -
  obtain c dir and s :: kernel where "pd_ok (objs s) dir" using sample_space by blast
  from paging_set_correct [OF this, of "0x1000" "0xABC007"] show ?thesis by auto
qed

theorem paging_map_to_correct_witness:
  "\<exists>c dir s s'. paging_map_to c 0x400000 0x2000000 0x2003000 7 s = Some (0, s') \<and>
     page_entry (objs s') dir 0x401 = 0x2001007"
proof -
  obtain c dir and s :: kernel where s: "objs s c = Some (OChunk dir)" "pd_ok (objs s) dir" using sample_space by blast
  from paging_map_to_correct [OF s, of "0x400000" "0x2000000" "0x2003000" 7]
  obtain s' where s': "paging_map_to c 0x400000 0x2000000 0x2003000 7 s = Some (0, s')"
    "\<forall>n < 2 ^ 20. page_entry (objs s') dir n =
       (if page 0x400000 \<le> n \<and> n < page 0x400000 + unat (0x3000 :: u32) div 4096
        then ((0x2000000 :: u32) + of_nat (4096 * (n - page 0x400000))) OR to_u32 7
        else page_entry (objs s) dir n)" by auto
  have "page_entry (objs s') dir 0x401 = 0x2001007"
    using s'(2) [rule_format, of "0x401"] by (simp add: page_def)
  then show ?thesis using s'(1) by blast
qed

lemma paging_translate_correct_witness:
  "\<exists>dir s. paging_get_phyiscal_address dir 0x1234 s = Some 0x1234"
proof -
  obtain c dir and s :: kernel where s: "pd_ok (objs s) dir"
    "\<forall>n < 2 ^ 20. page_entry (objs s) dir n = of_nat (4096 * n) OR ucast (7 :: u8)"
    using sample_space by blast
  have "page 0x1234 = 1" by (simp add: page_def)
  then show ?thesis using paging_translate_correct [OF s(1), of "0x1234"] s(2) [rule_format, of 1] by auto
qed

end
