(* ===== verification/Disk.thy ===== *)
theory Disk
  imports KHeap
begin

unbundle bit_operations_syntax

text \<open>
  The disk driver \<open>src/src/disk/disk.c\<close> (ATA PIO through the ports) and the byte stream over it,
  \<open>src/src/disk/streamer.c\<close>. A function that fills a caller's buffer returns the bytes it writes there,
  in order; the caller stores them. The device behind the ports is the \<open>device\<close> of the state, about
  which the theorems assume the ATA read protocol (\<open>ata_serves\<close>).
\<close>

section \<open>Ports\<close>

text \<open>\<open>io/io.asm\<close>\<close>

definition outb :: "u16 \<Rightarrow> u8 \<Rightarrow> kernel \<Rightarrow> kernel" where
  "outb port val s = s\<lparr>io_log := OutB port val # io_log s\<rparr>"

definition insb :: "u16 \<Rightarrow> kernel \<Rightarrow> u8 \<times> kernel" where
  "insb port s = (ucast (device s (io_log s) port), s\<lparr>io_log := InB port # io_log s\<rparr>)"

definition insw :: "u16 \<Rightarrow> kernel \<Rightarrow> u16 \<times> kernel" where
  "insw port s = (device s (io_log s) port, s\<lparr>io_log := InW port # io_log s\<rparr>)"

section \<open>disk.c\<close>

partial_function (option) wait_ready :: "kernel \<Rightarrow> kernel option" where
  "wait_ready s =
     (let (c, s) = insb 0x1F7 s
      in if c AND 0x08 = 0 then wait_ready s else Some s)"

text \<open>A word read from the data port is stored in the byte order of the machine.\<close>

fun read_words :: "nat \<Rightarrow> kernel \<Rightarrow> u8 list \<times> kernel" where
  "read_words 0 s = ([], s)"
| "read_words (Suc n) s =
     (let (w, s) = insw 0x1F0 s;
          (bs, s) = read_words n s
      in (ucast w # ucast (drop_bit 8 w) # bs, s))"

fun read_sectors :: "nat \<Rightarrow> kernel \<Rightarrow> (u8 list \<times> kernel) option" where
  "read_sectors 0 s = Some ([], s)"
| "read_sectors (Suc n) s =
     do {
       s \<leftarrow> wait_ready s;
       let (bs, s) = read_words 256 s;
       (rest, s) \<leftarrow> read_sectors n s;
       Some (bs @ rest, s)
     }"

definition disk_read_sector :: "u32 \<Rightarrow> int \<Rightarrow> kernel \<Rightarrow> (int \<times> u8 list \<times> kernel) option" where
  "disk_read_sector lba tot s =
     (let s = outb 0x1F6 (ucast (drop_bit 24 lba) OR 0xE0) s;
          s = outb 0x1F2 (word_of_int tot) s;
          s = outb 0x1F3 (ucast lba) s;
          s = outb 0x1F4 (ucast (drop_bit 8 lba)) s;
          s = outb 0x1F5 (ucast (drop_bit 16 lba)) s;
          s = outb 0x1F7 0x20 s
      in do {
        (bs, s) \<leftarrow> read_sectors (nat tot) s;
        Some (0, bs, s)
      })"

definition disk_get :: "int \<Rightarrow> disk_ptr" where
  "disk_get index = (if index \<noteq> 0 then NullDisk else TheDisk)"

definition disk_read_block :: "disk_ptr \<Rightarrow> u32 \<Rightarrow> int \<Rightarrow> kernel \<Rightarrow> (int \<times> u8 list \<times> kernel) option" where
  "disk_read_block idisk lba tot s =
     (if idisk \<noteq> TheDisk then Some (- EIO, [], s) else disk_read_sector lba tot s)"

section \<open>streamer.c\<close>

definition PLUMOS_SECTOR_SIZE :: int where "PLUMOS_SECTOR_SIZE = 512"

definition diskstreamer_new :: "int \<Rightarrow> kernel \<Rightarrow> (u32 \<times> kernel) option" where
  "diskstreamer_new disk_id s =
     (let disk = disk_get disk_id
      in if disk = NullDisk then Some (0, s)
         else do {
           (streamer, s) \<leftarrow> kzalloc 8 (OStream \<lparr>ds_pos = 0, ds_disk = NullDisk\<rparr>) s;
           s \<leftarrow> put streamer (OStream \<lparr>ds_pos = 0, ds_disk = disk\<rparr>) s;
           Some (streamer, s)
         })"

definition diskstreamer_seek :: "u32 \<Rightarrow> int \<Rightarrow> kernel \<Rightarrow> (int \<times> kernel) option" where
  "diskstreamer_seek stream pos s =
     do {
       st \<leftarrow> get_stream s stream;
       s \<leftarrow> put stream (OStream (st\<lparr>ds_pos := pos\<rparr>)) s;
       Some (0, s)
     }"

fun copy_bytes :: "u8 list \<Rightarrow> int \<Rightarrow> nat \<Rightarrow> u8 list option" where
  "copy_bytes buf offset 0 = Some []"
| "copy_bytes buf offset (Suc n) =
     do {
       b \<leftarrow> arr_get buf offset;
       bs \<leftarrow> copy_bytes buf (offset + 1) n;
       Some (b # bs)
     }"

partial_function (option) diskstreamer_read ::
  "u32 \<Rightarrow> int \<Rightarrow> kernel \<Rightarrow> (int \<times> u8 list \<times> kernel) option" where
  "diskstreamer_read stream tot s =
     do {
       st \<leftarrow> get_stream s stream;
       let sector = ds_pos st sdiv PLUMOS_SECTOR_SIZE;
       let offset = ds_pos st smod PLUMOS_SECTOR_SIZE;
       e \<leftarrow> s32 (offset + tot);
       let overflow = (e \<ge> PLUMOS_SECTOR_SIZE);
       let total_to_read = (if overflow then tot - (e - PLUMOS_SECTOR_SIZE) else tot);
       (res, buf, s) \<leftarrow> disk_read_block (ds_disk st) (to_u32 sector) 1 s;
       if res < 0 then Some (res, [], s)
       else do {
         out \<leftarrow> copy_bytes buf offset (nat total_to_read);
         pos \<leftarrow> s32 (ds_pos st + total_to_read);
         s \<leftarrow> put stream (OStream (st\<lparr>ds_pos := pos\<rparr>)) s;
         if overflow then do {
           (res, out', s) \<leftarrow> diskstreamer_read stream (tot - total_to_read) s;
           Some (res, out @ out', s)
         } else Some (res, out, s)
       }
     }"

definition diskstreamer_close :: "u32 \<Rightarrow> kernel \<Rightarrow> kernel option" where
  "diskstreamer_close stream s = kfree stream s"

declare wait_ready.simps [code] diskstreamer_read.simps [code]

section \<open>The read protocol\<close>

text \<open>
  The documented ATA PIO protocol for a read of one sector: after the drive, count, address and
  command bytes the status port shows data-request after finitely many polls, and then 256 reads of
  the data port give the sector's words in order. Sector addresses have 28 bits.
\<close>

definition read_command :: "u32 \<Rightarrow> io_event list" where
  "read_command lba =
     [OutB 0x1F7 0x20, OutB 0x1F5 (ucast (drop_bit 16 lba)), OutB 0x1F4 (ucast (drop_bit 8 lba)),
      OutB 0x1F3 (ucast lba), OutB 0x1F2 1, OutB 0x1F6 (ucast (drop_bit 24 lba) OR 0xE0)]"

definition word_at :: "u8 list \<Rightarrow> nat \<Rightarrow> u16" where
  "word_at bs i = ucast (bs ! (2 * i)) OR push_bit 8 (ucast (bs ! (2 * i + 1)))"

definition ata_serves :: "device \<Rightarrow> (nat \<Rightarrow> u8 list) \<Rightarrow> bool" where
  "ata_serves dev img \<longleftrightarrow>
     (\<forall>lba log. unat lba < 2 ^ 28 \<longrightarrow> length (img (unat lba)) = 512 \<and>
        (\<exists>k. (\<forall>j < k. (ucast (dev (replicate j (InB 0x1F7) @ read_command lba @ log) 0x1F7) :: u8) AND 8 = 0) \<and>
             (ucast (dev (replicate k (InB 0x1F7) @ read_command lba @ log) 0x1F7) :: u8) AND 8 \<noteq> 0 \<and>
             (\<forall>i < 256. dev (replicate i (InW 0x1F0) @ replicate (Suc k) (InB 0x1F7) @ read_command lba @ log) 0x1F0
                = word_at (img (unat lba)) i)))"

text \<open>Only the log of port accesses differs.\<close>

definition io_step :: "kernel \<Rightarrow> kernel \<Rightarrow> bool" where
  "io_step s s' \<longleftrightarrow> s' = s\<lparr>io_log := io_log s'\<rparr>"

lemma io_step_simps [simp]: "io_step s (s\<lparr>io_log := l\<rparr>)" "io_step s s"
  by (simp_all add: io_step_def)

lemma io_stepD:
  "io_step s s' \<Longrightarrow> objs s' = objs s \<and> kernel_heap s' = kernel_heap s \<and> device s' = device s \<and> gdisk s' = gdisk s"
  unfolding io_step_def by (cases s; cases s') auto

lemma wait_ready_polls:
  assumes "\<forall>j < k. (ucast (device s (replicate j (InB 0x1F7) @ io_log s) 0x1F7) :: u8) AND 8 = 0"
    "(ucast (device s (replicate k (InB 0x1F7) @ io_log s) 0x1F7) :: u8) AND 8 \<noteq> 0"
  shows "wait_ready s = Some (s\<lparr>io_log := replicate (Suc k) (InB 0x1F7) @ io_log s\<rparr>)"
  using assms
proof (induction k arbitrary: s)
  case 0
  then show ?case by (subst wait_ready.simps) (simp add: insb_def)
next
  case (Suc k)
  let ?s = "s\<lparr>io_log := InB 0x1F7 # io_log s\<rparr>"
  have r: "replicate j (InB 0x1F7) @ InB 0x1F7 # io_log s = replicate (Suc j) (InB 0x1F7) @ io_log s" for j
    by (simp add: replicate_app_Cons_same)
  have "wait_ready ?s = Some (?s\<lparr>io_log := replicate (Suc k) (InB 0x1F7) @ io_log ?s\<rparr>)"
  proof (rule Suc.IH)
    show "\<forall>j < k. (ucast (device ?s (replicate j (InB 0x1F7) @ io_log ?s) 0x1F7) :: u8) AND 8 = 0"
      using Suc.prems(1) by (simp add: r del: replicate_Suc)
    show "(ucast (device ?s (replicate k (InB 0x1F7) @ io_log ?s) 0x1F7) :: u8) AND 8 \<noteq> 0"
      using Suc.prems(2) by (simp add: r del: replicate_Suc)
  qed
  moreover have "(ucast (device s (io_log s) 0x1F7) :: u8) AND 8 = 0"
    using Suc.prems(1) by (metis append_Nil replicate_0 zero_less_Suc)
  moreover have "replicate (Suc k) (InB 0x1F7) @ InB 0x1F7 # io_log s = replicate (Suc (Suc k)) (InB 0x1F7) @ io_log s"
    by (rule r)
  ultimately show ?case by (subst wait_ready.simps) (simp add: insb_def del: replicate_Suc)
qed

lemma word_bytes:
  "(ucast (ucast (a :: u8) OR push_bit 8 (ucast (b :: u8)) :: u16) :: u8) = a"
  "(ucast (drop_bit 8 (ucast (a :: u8) OR push_bit 8 (ucast (b :: u8)) :: u16)) :: u8) = b"
  by (rule bit_word_eqI; auto simp: bit_simps dest: bit_imp_le_length)+

lemma read_words_img:
  assumes "\<forall>i < n. device s (replicate i (InW 0x1F0) @ io_log s) 0x1F0 = word_at bs i" "length bs = 2 * n"
  shows "read_words n s = (bs, s\<lparr>io_log := replicate n (InW 0x1F0) @ io_log s\<rparr>)"
  using assms
proof (induction n arbitrary: s bs)
  case 0
  then show ?case by simp
next
  case (Suc n)
  obtain a b bs' where bs: "bs = a # b # bs'" "length bs' = 2 * n"
    using Suc.prems(2) by (auto simp: length_Suc_conv)
  let ?s = "s\<lparr>io_log := InW 0x1F0 # io_log s\<rparr>"
  have r: "replicate j (InW 0x1F0) @ InW 0x1F0 # io_log s = replicate (Suc j) (InW 0x1F0) @ io_log s" for j
    by (simp add: replicate_app_Cons_same)
  have "read_words n ?s = (bs', ?s\<lparr>io_log := replicate n (InW 0x1F0) @ io_log ?s\<rparr>)"
  proof (rule Suc.IH [OF _ bs(2)], intro allI impI)
    fix i assume "i < n"
    then have "device s (replicate (Suc i) (InW 0x1F0) @ io_log s) 0x1F0 = word_at bs (Suc i)"
      using Suc.prems(1) by (simp del: replicate_Suc)
    then show "device ?s (replicate i (InW 0x1F0) @ io_log ?s) 0x1F0 = word_at bs' i"
      by (simp add: r word_at_def bs del: replicate_Suc)
  qed
  moreover have "device s (io_log s) 0x1F0 = word_at bs 0"
    using Suc.prems(1) by (metis append_Nil replicate_0 zero_less_Suc)
  ultimately show ?case
    by (simp add: insw_def bs word_at_def word_bytes word_bytes(2) [simplified] r del: replicate_Suc)
qed

lemma disk_read_sector_ok:
  assumes "ata_serves (device s) img" "unat lba < 2 ^ 28"
  obtains s' where "disk_read_sector lba 1 s = Some (0, img (unat lba), s')" "io_step s s'"
proof -
  let ?log = "read_command lba @ io_log s"
  let ?s1 = "s\<lparr>io_log := ?log\<rparr>"
  obtain k where k: "length (img (unat lba)) = 512"
    "\<forall>j < k. (ucast (device s (replicate j (InB 0x1F7) @ ?log) 0x1F7) :: u8) AND 8 = 0"
    "(ucast (device s (replicate k (InB 0x1F7) @ ?log) 0x1F7) :: u8) AND 8 \<noteq> 0"
    "\<forall>i < 256. device s (replicate i (InW 0x1F0) @ replicate (Suc k) (InB 0x1F7) @ ?log) 0x1F0
       = word_at (img (unat lba)) i"
    using assms unfolding ata_serves_def by blast
  let ?s2 = "?s1\<lparr>io_log := replicate (Suc k) (InB 0x1F7) @ ?log\<rparr>"
  have w: "wait_ready ?s1 = Some ?s2" using wait_ready_polls [of k ?s1] k(2,3) by simp
  have "read_words 256 ?s2 = (img (unat lba), ?s2\<lparr>io_log := replicate 256 (InW 0x1F0) @ io_log ?s2\<rparr>)"
    using k(1,4) by (intro read_words_img) (simp_all del: replicate_Suc)
  then have "read_sectors (nat 1) ?s1 =
      Some (img (unat lba), ?s2\<lparr>io_log := replicate 256 (InW 0x1F0) @ io_log ?s2\<rparr>)"
    using w by (simp del: replicate_Suc kernel.update_convs)
  moreover have "disk_read_sector lba 1 s = do {
      (bs, s) \<leftarrow> read_sectors (nat 1) ?s1; Some (0, bs, s) }"
    by (simp add: disk_read_sector_def Let_def outb_def read_command_def)
  ultimately show thesis using that by simp
qed
section \<open>The stream\<close>

text \<open>The bytes of the disk from a position on.\<close>

definition disk_byte :: "(nat \<Rightarrow> u8 list) \<Rightarrow> nat \<Rightarrow> u8" where
  "disk_byte img i = img (i div 512) ! (i mod 512)"

definition disk_bytes :: "(nat \<Rightarrow> u8 list) \<Rightarrow> nat \<Rightarrow> nat \<Rightarrow> u8 list" where
  "disk_bytes img pos n = map (disk_byte img) [pos..<pos + n]"

lemma length_disk_bytes [simp]: "length (disk_bytes img pos n) = n"
  by (simp add: disk_bytes_def)

lemma disk_bytes_append: "disk_bytes img pos m @ disk_bytes img (pos + m) n = disk_bytes img pos (m + n)"
proof -
  have "[pos..<pos + (m + n)] = [pos..<pos + m] @ [pos + m..<pos + m + n]"
    using upt_add_eq_append [of pos "pos + m" n] by (simp add: add.assoc)
  then show ?thesis by (simp add: disk_bytes_def)
qed

lemma copy_bytes_ok:
  "o' + n \<le> length buf \<Longrightarrow> copy_bytes buf (int o') n = Some (take n (drop o' buf))"
proof (induction n arbitrary: o')
  case (Suc n)
  then have "copy_bytes buf (int (Suc o')) n = Some (take n (drop (Suc o') buf))" by (intro Suc.IH) simp
  moreover have "drop o' buf = buf ! o' # drop (Suc o') buf" using Suc.prems by (simp add: Cons_nth_drop_Suc)
  ultimately show ?case using Suc.prems by (simp add: add.commute)
qed simp

lemma sector_bytes:
  assumes "length (img (pos div 512)) = 512" "pos mod 512 + n \<le> 512"
  shows "take n (drop (pos mod 512) (img (pos div 512))) = disk_bytes img pos n"
proof (rule nth_equalityI)
  show "length (take n (drop (pos mod 512) (img (pos div 512)))) = length (disk_bytes img pos n)"
    using assms by simp
  fix i assume "i < length (take n (drop (pos mod 512) (img (pos div 512))))"
  then have i: "i < n" by simp
  have "(512 * q + r) div 512 = q \<and> (512 * q + r) mod 512 = r" if "r < 512" for q r :: nat
    using that by simp
  from this [of "pos mod 512 + i" "pos div 512"]
  have "(pos + i) div 512 = pos div 512" "(pos + i) mod 512 = pos mod 512 + i"
    using i assms(2) by (simp_all only: add.assoc [symmetric] mult_div_mod_eq)
  then show "take n (drop (pos mod 512) (img (pos div 512))) ! i = disk_bytes img pos n ! i"
    using i assms by (simp add: disk_bytes_def disk_byte_def)
qed

text \<open>Reading moves the stream and touches nothing else but the log of port accesses.\<close>

definition stream_moved :: "u32 \<Rightarrow> nat \<Rightarrow> kernel \<Rightarrow> kernel \<Rightarrow> bool" where
  "stream_moved st pos s s' \<longleftrightarrow> (\<exists>log. s' = s\<lparr>io_log := log,
     objs := (objs s)(st \<mapsto> OStream \<lparr>ds_pos = int pos, ds_disk = TheDisk\<rparr>)\<rparr>)"

lemma stream_movedD:
  assumes "stream_moved st pos s s'"
  shows "objs s' = (objs s)(st \<mapsto> OStream \<lparr>ds_pos = int pos, ds_disk = TheDisk\<rparr>)"
    "device s' = device s" "gdisk s' = gdisk s" "kernel_heap s' = kernel_heap s" "free_blocks s' = free_blocks s"
  using assms by (auto simp: stream_moved_def free_blocks_def)

lemma stream_moved_trans:
  "stream_moved st p s s' \<Longrightarrow> stream_moved st q s' s'' \<Longrightarrow> stream_moved st q s s''"
  unfolding stream_moved_def by (elim exE) (intro exI, simp)

lemma diskstreamer_read_step:
  assumes "get_stream s st = Some d" "ds_pos d sdiv PLUMOS_SECTOR_SIZE = sec"
    "ds_pos d smod PLUMOS_SECTOR_SIZE = off" "s32 (off + tot) = Some e"
    "disk_read_block (ds_disk d) (to_u32 sec) 1 s = Some (res, buf, s1)" "\<not> res < 0"
    "m = (if e \<ge> PLUMOS_SECTOR_SIZE then tot - (e - PLUMOS_SECTOR_SIZE) else tot)"
    "copy_bytes buf off (nat m) = Some out" "s32 (ds_pos d + m) = Some pos"
    "put st (OStream (d\<lparr>ds_pos := pos\<rparr>)) s1 = Some s2"
  shows "diskstreamer_read st tot s =
    (if e \<ge> PLUMOS_SECTOR_SIZE then do {
        (res, out', s) \<leftarrow> diskstreamer_read st (tot - m) s2;
        Some (res, out @ out', s) }
     else Some (res, out, s2))"
  using assms(7-10) by (subst diskstreamer_read.simps) (cases "e \<ge> PLUMOS_SECTOR_SIZE";
    simp add: assms(1-6) Let_def del: diff_diff_eq2 diff_diff_add)

lemma diskstreamer_read_ok:
  assumes "ata_serves (device s) img" "objs s st = Some (OStream \<lparr>ds_pos = int pos, ds_disk = TheDisk\<rparr>)"
    "int pos + int n + 512 < 2 ^ 31"
  shows "\<exists>s'. diskstreamer_read st (int n) s = Some (0, disk_bytes img pos n, s') \<and>
    stream_moved st (pos + n) s s'"
  using assms
proof (induction n arbitrary: s pos rule: less_induct)
  case (less n)
  let ?sec = "pos div 512" and ?off = "pos mod 512"
  have sd: "int pos sdiv PLUMOS_SECTOR_SIZE = int ?sec" "int pos smod PLUMOS_SECTOR_SIZE = int ?off"
    by (simp_all add: PLUMOS_SECTOR_SIZE_def signed_divide_int_def signed_modulo_int_def sgn_if zdiv_int zmod_int)
  have e: "s32 (int ?off + int n) = Some (int (?off + n))" using less.prems(3) by (simp add: s32_def)
  have u: "unat (to_u32 (int ?sec)) = ?sec"
    using less.prems(3) by (simp add: unat_of_small_nat del: of_nat_div)
  have small: "?sec < 2 ^ 28" using less.prems(3) by simp
  obtain s1 where s1: "disk_read_sector (to_u32 (int ?sec)) 1 s = Some (0, img ?sec, s1)" "io_step s s1"
    using disk_read_sector_ok [OF less.prems(1), of "to_u32 (int ?sec)"] small unfolding u by blast
  have len: "length (img ?sec) = 512"
    using less.prems(1) u small unfolding ata_serves_def by metis
  let ?of = "?off + n \<ge> 512"
  obtain m where mdef: "m = (if ?of then 512 - ?off else n)" by blast
  have m: "int m = (if int (?off + n) \<ge> PLUMOS_SECTOR_SIZE then int n - (int (?off + n) - PLUMOS_SECTOR_SIZE)
      else int n)" by (auto simp: mdef PLUMOS_SECTOR_SIZE_def of_nat_diff)
  have mn: "m \<le> n" "?off + m \<le> 512" by (auto simp: mdef less_imp_le)
  have cp: "copy_bytes (img ?sec) (int ?off) (nat (int m)) = Some (disk_bytes img pos m)"
    unfolding nat_int
    using copy_bytes_ok [of ?off m "img ?sec"] mn(2) len sector_bytes [of img pos m] by (simp only:)
  have p: "s32 (int pos + int m) = Some (int (pos + m))" using less.prems(3) mn(1) by (simp add: s32_def)
  have o1: "objs s1 = objs s" "device s1 = device s" using io_stepD [OF s1(2)] by simp_all
  let ?s2 = "s1\<lparr>objs := (objs s1)(st \<mapsto> OStream \<lparr>ds_pos = int (pos + m), ds_disk = TheDisk\<rparr>)\<rparr>"
  have put: "put st (OStream \<lparr>ds_pos = int (pos + m), ds_disk = TheDisk\<rparr>) s1 = Some ?s2"
    using less.prems(2) o1 by (simp add: put_def)
  have mv: "stream_moved st (pos + m) s ?s2"
    using s1(2) o1(1) unfolding stream_moved_def io_step_def by (metis kernel.unfold_congs(2) kernel.update_convs(2))
  have step: "diskstreamer_read st (int n) s =
    (if int (?off + n) \<ge> PLUMOS_SECTOR_SIZE then do {
        (res, out', s) \<leftarrow> diskstreamer_read st (int n - int m) ?s2;
        Some (res, disk_bytes img pos m @ out', s) }
     else Some (0, disk_bytes img pos m, ?s2))"
  proof (rule diskstreamer_read_step)
    show "get_stream s st = Some \<lparr>ds_pos = int pos, ds_disk = TheDisk\<rparr>" using less.prems(2) by (simp only: get_Some)
    show "disk_read_block (ds_disk \<lparr>ds_pos = int pos, ds_disk = TheDisk\<rparr>) (to_u32 (int ?sec)) 1 s = Some (0, img ?sec, s1)"
      using s1(1) by (simp add: disk_read_block_def)
    show "put st (OStream (\<lparr>ds_pos = int pos, ds_disk = TheDisk\<rparr>\<lparr>ds_pos := int (pos + m)\<rparr>)) s1 = Some ?s2"
      using put by (simp only: disk_stream.simps)
    show "s32 (int ?off + int n) = Some (int (?off + n))" by (rule e)
    show "int m = (if int (?off + n) \<ge> PLUMOS_SECTOR_SIZE then int n - (int (?off + n) - PLUMOS_SECTOR_SIZE)
      else int n)" by (rule m)
  qed (use sd cp p in simp_all)
  then have step: "diskstreamer_read st (int n) s =
    (if ?of then do {
        (res, out', s) \<leftarrow> diskstreamer_read st (int n - int m) ?s2;
        Some (res, disk_bytes img pos m @ out', s) }
     else Some (0, disk_bytes img pos m, ?s2))"
    by (simp only: PLUMOS_SECTOR_SIZE_def) (simp only: of_nat_le_iff [symmetric, where 'a = int] of_nat_numeral)
  show ?case
  proof (cases ?of)
    case False
    then have "m = n" by (simp add: mdef)
    then show ?thesis using step mv False by (simp del: of_nat_add)
  next
    case True
    have lt: "n - m < n" using True by (simp add: mdef)
    have d2: "ata_serves (device ?s2) img" using less.prems(1) o1 by simp
    have o2: "objs ?s2 st = Some (OStream \<lparr>ds_pos = int (pos + m), ds_disk = TheDisk\<rparr>)" by simp
    have b2: "int (pos + m) + int (n - m) + 512 < 2 ^ 31" using less.prems(3) mn(1) by simp
    obtain s3 where s3: "diskstreamer_read st (int (n - m)) ?s2 = Some (0, disk_bytes img (pos + m) (n - m), s3)"
      "stream_moved st (pos + m + (n - m)) ?s2 s3"
      using less.IH [OF lt d2 o2 b2] by blast
    have d: "int n - int m = int (n - m)" using mn(1) by simp
    then have "diskstreamer_read st (int n) s =
        Some (0, disk_bytes img pos m @ disk_bytes img (pos + m) (n - m), s3)"
      unfolding step using True s3(1) by (simp only: d if_True Option.bind.bind_lunit prod.case)
    also have "disk_bytes img pos m @ disk_bytes img (pos + m) (n - m) = disk_bytes img pos n"
      using mn(1) by (simp add: disk_bytes_append)
    finally have "diskstreamer_read st (int n) s = Some (0, disk_bytes img pos n, s3)" .
    moreover have "stream_moved st (pos + n) s s3"
      using stream_moved_trans [OF mv s3(2)] mn(1) by (simp add: add.assoc)
    ultimately show ?thesis by blast
  qed
qed

text \<open>Seeking and reading: the bytes of the disk at the position asked for.\<close>

lemma diskstreamer_seek_ok:
  "objs s st = Some (OStream d) \<Longrightarrow>
    diskstreamer_seek st pos s = Some (0, s\<lparr>objs := (objs s)(st \<mapsto> OStream (d\<lparr>ds_pos := pos\<rparr>))\<rparr>)"
  by (simp add: diskstreamer_seek_def get_stream_def put_def)

lemma seek_read_ok:
  assumes "ata_serves (device s) img" "objs s st = Some (OStream d)" "ds_disk d = TheDisk"
    "int pos + int n + 512 < 2 ^ 31"
  obtains s1 s2 where "diskstreamer_seek st (int pos) s = Some (0, s1)"
    "diskstreamer_read st (int n) s1 = Some (0, disk_bytes img pos n, s2)" "stream_moved st (pos + n) s s2"
proof -
  let ?s1 = "s\<lparr>objs := (objs s)(st \<mapsto> OStream \<lparr>ds_pos = int pos, ds_disk = TheDisk\<rparr>)\<rparr>"
  have d: "d\<lparr>ds_pos := int pos\<rparr> = \<lparr>ds_pos = int pos, ds_disk = TheDisk\<rparr>" using assms(3) by (cases d) simp
  obtain s2 where s2: "diskstreamer_read st (int n) ?s1 = Some (0, disk_bytes img pos n, s2)"
      "stream_moved st (pos + n) ?s1 s2"
    using diskstreamer_read_ok [of ?s1 img st pos n] assms(1,4) by auto
  have "stream_moved st pos s ?s1" unfolding stream_moved_def by (intro exI [of _ "io_log s"]) simp
  then have "stream_moved st (pos + n) s s2" by (rule stream_moved_trans [OF _ s2(2)])
  with s2(1) show thesis using that diskstreamer_seek_ok [OF assms(2), of "int pos"] unfolding d by blast
qed

section \<open>A drive\<close>

text \<open>
  A drive serving the image \<open>img\<close>: it finds the command in the log of accesses, decodes the address,
  and counts the words already taken.
\<close>

fun command_lba :: "io_event list \<Rightarrow> nat" where
  "command_lba (OutB _ _ # OutB _ b2 # OutB _ b1 # OutB _ b0 # OutB _ _ # OutB _ b3 # _) =
     unat b0 + 2 ^ 8 * unat b1 + 2 ^ 16 * unat b2 + 2 ^ 24 * unat (b3 AND 0x0F)"
| "command_lba _ = 0"

definition ata_device :: "(nat \<Rightarrow> u8 list) \<Rightarrow> device" where
  "ata_device img log port =
     (if port = 0x1F7 then 8
      else let rest = dropWhile (\<lambda>e. e = InW 0x1F0) log;
               cmd = dropWhile (\<lambda>e. e = InB 0x1F7) rest
           in word_at (img (command_lba cmd)) (length (takeWhile (\<lambda>e. e = InW 0x1F0) log)))"

lemma unat_ucast_drop_bit: "unat (ucast (drop_bit k (w :: u32)) :: u8) = unat w div 2 ^ k mod 2 ^ 8"
proof -
  have "unat w mod 2 ^ 32 = unat w" using unsigned_less [of w, where ?'a = nat] by simp
  then have "unat (drop_bit k w) = unat w div 2 ^ k"
    by (simp only: unsigned_drop_bit_eq take_bit_eq_mod len_num1 len_bit0 len_bit1) (simp add: drop_bit_eq_div)
  then show ?thesis by (simp add: unsigned_ucast_eq take_bit_eq_mod)
qed

lemma command_lba_read:
  assumes "unat lba < 2 ^ 28"
  shows "command_lba (read_command lba @ log) = unat lba"
proof -
  have "((ucast (drop_bit 24 lba) OR 0xE0 :: u8) AND 0x0F) = take_bit 4 (ucast (drop_bit 24 lba))"
    by (simp add: bit.conj_disj_distrib2 take_bit_eq_mask mask_eq_decr_exp)
  then have "unat ((ucast (drop_bit 24 lba) OR 0xE0 :: u8) AND 0x0F) = unat lba div 2 ^ 24 mod 2 ^ 8 mod 2 ^ 4"
    by (simp only: unsigned_take_bit_eq unat_ucast_drop_bit) (simp only: take_bit_eq_mod)
  moreover have "unat (ucast lba :: u8) = unat lba mod 2 ^ 8" by (simp add: unsigned_ucast_eq take_bit_eq_mod)
  moreover have "m = m mod 256 + 256 * (m div 256 mod 256) + 65536 * (m div 65536 mod 256) + 16777216 * (m div 16777216)"
    for m :: nat
  proof -
    have "m div 65536 = m div 256 div 256" "m div 16777216 = m div 65536 div 256"
      by (simp_all flip: div_mult2_eq)
    moreover have "m = 256 * (m div 256) + m mod 256"
      "m div 256 = 256 * (m div 256 div 256) + m div 256 mod 256"
      "m div 65536 = 256 * (m div 65536 div 256) + m div 65536 mod 256" by simp_all
    ultimately show ?thesis by linarith
  qed
  from this [of "unat lba", symmetric] calculation show ?thesis
    using assms unat_ucast_drop_bit [of 8 lba] unat_ucast_drop_bit [of 16 lba]
    by (simp add: read_command_def)
qed

lemma log_front:
  "takeWhile (\<lambda>e. e = InW 0x1F0) (replicate i (InW 0x1F0) @ InB 0x1F7 # l) = replicate i (InW 0x1F0)"
  "dropWhile (\<lambda>e. e = InW 0x1F0) (replicate i (InW 0x1F0) @ InB 0x1F7 # l) = InB 0x1F7 # l"
  "dropWhile (\<lambda>e. e = InB 0x1F7) (read_command lba @ l) = read_command lba @ l"
  by (induction i) (simp_all add: read_command_def)

lemma ata_device_serves:
  assumes "\<And>i. length (img i) = 512"
  shows "ata_serves (ata_device img) img"
  unfolding ata_serves_def
proof (intro allI impI conjI exI [of _ 0])
  fix lba :: u32 and log i assume "unat lba < 2 ^ 28" "(i :: nat) < 256"
  then show "ata_device img (replicate i (InW 0x1F0) @ replicate (Suc 0) (InB 0x1F7) @ read_command lba @ log) 0x1F0
      = word_at (img (unat lba)) i"
    using command_lba_read [of lba log]
    by (simp add: ata_device_def Let_def log_front del: command_lba.simps)
qed (simp_all add: assms ata_device_def)

section \<open>Properties\<close>

text \<open>
  C10. Reading from the stream gives the bytes of the disk: after a seek to \<open>pos\<close>, a read of \<open>n\<close> bytes
  returns exactly the bytes \<open>pos \<dots> pos + n - 1\<close> of the disk, across any number of sector borders,
  leaves the stream at \<open>pos + n\<close>, and changes no other object and nothing but the stream and the log of
  port accesses, provided the drive follows the ATA read protocol and the positions fit the C type. A
  read through a pointer that is not the disk fails with \<open>EIO\<close>.
\<close>
theorem diskstreamer_read_correct:
  assumes "ata_serves (device s) img" "objs s st = Some (OStream d)" "ds_disk d = TheDisk"
    "int pos + int n + 512 < 2 ^ 31"
  shows "(\<exists>s1 s2. diskstreamer_seek st (int pos) s = Some (0, s1) \<and>
      diskstreamer_read st (int n) s1 = Some (0, disk_bytes img pos n, s2) \<and>
      objs s2 = (objs s)(st \<mapsto> OStream \<lparr>ds_pos = int (pos + n), ds_disk = TheDisk\<rparr>) \<and>
      s2 = s\<lparr>io_log := io_log s2, objs := objs s2\<rparr>) \<and>
    disk_read_block NullDisk lba 1 s = Some (- EIO, [], s)"
proof -
  obtain s1 s2 where "diskstreamer_seek st (int pos) s = Some (0, s1)"
    "diskstreamer_read st (int n) s1 = Some (0, disk_bytes img pos n, s2)" "stream_moved st (pos + n) s s2"
    by (rule seek_read_ok [OF assms])
  moreover from this(3) have "s2 = s\<lparr>io_log := io_log s2, objs := objs s2\<rparr>"
    "objs s2 = (objs s)(st \<mapsto> OStream \<lparr>ds_pos = int (pos + n), ds_disk = TheDisk\<rparr>)"
    by (auto simp: stream_moved_def)
  ultimately show ?thesis by (simp add: disk_read_block_def del: of_nat_add)
qed

definition sample_image :: "nat \<Rightarrow> u8 list" where
  "sample_image i = map (\<lambda>j. of_nat (i + j)) [0..<512]"

lemma sample_image_bytes: "length (sample_image i) = 512" "disk_byte sample_image n = of_nat (n div 512 + n mod 512)"
  by (simp_all add: sample_image_def disk_byte_def)

definition sample_disk_kernel :: kernel where
  "sample_disk_kernel = (sample_kernel 2)\<lparr>device := ata_device sample_image,
     objs := [0x1000000 \<mapsto> OStream \<lparr>ds_pos = 0, ds_disk = TheDisk\<rparr>]\<rparr>"

theorem diskstreamer_read_correct_witness:
  "\<exists>s1 s2. diskstreamer_seek 0x1000000 510 sample_disk_kernel = Some (0, s1) \<and>
     diskstreamer_read 0x1000000 4 s1 = Some (0, [254, 255, 1, 2], s2)"
proof -
  have "disk_bytes sample_image 510 4 = [254, 255, 1, 2]"
    by (simp add: disk_bytes_def upt_rec sample_image_bytes)
  moreover have "ata_serves (device sample_disk_kernel) sample_image"
    by (simp add: sample_disk_kernel_def ata_device_serves sample_image_bytes)
  moreover have "objs sample_disk_kernel 0x1000000 = Some (OStream \<lparr>ds_pos = 0, ds_disk = TheDisk\<rparr>)"
    by (simp add: sample_disk_kernel_def)
  ultimately show ?thesis
    using diskstreamer_read_correct [where s = sample_disk_kernel and img = sample_image and st = "0x1000000"
        and d = "\<lparr>ds_pos = 0, ds_disk = TheDisk\<rparr>" and pos = 510 and n = 4 and lba = 0] by simp blast
qed

end
