(* ===== verification/Samples.thy ===== *)
theory Samples
  imports Disk
begin

unbundle bit_operations_syntax

text \<open>
  Concrete kernel states for the witnesses: a heap whose first blocks hold a given list of objects,
  one block each, followed by free blocks.
\<close>

definition slot :: "nat \<Rightarrow> u32" where
  "slot i = 0x1000000 + of_nat (4096 * i)"

definition stored :: "obj list \<Rightarrow> u32 \<Rightarrow> obj option" where
  "stored xs = map_of (zip (map slot [0..<length xs]) xs)"

definition sample_store :: "obj list \<Rightarrow> nat \<Rightarrow> kernel" where
  "sample_store xs n = (sample_kernel 0)\<lparr>
     kernel_heap := sample_heap (replicate (length xs) (Used 0) @ replicate n Free), objs := stored xs\<rparr>"

lemma live_replicate_Used: "live (replicate k (Used 0) @ replicate n Free) = {..<k}"
proof (induction k)
  case (Suc k)
  have "p \<in> live (replicate (Suc k) (Used 0) @ replicate n Free) \<longleftrightarrow> p < Suc k" for p
    using Suc by (cases p) (auto simp: live_Used)
  then show ?case by auto
qed (simp add: live_replicate_Free)

lemma dom_stored: "dom (stored xs) = slot ` {..<length xs}"
  by (simp add: stored_def dom_map_of_zip atLeast_upt lessThan_atLeast0)

lemma sample_store_inv:
  assumes "length xs + n < 100000"
  shows "mem_inv (sample_store xs n)"
proof -
  let ?ss = "replicate (length xs) (Used 0) @ replicate n Free"
  have b: "blocks ?ss = length xs + n" by (simp add: blocks_def sum_list_replicate)
  have "block_addr (sample_heap ?ss) = slot" by (simp add: block_addr_def sample_heap_def slot_def fun_eq_iff)
  then have "dom (objs (sample_store xs n)) = block_addr (kernel_heap (sample_store xs n)) ` live ?ss"
    by (simp add: sample_store_def live_replicate_Used dom_stored)
  moreover have "table_rep (kernel_heap (sample_store xs n)) ?ss"
    using sample_heap_rep [of ?ss] b assms by (simp add: sample_store_def)
  ultimately show ?thesis unfolding mem_inv_def by blast
qed

lemma sample_store_free: "free_blocks (sample_store xs n) = n"
proof -
  have "count_list (encode (replicate k (Used 0) @ replicate n Free)) 0 = n" for k
    by (induction k) (simp_all add: encode_def count_list_append count_list_replicate)
  then show ?thesis by (simp add: free_blocks_def sample_store_def sample_heap_def)
qed

lemma slot_inj: "i < 1000 \<Longrightarrow> j < 1000 \<Longrightarrow> slot i = slot j \<longleftrightarrow> i = j"
  using of_nat_u32_eq_iff [of "4096 * i" "4096 * j"] by (simp add: slot_def del: of_nat_mult)

lemma stored_slot:
  assumes "i < length xs" "length xs < 1000"
  shows "stored xs (slot i) = Some (xs ! i)"
proof -
  have "inj_on slot {0..<length xs}" using slot_inj assms(2) by (force simp: inj_on_def)
  then have "distinct (map slot [0..<length xs])" by (simp add: distinct_map)
  from map_of_zip_nth [OF _ this, of xs i] show ?thesis
    using assms(1) by (simp add: stored_def)
qed

lemma sample_store_objs [simp]: "objs (sample_store xs n) = stored xs"
  by (simp add: sample_store_def)

end
