(* ===== verification/Fat16.thy ===== *)
theory Fat16
  imports Disk PathParser
begin

unbundle bit_operations_syntax

text \<open>
  The FAT16 driver \<open>src/src/fs/fat/fat16.c\<close>. The packed structures \<open>fat_h\<close> (62 bytes) and
  \<open>fat_directory_item\<close> (32 bytes) are their bytes, and a field is decoded at its offset. A function that
  gets a pointer to a directory entry or to a \<open>struct fat_directory\<close> only reads it, and takes its
  value; a function that fills a buffer returns the bytes it writes.
\<close>

section \<open>Structures and constants\<close>

definition PLUMOS_FAT16_SIGNATURE :: u8 where "PLUMOS_FAT16_SIGNATURE = 0x29"
definition PLUMOS_FAT16_FAT_ENTRY_SIZE :: int where "PLUMOS_FAT16_FAT_ENTRY_SIZE = 2"
definition PLUMOS_FAT16_BAD_SECTOR :: int where "PLUMOS_FAT16_BAD_SECTOR = 0xFF7"
definition FAT_ITEM_TYPE_DIRECTORY :: u32 where "FAT_ITEM_TYPE_DIRECTORY = 0"
definition FAT_ITEM_TYPE_FILE :: u32 where "FAT_ITEM_TYPE_FILE = 1"
definition FAT_FILE_READ_ONLY :: u8 where "FAT_FILE_READ_ONLY = 0x01"
definition FAT_FILE_SUBDIRECTORY :: u8 where "FAT_FILE_SUBDIRECTORY = 0x10"
definition SEEK_SET :: u32 where "SEEK_SET = 0"
definition SEEK_CUR :: u32 where "SEEK_CUR = 1"
definition SEEK_END :: u32 where "SEEK_END = 2"
definition FILE_MODE_READ :: u32 where "FILE_MODE_READ = 0"
definition FILE_MODE_WRITE :: u32 where "FILE_MODE_WRITE = 1"
definition FILE_MODE_APPEND :: u32 where "FILE_MODE_APPEND = 2"
definition FILE_MODE_INVALID :: u32 where "FILE_MODE_INVALID = 3"
definition FILE_STAT_READ_ONLY :: u32 where "FILE_STAT_READ_ONLY = 1"

definition le16 :: "u8 list \<Rightarrow> nat \<Rightarrow> u16" where
  "le16 bs i = ucast (bs ! i) OR push_bit 8 (ucast (bs ! (i + 1)))"

definition le32 :: "u8 list \<Rightarrow> nat \<Rightarrow> u32" where
  "le32 bs i = ucast (le16 bs i) OR push_bit 16 (ucast (le16 bs (i + 2)))"

definition sectors_per_cluster :: "u8 list \<Rightarrow> int" where "sectors_per_cluster h = uint (h ! 13)"
definition reserved_sectors :: "u8 list \<Rightarrow> int" where "reserved_sectors h = uint (le16 h 14)"
definition fat_copies :: "u8 list \<Rightarrow> int" where "fat_copies h = uint (h ! 16)"
definition root_directory_entries :: "u8 list \<Rightarrow> int" where
  "root_directory_entries h = uint (le16 h 17)"
definition sectors_per_fat :: "u8 list \<Rightarrow> int" where "sectors_per_fat h = uint (le16 h 22)"

text \<open>\<open>shared.extended_header.signature\<close>\<close>

definition header_signature :: "u8 list \<Rightarrow> u8" where "header_signature h = h ! 38"

definition item_attribute :: "u8 list \<Rightarrow> u8" where "item_attribute it = it ! 11"
definition item_filesize :: "u8 list \<Rightarrow> u32" where "item_filesize it = le32 it 28"

text \<open>Dereferencing pointers.\<close>

definition deref_disk :: "disk_ptr \<Rightarrow> kernel \<Rightarrow> disk option" where
  "deref_disk d s = (if d = TheDisk then Some (gdisk s) else None)"

definition deref_item :: "u32 \<Rightarrow> nat \<Rightarrow> kernel \<Rightarrow> u8 list option" where
  "deref_item p i s =
     do {
       b \<leftarrow> get_bytes s p;
       if 32 * (i + 1) \<le> length b then Some (take 32 (drop (32 * i) b)) else None
     }"

definition overwrite :: "u8 list \<Rightarrow> u8 list \<Rightarrow> u8 list option" where
  "overwrite buf bs = (if length bs \<le> length buf then Some (bs @ drop (length bs) buf) else None)"

definition store_bytes :: "u32 \<Rightarrow> u8 list \<Rightarrow> kernel \<Rightarrow> kernel option" where
  "store_bytes p bs s =
     do {
       b \<leftarrow> get_bytes s p;
       b \<leftarrow> overwrite b bs;
       put p (OBytes b) s
     }"

definition c_div :: "int \<Rightarrow> int \<Rightarrow> int option" where
  "c_div a b = (if b = 0 then None else Some (a sdiv b))"

definition c_mod :: "int \<Rightarrow> int \<Rightarrow> int option" where
  "c_mod a b = (if b = 0 then None else Some (a smod b))"

section \<open>Mounting\<close>

text \<open>The name is stored in \<open>fat16_fs.name\<close> and never read.\<close>

definition fat16_init :: "(fs_ptr \<times> u8 list) option" where
  "fat16_init = do { name \<leftarrow> strcpy (replicate 20 0) (lit ''FAT16''); Some (Fat16Fs, name) }"

definition zero_fat_directory :: fat_directory where
  "zero_fat_directory = \<lparr>dir_item = 0, dir_total = 0, dir_sector_pos = 0, dir_end_sector_pos = 0\<rparr>"

definition zero_fat_private :: fat_private where
  "zero_fat_private = \<lparr>fp_header = replicate 62 0, fp_root_directory = zero_fat_directory,
     fp_cluster_read_stream = 0, fp_fat_read_stream = 0, fp_directory_stream = 0\<rparr>"

definition fat16_init_private :: "disk_ptr \<Rightarrow> u32 \<Rightarrow> kernel \<Rightarrow> kernel option" where
  "fat16_init_private disk private s =
     do {
       s \<leftarrow> put private (OFatPrivate zero_fat_private) s;
       d \<leftarrow> deref_disk disk s;
       (crs, s) \<leftarrow> diskstreamer_new (dk_id d) s;
       (frs, s) \<leftarrow> diskstreamer_new (dk_id d) s;
       (drs, s) \<leftarrow> diskstreamer_new (dk_id d) s;
       put private (OFatPrivate (zero_fat_private\<lparr>fp_cluster_read_stream := crs,
         fp_fat_read_stream := frs, fp_directory_stream := drs\<rparr>)) s
     }"

partial_function (option) count_items :: "u32 \<Rightarrow> int \<Rightarrow> kernel \<Rightarrow> (int \<times> kernel) option" where
  "count_items stream i s =
     do {
       (res, item, s) \<leftarrow> diskstreamer_read stream 32 s;
       if res \<noteq> PLUMOS_ALL_OK then Some (- EIO, s)
       else if item ! 0 = 0 then Some (i, s)
       else if item ! 0 = 0xE5 then count_items stream i s
       else do { i \<leftarrow> s32 (i + 1); count_items stream i s }
     }"

definition fat16_get_total_items_for_directory ::
  "disk_ptr \<Rightarrow> u32 \<Rightarrow> kernel \<Rightarrow> (int \<times> kernel) option" where
  "fat16_get_total_items_for_directory disk directory_start_sector s =
     do {
       d \<leftarrow> deref_disk disk s;
       fat_private \<leftarrow> get_fat_private s (dk_fs_private d);
       let directory_start_pos = to_int (directory_start_sector * to_u32 (dk_sector_size d));
       let stream = fp_directory_stream fat_private;
       (res, s) \<leftarrow> diskstreamer_seek stream directory_start_pos s;
       if res \<noteq> PLUMOS_ALL_OK then Some (- EIO, s) else count_items stream 0 s
     }"

definition fat16_sector_to_absolute :: "disk_ptr \<Rightarrow> int \<Rightarrow> kernel \<Rightarrow> int option" where
  "fat16_sector_to_absolute disk sector s =
     do { d \<leftarrow> deref_disk disk s; s32 (sector * dk_sector_size d) }"

text \<open>The directory that \<open>directory\<close> points to is passed in and returned.\<close>

definition fat16_get_root_directory ::
  "disk_ptr \<Rightarrow> u32 \<Rightarrow> fat_directory \<Rightarrow> kernel \<Rightarrow> (int \<times> fat_directory \<times> kernel) option" where
  "fat16_get_root_directory disk fat_private directory s =
     do {
       fp \<leftarrow> get_fat_private s fat_private;
       d \<leftarrow> deref_disk disk s;
       let h = fp_header fp;
       let root_dir_sector_pos = reserved_sectors h + fat_copies h * sectors_per_fat h;
       let root_dir_entries = root_directory_entries h;
       let root_dir_size = root_dir_entries * 32;
       total_sectors \<leftarrow> c_div root_dir_size (dk_sector_size d);
       r \<leftarrow> c_mod root_dir_size (dk_sector_size d);
       let total_sectors = (if r \<noteq> 0 then total_sectors + 1 else total_sectors);
       (total_items, s) \<leftarrow> fat16_get_total_items_for_directory disk (to_u32 root_dir_sector_pos) s;
       (dir, s) \<leftarrow> kzalloc (to_u32 root_dir_size) (OBytes (replicate (nat root_dir_size) 0)) s;
       if dir = 0 then Some (- ENOMEM, directory, s)
       else do {
         let stream = fp_directory_stream fp;
         pos \<leftarrow> fat16_sector_to_absolute disk root_dir_sector_pos s;
         (res, s) \<leftarrow> diskstreamer_seek stream pos s;
         if res \<noteq> PLUMOS_ALL_OK then do { s \<leftarrow> kfree dir s; Some (- EIO, directory, s) }
         else do {
           (res, bs, s) \<leftarrow> diskstreamer_read stream root_dir_size s;
           s \<leftarrow> store_bytes dir bs s;
           if res \<noteq> PLUMOS_ALL_OK then do { s \<leftarrow> kfree dir s; Some (- EIO, directory, s) }
           else do {
             q \<leftarrow> c_div root_dir_size (dk_sector_size d);
             Some (0, \<lparr>dir_item = dir, dir_total = total_items, dir_sector_pos = root_dir_sector_pos,
               dir_end_sector_pos = root_dir_sector_pos + q\<rparr>, s)
           }
         }
       }
     }"

text \<open>The common end of \<open>fat16_resolve\<close>.\<close>

definition resolve_out :: "int \<Rightarrow> u32 \<Rightarrow> u32 \<Rightarrow> kernel \<Rightarrow> (int \<times> kernel) option" where
  "resolve_out res stream fat_private s =
     do {
       s \<leftarrow> (if stream \<noteq> 0 then diskstreamer_close stream s else Some s);
       if res < 0 then do {
         s \<leftarrow> kfree fat_private s;
         Some (res, s\<lparr>gdisk := (gdisk s)\<lparr>dk_fs_private := 0\<rparr>\<rparr>)
       } else Some (res, s)
     }"

definition fat16_resolve :: "disk_ptr \<Rightarrow> kernel \<Rightarrow> (int \<times> kernel) option" where
  "fat16_resolve disk s =
     do {
       (fat_private, s) \<leftarrow> kzalloc 92 (OFatPrivate zero_fat_private) s;
       s \<leftarrow> fat16_init_private disk fat_private s;
       d \<leftarrow> deref_disk disk s;
       let s = s\<lparr>gdisk := d\<lparr>dk_fs_private := fat_private, dk_filesystem := Fat16Fs\<rparr>\<rparr>;
       (stream, s) \<leftarrow> diskstreamer_new (dk_id d) s;
       if stream = 0 then resolve_out (- ENOMEM) stream fat_private s
       else do {
         (res, bs, s) \<leftarrow> diskstreamer_read stream 62 s;
         fp \<leftarrow> get_fat_private s fat_private;
         header \<leftarrow> overwrite (fp_header fp) bs;
         s \<leftarrow> put fat_private (OFatPrivate (fp\<lparr>fp_header := header\<rparr>)) s;
         if res \<noteq> PLUMOS_ALL_OK then resolve_out (- EIO) stream fat_private s
         else if header_signature header \<noteq> PLUMOS_FAT16_SIGNATURE
         then resolve_out (- EFSNOTUS) stream fat_private s
         else do {
           (res, dir, s) \<leftarrow> fat16_get_root_directory disk fat_private (fp_root_directory fp) s;
           fp \<leftarrow> get_fat_private s fat_private;
           s \<leftarrow> put fat_private (OFatPrivate (fp\<lparr>fp_root_directory := dir\<rparr>)) s;
           resolve_out (if res \<noteq> PLUMOS_ALL_OK then - EIO else 0) stream fat_private s
         }
       }
     }"

section \<open>Names\<close>

text \<open>The output pointer is the buffer and the position in it.\<close>

fun to_proper_loop ::
  "u8 list \<Rightarrow> int \<Rightarrow> u8 list \<Rightarrow> u32 \<Rightarrow> nat \<Rightarrow> (u8 list \<times> int) option" where
  "to_proper_loop buf out [] sz i = None"
| "to_proper_loop buf out (c # ins) sz i =
     (if c \<noteq> 0 \<and> c \<noteq> 0x20 then do {
        buf \<leftarrow> arr_set buf out c;
        if of_nat i \<ge> sz - 1 then Some (buf, out + 1)
        else to_proper_loop buf (out + 1) ins sz (Suc i)
      } else Some (buf, out))"

definition fat16_to_proper_string ::
  "u8 list \<Rightarrow> int \<Rightarrow> u8 list \<Rightarrow> u32 \<Rightarrow> (u8 list \<times> int) option" where
  "fat16_to_proper_string buf out ins sz =
     do {
       (buf, out) \<leftarrow> to_proper_loop buf out ins sz 0;
       buf \<leftarrow> arr_set buf out 0;
       Some (buf, out)
     }"

definition fat16_get_full_relative_filename :: "u8 list \<Rightarrow> u8 list \<Rightarrow> int \<Rightarrow> u8 list option" where
  "fat16_get_full_relative_filename item out max_len =
     do {
       out \<leftarrow> memset out 0 (to_u32 max_len);
       (out, out_temp) \<leftarrow> fat16_to_proper_string out 0 item 8;
       if item ! 8 \<noteq> 0 \<and> item ! 8 \<noteq> 0x20 then do {
         out \<leftarrow> arr_set out out_temp 0x2E;
         (out, out_temp) \<leftarrow> fat16_to_proper_string out (out_temp + 1) (drop 8 item) 3;
         Some out
       } else Some out
     }"

definition fat16_clone_directory_item :: "u8 list \<Rightarrow> int \<Rightarrow> kernel \<Rightarrow> (u32 \<times> kernel) option" where
  "fat16_clone_directory_item item sz s =
     (if to_u32 sz < 32 then Some (0, s)
      else do {
        (item_copy, s) \<leftarrow> kzalloc (to_u32 sz) (OBytes (replicate (nat sz) 0)) s;
        if item_copy = 0 then Some (0, s)
        else do {
          b \<leftarrow> get_bytes s item_copy;
          b \<leftarrow> memcpy b item sz;
          s \<leftarrow> put item_copy (OBytes b) s;
          Some (item_copy, s)
        }
      })"

section \<open>Clusters\<close>

definition fat16_get_first_cluster :: "u8 list \<Rightarrow> u32" where
  "fat16_get_first_cluster item = push_bit 16 (ucast (le16 item 20)) OR ucast (le16 item 26)"

definition fat16_cluster_to_sector :: "fat_private \<Rightarrow> int \<Rightarrow> int option" where
  "fat16_cluster_to_sector private cluster =
     do {
       n \<leftarrow> s32 (cluster - 2);
       p \<leftarrow> s32 (n * sectors_per_cluster (fp_header private));
       s32 (dir_end_sector_pos (fp_root_directory private) + p)
     }"

definition fat16_get_first_fat_sector :: "fat_private \<Rightarrow> u32" where
  "fat16_get_first_fat_sector private = to_u32 (reserved_sectors (fp_header private))"

definition fat16_get_fat_entry :: "disk_ptr \<Rightarrow> int \<Rightarrow> kernel \<Rightarrow> (int \<times> kernel) option" where
  "fat16_get_fat_entry disk cluster s =
     do {
       d \<leftarrow> deref_disk disk s;
       private \<leftarrow> get_fat_private s (dk_fs_private d);
       let stream = fp_fat_read_stream private;
       if stream = 0 then Some (- 1, s)
       else do {
         let fat_table_position = fat16_get_first_fat_sector private * to_u32 (dk_sector_size d);
         off \<leftarrow> s32 (cluster * PLUMOS_FAT16_FAT_ENTRY_SIZE);
         (res, s) \<leftarrow> diskstreamer_seek stream (to_int (fat_table_position + to_u32 off)) s;
         if res < 0 then Some (res, s)
         else do {
           (res, result, s) \<leftarrow> diskstreamer_read stream 2 s;
           if res < 0 then Some (res, s) else Some (uint (le16 result 0), s)
         }
       }
     }"

fun cluster_loop :: "disk_ptr \<Rightarrow> nat \<Rightarrow> int \<Rightarrow> kernel \<Rightarrow> (int \<times> kernel) option" where
  "cluster_loop disk 0 cluster_to_use s = Some (cluster_to_use, s)"
| "cluster_loop disk (Suc n) cluster_to_use s =
     do {
       (entry, s) \<leftarrow> fat16_get_fat_entry disk cluster_to_use s;
       if entry = 0xFF8 \<or> entry = 0xFFF then Some (- EIO, s)
       else if entry = PLUMOS_FAT16_BAD_SECTOR then Some (- EIO, s)
       else if entry = 0xFF0 \<or> entry = 0xFF6 then Some (- EIO, s)
       else if entry = 0 then Some (- EIO, s)
       else cluster_loop disk n entry s
     }"

definition size_of_cluster :: "disk_ptr \<Rightarrow> kernel \<Rightarrow> int option" where
  "size_of_cluster disk s =
     do {
       d \<leftarrow> deref_disk disk s;
       private \<leftarrow> get_fat_private s (dk_fs_private d);
       s32 (sectors_per_cluster (fp_header private) * dk_sector_size d)
     }"

definition fat16_get_cluster_for_offset ::
  "disk_ptr \<Rightarrow> int \<Rightarrow> int \<Rightarrow> kernel \<Rightarrow> (int \<times> kernel) option" where
  "fat16_get_cluster_for_offset disk starting_cluster offset s =
     do {
       size_of_cluster_bytes \<leftarrow> size_of_cluster disk s;
       clusters_ahead \<leftarrow> c_div offset size_of_cluster_bytes;
       cluster_loop disk (nat clusters_ahead) starting_cluster s
     }"

partial_function (option) fat16_read_internal_from_stream ::
  "disk_ptr \<Rightarrow> u32 \<Rightarrow> int \<Rightarrow> int \<Rightarrow> int \<Rightarrow> kernel \<Rightarrow> (int \<times> u8 list \<times> kernel) option" where
  "fat16_read_internal_from_stream disk stream cluster offset tot s =
     do {
       d \<leftarrow> deref_disk disk s;
       private \<leftarrow> get_fat_private s (dk_fs_private d);
       size_of_cluster_bytes \<leftarrow> size_of_cluster disk s;
       (cluster_to_use, s) \<leftarrow> fat16_get_cluster_for_offset disk cluster offset s;
       if cluster_to_use < 0 then Some (cluster_to_use, [], s)
       else do {
         offset_in_cluster \<leftarrow> c_mod offset size_of_cluster_bytes;
         starting_sector \<leftarrow> fat16_cluster_to_sector private cluster_to_use;
         p \<leftarrow> s32 (starting_sector * dk_sector_size d);
         starting_pos \<leftarrow> s32 (p + offset_in_cluster);
         let total_to_read = (if tot > size_of_cluster_bytes then size_of_cluster_bytes else tot);
         (res, s) \<leftarrow> diskstreamer_seek stream starting_pos s;
         if res \<noteq> PLUMOS_ALL_OK then Some (res, [], s)
         else do {
           (res, out, s) \<leftarrow> diskstreamer_read stream total_to_read s;
           if res \<noteq> PLUMOS_ALL_OK then Some (res, out, s)
           else do {
             let tot = tot - total_to_read;
             if tot > 0 then do {
               offset \<leftarrow> s32 (offset + total_to_read);
               (res, out', s) \<leftarrow> fat16_read_internal_from_stream disk stream cluster offset tot s;
               Some (res, out @ out', s)
             } else Some (res, out, s)
           }
         }
       }
     }"

definition fat16_read_internal ::
  "disk_ptr \<Rightarrow> int \<Rightarrow> int \<Rightarrow> int \<Rightarrow> kernel \<Rightarrow> (int \<times> u8 list \<times> kernel) option" where
  "fat16_read_internal disk starting_cluster offset tot s =
     do {
       d \<leftarrow> deref_disk disk s;
       fs_private \<leftarrow> get_fat_private s (dk_fs_private d);
       fat16_read_internal_from_stream disk (fp_cluster_read_stream fs_private) starting_cluster offset tot s
     }"

section \<open>Directories\<close>

definition fat16_free_directory :: "u32 \<Rightarrow> kernel \<Rightarrow> kernel option" where
  "fat16_free_directory directory s =
     (if directory = 0 then Some s
      else do {
        d \<leftarrow> get_fat_directory s directory;
        s \<leftarrow> (if dir_item d \<noteq> 0 then kfree (dir_item d) s else Some s);
        kfree directory s
      })"

definition fat16_fat_item_free :: "u32 \<Rightarrow> kernel \<Rightarrow> kernel option" where
  "fat16_fat_item_free item s =
     do {
       it \<leftarrow> get_fat_item s item;
       s \<leftarrow> (if fi_type it = FAT_ITEM_TYPE_DIRECTORY then fat16_free_directory (fi_ptr it) s
            else if fi_type it = FAT_ITEM_TYPE_FILE then kfree (fi_ptr it) s
            else Some s);
       kfree item s
     }"

definition load_out :: "int \<Rightarrow> u32 \<Rightarrow> kernel \<Rightarrow> (u32 \<times> kernel) option" where
  "load_out res directory s =
     do {
       s \<leftarrow> (if res \<noteq> PLUMOS_ALL_OK then fat16_free_directory directory s else Some s);
       Some (directory, s)
     }"

definition fat16_load_fat_directory :: "disk_ptr \<Rightarrow> u8 list \<Rightarrow> kernel \<Rightarrow> (u32 \<times> kernel) option" where
  "fat16_load_fat_directory disk item s =
     do {
       d \<leftarrow> deref_disk disk s;
       if item_attribute item AND FAT_FILE_SUBDIRECTORY = 0 then load_out (- EINVARG) 0 s
       else do {
         (directory, s) \<leftarrow> kzalloc 16 (OFatDirectory zero_fat_directory) s;
         if directory = 0 then load_out (- ENOMEM) directory s
         else do {
           fat_private \<leftarrow> get_fat_private s (dk_fs_private d);
           let cluster = to_int (fat16_get_first_cluster item);
           cluster_sector \<leftarrow> fat16_cluster_to_sector fat_private cluster;
           (total_items, s) \<leftarrow> fat16_get_total_items_for_directory disk (to_u32 cluster_sector) s;
           dir \<leftarrow> get_fat_directory s directory;
           let dir = dir\<lparr>dir_total := total_items\<rparr>;
           let directory_size = to_int (to_u32 total_items * 32);
           (items, s) \<leftarrow> kzalloc (to_u32 directory_size) (OBytes (replicate (nat directory_size) 0)) s;
           s \<leftarrow> put directory (OFatDirectory (dir\<lparr>dir_item := items\<rparr>)) s;
           if items = 0 then load_out (- ENOMEM) directory s
           else do {
             (res, bs, s) \<leftarrow> fat16_read_internal disk cluster 0 directory_size s;
             s \<leftarrow> store_bytes items bs s;
             load_out res directory s
           }
         }
       }
     }"

definition fat16_new_fat_item_for_directory_item ::
  "disk_ptr \<Rightarrow> u8 list \<Rightarrow> kernel \<Rightarrow> (u32 \<times> kernel) option" where
  "fat16_new_fat_item_for_directory_item disk item s =
     do {
       (f_item, s) \<leftarrow> kzalloc 8 (OFatItem \<lparr>fi_ptr = 0, fi_type = 0\<rparr>) s;
       if f_item = 0 then Some (0, s)
       else if item_attribute item AND FAT_FILE_SUBDIRECTORY \<noteq> 0 then do {
         (directory, s) \<leftarrow> fat16_load_fat_directory disk item s;
         s \<leftarrow> put f_item (OFatItem \<lparr>fi_ptr = directory, fi_type = FAT_ITEM_TYPE_DIRECTORY\<rparr>) s;
         Some (f_item, s)
       } else do {
         (item_copy, s) \<leftarrow> fat16_clone_directory_item item 32 s;
         s \<leftarrow> put f_item (OFatItem \<lparr>fi_ptr = item_copy, fi_type = FAT_ITEM_TYPE_FILE\<rparr>) s;
         Some (f_item, s)
       }
     }"

text \<open>The buffer of the loop is cleared before every use.\<close>

function find_loop ::
  "disk_ptr \<Rightarrow> fat_directory \<Rightarrow> u8 list \<Rightarrow> nat \<Rightarrow> u32 \<Rightarrow> kernel \<Rightarrow> (u32 \<times> kernel) option" where
  "find_loop disk directory name i f_item s =
     (if int i < dir_total directory then do {
        item \<leftarrow> deref_item (dir_item directory) i s;
        tmp_filename \<leftarrow> fat16_get_full_relative_filename item (replicate PLUMOS_MAX_PATH 0)
          (int PLUMOS_MAX_PATH);
        c \<leftarrow> istrncmp tmp_filename name (int PLUMOS_MAX_PATH);
        (f_item, s) \<leftarrow>
          (if c = 0 then fat16_new_fat_item_for_directory_item disk item s else Some (f_item, s));
        find_loop disk directory name (Suc i) f_item s
      } else Some (f_item, s))"
  by pat_completeness auto
termination by (relation "measure (\<lambda>(disk, d, n, i, f, s). nat (dir_total d - int i))") auto

declare find_loop.simps [simp del]

definition fat16_find_item_in_directory ::
  "disk_ptr \<Rightarrow> fat_directory \<Rightarrow> u8 list \<Rightarrow> kernel \<Rightarrow> (u32 \<times> kernel) option" where
  "fat16_find_item_in_directory disk directory name s = find_loop disk directory name 0 0 s"

partial_function (option) entry_loop ::
  "disk_ptr \<Rightarrow> u32 \<Rightarrow> u32 \<Rightarrow> kernel \<Rightarrow> (u32 \<times> kernel) option" where
  "entry_loop disk current_item next_part s =
     (if next_part = 0 then Some (current_item, s)
      else do {
        it \<leftarrow> get_fat_item s current_item;
        if fi_type it \<noteq> FAT_ITEM_TYPE_DIRECTORY then Some (0, s)
        else do {
          part \<leftarrow> get_path_part s next_part;
          name \<leftarrow> get_bytes s (pp_part part);
          directory \<leftarrow> get_fat_directory s (fi_ptr it);
          (tmp_item, s) \<leftarrow> fat16_find_item_in_directory disk directory name s;
          s \<leftarrow> fat16_fat_item_free current_item s;
          part \<leftarrow> get_path_part s next_part;
          entry_loop disk tmp_item (pp_next part) s
        }
      })"

definition fat16_get_directory_entry :: "disk_ptr \<Rightarrow> u32 \<Rightarrow> kernel \<Rightarrow> (u32 \<times> kernel) option" where
  "fat16_get_directory_entry disk path s =
     do {
       d \<leftarrow> deref_disk disk s;
       fat_private \<leftarrow> get_fat_private s (dk_fs_private d);
       part \<leftarrow> get_path_part s path;
       name \<leftarrow> get_bytes s (pp_part part);
       (root_item, s) \<leftarrow> fat16_find_item_in_directory disk (fp_root_directory fat_private) name s;
       if root_item = 0 then Some (0, s)
       else do {
         part \<leftarrow> get_path_part s path;
         entry_loop disk root_item (pp_next part) s
       }
     }"

section \<open>The operations of the driver\<close>

text \<open>An error is returned as a pointer: \<open>ERROR\<close> of \<open>kernel.h\<close>.\<close>

definition fat16_open :: "disk_ptr \<Rightarrow> u32 \<Rightarrow> u32 \<Rightarrow> kernel \<Rightarrow> (u32 \<times> kernel) option" where
  "fat16_open disk path mode s =
     (if mode \<noteq> FILE_MODE_READ then Some (to_u32 (- ERDONLY), s)
      else do {
        (descriptor, s) \<leftarrow> kzalloc 8 (OFatFileDesc \<lparr>ffd_item = 0, ffd_pos = 0\<rparr>) s;
        if descriptor = 0 then Some (to_u32 (- ENOMEM), s)
        else do {
          (item, s) \<leftarrow> fat16_get_directory_entry disk path s;
          s \<leftarrow> put descriptor (OFatFileDesc \<lparr>ffd_item = item, ffd_pos = 0\<rparr>) s;
          if item = 0 then do { s \<leftarrow> kfree descriptor s; Some (to_u32 (- EIO), s) }
          else Some (descriptor, s)
        }
      })"

fun read_members ::
  "nat \<Rightarrow> disk_ptr \<Rightarrow> u8 list \<Rightarrow> int \<Rightarrow> u32 \<Rightarrow> kernel \<Rightarrow> (int \<times> u8 list \<times> kernel) option" where
  "read_members 0 disk item offset sz s = Some (0, [], s)"
| "read_members (Suc n) disk item offset sz s =
     do {
       (res, out, s) \<leftarrow> fat16_read_internal disk (to_int (fat16_get_first_cluster item)) offset (to_int sz) s;
       if res < 0 then Some (res, out, s)
       else do {
         (res, out', s) \<leftarrow> read_members n disk item (to_int (to_u32 offset + sz)) sz s;
         Some (res, out @ out', s)
       }
     }"

definition fat16_read ::
  "disk_ptr \<Rightarrow> u32 \<Rightarrow> u32 \<Rightarrow> u32 \<Rightarrow> kernel \<Rightarrow> (int \<times> u8 list \<times> kernel) option" where
  "fat16_read disk descriptor sz nmemb s =
     do {
       fat_desc \<leftarrow> get_fat_file_desc s descriptor;
       it \<leftarrow> get_fat_item s (ffd_item fat_desc);
       item \<leftarrow> deref_item (fi_ptr it) 0 s;
       let offset = to_int (ffd_pos fat_desc);
       (res, out, s) \<leftarrow> read_members (unat nmemb) disk item offset sz s;
       if res < 0 then Some (res, out, s) else Some (to_int nmemb, out, s)
     }"

definition fat16_seek :: "u32 \<Rightarrow> u32 \<Rightarrow> u32 \<Rightarrow> kernel \<Rightarrow> (int \<times> kernel) option" where
  "fat16_seek private offset seek_mode s =
     do {
       desc \<leftarrow> get_fat_file_desc s private;
       desc_item \<leftarrow> get_fat_item s (ffd_item desc);
       if fi_type desc_item \<noteq> FAT_ITEM_TYPE_FILE then Some (- EINVARG, s)
       else do {
         ritem \<leftarrow> deref_item (fi_ptr desc_item) 0 s;
         if offset \<ge> item_filesize ritem then Some (- EIO, s)
         else if seek_mode = SEEK_SET then do {
           s \<leftarrow> put private (OFatFileDesc (desc\<lparr>ffd_pos := offset\<rparr>)) s;
           Some (0, s)
         }
         else if seek_mode = SEEK_END then Some (- EUNIMP, s)
         else if seek_mode = SEEK_CUR then do {
           s \<leftarrow> put private (OFatFileDesc (desc\<lparr>ffd_pos := ffd_pos desc + offset\<rparr>)) s;
           Some (0, s)
         }
         else Some (- EINVARG, s)
       }
     }"

definition fat16_free_file_descriptor :: "u32 \<Rightarrow> kernel \<Rightarrow> kernel option" where
  "fat16_free_file_descriptor desc s =
     do {
       d \<leftarrow> get_fat_file_desc s desc;
       s \<leftarrow> fat16_fat_item_free (ffd_item d) s;
       kfree desc s
     }"

definition fat16_close :: "u32 \<Rightarrow> kernel \<Rightarrow> (int \<times> kernel) option" where
  "fat16_close private s = do { s \<leftarrow> fat16_free_file_descriptor private s; Some (0, s) }"

text \<open>The \<open>struct file_stat\<close> of the caller is passed in and returned.\<close>

definition fat16_stat :: "disk_ptr \<Rightarrow> u32 \<Rightarrow> file_stat \<Rightarrow> kernel \<Rightarrow> (int \<times> file_stat) option" where
  "fat16_stat disk private stat s =
     do {
       descriptor \<leftarrow> get_fat_file_desc s private;
       desc_item \<leftarrow> get_fat_item s (ffd_item descriptor);
       if fi_type desc_item \<noteq> FAT_ITEM_TYPE_FILE then Some (- EINVARG, stat)
       else do {
         ritem \<leftarrow> deref_item (fi_ptr desc_item) 0 s;
         let flags = (if item_attribute ritem AND FAT_FILE_READ_ONLY \<noteq> 0 then FILE_STAT_READ_ONLY else 0);
         Some (0, \<lparr>st_flags = flags, st_filesize = item_filesize ritem\<rparr>)
       }
     }"

declare count_items.simps [code] fat16_read_internal_from_stream.simps [code] entry_loop.simps [code]

end
