(* ===== verification/FatData.thy ===== *)
theory FatData
  imports Fat16 Samples
begin

unbundle bit_operations_syntax

text \<open>
  Reading data from a mounted FAT16 volume: the entries of the file allocation table, the chain of
  clusters they link, and the bytes of a file as the concatenation of its clusters.
\<close>

section \<open>A mounted volume\<close>

definition fat_streams :: "fat_private \<Rightarrow> u32 set" where
  "fat_streams fp = {fp_cluster_read_stream fp, fp_fat_read_stream fp, fp_directory_stream fp}"

text \<open>
  The drive serves the image \<open>img\<close>, the disk's private data is \<open>fp\<close>, and the three streams it names
  are streams over the disk.
\<close>

definition fat_mounted :: "(nat \<Rightarrow> u8 list) \<Rightarrow> fat_private \<Rightarrow> kernel \<Rightarrow> bool" where
  "fat_mounted img fp s \<longleftrightarrow>
     ata_serves (device s) img \<and> dk_sector_size (gdisk s) = 512 \<and>
     objs s (dk_fs_private (gdisk s)) = Some (OFatPrivate fp) \<and>
     (\<forall>st \<in> fat_streams fp. st \<noteq> 0 \<and> (\<exists>p. objs s st = Some (OStream \<lparr>ds_pos = p, ds_disk = TheDisk\<rparr>)))"

text \<open>Reading moves the streams and grows the log of port accesses; nothing else changes.\<close>

definition fat_step :: "fat_private \<Rightarrow> kernel \<Rightarrow> kernel \<Rightarrow> bool" where
  "fat_step fp s s' \<longleftrightarrow> s' = s\<lparr>io_log := io_log s', objs := objs s'\<rparr> \<and>
     (\<forall>p. p \<notin> fat_streams fp \<longrightarrow> objs s' p = objs s p) \<and>
     (\<forall>st \<in> fat_streams fp. objs s' st = objs s st \<or>
        (\<exists>p. objs s' st = Some (OStream \<lparr>ds_pos = p, ds_disk = TheDisk\<rparr>)))"

lemma fat_step_refl [simp]: "fat_step fp s s"
  by (simp add: fat_step_def)

lemma fat_step_trans [trans]: "fat_step fp s s' \<Longrightarrow> fat_step fp s' s'' \<Longrightarrow> fat_step fp s s''"
  unfolding fat_step_def
  by (metis (no_types, lifting) kernel.surjective kernel.update_convs(2,10))

lemma fat_stepD:
  assumes "fat_step fp s s'"
  shows "gdisk s' = gdisk s" "device s' = device s" "kernel_heap s' = kernel_heap s"
    "p \<notin> fat_streams fp \<Longrightarrow> objs s' p = objs s p"
proof -
  have e: "s' = s\<lparr>io_log := io_log s', objs := objs s'\<rparr>" using assms by (simp add: fat_step_def)
  show "gdisk s' = gdisk s" by (subst e) simp
  show "device s' = device s" by (subst e) simp
  show "kernel_heap s' = kernel_heap s" by (subst e) simp
  show "p \<notin> fat_streams fp \<Longrightarrow> objs s' p = objs s p" using assms by (simp add: fat_step_def)
qed

lemma fat_private_not_stream:
  assumes "fat_mounted img fp s"
  shows "dk_fs_private (gdisk s) \<notin> fat_streams fp"
  using assms by (force simp: fat_mounted_def)

lemma fat_mounted_step:
  assumes "fat_mounted img fp s" "fat_step fp s s'"
  shows "fat_mounted img fp s'"
proof -
  have "objs s' (dk_fs_private (gdisk s)) = objs s (dk_fs_private (gdisk s))"
    using fat_stepD(4) [OF assms(2)] fat_private_not_stream [OF assms(1)] by simp
  moreover have "\<exists>p. objs s' st = Some (OStream \<lparr>ds_pos = p, ds_disk = TheDisk\<rparr>)" if "st \<in> fat_streams fp" for st
    using that assms unfolding fat_mounted_def fat_step_def by metis
  ultimately show ?thesis using assms(1) fat_stepD(1,2) [OF assms(2)] by (simp add: fat_mounted_def)
qed

lemma fat_private_get:
  "fat_mounted img fp s \<Longrightarrow> get_fat_private s (dk_fs_private (gdisk s)) = Some fp"
  by (simp add: fat_mounted_def get_fat_private_def)

lemma fat_seek_read:
  assumes "fat_mounted img fp s" "st \<in> fat_streams fp" "int pos + int n + 512 < 2 ^ 31"
  obtains s1 s2 where "diskstreamer_seek st (int pos) s = Some (0, s1)"
    "diskstreamer_read st (int n) s1 = Some (0, disk_bytes img pos n, s2)" "fat_step fp s s2"
    "objs s2 = (objs s)(st \<mapsto> OStream \<lparr>ds_pos = int (pos + n), ds_disk = TheDisk\<rparr>)"
proof -
  obtain p where p: "objs s st = Some (OStream \<lparr>ds_pos = p, ds_disk = TheDisk\<rparr>)"
    using assms(1,2) by (auto simp: fat_mounted_def)
  have d: "ata_serves (device s) img" using assms(1) by (simp add: fat_mounted_def)
  obtain s1 s2 where r: "diskstreamer_seek st (int pos) s = Some (0, s1)"
    "diskstreamer_read st (int n) s1 = Some (0, disk_bytes img pos n, s2)" "stream_moved st (pos + n) s s2"
    using seek_read_ok [OF d p _ assms(3)] by auto
  have o: "objs s2 = (objs s)(st \<mapsto> OStream \<lparr>ds_pos = int (pos + n), ds_disk = TheDisk\<rparr>)"
    using r(3) by (rule stream_movedD)
  have "s2 = s\<lparr>io_log := io_log s2, objs := objs s2\<rparr>" using r(3) by (auto simp: stream_moved_def)
  then have "fat_step fp s s2" using o assms(2) by (auto simp: fat_step_def)
  then show thesis using that r(1,2) o by blast
qed

section \<open>The file allocation table\<close>

definition fat_entry :: "(nat \<Rightarrow> u8 list) \<Rightarrow> fat_private \<Rightarrow> nat \<Rightarrow> nat" where
  "fat_entry img fp c = unat (le16 (disk_bytes img (512 * unat (le16 (fp_header fp) 14) + 2 * c) 2) 0)"

lemma fat_entry_less: "fat_entry img fp c < 65536"
  using unsigned_less [of "le16 (disk_bytes img (512 * unat (le16 (fp_header fp) 14) + 2 * c) 2) 0", where ?'a = nat]
  by (simp add: fat_entry_def)

lemma get_fat_entry_ok:
  assumes "fat_mounted img fp s" "c < 65536"
  obtains s' where "fat16_get_fat_entry TheDisk (int c) s = Some (int (fat_entry img fp c), s')" "fat_step fp s s'"
proof -
  obtain r where r: "unat (le16 (fp_header fp) 14) = r" by blast
  have rl: "r < 65536" using unsigned_less [of "le16 (fp_header fp) 14", where ?'a = nat] r by simp
  have ui: "reserved_sectors (fp_header fp) = int r" by (simp add: reserved_sectors_def r [symmetric])
  let ?st = "fp_fat_read_stream fp"
  let ?pos = "512 * r + 2 * c"
  have bound: "int ?pos + int 2 + 512 < 2 ^ 31" using rl assms(2) by simp
  obtain s1 s2 where s: "diskstreamer_seek ?st (int ?pos) s = Some (0, s1)"
    "diskstreamer_read ?st (int 2) s1 = Some (0, disk_bytes img ?pos 2, s2)" "fat_step fp s s2"
    by (rule fat_seek_read [OF assms(1) _ bound, of ?st]) (auto simp: fat_streams_def)
  have nz: "?st \<noteq> 0" and ss: "dk_sector_size (gdisk s) = 512" using assms(1) by (auto simp: fat_mounted_def fat_streams_def)
  have off: "s32 (int c * PLUMOS_FAT16_FAT_ENTRY_SIZE) = Some (int (2 * c))"
    using assms(2) by (simp add: s32_def PLUMOS_FAT16_FAT_ENTRY_SIZE_def mult.commute)
  have "to_u32 (int r) * to_u32 512 + to_u32 (int (2 * c)) = (of_nat ?pos :: u32)" by simp
  then have pos: "to_int (to_u32 (int r) * to_u32 512 + to_u32 (int (2 * c))) = int ?pos"
    using rl assms(2) sint_of_small_nat [of ?pos] by (simp del: of_nat_add of_nat_mult)
  have e: "uint (le16 (disk_bytes img ?pos 2) 0) = int (fat_entry img fp c)"
    unfolding fat_entry_def r by simp
  have "fat16_get_fat_entry TheDisk (int c) s = Some (int (fat_entry img fp c), s2)"
    unfolding fat16_get_fat_entry_def
    using s(1,2) nz off pos ss e
    by (simp only: deref_disk_def Option.bind.bind_lunit fat_private_get [OF assms(1)] Let_def if_True if_False
        fat16_get_first_fat_sector_def ui prod.case refl of_nat_numeral simp_thms) simp
  then show thesis using that s(3) by blast
qed

definition chain_stop :: "nat \<Rightarrow> bool" where
  "chain_stop e \<longleftrightarrow> e \<in> {0, 0xFF0, 0xFF6, 0xFF7, 0xFF8, 0xFFF}"

text \<open>The cluster \<open>n\<close> links after \<open>c\<close>, if the chain does not end before.\<close>

fun follow :: "(nat \<Rightarrow> u8 list) \<Rightarrow> fat_private \<Rightarrow> nat \<Rightarrow> nat \<Rightarrow> nat option" where
  "follow img fp 0 c = Some c"
| "follow img fp (Suc n) c =
     (let e = fat_entry img fp c in if chain_stop e then None else follow img fp n e)"

lemma cluster_loop_ok:
  assumes "fat_mounted img fp s" "c < 65536"
  shows "\<exists>s'. cluster_loop TheDisk n (int c) s =
      Some (case follow img fp n c of Some k \<Rightarrow> int k | None \<Rightarrow> - EIO, s') \<and> fat_step fp s s'"
  using assms
proof (induction n arbitrary: c s)
  case 0
  then show ?case by auto
next
  case (Suc n)
  obtain s1 where s1: "fat16_get_fat_entry TheDisk (int c) s = Some (int (fat_entry img fp c), s1)" "fat_step fp s s1"
    by (rule get_fat_entry_ok [OF Suc.prems])
  show ?case
  proof (cases "chain_stop (fat_entry img fp c)")
    case True
    then show ?thesis using s1 by (auto simp: chain_stop_def PLUMOS_FAT16_BAD_SECTOR_def)
  next
    case False
    obtain s2 where s2: "cluster_loop TheDisk n (int (fat_entry img fp c)) s1 =
        Some (case follow img fp n (fat_entry img fp c) of Some k \<Rightarrow> int k | None \<Rightarrow> - EIO, s2)" "fat_step fp s1 s2"
      using Suc.IH [OF fat_mounted_step [OF Suc.prems(1) s1(2)] fat_entry_less] by blast
    have ne: "fat_entry img fp c \<noteq> 0" "fat_entry img fp c \<noteq> 0xFF0" "fat_entry img fp c \<noteq> 0xFF6"
      "fat_entry img fp c \<noteq> 0xFF7" "fat_entry img fp c \<noteq> 0xFF8" "fat_entry img fp c \<noteq> 0xFFF"
      using False by (auto simp: chain_stop_def)
    then have "cluster_loop TheDisk (Suc n) (int c) s = cluster_loop TheDisk n (int (fat_entry img fp c)) s1"
      using s1(1) by (simp add: PLUMOS_FAT16_BAD_SECTOR_def)
    then show ?thesis using s2 False fat_step_trans [OF s1(2) s2(2)] by (simp add: Let_def)
  qed
qed

section \<open>Reading along the chain\<close>

definition cluster_size :: "fat_private \<Rightarrow> nat" where
  "cluster_size fp = 512 * unat (fp_header fp ! 13)"

definition cluster_pos :: "fat_private \<Rightarrow> nat \<Rightarrow> nat" where
  "cluster_pos fp k =
     512 * (nat (dir_end_sector_pos (fp_root_directory fp)) + (k - 2) * unat (fp_header fp ! 13))"

text \<open>A cluster of the data area whose bytes lie within the range of the C type of positions.\<close>

definition cluster_ok :: "fat_private \<Rightarrow> nat \<Rightarrow> bool" where
  "cluster_ok fp k \<longleftrightarrow> 2 \<le> k \<and> int (cluster_pos fp k) + 2 * int (cluster_size fp) + 512 < 2 ^ 31"

definition fat_layout :: "fat_private \<Rightarrow> bool" where
  "fat_layout fp \<longleftrightarrow> 0 \<le> dir_end_sector_pos (fp_root_directory fp) \<and> fp_header fp ! 13 \<noteq> 0"

lemma cluster_size_pos: "fat_layout fp \<Longrightarrow> 0 < cluster_size fp"
  by (simp add: fat_layout_def cluster_size_def unat_gt_0)

lemma cluster_size_le: "cluster_size fp \<le> 130560"
  using unsigned_less [of "fp_header fp ! 13", where ?'a = nat] by (simp add: cluster_size_def)

lemma sectors_per_cluster_nat: "sectors_per_cluster (fp_header fp) = int (unat (fp_header fp ! 13))"
  by (simp add: sectors_per_cluster_def)

lemma size_of_cluster_ok:
  assumes "fat_mounted img fp s"
  shows "size_of_cluster TheDisk s = Some (int (cluster_size fp))"
proof -
  obtain b where b: "unat (fp_header fp ! 13) = b" by blast
  have "int (512 * b) < 2 ^ 31" using cluster_size_le [of fp] by (simp add: cluster_size_def b)
  then have "s32 (int b * 512) = Some (int (512 * b))" using s32_nat [of "512 * b"] by (simp add: mult.commute)
  moreover have "sectors_per_cluster (fp_header fp) = int b" by (simp only: sectors_per_cluster_nat b)
  ultimately show ?thesis
    using assms fat_private_get [OF assms]
    by (simp add: size_of_cluster_def deref_disk_def fat_mounted_def cluster_size_def b)
qed

lemma cluster_sector_ok:
  assumes "fat_layout fp" "cluster_ok fp k"
  obtains sec where "fat16_cluster_to_sector fp (int k) = Some (int sec)" "512 * sec = cluster_pos fp k"
proof -
  obtain e where e: "dir_end_sector_pos (fp_root_directory fp) = int e"
    using assms(1) unfolding fat_layout_def by (metis nonneg_int_cases)
  obtain m where m: "k = m + 2" using assms(2) unfolding cluster_ok_def by (metis add.commute le_Suc_ex)
  obtain b where b: "unat (fp_header fp ! 13) = b" by blast
  let ?sec = "e + m * b"
  have p: "cluster_pos fp k = 512 * ?sec" by (simp add: cluster_pos_def e m b)
  have bd: "int ?sec < 2 ^ 22" "b \<noteq> 0"
    using assms p by (auto simp: cluster_ok_def fat_layout_def b [symmetric] unat_eq_0)
  have "m \<le> m * b" using bd(2) by simp
  then have ml: "int m < 2 ^ 22" "int (m * b) < 2 ^ 22" using bd(1) by linarith+
  have "s32 (int k - 2) = Some (int m)" "s32 (int m * int b) = Some (int (m * b))"
    "s32 (int e + int (m * b)) = Some (int ?sec)"
    using s32_nat [of m] s32_nat [of "m * b"] s32_nat [of ?sec] ml bd(1) by (simp_all add: m)
  then have "fat16_cluster_to_sector fp (int k) = Some (int ?sec)"
    unfolding fat16_cluster_to_sector_def sectors_per_cluster_nat b e
    by (simp only: Option.bind.bind_lunit)
  then show thesis using that p by metis
qed

lemma div_int_nat: "c_div (int a) (int b) = (if b = 0 then None else Some (int (a div b)))"
  by (simp add: c_div_def signed_divide_int_def sgn_if zdiv_int)

lemma mod_int_nat: "c_mod (int a) (int b) = (if b = 0 then None else Some (int (a mod b)))"
  by (simp add: c_mod_def signed_modulo_int_def sgn_if zmod_int)

lemma cluster_for_offset_ok:
  assumes "fat_mounted img fp s" "fat_layout fp" "c < 65536"
  obtains s' where "fat16_get_cluster_for_offset TheDisk (int c) (int off) s =
      Some (case follow img fp (off div cluster_size fp) c of Some k \<Rightarrow> int k | None \<Rightarrow> - EIO, s')" "fat_step fp s s'"
proof -
  have "cluster_size fp \<noteq> 0" using cluster_size_pos [OF assms(2)] by simp
  then have "fat16_get_cluster_for_offset TheDisk (int c) (int off) s =
      cluster_loop TheDisk (off div cluster_size fp) (int c) s"
    by (simp only: fat16_get_cluster_for_offset_def size_of_cluster_ok [OF assms(1)] Option.bind.bind_lunit
        div_int_nat if_False nat_int)
  then show thesis using that cluster_loop_ok [OF assms(1,3), of "off div cluster_size fp"] by auto
qed

lemma read_internal_step:
  assumes "deref_disk disk s = Some d" "get_fat_private s (dk_fs_private d) = Some private"
    "size_of_cluster disk s = Some cs" "fat16_get_cluster_for_offset disk cluster offset s = Some (k, s1)" "\<not> k < 0"
    "c_mod offset cs = Some o1" "fat16_cluster_to_sector private k = Some sec"
    "s32 (sec * dk_sector_size d) = Some p" "s32 (p + o1) = Some pos"
    "m = (if tot > cs then cs else tot)"
    "diskstreamer_seek stream pos s1 = Some (0, s2)" "diskstreamer_read stream m s2 = Some (0, out, s3)"
  shows "fat16_read_internal_from_stream disk stream cluster offset tot s =
    (if tot - m > 0 then do {
       offset \<leftarrow> s32 (offset + m);
       (res, out', s) \<leftarrow> fat16_read_internal_from_stream disk stream cluster offset (tot - m) s3;
       Some (res, out @ out', s)
     } else Some (0, out, s3))"
  unfolding fat16_read_internal_from_stream.simps [of disk stream cluster offset tot s]
  using assms(1-9,11,12) unfolding assms(10) [symmetric]
  by (simp only: Option.bind.bind_lunit prod.case if_False Let_def refl PLUMOS_ALL_OK_def
      not_True_eq_False assms(10) [symmetric] simp_thms)

lemma read_chunk:
  assumes m: "fat_mounted img fp s" and l: "fat_layout fp" and c: "c < 65536"
    and k: "follow img fp (off div cluster_size fp) c = Some k" "cluster_ok fp k"
    and n: "q = min n (cluster_size fp)"
  obtains s' where "fat_step fp s s'"
    "fat16_read_internal_from_stream TheDisk (fp_cluster_read_stream fp) (int c) (int off) (int n) s =
     (if int n - int q > 0 then do {
        offset \<leftarrow> s32 (int off + int q);
        (res, out', s) \<leftarrow> fat16_read_internal_from_stream TheDisk (fp_cluster_read_stream fp) (int c) offset
          (int n - int q) s';
        Some (res, disk_bytes img (cluster_pos fp k + off mod cluster_size fp) q @ out', s)
      } else Some (0, disk_bytes img (cluster_pos fp k + off mod cluster_size fp) q, s'))"
proof -
  let ?st = "fp_cluster_read_stream fp"
  have cs: "cluster_size fp \<noteq> 0" using cluster_size_pos [OF l] by simp
  obtain s1 where s1: "fat16_get_cluster_for_offset TheDisk (int c) (int off) s = Some (int k, s1)" "fat_step fp s s1"
    using cluster_for_offset_ok [OF m l c, of off] k(1) by auto
  obtain sec where sec: "fat16_cluster_to_sector fp (int k) = Some (int sec)" "512 * sec = cluster_pos fp k"
    by (rule cluster_sector_ok [OF l k(2)])
  let ?o = "off mod cluster_size fp"
  let ?pos = "cluster_pos fp k + ?o"
  have ol: "?o < cluster_size fp" using cs by simp
  have ql: "q \<le> cluster_size fp" using n by simp
  have bound: "int ?pos + int q + 512 < 2 ^ 31" using k(2) ol ql unfolding cluster_ok_def by linarith
  obtain s2 s3 where s3: "diskstreamer_seek ?st (int ?pos) s1 = Some (0, s2)"
    "diskstreamer_read ?st (int q) s2 = Some (0, disk_bytes img ?pos q, s3)" "fat_step fp s1 s3"
    by (rule fat_seek_read [OF fat_mounted_step [OF m s1(2)] _ bound, of ?st]) (auto simp: fat_streams_def)
  have ss: "dk_sector_size (gdisk s) = 512" using m by (simp add: fat_mounted_def)
  have p: "s32 (int sec * dk_sector_size (gdisk s)) = Some (int (cluster_pos fp k))"
    "s32 (int (cluster_pos fp k) + int ?o) = Some (int ?pos)"
    using bound sec(2) ss by (auto simp: s32_def)
  have q: "int q = (if int n > int (cluster_size fp) then int (cluster_size fp) else int n)"
    using n by (auto simp: min_def)
  have d: "deref_disk TheDisk s = Some (gdisk s)" by (simp add: deref_disk_def)
  have om: "c_mod (int off) (int (cluster_size fp)) = Some (int ?o)" using cs by (simp only: mod_int_nat if_False)
  have nk: "\<not> int k < 0" by simp
  from read_internal_step [OF d fat_private_get [OF m] size_of_cluster_ok [OF m] s1(1) nk om sec(1) p q s3(1,2)]
  show thesis using that fat_step_trans [OF s1(2) s3(3)] by blast
qed

text \<open>The bytes of a file: byte \<open>i\<close> lies in cluster \<open>i div cluster_size\<close> of the chain.\<close>

definition file_byte :: "(nat \<Rightarrow> u8 list) \<Rightarrow> fat_private \<Rightarrow> nat \<Rightarrow> nat \<Rightarrow> u8" where
  "file_byte img fp c i =
     (case follow img fp (i div cluster_size fp) c of
        Some k \<Rightarrow> disk_byte img (cluster_pos fp k + i mod cluster_size fp)
      | None \<Rightarrow> 0)"

definition file_bytes :: "(nat \<Rightarrow> u8 list) \<Rightarrow> fat_private \<Rightarrow> nat \<Rightarrow> nat \<Rightarrow> nat \<Rightarrow> u8 list" where
  "file_bytes img fp c off n = map (file_byte img fp c) [off..<off + n]"

lemma file_bytes_append: "file_bytes img fp c off m @ file_bytes img fp c (off + m) n = file_bytes img fp c off (m + n)"
proof -
  have "[off..<off + (m + n)] = [off..<off + m] @ [off + m..<off + m + n]"
    using upt_add_eq_append [of off "off + m" n] by (simp add: add.assoc)
  then show ?thesis by (simp add: file_bytes_def)
qed

lemma file_bytes_in_cluster:
  assumes "follow img fp (off div cluster_size fp) c = Some k" "off mod cluster_size fp + n \<le> cluster_size fp"
  shows "file_bytes img fp c off n = disk_bytes img (cluster_pos fp k + off mod cluster_size fp) n"
proof (rule nth_equalityI)
  fix i assume "i < length (file_bytes img fp c off n)"
  then have i: "i < n" by (simp add: file_bytes_def)
  obtain cs where cs: "cluster_size fp = cs" by blast
  have e: "(cs * q + r) div cs = q \<and> (cs * q + r) mod cs = r" if "r < cs" for q r :: nat
    using that by simp
  from e [of "off mod cs + i" "off div cs"]
  have "(off + i) div cs = off div cs" "(off + i) mod cs = off mod cs + i"
    using i assms(2) unfolding cs by (simp_all only: add.assoc [symmetric] mult_div_mod_eq)
  then show "file_bytes img fp c off n ! i = disk_bytes img (cluster_pos fp k + off mod cluster_size fp) n ! i"
    using i assms(1) by (simp add: file_bytes_def file_byte_def disk_bytes_def cs add.assoc)
qed (simp add: file_bytes_def)

text \<open>The clusters a read of \<open>n\<close> bytes at \<open>off\<close> needs exist.\<close>

definition chain_ok :: "(nat \<Rightarrow> u8 list) \<Rightarrow> fat_private \<Rightarrow> nat \<Rightarrow> nat \<Rightarrow> nat \<Rightarrow> bool" where
  "chain_ok img fp c off n \<longleftrightarrow>
     (\<forall>i \<in> {off ..< off + max 1 n}. \<exists>k. follow img fp (i div cluster_size fp) c = Some k \<and> cluster_ok fp k)"

lemma read_stream_ok:
  assumes "fat_mounted img fp s" "fat_layout fp" "c < 65536" "chain_ok img fp c off n"
    "off mod cluster_size fp = 0 \<or> off mod cluster_size fp + n \<le> cluster_size fp" "int off + int n < 2 ^ 31"
  shows "\<exists>s'. fat16_read_internal_from_stream TheDisk (fp_cluster_read_stream fp) (int c) (int off) (int n) s =
      Some (0, file_bytes img fp c off n, s') \<and> fat_step fp s s'"
  using assms
proof (induction n arbitrary: off s rule: less_induct)
  case (less n)
  have cs: "0 < cluster_size fp" using cluster_size_pos [OF less.prems(2)] .
  have "off \<in> {off ..< off + max 1 n}" by simp
  then obtain k where k: "follow img fp (off div cluster_size fp) c = Some k" "cluster_ok fp k"
    using less.prems(4) unfolding chain_ok_def by blast
  obtain q where q: "q = min n (cluster_size fp)" by blast
  let ?chunk = "disk_bytes img (cluster_pos fp k + off mod cluster_size fp) q"
  obtain s1 where s1: "fat_step fp s s1"
    "fat16_read_internal_from_stream TheDisk (fp_cluster_read_stream fp) (int c) (int off) (int n) s =
     (if int n - int q > 0 then do {
        offset \<leftarrow> s32 (int off + int q);
        (res, out', s) \<leftarrow> fat16_read_internal_from_stream TheDisk (fp_cluster_read_stream fp) (int c) offset
          (int n - int q) s1;
        Some (res, ?chunk @ out', s)
      } else Some (0, ?chunk, s1))"
    by (rule read_chunk [OF less.prems(1-3) k q])
  have "off mod cluster_size fp + q \<le> cluster_size fp" using less.prems(5) q by auto
  then have chunk: "?chunk = file_bytes img fp c off q" by (simp add: file_bytes_in_cluster [OF k(1)])
  show ?case
  proof (cases "n \<le> cluster_size fp")
    case True
    then have "q = n" using q by simp
    then show ?thesis using s1 chunk by simp
  next
    case False
    have qc: "q = cluster_size fp" and lt: "n - q < n" using q False cs by auto
    have al: "off mod cluster_size fp = 0" using less.prems(5) False by auto
    have al2: "(off + q) mod cluster_size fp = 0 \<or> (off + q) mod cluster_size fp + (n - q) \<le> cluster_size fp"
      using al qc by simp
    have "chain_ok img fp c (off + q) (n - q)"
      using less.prems(4) False qc unfolding chain_ok_def by (auto simp: max_def)
    moreover have "int (off + q) + int (n - q) < 2 ^ 31" using less.prems(6) False qc by simp
    ultimately obtain s2 where s2: "fat16_read_internal_from_stream TheDisk (fp_cluster_read_stream fp) (int c)
        (int (off + q)) (int (n - q)) s1 = Some (0, file_bytes img fp c (off + q) (n - q), s2)" "fat_step fp s1 s2"
      using less.IH [OF lt fat_mounted_step [OF less.prems(1) s1(1)] less.prems(2,3) _ al2] by blast
    have d: "int n - int q = int (n - q)" "int off + int q = int (off + q)" "int (n - q) > 0" using qc False by auto
    have e: "s32 (int (off + q)) = Some (int (off + q))" using less.prems(6) False qc by (intro s32_nat) simp
    have "fat16_read_internal_from_stream TheDisk (fp_cluster_read_stream fp) (int c) (int off) (int n) s =
        Some (0, file_bytes img fp c off q @ file_bytes img fp c (off + q) (n - q), s2)"
      unfolding s1(2) d using s2(1) d(3) e by (simp only: if_True Option.bind.bind_lunit prod.case chunk)
    then show ?thesis
      using fat_step_trans [OF s1(1) s2(2)] file_bytes_append [of img fp c off q "n - q"] qc False by auto
  qed
qed

lemma read_internal_ok:
  assumes "fat_mounted img fp s" "fat_layout fp" "c < 65536" "chain_ok img fp c off n"
    "off mod cluster_size fp = 0 \<or> off mod cluster_size fp + n \<le> cluster_size fp" "int off + int n < 2 ^ 31"
  obtains s' where "fat16_read_internal TheDisk (int c) (int off) (int n) s = Some (0, file_bytes img fp c off n, s')"
    "fat_step fp s s'"
  using read_stream_ok [OF assms] fat_private_get [OF assms(1)] that
  by (auto simp: fat16_read_internal_def deref_disk_def)

section \<open>Reading an open file\<close>

text \<open>\<open>desc\<close> is the descriptor of a file whose directory entry is \<open>b\<close>, at position \<open>pos\<close>.\<close>

definition open_file :: "kernel \<Rightarrow> u32 \<Rightarrow> u8 list \<Rightarrow> u32 \<Rightarrow> bool" where
  "open_file s desc b pos \<longleftrightarrow> length b = 32 \<and>
     (\<exists>it p. objs s desc = Some (OFatFileDesc \<lparr>ffd_item = it, ffd_pos = pos\<rparr>) \<and>
       objs s it = Some (OFatItem \<lparr>fi_ptr = p, fi_type = FAT_ITEM_TYPE_FILE\<rparr>) \<and> objs s p = Some (OBytes b))"

lemma open_file_step:
  assumes "open_file s desc b pos" "fat_mounted img fp s" "fat_step fp s s'"
  shows "open_file s' desc b pos"
proof -
  have "objs s' a = Some x" if "objs s a = Some x" "\<forall>d. x \<noteq> OStream d" for a x
  proof -
    have "a \<notin> fat_streams fp" using that assms(2) unfolding fat_mounted_def by (metis option.inject)
    then show ?thesis using fat_stepD(4) [OF assms(3)] that(1) by simp
  qed
  then show ?thesis using assms(1) unfolding open_file_def by blast
qed

lemma read_members_ok:
  assumes "fat_mounted img fp s" "fat_layout fp" "unat (fat16_get_first_cluster b) = c" "c < 65536"
    "unat sz = n" "int pos + int (m * n) < 2 ^ 31"
    "\<forall>i < m. chain_ok img fp c (pos + i * n) n \<and>
       ((pos + i * n) mod cluster_size fp = 0 \<or> (pos + i * n) mod cluster_size fp + n \<le> cluster_size fp)"
  shows "\<exists>s'. read_members m TheDisk b (int pos) sz s = Some (0, file_bytes img fp c pos (m * n), s') \<and> fat_step fp s s'"
  using assms(1,6,7)
proof (induction m arbitrary: pos s)
  case 0
  then show ?case by (simp add: file_bytes_def)
next
  case (Suc m)
  have k0: "chain_ok img fp c pos n" "pos mod cluster_size fp = 0 \<or> pos mod cluster_size fp + n \<le> cluster_size fp"
    using Suc.prems(3) [rule_format, of 0] by simp_all
  have b0: "int pos + int n < 2 ^ 31" "int (pos + n) + int (m * n) < 2 ^ 31"
    using Suc.prems(2) of_nat_0_le_iff [of "m * n", where ?'a = int]
    unfolding mult_Suc of_nat_add by linarith+
  obtain s1 where s1: "fat16_read_internal TheDisk (int c) (int pos) (int n) s = Some (0, file_bytes img fp c pos n, s1)"
    "fat_step fp s s1"
    by (rule read_internal_ok [OF Suc.prems(1) assms(2,4) k0 b0(1)])
  have "\<forall>i < m. chain_ok img fp c ((pos + n) + i * n) n \<and>
       (((pos + n) + i * n) mod cluster_size fp = 0 \<or> ((pos + n) + i * n) mod cluster_size fp + n \<le> cluster_size fp)"
  proof (intro allI impI)
    fix i assume "i < m"
    then show "chain_ok img fp c ((pos + n) + i * n) n \<and>
       (((pos + n) + i * n) mod cluster_size fp = 0 \<or> ((pos + n) + i * n) mod cluster_size fp + n \<le> cluster_size fp)"
      using Suc.prems(3) [rule_format, of "Suc i"] by (simp add: add.assoc add.left_commute)
  qed
  then obtain s2 where s2: "read_members m TheDisk b (int (pos + n)) sz s1 =
      Some (0, file_bytes img fp c (pos + n) (m * n), s2)" "fat_step fp s1 s2"
    using Suc.IH [OF fat_mounted_step [OF Suc.prems(1) s1(2)] b0(2)] by blast
  have ci: "to_int (fat16_get_first_cluster b) = int c" "to_int sz = int n"
    using assms(3,4,5) b0(1) by (auto simp: sint_eq_unat simp flip: assms(3))
  have "to_u32 (int pos) + sz = of_nat (pos + n)" using assms(5) by auto
  then have nx: "to_int (to_u32 (int pos) + sz) = int (pos + n)" using b0 by (simp add: sint_of_small_nat del: of_nat_add)
  have "read_members (Suc m) TheDisk b (int pos) sz s =
      Some (0, file_bytes img fp c pos n @ file_bytes img fp c (pos + n) (m * n), s2)"
    using s1(1) s2(1) by (simp only: read_members.simps ci nx Option.bind.bind_lunit prod.case) simp
  then show ?case using fat_step_trans [OF s1(2) s2(2)] file_bytes_append [of img fp c pos n "m * n"] by auto
qed

lemma fat16_read_ok:
  assumes "fat_mounted img fp s" "fat_layout fp" "open_file s desc b (of_nat pos)"
    "unat (fat16_get_first_cluster b) = c" "c < 65536" "int pos + int (unat nmemb * unat sz) < 2 ^ 31"
    "\<forall>i < unat nmemb. chain_ok img fp c (pos + i * unat sz) (unat sz) \<and>
       ((pos + i * unat sz) mod cluster_size fp = 0 \<or>
        (pos + i * unat sz) mod cluster_size fp + unat sz \<le> cluster_size fp)"
  obtains s' where "fat16_read TheDisk desc sz nmemb s =
      Some (to_int nmemb, file_bytes img fp c pos (unat nmemb * unat sz), s')" "fat_step fp s s'"
proof -
  obtain it p where o: "length b = 32" "objs s desc = Some (OFatFileDesc \<lparr>ffd_item = it, ffd_pos = of_nat pos\<rparr>)"
    "objs s it = Some (OFatItem \<lparr>fi_ptr = p, fi_type = FAT_ITEM_TYPE_FILE\<rparr>)" "objs s p = Some (OBytes b)"
    using assms(3) by (auto simp: open_file_def)
  obtain s' where s': "read_members (unat nmemb) TheDisk b (int pos) sz s =
      Some (0, file_bytes img fp c pos (unat nmemb * unat sz), s')" "fat_step fp s s'"
    using read_members_ok [OF assms(1,2,4,5) refl assms(6,7)] by blast
  have "int pos < 2 ^ 31"
    using assms(6) of_nat_0_le_iff [of "unat nmemb * unat sz", where ?'a = int] by linarith
  then have "to_int (of_nat pos) = int pos" by (simp add: sint_of_small_nat)
  then have "fat16_read TheDisk desc sz nmemb s =
      Some (to_int nmemb, file_bytes img fp c pos (unat nmemb * unat sz), s')"
    using o s'(1) by (simp add: fat16_read_def deref_item_def get_defs)
  then show thesis using that s'(2) by blast
qed

section \<open>A small volume\<close>

text \<open>
  One reserved sector, one FAT of one sector, 16 root directory entries, one sector per cluster. The
  root directory holds \<open>HELLO.TXT\<close>, 1000 bytes in the clusters 2, 5 and 3, read-only.
\<close>

definition pad_to :: "nat \<Rightarrow> u8 list \<Rightarrow> u8 list" where
  "pad_to n bs = take n (bs @ replicate n 0)"

lemma length_pad_to [simp]: "length (pad_to n bs) = n"
  by (simp add: pad_to_def)

lemma nth_pad_to: "i < n \<Longrightarrow> pad_to n bs ! i = (if i < length bs then bs ! i else 0)"
  by (simp add: pad_to_def nth_append)

definition hello_item :: "u8 list" where
  "hello_item = [0x48, 0x45, 0x4C, 0x4C, 0x4F, 0x20, 0x20, 0x20, 0x54, 0x58, 0x54, 0x01, 0, 0, 0, 0,
     0, 0, 0, 0, 0, 0, 0, 0, 0, 0, 2, 0, 0xE8, 3, 0, 0]"

definition sample_header :: "u8 list" where
  "sample_header =
    [0xEB, 0x3C, 0x90, 0x20, 0x20, 0x20, 0x20, 0x20, 0x20, 0x20, 0x20, 0, 2, 1, 1, 0, 1,
     0x10, 0, 0x40, 0, 0xF8, 1, 0, 0, 0, 0, 0, 0, 0, 0, 0, 0, 0, 0, 0, 0, 0, 0x29, 0, 0,
     0, 0, 0, 0, 0, 0, 0, 0, 0, 0, 0, 0, 0, 0, 0, 0, 0, 0, 0, 0, 0]"

definition sample_volume :: "nat \<Rightarrow> u8 list" where
  "sample_volume i = pad_to 512
     (if i = 0 then sample_header
      else if i = 1 then [0xF8, 0xFF, 0xFF, 0xFF, 5, 0, 0xFF, 0x0F, 0, 0, 3, 0]
      else if i = 2 then hello_item
      else replicate 512 (of_nat i))"

lemma sample_volume_served: "ata_serves (ata_device sample_volume) sample_volume"
  by (rule ata_device_serves) (simp add: sample_volume_def)

definition sample_private :: fat_private where
  "sample_private = \<lparr>fp_header = sample_header,
     fp_root_directory = \<lparr>dir_item = slot 4, dir_total = 1, dir_sector_pos = 2, dir_end_sector_pos = 3\<rparr>,
     fp_cluster_read_stream = slot 1, fp_fat_read_stream = slot 2, fp_directory_stream = slot 3\<rparr>"

definition disk_stream_obj :: obj where
  "disk_stream_obj = OStream \<lparr>ds_pos = 0, ds_disk = TheDisk\<rparr>"

text \<open>The mounted volume with the objects \<open>xs\<close> beside those of the driver, and \<open>n\<close> free blocks.\<close>

definition sample_mounted :: "obj list \<Rightarrow> nat \<Rightarrow> kernel" where
  "sample_mounted xs n = (sample_store
     ([OFatPrivate sample_private, disk_stream_obj, disk_stream_obj, disk_stream_obj,
       OBytes (pad_to 512 hello_item)] @ xs) n)\<lparr>device := ata_device sample_volume,
     gdisk := \<lparr>dk_type = 0, dk_sector_size = 512, dk_id = 0, dk_filesystem = Fat16Fs, dk_fs_private = slot 0\<rparr>\<rparr>"

lemma stored_nth:
  "i < length xs \<Longrightarrow> length xs < 1000 \<Longrightarrow> xs ! i = x \<Longrightarrow> stored xs (slot i) = Some x"
  using stored_slot by blast

lemma sample_mounted_objs: "objs (sample_mounted xs n) = stored
     ([OFatPrivate sample_private, disk_stream_obj, disk_stream_obj, disk_stream_obj,
       OBytes (pad_to 512 hello_item)] @ xs)"
  by (simp add: sample_mounted_def)

lemma slot_nonnull: "i < 1000 \<Longrightarrow> slot i \<noteq> 0"
proof -
  assume i: "i < 1000"
  have "unat (slot i) = 0x1000000 + 4096 * i"
    using unat_of_small_nat [of "0x1000000 + 4096 * i"] i by (simp add: slot_def)
  then show ?thesis by auto
qed

lemma sample_mounted_ok:
  assumes "length xs < 900"
  shows "fat_mounted sample_volume sample_private (sample_mounted xs n)" "fat_layout sample_private"
proof -
  show "fat_layout sample_private"
    by (simp add: fat_layout_def sample_private_def sample_header_def)
  have "objs (sample_mounted xs n) (slot 0) = Some (OFatPrivate sample_private)"
    "objs (sample_mounted xs n) (slot 1) = Some disk_stream_obj"
    "objs (sample_mounted xs n) (slot 2) = Some disk_stream_obj"
    "objs (sample_mounted xs n) (slot 3) = Some disk_stream_obj"
    using assms by (auto simp: sample_mounted_objs nth_append intro!: stored_nth)
  then show "fat_mounted sample_volume sample_private (sample_mounted xs n)"
    using sample_volume_served
    by (auto simp: fat_mounted_def sample_mounted_def fat_streams_def sample_private_def disk_stream_obj_def slot_nonnull)
qed

lemma sample_cluster: "cluster_size sample_private = 512" "cluster_pos sample_private k = 512 * (3 + (k - 2))"
  by (simp_all add: cluster_size_def cluster_pos_def sample_private_def sample_header_def)

lemma sample_fat:
  "fat_entry sample_volume sample_private 2 = 5" "fat_entry sample_volume sample_private 5 = 3"
  "fat_entry sample_volume sample_private 3 = 0xFFF"
  by (simp_all add: fat_entry_def sample_private_def sample_header_def le16_def disk_bytes_def upt_rec
      disk_byte_def sample_volume_def nth_pad_to)

section \<open>Properties\<close>

text \<open>
  C22. Following the cluster chain: on a mounted volume the cluster for an offset is the one reached from
  the start by \<open>offset div cluster_size\<close> links of the file allocation table, and \<open>-EIO\<close> when the chain
  ends, is reserved, is bad or is free before; only the FAT stream and the log of port accesses change.
\<close>
theorem cluster_for_offset_follows:
  assumes "fat_mounted img fp s" "fat_layout fp" "c < 65536"
  shows "\<exists>s'. fat16_get_cluster_for_offset TheDisk (int c) (int off) s =
      Some (case follow img fp (off div cluster_size fp) c of Some k \<Rightarrow> int k | None \<Rightarrow> - EIO, s') \<and> fat_step fp s s'"
  by (rule cluster_for_offset_ok [OF assms, of off]) blast

theorem cluster_for_offset_follows_witness:
  "(\<exists>s'. fat16_get_cluster_for_offset TheDisk 2 1024 (sample_mounted [] 0) = Some (3, s')) \<and>
   (\<exists>s'. fat16_get_cluster_for_offset TheDisk 2 1536 (sample_mounted [] 0) = Some (- EIO, s'))"
proof -
  have m: "fat_mounted sample_volume sample_private (sample_mounted [] 0)" by (rule sample_mounted_ok) simp
  have l: "fat_layout sample_private" by (rule sample_mounted_ok(2) [of "[]"]) simp
  have "follow sample_volume sample_private 2 2 = Some 3" "follow sample_volume sample_private 3 2 = None"
    by (simp_all add: numeral_2_eq_2 numeral_3_eq_3 sample_fat [unfolded numeral_2_eq_2 numeral_3_eq_3] Let_def chain_stop_def)
  then show ?thesis
    using cluster_for_offset_follows [OF m l, of 2 1024] cluster_for_offset_follows [OF m l, of 2 1536]
    by (simp add: sample_cluster) blast
qed

text \<open>
  C19. Reading an open file gives the bytes of its cluster chain: on a mounted volume, when every block
  read starts on a cluster border or stays within one cluster and the chain is long enough,
  \<open>fat16_read\<close> returns the number of blocks and exactly the bytes of the file from the position of the
  descriptor on, across any number of clusters; nothing but streams and the log of port accesses
  changes. In particular the position of the descriptor does not advance, so that the next read
  returns the same bytes.
\<close>
theorem fat16_read_file:
  assumes "fat_mounted img fp s" "fat_layout fp" "open_file s desc b (of_nat pos)"
    "unat (fat16_get_first_cluster b) = c" "c < 65536" "int pos + int (unat nmemb * unat sz) < 2 ^ 31"
    "\<forall>i < unat nmemb. chain_ok img fp c (pos + i * unat sz) (unat sz) \<and>
       ((pos + i * unat sz) mod cluster_size fp = 0 \<or>
        (pos + i * unat sz) mod cluster_size fp + unat sz \<le> cluster_size fp)"
  shows "\<exists>s'. fat16_read TheDisk desc sz nmemb s =
      Some (to_int nmemb, file_bytes img fp c pos (unat nmemb * unat sz), s') \<and>
    fat_step fp s s' \<and> open_file s' desc b (of_nat pos)"
proof -
  obtain s' where "fat16_read TheDisk desc sz nmemb s =
      Some (to_int nmemb, file_bytes img fp c pos (unat nmemb * unat sz), s')" "fat_step fp s s'"
    by (rule fat16_read_ok [OF assms])
  then show ?thesis using open_file_step [OF assms(3,1)] by blast
qed

theorem fat16_read_file_witness:
  "\<exists>s'. fat16_read TheDisk (slot 7) 512 2 (sample_mounted [OBytes hello_item,
       OFatItem \<lparr>fi_ptr = slot 5, fi_type = FAT_ITEM_TYPE_FILE\<rparr>,
       OFatFileDesc \<lparr>ffd_item = slot 6, ffd_pos = 0\<rparr>] 0) =
     Some (2, replicate 512 3 @ replicate 512 6, s')"
proof -
  let ?s = "sample_mounted [OBytes hello_item, OFatItem \<lparr>fi_ptr = slot 5, fi_type = FAT_ITEM_TYPE_FILE\<rparr>,
       OFatFileDesc \<lparr>ffd_item = slot 6, ffd_pos = 0\<rparr>] 0"
  let ?img = sample_volume and ?fp = sample_private
  have m: "fat_mounted ?img ?fp ?s" by (rule sample_mounted_ok) simp
  have l: "fat_layout ?fp" by (rule sample_mounted_ok(2) [of "[]"]) simp
  have o: "open_file ?s (slot 7) hello_item (of_nat 0)"
    by (auto simp: open_file_def sample_mounted_objs hello_item_def intro!: exI stored_nth)
  have c: "unat (fat16_get_first_cluster hello_item) = 2"
    by (simp add: fat16_get_first_cluster_def le16_def hello_item_def)
  have f: "follow ?img ?fp 0 2 = Some 2" "follow ?img ?fp 1 2 = Some 5"
    by (simp_all add: sample_fat Let_def chain_stop_def)
  have "i div 512 < 2" if "i < 1024" for i :: nat using that by simp
  then have d: "i div 512 = 0 \<or> i div 512 = 1" if "i < 1024" for i :: nat using that by fastforce
  have k: "\<exists>k. follow ?img ?fp (i div 512) 2 = Some k \<and> cluster_ok ?fp k" if "i < 1024" for i
    using d [OF that] f by (auto simp: cluster_ok_def sample_cluster)
  have ch: "\<forall>i < 2. chain_ok ?img ?fp 2 (0 + i * 512) 512 \<and>
      ((0 + i * 512) mod cluster_size ?fp = 0 \<or> (0 + i * 512) mod cluster_size ?fp + 512 \<le> cluster_size ?fp)"
    using k by (auto simp: chain_ok_def sample_cluster)
  have "file_bytes ?img ?fp 2 0 1024 = replicate 512 3 @ replicate 512 6"
  proof (rule nth_equalityI)
    fix i assume "i < length (file_bytes ?img ?fp 2 0 1024)"
    then have i: "i < 1024" by (simp add: file_bytes_def)
    have b: "disk_byte ?img (512 * n + i mod 512) = of_nat n" if "2 < n" "n < 256" for n
      using that by (simp add: disk_byte_def sample_volume_def nth_pad_to)
    from d [OF i] show "file_bytes ?img ?fp 2 0 1024 ! i = (replicate 512 3 @ replicate 512 6) ! i"
      using i f b [of 3] b [of 6] div_mult_mod_eq [of i 512]
      by (auto simp: file_bytes_def file_byte_def sample_cluster nth_append)
  qed (simp add: file_bytes_def)
  then show ?thesis
    using fat16_read_file [OF m l o c, of 2 512] ch by auto
qed

lemma read_one_chunk:
  assumes "fat_mounted img fp s" "fat_layout fp" "c < 65536"
    "follow img fp (off div cluster_size fp) c = Some k" "cluster_ok fp k" "n \<le> cluster_size fp"
  obtains s' where "fat16_read_internal TheDisk (int c) (int off) (int n) s =
      Some (0, disk_bytes img (cluster_pos fp k + off mod cluster_size fp) n, s')" "fat_step fp s s'"
proof -
  have "n = min n (cluster_size fp)" using assms(6) by simp
  from read_chunk [OF assms(1-5) this] obtain s' where "fat_step fp s s'"
    "fat16_read_internal_from_stream TheDisk (fp_cluster_read_stream fp) (int c) (int off) (int n) s =
      Some (0, disk_bytes img (cluster_pos fp k + off mod cluster_size fp) n, s')" by auto
  then show thesis using that fat_private_get [OF assms(1)] by (simp add: fat16_read_internal_def deref_disk_def)
qed

text \<open>
  C24. A read that does not start on a cluster border runs past the end of its cluster: up to a cluster
  of bytes is taken from the disk contiguously, so the bytes behind the border are those of the
  cluster that lies next on the disk, whatever the file allocation table says.
\<close>
theorem read_past_cluster_border:
  assumes "fat_mounted img fp s" "fat_layout fp" "c < 65536"
    "follow img fp (off div cluster_size fp) c = Some k" "cluster_ok fp k" "n \<le> cluster_size fp"
  shows "\<exists>s'. fat16_read_internal TheDisk (int c) (int off) (int n) s =
    Some (0, disk_bytes img (cluster_pos fp k + off mod cluster_size fp) n, s')"
  by (rule read_one_chunk [OF assms]) blast

theorem read_past_cluster_border_witness:
  "(\<exists>s'. fat16_read_internal TheDisk 2 510 4 (sample_mounted [] 0) = Some (0, [3, 3, 4, 4], s')) \<and>
   file_bytes sample_volume sample_private 2 510 4 = [3, 3, 6, 6]"
proof -
  let ?img = sample_volume and ?fp = sample_private
  have m: "fat_mounted ?img ?fp (sample_mounted [] 0)" by (rule sample_mounted_ok) simp
  have l: "fat_layout ?fp" by (rule sample_mounted_ok(2) [of "[]"]) simp
  have d: "disk_byte ?img (512 * n + j) = of_nat n" if "2 < n" "j < 512" for n j
    using that by (simp add: disk_byte_def sample_volume_def nth_pad_to)
  have f: "follow ?img ?fp 0 2 = Some 2" "follow ?img ?fp (Suc 0) 2 = Some 5"
    by (simp_all add: sample_fat Let_def chain_stop_def)
  have "disk_bytes ?img (cluster_pos ?fp 2 + 510) 4 = [3, 3, 4, 4]"
    using d [of 3 510] d [of 3 511] d [of 4 0] d [of 4 1] by (simp add: disk_bytes_def sample_cluster upt_rec)
  moreover have "file_bytes ?img ?fp 2 510 4 = [3, 3, 6, 6]"
    using d [of 3 510] d [of 3 511] d [of 6 0] d [of 6 1] f
    by (simp add: file_bytes_def file_byte_def sample_cluster upt_rec)
  ultimately show ?thesis
    using read_past_cluster_border [OF m l, of 2 510 2 4] f
    by (simp add: sample_cluster cluster_ok_def)
qed

end
