(* ===== verification/FatFiles.thy ===== *)
theory FatFiles
  imports FatData
begin

unbundle bit_operations_syntax

text \<open>
  Names and directories of a FAT16 volume: the name of a directory entry, the search of a directory,
  and opening, inspecting and closing a file.
\<close>

section \<open>Names\<close>

definition trimmed :: "nat \<Rightarrow> u8 list \<Rightarrow> u8 list" where
  "trimmed n bs = takeWhile (\<lambda>c. c \<noteq> 0 \<and> c \<noteq> 0x20) (take n bs)"

text \<open>The 8.3 name of an entry: the base without padding and, if there is one, a dot and the extension.\<close>

definition item_name :: "u8 list \<Rightarrow> u8 list" where
  "item_name it = trimmed 8 it @
     (if trimmed 3 (drop 8 it) = [] then [] else 0x2E # trimmed 3 (drop 8 it))"

lemma length_trimmed: "length (trimmed n bs) \<le> n"
  using length_takeWhile_le [of "\<lambda>c. c \<noteq> 0 \<and> c \<noteq> 0x20" "take n bs"] by (simp add: trimmed_def)

lemma trimmed_no0: "0 \<notin> set (trimmed n bs)"
  by (auto simp: trimmed_def dest: set_takeWhileD)

lemma to_proper_loop_ok:
  assumes "i < n" "n < 256" "unat sz = n" "n - i \<le> length ins" "out + (n - i) \<le> length buf"
    "t = trimmed (n - i) ins"
  shows "to_proper_loop buf (int out) ins sz i = Some (take out buf @ t @ drop (out + length t) buf, int (out + length t))"
  using assms
proof (induction ins arbitrary: buf out i t)
  case (Cons c ins)
  have szi: "of_nat i \<ge> sz - 1 \<longleftrightarrow> i = n - 1"
  proof -
    have "sz \<noteq> 0" using Cons.prems(1,3) by auto
    then have "unat (sz - 1) = n - 1" using Cons.prems(3) by (simp add: unat_minus_one)
    then show ?thesis using Cons.prems(1,2) by (auto simp: word_le_nat_alt unat_of_small_nat)
  qed
  show ?case
  proof (cases "c \<noteq> 0 \<and> c \<noteq> 0x20")
    case False
    then have "t = []" using Cons.prems(1,6) by (cases "n - i") (auto simp: trimmed_def)
    then show ?thesis using False by auto
  next
    case c: True
    have o: "out < length buf" using Cons.prems(1,5) by simp
    have tc: "t = c # trimmed (n - Suc i) ins"
      using c Cons.prems(1,6) by (cases "n - i") (auto simp: trimmed_def Suc_diff_Suc [symmetric])
    have tk: "take (Suc out) (buf[out := c]) = take out buf @ [c]" using o by (simp add: take_Suc_conv_app_nth)
    show ?thesis
    proof (cases "i = n - 1")
      case True
      then have "t = [c]" using tc Cons.prems(1) by (simp add: trimmed_def)
      then show ?thesis using c o szi True by (simp add: upd_conv_take_nth_drop)
    next
      case False
      let ?t = "trimmed (n - Suc i) ins"
      have "to_proper_loop (buf[out := c]) (int (Suc out)) ins sz (Suc i) =
          Some (take (Suc out) (buf[out := c]) @ ?t @ drop (Suc out + length ?t) (buf[out := c]), int (Suc out + length ?t))"
        by (rule Cons.IH) (use Cons.prems False in auto)
      then show ?thesis using c o szi False tk tc by (simp add: add.commute)
    qed
  qed
qed simp

lemma update_zeros [simp]: "(replicate n 0)[i := 0] = replicate n (0 :: u8)"
  by (induction n arbitrary: i) (auto split: nat.split)

lemma to_proper_string_ok:
  assumes "0 < n" "n < 256" "unat sz = n" "n \<le> length ins" "n < m" "t = trimmed n ins"
  shows "fat16_to_proper_string (p @ replicate m 0) (int (length p)) ins sz =
    Some (p @ t @ replicate (m - length t) 0, int (length p + length t))"
proof -
  have tl: "length t < m" using length_trimmed [of n ins] assms(5,6) by simp
  have "to_proper_loop (p @ replicate m 0) (int (length p)) ins sz 0 =
      Some (take (length p) (p @ replicate m 0) @ t @ drop (length p + length t) (p @ replicate m 0), int (length p + length t))"
    by (rule to_proper_loop_ok) (use assms in auto)
  then have l: "to_proper_loop (p @ replicate m 0) (int (length p)) ins sz 0 =
      Some (p @ t @ replicate (m - length t) 0, int (length (p @ t)))" by simp
  have "arr_set (p @ t @ replicate (m - length t) 0) (int (length (p @ t))) 0 = Some (p @ t @ replicate (m - length t) 0)"
    using tl by (subst arr_set_nat) (simp_all add: list_update_append)
  then show ?thesis unfolding fat16_to_proper_string_def l by simp
qed

lemma full_filename:
  assumes "length it = 32"
  shows "fat16_get_full_relative_filename it (replicate PLUMOS_MAX_PATH 0) (int PLUMOS_MAX_PATH) =
    Some (item_name it @ replicate (PLUMOS_MAX_PATH - length (item_name it)) 0)"
proof -
  let ?b = "trimmed 8 it" and ?e = "trimmed 3 (drop 8 it)"
  have bl: "length ?b \<le> 8" "length ?e \<le> 3" by (rule length_trimmed)+
  have ms: "memset (replicate PLUMOS_MAX_PATH 0) 0 (to_u32 (int PLUMOS_MAX_PATH)) = Some (replicate PLUMOS_MAX_PATH 0)"
    by (subst memset_take) (simp_all add: PLUMOS_MAX_PATH_def)
  have p1: "fat16_to_proper_string (replicate PLUMOS_MAX_PATH 0) 0 it 8 =
      Some (?b @ replicate (108 - length ?b) 0, int (length ?b))"
    using to_proper_string_ok [of 8 8 it 108 ?b "[]"] assms by (simp add: PLUMOS_MAX_PATH_def)
  have em: "?e = [] \<longleftrightarrow> it ! 8 = 0 \<or> it ! 8 = 0x20"
    using assms by (simp add: trimmed_def takeWhile_eq_Nil_iff hd_drop_conv_nth)
  show ?thesis
  proof (cases "?e = []")
    case True
    then have "\<not> (it ! 8 \<noteq> 0 \<and> it ! 8 \<noteq> 0x20)" using em by blast
    then show ?thesis using ms p1 True
      by (auto simp: fat16_get_full_relative_filename_def item_name_def PLUMOS_MAX_PATH_def)
  next
    case False
    have r: "replicate (108 - length ?b) 0 = (0 :: u8) # replicate (107 - length ?b) 0"
      using bl(1) by (simp add: Suc_diff_le flip: replicate_Suc)
    have p2: "arr_set (?b @ replicate (108 - length ?b) 0) (int (length ?b)) 0x2E =
        Some ((?b @ [0x2E]) @ replicate (107 - length ?b) 0)"
      unfolding r by (subst arr_set_nat) simp_all
    have p3: "fat16_to_proper_string ((?b @ [0x2E]) @ replicate (107 - length ?b) 0) (int (length ?b) + 1) (drop 8 it) 3 =
        Some ((?b @ [0x2E]) @ ?e @ replicate (107 - length ?b - length ?e) 0, int (length ?b + 1 + length ?e))"
    proof -
      have u: "unat (3 :: u32) = 3" by simp
      have "fat16_to_proper_string ((?b @ [0x2E]) @ replicate (107 - length ?b) 0) (int (length (?b @ [0x2E]))) (drop 8 it) 3 =
          Some ((?b @ [0x2E]) @ ?e @ replicate (107 - length ?b - length ?e) 0, int (length (?b @ [0x2E]) + length ?e))"
        by (rule to_proper_string_ok [OF _ _ u]) (use assms bl(1) in simp_all)
      then show ?thesis by (simp add: add.commute [of 1])
    qed
    show ?thesis using ms p1 p2 p3 em False
      by (simp add: fat16_get_full_relative_filename_def item_name_def PLUMOS_MAX_PATH_def)
  qed
qed

lemma cstr_item_name: "cstr (item_name it @ replicate n 0) = item_name it"
proof -
  have "0 \<notin> set (item_name it)" by (auto simp: item_name_def trimmed_no0)
  then show ?thesis by (cases n) (simp_all add: cstr_append_no0 cstr_all)
qed

lemma length_item_name: "length (item_name it) \<le> 12"
  using length_trimmed [of 8 it] length_trimmed [of 3 "drop 8 it"] by (auto simp: item_name_def)


section \<open>Searching a directory\<close>

text \<open>Entry \<open>i\<close> of a directory, and whether its name is the one looked for.\<close>

definition dir_entry :: "u8 list \<Rightarrow> nat \<Rightarrow> u8 list" where
  "dir_entry b i = take 32 (drop (32 * i) b)"

definition name_matches :: "u8 list \<Rightarrow> u8 list \<Rightarrow> bool" where
  "name_matches it name \<longleftrightarrow> map tolower (item_name it) = take PLUMOS_MAX_PATH (map tolower (cstr name))"

lemma filename_compare:
  assumes "length it = 32" "0 \<in> set name"
  shows "istrncmp (item_name it @ replicate (PLUMOS_MAX_PATH - length (item_name it)) 0) name (int PLUMOS_MAX_PATH) = Some 0
    \<longleftrightarrow> name_matches it name"
    "\<exists>r. istrncmp (item_name it @ replicate (PLUMOS_MAX_PATH - length (item_name it)) 0) name (int PLUMOS_MAX_PATH) = Some r"
proof -
  let ?t = "item_name it @ replicate (PLUMOS_MAX_PATH - length (item_name it)) 0"
  have l: "length (item_name it) < PLUMOS_MAX_PATH" using length_item_name [of it] by (simp add: PLUMOS_MAX_PATH_def)
  then have "0 \<in> set ?t" by simp
  from istrncmp_zero [OF this assms(2), of "int PLUMOS_MAX_PATH"]
  obtain r where r: "istrncmp ?t name (int PLUMOS_MAX_PATH) = Some r"
    "r = 0 \<longleftrightarrow> take PLUMOS_MAX_PATH (map tolower (item_name it)) = take PLUMOS_MAX_PATH (map tolower (cstr name))"
    by (auto simp: cstr_item_name)
  then show "istrncmp ?t name (int PLUMOS_MAX_PATH) = Some 0 \<longleftrightarrow> name_matches it name"
    using l by (simp add: name_matches_def)
  show "\<exists>r. istrncmp ?t name (int PLUMOS_MAX_PATH) = Some r" using r by blast
qed

lemma deref_entry:
  assumes "objs s p = Some (OBytes b)" "32 * Suc i \<le> length b"
  shows "deref_item p i s = Some (dir_entry b i)" "length (dir_entry b i) = 32"
  using assms by (auto simp: deref_item_def dir_entry_def get_bytes_def)

lemma find_loop_skip:
  assumes "objs s (dir_item dir) = Some (OBytes b)" "dir_total dir = int n" "32 * n \<le> length b" "0 \<in> set name"
    "i \<le> j" "j \<le> n" "\<forall>k. i \<le> k \<and> k < j \<longrightarrow> \<not> name_matches (dir_entry b k) name"
  shows "find_loop disk dir name i f s = find_loop disk dir name j f s"
  using assms(5-7)
proof (induction "j - i" arbitrary: i)
  case 0
  then show ?case by simp
next
  case (Suc d)
  have i: "i < j" using Suc.hyps(2) by simp
  then have "32 * Suc i \<le> 32 * n" using Suc.prems(2) by simp
  then have i: "i < j" "32 * Suc i \<le> length b" using i assms(3) by linarith+
  have e: "deref_item (dir_item dir) i s = Some (dir_entry b i)" "length (dir_entry b i) = 32"
    by (rule deref_entry [OF assms(1) i(2)])+
  obtain r where r: "istrncmp (item_name (dir_entry b i) @ replicate (PLUMOS_MAX_PATH - length (item_name (dir_entry b i))) 0)
      name (int PLUMOS_MAX_PATH) = Some r" "r \<noteq> 0"
    using filename_compare [OF e(2) assms(4)] Suc.prems(3) i(1) by fastforce
  have "find_loop disk dir name i f s = find_loop disk dir name (Suc i) f s"
    using assms(2) Suc.prems(2) i(1) r
    by (subst find_loop.simps) (simp add: e(1) full_filename [OF e(2)] del: of_nat_Suc)
  also have "\<dots> = find_loop disk dir name j f s"
    by (rule Suc.hyps(1)) (use Suc.hyps(2) Suc.prems in auto)
  finally show ?case .
qed

lemma find_loop_end: "dir_total dir \<le> int n \<Longrightarrow> find_loop disk dir name n f s = Some (f, s)"
  by (subst find_loop.simps) simp

lemma find_loop_hit:
  assumes "objs s (dir_item dir) = Some (OBytes b)" "32 * Suc i \<le> length b" "int i < dir_total dir" "0 \<in> set name"
    "name_matches (dir_entry b i) name"
    "fat16_new_fat_item_for_directory_item disk (dir_entry b i) s = Some (f', s')"
  shows "find_loop disk dir name i f s = find_loop disk dir name (Suc i) f' s'"
proof -
  have e: "deref_item (dir_item dir) i s = Some (dir_entry b i)" "length (dir_entry b i) = 32"
    by (rule deref_entry [OF assms(1,2)])+
  show ?thesis
    using assms(3,5,6) filename_compare(1) [OF e(2) assms(4)]
    by (subst find_loop.simps) (simp add: e(1) full_filename [OF e(2)])
qed

text \<open>The item made for the entry of a file: two fresh objects, the item and the copy of the entry.\<close>

lemma new_file_item:
  assumes "mem_inv s" "1 < free_blocks s" "length it = 32" "item_attribute it AND FAT_FILE_SUBDIRECTORY = 0"
  obtains f p s' where "fat16_new_fat_item_for_directory_item disk it s = Some (f, s')" "f \<noteq> 0" "p \<noteq> f"
    "objs s f = None" "objs s p = None" "mem_inv s'" "free_blocks s' = free_blocks s - 2" "heap_step s s'"
    "objs s' = (objs s)(f \<mapsto> OFatItem \<lparr>fi_ptr = p, fi_type = FAT_ITEM_TYPE_FILE\<rparr>, p \<mapsto> OBytes it)"
proof -
  obtain f s1 where f: "kzalloc 8 (OFatItem \<lparr>fi_ptr = 0, fi_type = 0\<rparr>) s = Some (f, s1)" "f \<noteq> 0" "objs s f = None"
    "objs s1 = (objs s)(f \<mapsto> OFatItem \<lparr>fi_ptr = 0, fi_type = 0\<rparr>)" "mem_inv s1" "free_blocks s1 = free_blocks s - 1"
    "heap_step s s1"
    by (rule kzalloc_block [OF assms(1), of 8]) (use assms(2) in auto)
  obtain p s2 where p: "kzalloc 32 (OBytes (replicate 32 0)) s1 = Some (p, s2)" "p \<noteq> 0" "objs s1 p = None"
    "objs s2 = (objs s1)(p \<mapsto> OBytes (replicate 32 0))" "mem_inv s2" "free_blocks s2 = free_blocks s1 - 1"
    "heap_step s1 s2"
    by (rule kzalloc_block [OF f(5), of 32]) (use assms(2) f(6) in auto)
  have mc: "memcpy (replicate 32 0) it 32 = Some it"
    using memcpy_take [of 32 it "replicate 32 0"] assms(3) by simp
  obtain s3 where s3: "put p (OBytes it) s2 = Some s3" "objs s3 = (objs s2)(p \<mapsto> OBytes it)" "mem_inv s3 = mem_inv s2"
    "free_blocks s3 = free_blocks s2" "heap_step s2 s3"
    by (rule put_live [of s2 p "OBytes it"]) (use p(4) in auto)
  have cl: "fat16_clone_directory_item it 32 s1 = Some (p, s3)"
    using p(1,2,4) s3(1) mc by (simp add: fat16_clone_directory_item_def get_bytes_def)
  have pf: "p \<noteq> f" using p(3) f(4) by auto
  obtain s4 where s4: "put f (OFatItem \<lparr>fi_ptr = p, fi_type = FAT_ITEM_TYPE_FILE\<rparr>) s3 = Some s4"
    "objs s4 = (objs s3)(f \<mapsto> OFatItem \<lparr>fi_ptr = p, fi_type = FAT_ITEM_TYPE_FILE\<rparr>)" "mem_inv s4 = mem_inv s3"
    "free_blocks s4 = free_blocks s3" "heap_step s3 s4"
    by (rule put_live [of s3 f]) (use s3(2) p(4) f(4) pf in auto)
  have "fat16_new_fat_item_for_directory_item disk it s = Some (f, s4)"
    using f(1,2) cl s4(1) assms(4) by (simp add: fat16_new_fat_item_for_directory_item_def)
  moreover have "objs s4 = (objs s)(f \<mapsto> OFatItem \<lparr>fi_ptr = p, fi_type = FAT_ITEM_TYPE_FILE\<rparr>, p \<mapsto> OBytes it)"
    using s4(2) s3(2) p(4) f(4) pf by (simp add: fun_upd_twist)
  moreover have "objs s p = None" using p(3) f(4) pf by simp
  moreover have "heap_step s s4" using f(7) p(7) s3(5) s4(5) by (blast intro: heap_step_trans)
  ultimately show thesis
    using that f(2,3) pf p(5,6) s3(3,4) s4(3,4) f(6) by auto
qed

lemma find_file:
  assumes "mem_inv s" "1 < free_blocks s" "objs s (dir_item dir) = Some (OBytes b)" "dir_total dir = int n"
    "32 * n \<le> length b" "0 \<in> set name" "j < n" "name_matches (dir_entry b j) name"
    "\<forall>i < n. i \<noteq> j \<longrightarrow> \<not> name_matches (dir_entry b i) name"
    "item_attribute (dir_entry b j) AND FAT_FILE_SUBDIRECTORY = 0"
  obtains f p s' where "fat16_find_item_in_directory disk dir name s = Some (f, s')" "f \<noteq> 0" "p \<noteq> f"
    "objs s f = None" "objs s p = None" "mem_inv s'" "free_blocks s' = free_blocks s - 2" "heap_step s s'"
    "objs s' = (objs s)(f \<mapsto> OFatItem \<lparr>fi_ptr = p, fi_type = FAT_ITEM_TYPE_FILE\<rparr>, p \<mapsto> OBytes (dir_entry b j))"
proof -
  have "32 * Suc j \<le> 32 * n" using assms(7) by simp
  then have lj: "32 * Suc j \<le> length b" using assms(5) by linarith
  obtain f p s' where f: "fat16_new_fat_item_for_directory_item disk (dir_entry b j) s = Some (f, s')" "f \<noteq> 0" "p \<noteq> f"
    "objs s f = None" "objs s p = None" "mem_inv s'" "free_blocks s' = free_blocks s - 2" "heap_step s s'"
    "objs s' = (objs s)(f \<mapsto> OFatItem \<lparr>fi_ptr = p, fi_type = FAT_ITEM_TYPE_FILE\<rparr>, p \<mapsto> OBytes (dir_entry b j))"
    by (rule new_file_item [OF assms(1,2) deref_entry(2) [OF assms(3) lj] assms(10)])
  have d: "objs s' (dir_item dir) = Some (OBytes b)" using f(4,5,9) assms(3) by auto
  have "find_loop disk dir name 0 0 s = find_loop disk dir name j 0 s"
    by (rule find_loop_skip [OF assms(3-6)]) (use assms(7,9) in auto)
  also have "\<dots> = find_loop disk dir name (Suc j) f s'"
    by (rule find_loop_hit [OF assms(3) lj _ assms(6,8) f(1)]) (use assms(4,7) in simp)
  also have "\<dots> = find_loop disk dir name n f s'"
    by (rule find_loop_skip [OF d assms(4-6)]) (use assms(7,9) in auto)
  also have "\<dots> = Some (f, s')" using assms(4) by (intro find_loop_end) simp
  finally show thesis using that f by (simp add: fat16_find_item_in_directory_def)
qed

lemma find_none:
  assumes "objs s (dir_item dir) = Some (OBytes b)" "dir_total dir = int n"
    "32 * n \<le> length b" "0 \<in> set name" "\<forall>i < n. \<not> name_matches (dir_entry b i) name"
  shows "fat16_find_item_in_directory disk dir name s = Some (0, s)"
proof -
  have "find_loop disk dir name 0 0 s = find_loop disk dir name n 0 s"
    by (rule find_loop_skip [OF assms(1-4)]) (use assms(5) in auto)
  also have "\<dots> = Some (0, s)" using assms(2) by (intro find_loop_end) simp
  finally show ?thesis by (simp add: fat16_find_item_in_directory_def)
qed

section \<open>Opening and closing\<close>

text \<open>\<open>path\<close> is a path of one component, whose name is \<open>name\<close>.\<close>

definition single_part :: "kernel \<Rightarrow> u32 \<Rightarrow> u8 list \<Rightarrow> bool" where
  "single_part s path name \<longleftrightarrow> 0 \<in> set name \<and>
     (\<exists>q. objs s path = Some (OPathPart \<lparr>pp_part = q, pp_next = 0\<rparr>) \<and> objs s q = Some (OBytes name))"

text \<open>The root directory has the \<open>n\<close> entries \<open>b\<close>.\<close>

definition root_dir :: "kernel \<Rightarrow> fat_private \<Rightarrow> u8 list \<Rightarrow> nat \<Rightarrow> bool" where
  "root_dir s fp b n \<longleftrightarrow> objs s (dk_fs_private (gdisk s)) = Some (OFatPrivate fp) \<and>
     objs s (dir_item (fp_root_directory fp)) = Some (OBytes b) \<and>
     dir_total (fp_root_directory fp) = int n \<and> 32 * n \<le> length b"

text \<open>Both survive the allocation of further objects.\<close>

lemma map_le_Some: "f \<subseteq>\<^sub>m g \<Longrightarrow> f a = Some x \<Longrightarrow> g a = Some x"
  by (metis domI map_le_def)

lemma map_le_fresh: "f a = None \<Longrightarrow> g = f(a \<mapsto> x) \<Longrightarrow> f \<subseteq>\<^sub>m g"
  by (auto simp: map_le_def)

lemma root_dir_mono: "root_dir s fp b n \<Longrightarrow> objs s \<subseteq>\<^sub>m objs s' \<Longrightarrow> gdisk s' = gdisk s \<Longrightarrow> root_dir s' fp b n"
  by (simp add: root_dir_def map_le_Some)

lemma single_part_mono: "single_part s path name \<Longrightarrow> objs s \<subseteq>\<^sub>m objs s' \<Longrightarrow> single_part s' path name"
  unfolding single_part_def by (blast intro: map_le_Some)

lemma heap_stepD: "heap_step s s' \<Longrightarrow> gdisk s' = gdisk s \<and> device s' = device s \<and> file_descriptors s' = file_descriptors s"
  unfolding heap_step_def by (cases s; cases s') auto

lemma entry_of_file:
  assumes "mem_inv s" "1 < free_blocks s" "root_dir s fp b n" "single_part s path name"
    "j < n" "name_matches (dir_entry b j) name" "\<forall>i < n. i \<noteq> j \<longrightarrow> \<not> name_matches (dir_entry b i) name"
    "item_attribute (dir_entry b j) AND FAT_FILE_SUBDIRECTORY = 0"
  obtains f p s' where "fat16_get_directory_entry TheDisk path s = Some (f, s')" "f \<noteq> 0" "p \<noteq> f"
    "objs s f = None" "objs s p = None" "mem_inv s'" "free_blocks s' = free_blocks s - 2" "heap_step s s'"
    "objs s' = (objs s)(f \<mapsto> OFatItem \<lparr>fi_ptr = p, fi_type = FAT_ITEM_TYPE_FILE\<rparr>, p \<mapsto> OBytes (dir_entry b j))"
proof -
  have r: "objs s (dir_item (fp_root_directory fp)) = Some (OBytes b)"
    "dir_total (fp_root_directory fp) = int n" "32 * n \<le> length b" using assms(3) by (simp_all add: root_dir_def)
  obtain q where q: "0 \<in> set name" "objs s path = Some (OPathPart \<lparr>pp_part = q, pp_next = 0\<rparr>)" "objs s q = Some (OBytes name)"
    using assms(4) by (auto simp: single_part_def)
  obtain f p s' where f: "fat16_find_item_in_directory TheDisk (fp_root_directory fp) name s = Some (f, s')" "f \<noteq> 0" "p \<noteq> f"
    "objs s f = None" "objs s p = None" "mem_inv s'" "free_blocks s' = free_blocks s - 2" "heap_step s s'"
    "objs s' = (objs s)(f \<mapsto> OFatItem \<lparr>fi_ptr = p, fi_type = FAT_ITEM_TYPE_FILE\<rparr>, p \<mapsto> OBytes (dir_entry b j))"
    by (rule find_file [OF assms(1,2) r q(1) assms(5-8)])
  have "objs s' path = Some (OPathPart \<lparr>pp_part = q, pp_next = 0\<rparr>)" using f(4,5,9) q(2) by auto
  then have "fat16_get_directory_entry TheDisk path s = Some (f, s')"
    using assms(3) q f(1,2)
    by (simp add: fat16_get_directory_entry_def deref_disk_def root_dir_def get_defs entry_loop.simps)
  then show thesis using that f by blast
qed

lemma open_ok:
  assumes "mem_inv s" "2 < free_blocks s" "root_dir s fp b n" "single_part s path name"
    "j < n" "name_matches (dir_entry b j) name" "\<forall>i < n. i \<noteq> j \<longrightarrow> \<not> name_matches (dir_entry b i) name"
    "item_attribute (dir_entry b j) AND FAT_FILE_SUBDIRECTORY = 0"
  obtains d f p s' where "fat16_open TheDisk path FILE_MODE_READ s = Some (d, s')" "d \<noteq> 0"
    "objs s d = None" "objs s f = None" "objs s p = None" "d \<noteq> f" "d \<noteq> p" "p \<noteq> f" "mem_inv s'"
    "free_blocks s' = free_blocks s - 3" "heap_step s s'"
    "objs s' = (objs s)(f \<mapsto> OFatItem \<lparr>fi_ptr = p, fi_type = FAT_ITEM_TYPE_FILE\<rparr>, p \<mapsto> OBytes (dir_entry b j),
       d \<mapsto> OFatFileDesc \<lparr>ffd_item = f, ffd_pos = 0\<rparr>)"
proof -
  obtain d s1 where d: "kzalloc 8 (OFatFileDesc \<lparr>ffd_item = 0, ffd_pos = 0\<rparr>) s = Some (d, s1)" "d \<noteq> 0" "objs s d = None"
    "objs s1 = (objs s)(d \<mapsto> OFatFileDesc \<lparr>ffd_item = 0, ffd_pos = 0\<rparr>)" "mem_inv s1" "free_blocks s1 = free_blocks s - 1"
    "heap_step s s1"
    by (rule kzalloc_block [OF assms(1), of 8]) (use assms(2) in auto)
  have le: "objs s \<subseteq>\<^sub>m objs s1" by (rule map_le_fresh [OF d(3,4)])
  have r1: "root_dir s1 fp b n" using root_dir_mono [OF assms(3) le] heap_stepD [OF d(7)] by blast
  have p1: "single_part s1 path name" by (rule single_part_mono [OF assms(4) le])
  have m1: "1 < free_blocks s1" using assms(2) d(6) by simp
  obtain f p s2 where f: "fat16_get_directory_entry TheDisk path s1 = Some (f, s2)" "f \<noteq> 0" "p \<noteq> f"
    "objs s1 f = None" "objs s1 p = None" "mem_inv s2" "free_blocks s2 = free_blocks s1 - 2" "heap_step s1 s2"
    "objs s2 = (objs s1)(f \<mapsto> OFatItem \<lparr>fi_ptr = p, fi_type = FAT_ITEM_TYPE_FILE\<rparr>, p \<mapsto> OBytes (dir_entry b j))"
    by (rule entry_of_file [OF d(5) m1 r1 p1 assms(5-8)])
  have ne: "d \<noteq> f" "d \<noteq> p" "objs s f = None" "objs s p = None" using f(4,5) d(4) by (auto split: if_splits)
  obtain s3 where s3: "put d (OFatFileDesc \<lparr>ffd_item = f, ffd_pos = 0\<rparr>) s2 = Some s3"
    "objs s3 = (objs s2)(d \<mapsto> OFatFileDesc \<lparr>ffd_item = f, ffd_pos = 0\<rparr>)" "mem_inv s3 = mem_inv s2"
    "free_blocks s3 = free_blocks s2" "heap_step s2 s3"
    by (rule put_live [of s2 d]) (use f(9) d(4) ne in auto)
  have "fat16_open TheDisk path FILE_MODE_READ s = Some (d, s3)"
    using d(1,2) f(1,2) s3(1) by (simp add: fat16_open_def)
  moreover have "objs s3 = (objs s)(f \<mapsto> OFatItem \<lparr>fi_ptr = p, fi_type = FAT_ITEM_TYPE_FILE\<rparr>, p \<mapsto> OBytes (dir_entry b j),
       d \<mapsto> OFatFileDesc \<lparr>ffd_item = f, ffd_pos = 0\<rparr>)"
    using s3(2) f(9) d(4) ne by (auto simp: fun_upd_def)
  moreover have "heap_step s s3" using d(7) f(8) s3(5) by (blast intro: heap_step_trans)
  ultimately show thesis using that d(2,3) ne f(3,6,7) d(6) s3(3,4) by auto
qed

lemma close_ok:
  assumes "mem_inv s" "objs s d = Some (OFatFileDesc \<lparr>ffd_item = f, ffd_pos = pos\<rparr>)"
    "objs s f = Some (OFatItem \<lparr>fi_ptr = p, fi_type = FAT_ITEM_TYPE_FILE\<rparr>)" "objs s p = Some (OBytes it)"
  obtains s' where "fat16_close d s = Some (0, s')" "objs s' = (objs s)(p := None, f := None, d := None)"
    "mem_inv s'" "heap_step s s'" "free_blocks s \<le> free_blocks s'"
proof -
  have ne: "p \<noteq> f" "p \<noteq> d" "f \<noteq> d" using assms(2-4) by auto
  obtain s1 where s1: "kfree p s = Some s1" "objs s1 = (objs s)(p := None)" "mem_inv s1" "heap_step s s1"
    "free_blocks s < free_blocks s1" by (rule kfree_block [OF assms(1), of p]) (use assms(4) in auto)
  obtain s2 where s2: "kfree f s1 = Some s2" "objs s2 = (objs s1)(f := None)" "mem_inv s2" "heap_step s1 s2"
    "free_blocks s1 < free_blocks s2" by (rule kfree_block [OF s1(3), of f]) (use assms(3) s1(2) ne in auto)
  obtain s3 where s3: "kfree d s2 = Some s3" "objs s3 = (objs s2)(d := None)" "mem_inv s3" "heap_step s2 s3"
    "free_blocks s2 < free_blocks s3" by (rule kfree_block [OF s2(3), of d]) (use assms(2) s1(2) s2(2) ne in auto)
  have "fat16_close d s = Some (0, s3)"
    using assms(2,3) s1(1) s2(1) s3(1)
    by (simp add: fat16_close_def fat16_free_file_descriptor_def fat16_fat_item_free_def get_defs
        FAT_ITEM_TYPE_FILE_def FAT_ITEM_TYPE_DIRECTORY_def)
  moreover have "heap_step s s3" using s1(4) s2(4) s3(4) by (blast intro: heap_step_trans)
  ultimately show thesis using that s1(2,5) s2(2,5) s3(2,3,5) by simp
qed

lemma stat_ok:
  assumes "objs s d = Some (OFatFileDesc \<lparr>ffd_item = f, ffd_pos = pos\<rparr>)"
    "objs s f = Some (OFatItem \<lparr>fi_ptr = p, fi_type = FAT_ITEM_TYPE_FILE\<rparr>)" "objs s p = Some (OBytes it)" "length it = 32"
  shows "fat16_stat disk d st s = Some (0, \<lparr>st_flags = (if item_attribute it AND FAT_FILE_READ_ONLY \<noteq> 0
      then FILE_STAT_READ_ONLY else 0), st_filesize = item_filesize it\<rparr>)"
  using assms by (simp add: fat16_stat_def get_defs deref_item_def)

lemma open_missing:
  assumes "mem_inv s" "0 < free_blocks s" "root_dir s fp b n" "single_part s path name"
    "\<forall>i < n. \<not> name_matches (dir_entry b i) name"
  obtains s' where "fat16_open TheDisk path FILE_MODE_READ s = Some (to_u32 (- EIO), s')" "objs s' = objs s" "mem_inv s'"
proof -
  obtain d s1 where d: "kzalloc 8 (OFatFileDesc \<lparr>ffd_item = 0, ffd_pos = 0\<rparr>) s = Some (d, s1)" "d \<noteq> 0" "objs s d = None"
    "objs s1 = (objs s)(d \<mapsto> OFatFileDesc \<lparr>ffd_item = 0, ffd_pos = 0\<rparr>)" "mem_inv s1" "heap_step s s1"
    by (rule kzalloc_block [OF assms(1), of 8]) (use assms(2) in auto)
  have le: "objs s \<subseteq>\<^sub>m objs s1" by (rule map_le_fresh [OF d(3,4)])
  have r1: "root_dir s1 fp b n" using root_dir_mono [OF assms(3) le] heap_stepD [OF d(6)] by blast
  have p1: "single_part s1 path name" by (rule single_part_mono [OF assms(4) le])
  have "fat16_find_item_in_directory TheDisk (fp_root_directory fp) name s1 = Some (0, s1)"
    using r1 p1 assms(5) by (intro find_none [of _ _ b n]) (auto simp: root_dir_def single_part_def)
  then have e: "fat16_get_directory_entry TheDisk path s1 = Some (0, s1)"
    using r1 p1 by (auto simp: fat16_get_directory_entry_def deref_disk_def root_dir_def single_part_def get_defs)
  obtain s2 where s2: "put d (OFatFileDesc \<lparr>ffd_item = 0, ffd_pos = 0\<rparr>) s1 = Some s2"
    "objs s2 = (objs s1)(d \<mapsto> OFatFileDesc \<lparr>ffd_item = 0, ffd_pos = 0\<rparr>)" "mem_inv s2 = mem_inv s1"
    by (rule put_live [of s1 d]) (use d(4) in auto)
  obtain s3 where s3: "kfree d s2 = Some s3" "objs s3 = (objs s2)(d := None)" "mem_inv s3"
    by (rule kfree_block [of s2 d]) (use s2(2,3) d(5) in auto)
  have "fat16_open TheDisk path FILE_MODE_READ s = Some (to_u32 (- EIO), s3)"
    using d(1,2) e s2(1) s3(1) by (simp add: fat16_open_def)
  moreover have "objs s3 = objs s" using s3(2) s2(2) d(3,4) by auto
  ultimately show thesis using that s3(3) by blast
qed

section \<open>Properties\<close>

text \<open>
  C23. The name under which an entry is found: \<open>fat16_get_full_relative_filename\<close> fills the buffer with
  the base name without padding, and, when there is an extension, a dot and the extension, followed
  by zeros; it never leaves the buffer and the name has at most 12 characters.
\<close>
theorem filename_correct:
  assumes "length it = 32"
  shows "\<exists>out. fat16_get_full_relative_filename it (replicate PLUMOS_MAX_PATH 0) (int PLUMOS_MAX_PATH) = Some out \<and>
    length out = PLUMOS_MAX_PATH \<and> cstr out = item_name it \<and> length (cstr out) \<le> 12"
  using full_filename [OF assms] length_item_name [of it]
  by (simp add: cstr_item_name PLUMOS_MAX_PATH_def)

theorem filename_correct_witness:
  "\<exists>out. fat16_get_full_relative_filename hello_item (replicate PLUMOS_MAX_PATH 0) (int PLUMOS_MAX_PATH) = Some out \<and>
     out ! 5 = 0x2E \<and> cstr out = [0x48, 0x45, 0x4C, 0x4C, 0x4F, 0x2E, 0x54, 0x58, 0x54]"
proof -
  have n: "item_name hello_item = [0x48, 0x45, 0x4C, 0x4C, 0x4F, 0x2E, 0x54, 0x58, 0x54]"
    by (simp add: item_name_def trimmed_def hello_item_def)
  obtain out where out: "fat16_get_full_relative_filename hello_item (replicate PLUMOS_MAX_PATH 0) (int PLUMOS_MAX_PATH) = Some out"
    "cstr out = item_name hello_item"
    using filename_correct [of hello_item] by (auto simp: hello_item_def)
  moreover have "out ! 5 = cstr out ! 5" using nth_cstr [of 5 out] out(2) n by simp
  ultimately show ?thesis using n by simp
qed

text \<open>
  C20. Opening a file of the root directory: when exactly one entry has the name (up to case) and it is a
  file, \<open>fat16_open\<close> returns a descriptor at position 0 that holds a copy of the entry, on three fresh
  objects and without changing any other; \<open>fat16_stat\<close> then reports the size and the read-only flag of
  the entry, and \<open>fat16_close\<close> gives back exactly the objects there were before. When no entry has the
  name the result is the error pointer \<open>-EIO\<close> and nothing stays allocated, and every mode but
  reading is refused with \<open>-ERDONLY\<close>.
\<close>
theorem fat16_open_close:
  assumes "mem_inv s" "2 < free_blocks s" "root_dir s fp b n" "single_part s path name"
  shows "(\<forall>j < n. name_matches (dir_entry b j) name \<and>
       (\<forall>i < n. i \<noteq> j \<longrightarrow> \<not> name_matches (dir_entry b i) name) \<and>
       item_attribute (dir_entry b j) AND FAT_FILE_SUBDIRECTORY = 0 \<longrightarrow>
       (\<exists>d s' s''. fat16_open TheDisk path FILE_MODE_READ s = Some (d, s') \<and> d \<noteq> 0 \<and>
         open_file s' d (dir_entry b j) 0 \<and> (\<forall>a \<in> dom (objs s). objs s' a = objs s a) \<and> mem_inv s' \<and>
         fat16_stat TheDisk d st s' = Some (0, \<lparr>st_flags =
             (if item_attribute (dir_entry b j) AND FAT_FILE_READ_ONLY \<noteq> 0 then FILE_STAT_READ_ONLY else 0),
           st_filesize = item_filesize (dir_entry b j)\<rparr>) \<and>
         fat16_close d s' = Some (0, s'') \<and> objs s'' = objs s \<and> mem_inv s'')) \<and>
    ((\<forall>i < n. \<not> name_matches (dir_entry b i) name) \<longrightarrow>
       (\<exists>s'. fat16_open TheDisk path FILE_MODE_READ s = Some (to_u32 (- EIO), s') \<and> objs s' = objs s \<and> mem_inv s')) \<and>
    (mode \<noteq> FILE_MODE_READ \<longrightarrow> fat16_open TheDisk path mode s = Some (to_u32 (- ERDONLY), s))"
proof (intro conjI allI impI)
  fix j assume j: "j < n" and a: "name_matches (dir_entry b j) name \<and>
       (\<forall>i < n. i \<noteq> j \<longrightarrow> \<not> name_matches (dir_entry b i) name) \<and>
       item_attribute (dir_entry b j) AND FAT_FILE_SUBDIRECTORY = 0"
  let ?it = "dir_entry b j"
  obtain d f p s' where o: "fat16_open TheDisk path FILE_MODE_READ s = Some (d, s')" "d \<noteq> 0"
    "objs s d = None" "objs s f = None" "objs s p = None" "d \<noteq> f" "d \<noteq> p" "p \<noteq> f" "mem_inv s'"
    "objs s' = (objs s)(f \<mapsto> OFatItem \<lparr>fi_ptr = p, fi_type = FAT_ITEM_TYPE_FILE\<rparr>, p \<mapsto> OBytes ?it,
       d \<mapsto> OFatFileDesc \<lparr>ffd_item = f, ffd_pos = 0\<rparr>)"
    by (rule open_ok [OF assms j]) (use a in auto)
  have "32 * Suc j \<le> 32 * n" using j by simp
  then have l: "length ?it = 32" using assms(3) by (auto simp: root_dir_def dir_entry_def)
  have os: "objs s' d = Some (OFatFileDesc \<lparr>ffd_item = f, ffd_pos = 0\<rparr>)"
    "objs s' f = Some (OFatItem \<lparr>fi_ptr = p, fi_type = FAT_ITEM_TYPE_FILE\<rparr>)" "objs s' p = Some (OBytes ?it)"
    using o(6-8,10) by auto
  obtain s'' where c: "fat16_close d s' = Some (0, s'')" "objs s'' = (objs s')(p := None, f := None, d := None)"
    "mem_inv s''" by (rule close_ok [OF o(9) os]) blast
  have "objs s'' = objs s" using c(2) o(3-8,10) by (auto simp: fun_upd_def)
  moreover have "open_file s' d ?it 0" using os l by (auto simp: open_file_def)
  moreover have "\<forall>a \<in> dom (objs s). objs s' a = objs s a" using o(3-5,10) by auto
  ultimately show "\<exists>d s' s''. fat16_open TheDisk path FILE_MODE_READ s = Some (d, s') \<and> d \<noteq> 0 \<and>
         open_file s' d ?it 0 \<and> (\<forall>a \<in> dom (objs s). objs s' a = objs s a) \<and> mem_inv s' \<and>
         fat16_stat TheDisk d st s' = Some (0, \<lparr>st_flags =
             (if item_attribute ?it AND FAT_FILE_READ_ONLY \<noteq> 0 then FILE_STAT_READ_ONLY else 0),
           st_filesize = item_filesize ?it\<rparr>) \<and>
         fat16_close d s' = Some (0, s'') \<and> objs s'' = objs s \<and> mem_inv s''"
    using o(1,2,9) c(1,3) stat_ok [OF os l] by blast
next
  assume a: "\<forall>i < n. \<not> name_matches (dir_entry b i) name"
  have "0 < free_blocks s" using assms(2) by simp
  from open_missing [OF assms(1) this assms(3,4) a]
  show "\<exists>s'. fat16_open TheDisk path FILE_MODE_READ s = Some (to_u32 (- EIO), s') \<and> objs s' = objs s \<and> mem_inv s'"
    by blast
qed (simp add: fat16_open_def)

theorem fat16_open_close_witness:
  "\<exists>d s' s''. fat16_open TheDisk (slot 5) FILE_MODE_READ (sample_mounted
       [OPathPart \<lparr>pp_part = slot 6, pp_next = 0\<rparr>, OBytes (lit ''hello.txt'')] 3) = Some (d, s') \<and>
     fat16_stat TheDisk d \<lparr>st_flags = 0, st_filesize = 0\<rparr> s' = Some (0, \<lparr>st_flags = 1, st_filesize = 1000\<rparr>) \<and>
     fat16_close d s' = Some (0, s'')"
proof -
  let ?s = "sample_mounted [OPathPart \<lparr>pp_part = slot 6, pp_next = 0\<rparr>, OBytes (lit ''hello.txt'')] 3"
  let ?b = "pad_to 512 hello_item"
  have mi: "mem_inv ?s" "free_blocks ?s = 3"
    using sample_store_inv [of "[OFatPrivate sample_private, disk_stream_obj, disk_stream_obj, disk_stream_obj,
       OBytes (pad_to 512 hello_item), OPathPart \<lparr>pp_part = slot 6, pp_next = 0\<rparr>, OBytes (lit ''hello.txt'')]" 3]
      sample_store_free
    by (auto simp: sample_mounted_def mem_inv_def free_blocks_def)
  have r: "root_dir ?s sample_private ?b 1"
    by (auto simp: root_dir_def sample_mounted_objs sample_private_def sample_mounted_def intro!: stored_nth)
  have p: "single_part ?s (slot 5) (lit ''hello.txt'')"
    by (auto simp: single_part_def sample_mounted_objs lit_def intro!: exI stored_nth)
  have e: "dir_entry ?b 0 = hello_item" by (simp add: dir_entry_def pad_to_def hello_item_def)
  have mt: "name_matches hello_item (lit ''hello.txt'')"
    by (simp add: name_matches_def item_name_def trimmed_def hello_item_def lit_def tolower_def PLUMOS_MAX_PATH_def)
  have at: "item_attribute hello_item = 1" "item_filesize hello_item = 1000"
    by (simp_all add: item_attribute_def item_filesize_def le32_def le16_def hello_item_def)
  show ?thesis
    using fat16_open_close [OF mi(1) _ r p, of "\<lparr>st_flags = 0, st_filesize = 0\<rparr>" 0] mi(2) e mt at
    by (simp add: FAT_FILE_SUBDIRECTORY_def FAT_FILE_READ_ONLY_def FILE_STAT_READ_ONLY_def) blast
qed

end
