(* ===== verification/FatMount.thy ===== *)
theory FatMount
  imports FatFiles
begin

unbundle bit_operations_syntax

text \<open>
  Mounting a FAT16 volume (\<open>fat16_resolve\<close>): the streams, the boot sector, and the root directory with
  the number of its entries.
\<close>

section \<open>Streams\<close>

lemma mem_inv_cong:
  "kernel_heap s' = kernel_heap s \<Longrightarrow> dom (objs s') = dom (objs s) \<Longrightarrow> mem_inv s' = mem_inv s"
  by (simp add: mem_inv_def)

lemma diskstreamer_new_ok:
  assumes "mem_inv s" "0 < free_blocks s"
  obtains st s' where "diskstreamer_new 0 s = Some (st, s')" "st \<noteq> 0" "objs s st = None"
    "objs s' = (objs s)(st \<mapsto> disk_stream_obj)" "mem_inv s'" "free_blocks s' = free_blocks s - 1" "heap_step s s'"
proof -
  obtain st s1 where k: "kzalloc 8 (OStream \<lparr>ds_pos = 0, ds_disk = NullDisk\<rparr>) s = Some (st, s1)" "st \<noteq> 0" "objs s st = None"
    "objs s1 = (objs s)(st \<mapsto> OStream \<lparr>ds_pos = 0, ds_disk = NullDisk\<rparr>)" "mem_inv s1" "free_blocks s1 = free_blocks s - 1"
    "heap_step s s1"
    by (rule kzalloc_block [OF assms(1), of 8]) (use assms(2) in auto)
  obtain s2 where s2: "put st disk_stream_obj s1 = Some s2" "objs s2 = (objs s1)(st \<mapsto> disk_stream_obj)" "mem_inv s2 = mem_inv s1"
    "free_blocks s2 = free_blocks s1" "heap_step s1 s2"
    by (rule put_live [of s1 st]) (use k(4) in auto)
  have "diskstreamer_new 0 s = Some (st, s2)"
    using k(1) s2(1) by (simp add: diskstreamer_new_def disk_get_def disk_stream_obj_def)
  then show thesis
    using that k(2,3,5,6) s2 k(4) heap_step_trans [OF k(7) s2(5)] by simp
qed

lemma stream_moved_inv:
  assumes "stream_moved st pos s s'" "objs s st \<noteq> None"
  shows "mem_inv s' = mem_inv s" "free_blocks s' = free_blocks s"
proof -
  have "dom (objs s') = dom (objs s)" using stream_movedD(1) [OF assms(1)] assms(2) by auto
  then show "mem_inv s' = mem_inv s" using stream_movedD(4) [OF assms(1)] by (rule mem_inv_cong [rotated])
qed (rule stream_movedD(5) [OF assms(1)])

text \<open>What mounting may change: the heap with its objects, the disk and its log.\<close>

definition mount_step :: "kernel \<Rightarrow> kernel \<Rightarrow> bool" where
  "mount_step s s' \<longleftrightarrow> s' = s\<lparr>kernel_heap := kernel_heap s', objs := objs s', io_log := io_log s', gdisk := gdisk s'\<rparr> \<and>
     heap_shape (kernel_heap s') = heap_shape (kernel_heap s)"

lemma mount_step_trans [trans]: "mount_step s s' \<Longrightarrow> mount_step s' s'' \<Longrightarrow> mount_step s s''"
  unfolding mount_step_def by (cases s; cases s'; cases s'') simp

lemma heap_mount_step: "heap_step s s' \<Longrightarrow> mount_step s s'"
  unfolding mount_step_def heap_step_def by (cases s; cases s') simp

lemma moved_mount_step: "stream_moved st p s s' \<Longrightarrow> mount_step s s'"
  unfolding mount_step_def stream_moved_def by auto

lemma disk_mount_step [simp]: "mount_step s (s\<lparr>gdisk := d\<rparr>)"
  by (simp add: mount_step_def)

section \<open>Counting the entries of a directory\<close>

definition dir_item_at :: "(nat \<Rightarrow> u8 list) \<Rightarrow> nat \<Rightarrow> nat \<Rightarrow> u8 list" where
  "dir_item_at img start i = disk_bytes img (start + 32 * i) 32"

text \<open>The directory at byte \<open>start\<close> has its first blank entry at \<open>m\<close>.\<close>

definition dir_ends :: "(nat \<Rightarrow> u8 list) \<Rightarrow> nat \<Rightarrow> nat \<Rightarrow> bool" where
  "dir_ends img start m \<longleftrightarrow>
     (\<forall>i < m. dir_item_at img start i ! 0 \<noteq> 0) \<and> dir_item_at img start m ! 0 = 0"

definition used_items :: "(nat \<Rightarrow> u8 list) \<Rightarrow> nat \<Rightarrow> nat \<Rightarrow> nat list" where
  "used_items img start m = filter (\<lambda>i. dir_item_at img start i ! 0 \<noteq> 0xE5) [0..<m]"

lemma count_items_ok:
  assumes "ata_serves (device s) img" "dir_ends img start m" "i \<le> m" "int (c + (m - i)) < 2 ^ 31"
    "objs s st = Some (OStream \<lparr>ds_pos = int (start + 32 * i), ds_disk = TheDisk\<rparr>)" "int (start + 32 * m) + 1024 < 2 ^ 31"
  shows "\<exists>s'. count_items st (int c) s =
      Some (int (c + length (filter (\<lambda>i. dir_item_at img start i ! 0 \<noteq> 0xE5) [i..<m])), s') \<and>
    stream_moved st (start + 32 * Suc m) s s'"
  using assms
proof (induction "m - i" arbitrary: i c s)
  case 0
  then have i: "i = m" by simp
  obtain s1 where s1: "diskstreamer_read st (int 32) s = Some (0, disk_bytes img (start + 32 * m) 32, s1)"
    "stream_moved st (start + 32 * m + 32) s s1"
    using diskstreamer_read_ok [OF 0(2), of st "start + 32 * m" 32] 0(6,7) i by auto
  have "disk_bytes img (start + 32 * m) 32 ! 0 = 0" using 0(3) by (simp add: dir_ends_def dir_item_at_def)
  then show ?case using s1 i
    by (subst count_items.simps) (simp add: PLUMOS_ALL_OK_def add.commute add.left_commute)
next
  case (Suc d)
  then have i: "i < m" by simp
  let ?e = "disk_bytes img (start + 32 * i) 32"
  obtain s1 where s1: "diskstreamer_read st (int 32) s = Some (0, ?e, s1)"
    "stream_moved st (start + 32 * i + 32) s s1"
    using diskstreamer_read_ok [OF Suc(3), of st "start + 32 * i" 32] Suc(7,8) i by auto
  have e0: "?e ! 0 \<noteq> 0" using Suc(4) i by (auto simp: dir_ends_def dir_item_at_def)
  let ?c = "if ?e ! 0 = 0xE5 then c else Suc c"
  have dv: "ata_serves (device s1) img" using Suc(3) stream_movedD(2) [OF s1(2)] by simp
  have o1: "objs s1 st = Some (OStream \<lparr>ds_pos = int (start + 32 * Suc i), ds_disk = TheDisk\<rparr>)"
    using stream_movedD(1) [OF s1(2)] by (simp add: add.commute add.left_commute)
  have "\<exists>s'. count_items st (int ?c) s1 =
      Some (int (?c + length (filter (\<lambda>i. dir_item_at img start i ! 0 \<noteq> 0xE5) [Suc i..<m])), s') \<and>
    stream_moved st (start + 32 * Suc m) s1 s'"
    by (rule Suc.hyps(1)) (use Suc.hyps(2) Suc.prems dv o1 i in auto)
  then obtain s' where s': "count_items st (int ?c) s1 =
      Some (int (?c + length (filter (\<lambda>i. dir_item_at img start i ! 0 \<noteq> 0xE5) [Suc i..<m])), s')"
    "stream_moved st (start + 32 * Suc m) s1 s'" by blast
  have "Suc c \<le> c + (m - i)" using i by simp
  then have "s32 (int (Suc c)) = Some (int (Suc c))" using Suc.prems(4) by (intro s32_nat) linarith
  then have "count_items st (int c) s = count_items st (int ?c) s1"
    using s1(1) e0 by (subst count_items.simps) (simp add: PLUMOS_ALL_OK_def add.commute)
  also have "\<dots> = Some (int (c + length (filter (\<lambda>i. dir_item_at img start i ! 0 \<noteq> 0xE5) [i..<m])), s')"
    unfolding s'(1) using upt_conv_Cons [OF i] by (simp add: dir_item_at_def)
  finally show ?case using stream_moved_trans [OF s1(2) s'(2)] by blast
qed

lemma stream_moved_fat_step:
  assumes "st \<in> fat_streams fp" "stream_moved st p s s'"
  shows "fat_step fp s s'"
proof -
  have "s' = s\<lparr>io_log := io_log s', objs := objs s'\<rparr>" using assms(2) by (auto simp: stream_moved_def)
  then show ?thesis using stream_movedD(1) [OF assms(2)] assms(1) by (auto simp: fat_step_def)
qed

lemma seek_moved:
  assumes "objs s st = Some (OStream d)" "ds_disk d = TheDisk"
  obtains s' where "diskstreamer_seek st (int pos) s = Some (0, s')" "stream_moved st pos s s'"
proof -
  have "d\<lparr>ds_pos := int pos\<rparr> = \<lparr>ds_pos = int pos, ds_disk = TheDisk\<rparr>" using assms(2) by (cases d) simp
  moreover have "stream_moved st pos s (s\<lparr>objs := (objs s)(st \<mapsto> OStream \<lparr>ds_pos = int pos, ds_disk = TheDisk\<rparr>)\<rparr>)"
    unfolding stream_moved_def by (intro exI [of _ "io_log s"]) simp
  ultimately show thesis using that diskstreamer_seek_ok [OF assms(1), of "int pos"] by simp
qed

lemma total_items_ok:
  assumes "fat_mounted img fp s" "dir_ends img (512 * sec) m" "int (512 * sec + 32 * m) + 1024 < 2 ^ 31"
  obtains s' where "fat16_get_total_items_for_directory TheDisk (of_nat sec) s =
      Some (int (length (used_items img (512 * sec) m)), s')"
    "stream_moved (fp_directory_stream fp) (512 * sec + 32 * Suc m) s s'"
proof -
  let ?st = "fp_directory_stream fp"
  obtain p where st: "objs s ?st = Some (OStream \<lparr>ds_pos = p, ds_disk = TheDisk\<rparr>)"
    using assms(1) by (auto simp: fat_mounted_def fat_streams_def)
  have ss: "dk_sector_size (gdisk s) = 512" and dv: "ata_serves (device s) img" using assms(1) by (simp_all add: fat_mounted_def)
  have "int (512 * sec) < 2 ^ 31" using assms(3) by linarith
  moreover have "(of_nat sec :: u32) * to_u32 512 = of_nat (512 * sec)" by (simp add: mult.commute)
  ultimately have pos: "to_int (of_nat sec * to_u32 512) = int (512 * sec)"
    by (simp only: sint_of_small_nat of_nat_less_numeral_power_cancel_iff)
  obtain s1 where s1: "diskstreamer_seek ?st (int (512 * sec)) s = Some (0, s1)" "stream_moved ?st (512 * sec) s s1"
    by (rule seek_moved [OF st, of "512 * sec"]) simp_all
  have "\<exists>s'. count_items ?st (int 0) s1 =
      Some (int (0 + length (filter (\<lambda>i. dir_item_at img (512 * sec) i ! 0 \<noteq> 0xE5) [0..<m])), s') \<and>
    stream_moved ?st (512 * sec + 32 * Suc m) s1 s'"
    by (rule count_items_ok [OF _ assms(2)]) (use dv assms(3) stream_movedD [OF s1(2)] in auto)
  then obtain s2 where s2: "count_items ?st 0 s1 = Some (int (length (used_items img (512 * sec) m)), s2)"
    "stream_moved ?st (512 * sec + 32 * Suc m) s1 s2" by (auto simp: used_items_def)
  have "fat16_get_total_items_for_directory TheDisk (of_nat sec) s = Some (int (length (used_items img (512 * sec) m)), s2)"
    unfolding fat16_get_total_items_for_directory_def deref_disk_def
    using fat_private_get [OF assms(1)] s1(1) s2(1) pos ss by (simp add: PLUMOS_ALL_OK_def del: of_nat_mult)
  then show thesis using that stream_moved_trans [OF s1(2) s2(2)] by blast
qed

section \<open>The root directory\<close>

definition root_start :: "u8 list \<Rightarrow> nat" where
  "root_start h = unat (le16 h 14) + unat (h ! 16) * unat (le16 h 22)"

lemma root_start_int: "reserved_sectors h + fat_copies h * sectors_per_fat h = int (root_start h)"
  by (simp add: root_start_def reserved_sectors_def fat_copies_def sectors_per_fat_def)

text \<open>
  A boot sector the kernel can mount: between 1 and 128 root entries (one block of memory), and a root
  directory whose blank entry lies at \<open>m\<close>, within the range of positions.
\<close>

definition boot_ok :: "(nat \<Rightarrow> u8 list) \<Rightarrow> u8 list \<Rightarrow> nat \<Rightarrow> nat \<Rightarrow> bool" where
  "boot_ok img h n m \<longleftrightarrow> n = unat (le16 h 17) \<and> 0 < n \<and> n \<le> 128 \<and>
     dir_ends img (512 * root_start h) m \<and> int (512 * root_start h + 32 * m) + 8192 < 2 ^ 31"

lemma root_directory_ok:
  assumes "fat_mounted img fp s" "mem_inv s" "0 < free_blocks s" "boot_ok img (fp_header fp) n m"
    "P = dk_fs_private (gdisk s)" "R = root_start (fp_header fp)"
  obtains d s' where "fat16_get_root_directory TheDisk P dir0 s = Some (0,
      \<lparr>dir_item = d, dir_total = int (length (used_items img (512 * R) m)), dir_sector_pos = int R,
        dir_end_sector_pos = int (R + 32 * n div 512)\<rparr>, s')"
    "d \<noteq> 0" "objs s d = None" "objs s' d = Some (OBytes (disk_bytes img (512 * R) (32 * n)))"
    "\<And>a. a \<noteq> d \<Longrightarrow> a \<noteq> fp_directory_stream fp \<Longrightarrow> objs s' a = objs s a"
    "objs s' (fp_directory_stream fp) = Some (OStream \<lparr>ds_pos = int (512 * R + 32 * n), ds_disk = TheDisk\<rparr>)"
    "mem_inv s'" "gdisk s' = gdisk s" "device s' = device s" "free_blocks s' = free_blocks s - 1" "mount_step s s'"
proof -
  let ?st = "fp_directory_stream fp" and ?h = "fp_header fp"
  have bt: "n = unat (le16 ?h 17)" "0 < n" "n \<le> 128" "dir_ends img (512 * R) m" "int (512 * R + 32 * m) + 8192 < 2 ^ 31"
    using assms(4) by (simp_all add: boot_ok_def assms(6))
  have ss: "dk_sector_size (gdisk s) = 512" using assms(1) by (simp add: fat_mounted_def)
  have ent: "root_directory_entries ?h * 32 = int (32 * n)" by (simp add: root_directory_entries_def bt(1))
  have sb: "int (512 * R + 32 * m) + 1024 < 2 ^ 31" "int (512 * R) < 2 ^ 31" using bt(5) by linarith+
  obtain p where st: "objs s ?st = Some (OStream \<lparr>ds_pos = p, ds_disk = TheDisk\<rparr>)"
    using assms(1) by (auto simp: fat_mounted_def fat_streams_def)
  obtain s1 where s1: "fat16_get_total_items_for_directory TheDisk (of_nat R) s =
      Some (int (length (used_items img (512 * R) m)), s1)" "stream_moved ?st (512 * R + 32 * Suc m) s s1"
    by (rule total_items_ok [OF assms(1) bt(4) sb(1)])
  have i1: "mem_inv s1" "free_blocks s1 = free_blocks s" using stream_moved_inv [OF s1(2)] st assms(2) by auto
  let ?z = "OBytes (replicate (32 * n) 0)"
  have un: "unat (of_nat (32 * n) :: u32) = 32 * n" using bt(3) unat_of_small_nat [of "32 * n"] by (simp del: of_nat_mult)
  obtain d s2 where d: "kzalloc (of_nat (32 * n)) ?z s1 = Some (d, s2)" "d \<noteq> 0" "objs s1 d = None"
    "objs s2 = (objs s1)(d \<mapsto> ?z)" "mem_inv s2" "free_blocks s2 = free_blocks s1 - 1" "heap_step s1 s2"
    by (rule kzalloc_block [OF i1(1), of "of_nat (32 * n)"]) (use assms(3) i1(2) bt(2,3) un in auto)
  have ds: "d \<noteq> ?st" using d(3) stream_movedD(1) [OF s1(2)] by auto
  have g2: "gdisk s2 = gdisk s" "device s2 = device s"
    using heap_stepD [OF d(7)] stream_movedD [OF s1(2)] by auto
  have st2: "objs s2 ?st = Some (OStream \<lparr>ds_pos = int (512 * R + 32 * Suc m), ds_disk = TheDisk\<rparr>)"
    using d(4) ds stream_movedD(1) [OF s1(2)] by simp
  have dv2: "ata_serves (device s2) img" using g2 assms(1) by (simp add: fat_mounted_def)
  have rb: "int (512 * R) + int (32 * n) + 512 < 2 ^ 31" using bt(3,5) by linarith
  obtain s3 s4 where s3: "diskstreamer_seek ?st (int (512 * R)) s2 = Some (0, s3)"
    "diskstreamer_read ?st (int (32 * n)) s3 = Some (0, disk_bytes img (512 * R) (32 * n), s4)"
    "stream_moved ?st (512 * R + 32 * n) s2 s4"
    by (rule seek_read_ok [OF dv2 st2 _ rb]) auto
  have i4: "mem_inv s4" "free_blocks s4 = free_blocks s2" using stream_moved_inv [OF s3(3)] st2 d(5) by auto
  have o4: "objs s4 d = Some ?z" using stream_movedD(1) [OF s3(3)] d(4) ds by simp
  let ?b = "disk_bytes img (512 * R) (32 * n)"
  obtain s5 where s5: "put d (OBytes ?b) s4 = Some s5" "objs s5 = (objs s4)(d \<mapsto> OBytes ?b)" "mem_inv s5 = mem_inv s4"
    "free_blocks s5 = free_blocks s4" "heap_step s4 s5"
    by (rule put_live [of s4 d]) (use o4 in auto)
  have sb5: "store_bytes d ?b s4 = Some s5" using s5(1) o4 by (simp add: store_bytes_def get_bytes_def overwrite_def)
  have dm: "c_div (int (32 * n)) 512 = Some (int (32 * n div 512))" "\<exists>r. c_mod (int (32 * n)) 512 = Some r"
    using div_int_nat [of "32 * n" 512] mod_int_nat [of "32 * n" 512] by simp_all
  then obtain r where r: "c_mod (int (32 * n)) 512 = Some r" by blast
  have ab: "fat16_sector_to_absolute TheDisk (int R) s2 = Some (int (512 * R))"
    using ss g2 s32_nat [OF sb(2)] by (simp add: fat16_sector_to_absolute_def deref_disk_def mult.commute)
  have gp: "get_fat_private s P = Some fp" using fat_private_get [OF assms(1)] assms(5) by simp
  have w: "to_u32 (int R) = of_nat R" "to_u32 (int (32 * n)) = of_nat (32 * n)" by simp_all
  let ?dir = "\<lparr>dir_item = d, dir_total = int (length (used_items img (512 * R) m)), dir_sector_pos = int R,
        dir_end_sector_pos = int (R + 32 * n div 512)\<rparr>"
  have "fat16_get_root_directory TheDisk P dir0 s = Some (0, ?dir, s5)"
    unfolding fat16_get_root_directory_def gp deref_disk_def Let_def root_start_int ent assms(6) [symmetric]
    using s1(1) d(1,2) s3(1,2) sb5 ab dm(1) r
    by (simp only: Option.bind.bind_lunit Let_def refl if_True ss root_start_int ent assms(6) [symmetric] w prod.case nat_int if_False PLUMOS_ALL_OK_def
        not_True_eq_False of_nat_add simp_thms)
  moreover have "objs s5 a = objs s a" if "a \<noteq> d" "a \<noteq> ?st" for a
    using that s5(2) stream_movedD(1) [OF s3(3)] d(4) stream_movedD(1) [OF s1(2)] by simp
  moreover have "objs s5 ?st = Some (OStream \<lparr>ds_pos = int (512 * R + 32 * n), ds_disk = TheDisk\<rparr>)"
    using s5(2) stream_movedD(1) [OF s3(3)] ds by simp
  moreover have "objs s d = None" using d(3) stream_movedD(1) [OF s1(2)] ds by simp
  moreover have "gdisk s5 = gdisk s" "device s5 = device s"
    using heap_stepD [OF s5(5)] stream_movedD [OF s3(3)] g2 by auto
  moreover have "mount_step s s5"
    using moved_mount_step [OF s1(2)] heap_mount_step [OF d(7)] moved_mount_step [OF s3(3)] heap_mount_step [OF s5(5)]
    by (blast intro: mount_step_trans)
  ultimately show thesis
    using that d(2) s5(2-4) i4 d(5,6) i1(2) by simp
qed

section \<open>Mounting\<close>

lemma init_private_ok:
  assumes "mem_inv s" "2 < free_blocks s" "dk_id (gdisk s) = 0" "objs s P \<noteq> None"
  obtains a b c s' where "fat16_init_private TheDisk P s = Some s'" "distinct [P, a, b, c]" "0 \<notin> {a, b, c}"
    "objs s a = None" "objs s b = None" "objs s c = None" "mem_inv s'" "free_blocks s' = free_blocks s - 3" "heap_step s s'"
    "objs s' = (objs s)(a \<mapsto> disk_stream_obj, b \<mapsto> disk_stream_obj, c \<mapsto> disk_stream_obj,
       P \<mapsto> OFatPrivate (zero_fat_private\<lparr>fp_cluster_read_stream := a, fp_fat_read_stream := b, fp_directory_stream := c\<rparr>))"
proof -
  obtain s0 where s0: "put P (OFatPrivate zero_fat_private) s = Some s0" "objs s0 = (objs s)(P \<mapsto> OFatPrivate zero_fat_private)"
    "mem_inv s0 = mem_inv s" "free_blocks s0 = free_blocks s" "heap_step s s0"
    by (rule put_live [OF assms(4)])
  obtain a s1 where a: "diskstreamer_new 0 s0 = Some (a, s1)" "a \<noteq> 0" "objs s0 a = None"
    "objs s1 = (objs s0)(a \<mapsto> disk_stream_obj)" "mem_inv s1" "free_blocks s1 = free_blocks s0 - 1" "heap_step s0 s1"
    by (rule diskstreamer_new_ok [of s0]) (use s0(3,4) assms(1,2) in auto)
  obtain b s2 where b: "diskstreamer_new 0 s1 = Some (b, s2)" "b \<noteq> 0" "objs s1 b = None"
    "objs s2 = (objs s1)(b \<mapsto> disk_stream_obj)" "mem_inv s2" "free_blocks s2 = free_blocks s1 - 1" "heap_step s1 s2"
    by (rule diskstreamer_new_ok [OF a(5)]) (use a(6) s0(4) assms(2) in auto)
  obtain c s3 where c: "diskstreamer_new 0 s2 = Some (c, s3)" "c \<noteq> 0" "objs s2 c = None"
    "objs s3 = (objs s2)(c \<mapsto> disk_stream_obj)" "mem_inv s3" "free_blocks s3 = free_blocks s2 - 1" "heap_step s2 s3"
    by (rule diskstreamer_new_ok [OF b(5)]) (use b(6) a(6) s0(4) assms(2) in auto)
  have ne: "P \<noteq> a" "P \<noteq> b" "P \<noteq> c" "a \<noteq> b" "a \<noteq> c" "b \<noteq> c" "objs s a = None" "objs s b = None" "objs s c = None"
    using a(3,4) b(3,4) c(3) s0(2) by (auto split: if_splits)
  let ?x = "OFatPrivate (zero_fat_private\<lparr>fp_cluster_read_stream := a, fp_fat_read_stream := b, fp_directory_stream := c\<rparr>)"
  obtain s4 where s4: "put P ?x s3 = Some s4" "objs s4 = (objs s3)(P \<mapsto> ?x)"
    "mem_inv s4 = mem_inv s3" "free_blocks s4 = free_blocks s3" "heap_step s3 s4"
    by (rule put_live [of s3 P]) (use c(4) b(4) a(4) s0(2) in auto)
  have "gdisk s0 = gdisk s" using heap_stepD [OF s0(5)] by simp
  then have "fat16_init_private TheDisk P s = Some s4"
    using s0(1) a(1) b(1) c(1) s4(1) assms(3) by (simp add: fat16_init_private_def deref_disk_def)
  moreover have "heap_step s s4" using s0(5) a(7) b(7) c(7) s4(5) by (blast intro: heap_step_trans)
  moreover have "objs s4 = (objs s)(a \<mapsto> disk_stream_obj, b \<mapsto> disk_stream_obj, c \<mapsto> disk_stream_obj, P \<mapsto> ?x)"
    using s4(2) c(4) b(4) a(4) s0(2) ne by (simp add: fun_upd_twist)
  ultimately show thesis
    using that ne a(2) b(2) c(2,5,6) s4(3,4) b(6) a(6) s0(4) by auto
qed

text \<open>The common first part of \<open>fat16_resolve\<close>: up to the boot sector being read.\<close>

lemma resolve_head:
  assumes "mem_inv s" "5 < free_blocks s" "ata_serves (device s) img" "dk_id (gdisk s) = 0" "dk_sector_size (gdisk s) = 512"
    "h = disk_bytes img 0 62"
  obtains P a b c t fp s' where "distinct [P, a, b, c, t]" "0 \<notin> {P, a, b, c, t}"
    "objs s P = None" "objs s a = None" "objs s b = None" "objs s c = None" "objs s t = None"
    "mem_inv s'" "free_blocks s' = free_blocks s - 5" "device s' = device s"
    "fp = zero_fat_private\<lparr>fp_header := h, fp_cluster_read_stream := a, fp_fat_read_stream := b, fp_directory_stream := c\<rparr>"
    "objs s' = (objs s)(a \<mapsto> disk_stream_obj, b \<mapsto> disk_stream_obj, c \<mapsto> disk_stream_obj,
       t \<mapsto> OStream \<lparr>ds_pos = 62, ds_disk = TheDisk\<rparr>, P \<mapsto> OFatPrivate fp)"
    "gdisk s' = (gdisk s)\<lparr>dk_fs_private := P, dk_filesystem := Fat16Fs\<rparr>" "mount_step s s'"
    "fat16_resolve TheDisk s =
      (if header_signature h \<noteq> PLUMOS_FAT16_SIGNATURE then resolve_out (- EFSNOTUS) t P s'
       else do {
         (res, dir, s) \<leftarrow> fat16_get_root_directory TheDisk P zero_fat_directory s';
         fp \<leftarrow> get_fat_private s P;
         s \<leftarrow> put P (OFatPrivate (fp\<lparr>fp_root_directory := dir\<rparr>)) s;
         resolve_out (if res \<noteq> PLUMOS_ALL_OK then - EIO else 0) t P s
       })"
proof -
  obtain P s1 where P: "kzalloc 92 (OFatPrivate zero_fat_private) s = Some (P, s1)" "P \<noteq> 0" "objs s P = None"
    "objs s1 = (objs s)(P \<mapsto> OFatPrivate zero_fat_private)" "mem_inv s1" "free_blocks s1 = free_blocks s - 1" "heap_step s s1"
    by (rule kzalloc_block [OF assms(1), of 92]) (use assms(2) in auto)
  let ?initial = "\<lambda>a b c. zero_fat_private\<lparr>fp_cluster_read_stream := a, fp_fat_read_stream := b, fp_directory_stream := c\<rparr>"
  have g1: "dk_id (gdisk s1) = 0" "gdisk s1 = gdisk s" "device s1 = device s" using heap_stepD [OF P(7)] assms(4) by auto
  obtain a b c s2 where i: "fat16_init_private TheDisk P s1 = Some s2" "distinct [P, a, b, c]" "0 \<notin> {a, b, c}"
    "objs s1 a = None" "objs s1 b = None" "objs s1 c = None" "mem_inv s2" "free_blocks s2 = free_blocks s1 - 3" "heap_step s1 s2"
    "objs s2 = (objs s1)(a \<mapsto> disk_stream_obj, b \<mapsto> disk_stream_obj, c \<mapsto> disk_stream_obj, P \<mapsto> OFatPrivate (?initial a b c))"
    by (rule init_private_ok [OF P(5) _ g1(1), of P]) (use P(4,6) assms(2) in auto)
  have g2: "gdisk s2 = gdisk s" "device s2 = device s" using heap_stepD [OF i(9)] g1 by auto
  obtain s3 where s3: "s3 = s2\<lparr>gdisk := (gdisk s)\<lparr>dk_fs_private := P, dk_filesystem := Fat16Fs\<rparr>\<rparr>" by blast
  have i3: "mem_inv s3" "free_blocks s3 = free_blocks s2" "objs s3 = objs s2" "device s3 = device s"
    using i(7) g2(2) by (simp_all add: s3 mem_inv_def free_blocks_def)
  obtain t s4 where t: "diskstreamer_new 0 s3 = Some (t, s4)" "t \<noteq> 0" "objs s3 t = None"
    "objs s4 = (objs s3)(t \<mapsto> disk_stream_obj)" "mem_inv s4" "free_blocks s4 = free_blocks s3 - 1" "heap_step s3 s4"
    by (rule diskstreamer_new_ok [OF i3(1)]) (use i3(2) i(8) P(6) assms(2) in auto)
  have g4: "gdisk s4 = (gdisk s)\<lparr>dk_fs_private := P, dk_filesystem := Fat16Fs\<rparr>" "device s4 = device s"
    using heap_stepD [OF t(7)] i3(4) by (simp_all add: s3)
  have t4: "objs s4 t = Some (OStream \<lparr>ds_pos = int 0, ds_disk = TheDisk\<rparr>)" using t(4) by (simp add: disk_stream_obj_def)
  obtain s5 where s5: "diskstreamer_read t (int 62) s4 = Some (0, h, s5)" "stream_moved t (0 + 62) s4 s5"
    using diskstreamer_read_ok [of s4 img t 0 62] assms(3) g4(2) t4 by (auto simp: assms(6))
  have ne: "t \<noteq> P" "t \<noteq> a" "t \<noteq> b" "t \<noteq> c" "objs s t = None" "objs s a = None" "objs s b = None" "objs s c = None"
    using t(3) i(2,4-6,10) i3(3) P(4) by (auto split: if_splits)
  have o5: "objs s5 = (objs s4)(t \<mapsto> OStream \<lparr>ds_pos = 62, ds_disk = TheDisk\<rparr>)" "gdisk s5 = gdisk s4" "device s5 = device s4"
    using stream_movedD [OF s5(2)] by simp_all
  have i5: "mem_inv s5" "free_blocks s5 = free_blocks s4" using stream_moved_inv [OF s5(2)] t4 t(5) by auto
  have P5: "objs s5 P = Some (OFatPrivate (?initial a b c))" using o5(1) t(4) i3(3) i(10) ne(1) by simp
  let ?fp = "zero_fat_private\<lparr>fp_header := h, fp_cluster_read_stream := a, fp_fat_read_stream := b, fp_directory_stream := c\<rparr>"
  obtain s6 where s6: "put P (OFatPrivate ?fp) s5 = Some s6" "objs s6 = (objs s5)(P \<mapsto> OFatPrivate ?fp)"
    "mem_inv s6 = mem_inv s5" "free_blocks s6 = free_blocks s5" "heap_step s5 s6"
    by (rule put_live [of s5 P]) (use P5 in auto)
  have ov: "overwrite (fp_header (?initial a b c)) h = Some h" by (simp add: overwrite_def zero_fat_private_def assms(6))
  have fpe: "(?initial a b c)\<lparr>fp_header := h\<rparr> = ?fp" "fp_root_directory (?initial a b c) = zero_fat_directory"
    by (simp_all add: zero_fat_private_def)
  have "fat16_resolve TheDisk s =
      (if header_signature h \<noteq> PLUMOS_FAT16_SIGNATURE then resolve_out (- EFSNOTUS) t P s6
       else do {
         (res, dir, s) \<leftarrow> fat16_get_root_directory TheDisk P zero_fat_directory s6;
         fp \<leftarrow> get_fat_private s P;
         s \<leftarrow> put P (OFatPrivate (fp\<lparr>fp_root_directory := dir\<rparr>)) s;
         resolve_out (if res \<noteq> PLUMOS_ALL_OK then - EIO else 0) t P s
       })"
    unfolding fat16_resolve_def
    using P(1) i(1) t(1,2) s5(1) s6(1) [folded fpe(1)] ov fpe(2) P5 assms(4) g2(1)
    by (simp add: deref_disk_def get_fat_private_def PLUMOS_ALL_OK_def flip: s3)
  moreover have "objs s6 = (objs s)(a \<mapsto> disk_stream_obj, b \<mapsto> disk_stream_obj, c \<mapsto> disk_stream_obj,
       t \<mapsto> OStream \<lparr>ds_pos = 62, ds_disk = TheDisk\<rparr>, P \<mapsto> OFatPrivate ?fp)"
    using s6(2) o5(1) t(4) i3(3) i(2,10) P(4) ne by (simp add: fun_upd_twist)
  moreover have "gdisk s6 = (gdisk s)\<lparr>dk_fs_private := P, dk_filesystem := Fat16Fs\<rparr>" "device s6 = device s"
    using heap_stepD [OF s6(5)] o5(2,3) g4 by auto
  moreover have "mount_step s s6"
    using heap_mount_step [OF P(7)] heap_mount_step [OF i(9)] disk_mount_step [of s2, folded s3] heap_mount_step [OF t(7)]
      moved_mount_step [OF s5(2)] heap_mount_step [OF s6(5)]
    unfolding s3 by (blast intro: mount_step_trans)
  ultimately show thesis
    using that [of P a b c t s6 ?fp] P(2,3) i(2,3) t(2,6) ne s6(3,4) i5 i3(2) i(8) P(6) by auto
qed

lemma resolve_out_ok:
  assumes "mem_inv s" "objs s t \<noteq> None" "t \<noteq> 0" "0 \<le> res"
  obtains s' where "resolve_out res t P s = Some (res, s')" "objs s' = (objs s)(t := None)" "mem_inv s'" "heap_step s s'" "free_blocks s < free_blocks s'"
proof -
  obtain s1 where s1: "kfree t s = Some s1" "objs s1 = (objs s)(t := None)" "mem_inv s1" "free_blocks s < free_blocks s1" "heap_step s s1"
    by (rule kfree_block [OF assms(1,2)])
  then show thesis using that assms(3,4) by (simp add: resolve_out_def diskstreamer_close_def)
qed

lemma resolve_out_fail:
  assumes "mem_inv s" "objs s t \<noteq> None" "objs s P \<noteq> None" "t \<noteq> P" "t \<noteq> 0" "res < 0"
  obtains s' where "resolve_out res t P s = Some (res, s')" "objs s' = (objs s)(t := None, P := None)" "mem_inv s'"
    "dk_fs_private (gdisk s') = 0"
proof -
  obtain s1 where s1: "kfree t s = Some s1" "objs s1 = (objs s)(t := None)" "mem_inv s1"
    by (rule kfree_block [OF assms(1,2)])
  obtain s2 where s2: "kfree P s1 = Some s2" "objs s2 = (objs s1)(P := None)" "mem_inv s2"
    by (rule kfree_block [OF s1(3), of P]) (use assms(3,4) s1(2) in auto)
  let ?s = "s2\<lparr>gdisk := (gdisk s2)\<lparr>dk_fs_private := 0\<rparr>\<rparr>"
  have "resolve_out res t P s = Some (res, ?s)"
    using s1(1) s2(1) assms(5,6) by (simp add: resolve_out_def diskstreamer_close_def)
  moreover have "mem_inv ?s" using s2(3) by (simp add: mem_inv_def)
  ultimately show thesis using that [of ?s] s1(2) s2(2) by simp
qed

text \<open>What a successful mount leaves: the mounted volume with its root directory.\<close>

definition volume_mounted :: "(nat \<Rightarrow> u8 list) \<Rightarrow> u8 list \<Rightarrow> nat \<Rightarrow> nat \<Rightarrow> fat_private \<Rightarrow> kernel \<Rightarrow> bool" where
  "volume_mounted img h n m fp s \<longleftrightarrow> fat_mounted img fp s \<and> fp_header fp = h \<and>
     dir_sector_pos (fp_root_directory fp) = int (root_start h) \<and>
     dir_end_sector_pos (fp_root_directory fp) = int (root_start h + 32 * n div 512) \<and>
     dir_total (fp_root_directory fp) = int (length (used_items img (512 * root_start h) m)) \<and>
     objs s (dir_item (fp_root_directory fp)) = Some (OBytes (disk_bytes img (512 * root_start h) (32 * n)))"

lemma resolve_ok:
  assumes "mem_inv s" "5 < free_blocks s" "ata_serves (device s) img" "dk_id (gdisk s) = 0" "dk_sector_size (gdisk s) = 512"
    "h = disk_bytes img 0 62" "header_signature h = PLUMOS_FAT16_SIGNATURE" "boot_ok img h n m"
  shows "\<exists>fp s'. fat16_resolve TheDisk s = Some (0, s') \<and> volume_mounted img h n m fp s' \<and> mem_inv s' \<and>
    (\<forall>a \<in> dom (objs s). objs s' a = objs s a) \<and> mount_step s s' \<and> free_blocks s \<le> free_blocks s' + 5"
proof -
  obtain P a b c t fp s1 where r: "distinct [P, a, b, c, t]" "0 \<notin> {P, a, b, c, t}"
    "objs s P = None" "objs s a = None" "objs s b = None" "objs s c = None" "objs s t = None"
    "mem_inv s1" "free_blocks s1 = free_blocks s - 5" "device s1 = device s"
    "fp = zero_fat_private\<lparr>fp_header := h, fp_cluster_read_stream := a, fp_fat_read_stream := b, fp_directory_stream := c\<rparr>"
    "objs s1 = (objs s)(a \<mapsto> disk_stream_obj, b \<mapsto> disk_stream_obj, c \<mapsto> disk_stream_obj,
       t \<mapsto> OStream \<lparr>ds_pos = 62, ds_disk = TheDisk\<rparr>, P \<mapsto> OFatPrivate fp)"
    "gdisk s1 = (gdisk s)\<lparr>dk_fs_private := P, dk_filesystem := Fat16Fs\<rparr>" "mount_step s s1"
    "fat16_resolve TheDisk s =
      (if header_signature h \<noteq> PLUMOS_FAT16_SIGNATURE then resolve_out (- EFSNOTUS) t P s1
       else do {
         (res, dir, s) \<leftarrow> fat16_get_root_directory TheDisk P zero_fat_directory s1;
         fp \<leftarrow> get_fat_private s P;
         s \<leftarrow> put P (OFatPrivate (fp\<lparr>fp_root_directory := dir\<rparr>)) s;
         resolve_out (if res \<noteq> PLUMOS_ALL_OK then - EIO else 0) t P s
       })"
    by (rule resolve_head [OF assms(1-6)])
  let ?R = "root_start h"
  have os: "objs s1 P = Some (OFatPrivate fp)" "objs s1 a = Some disk_stream_obj" "objs s1 b = Some disk_stream_obj"
    "objs s1 c = Some disk_stream_obj" "objs s1 t \<noteq> None"
    using r(1,12) by auto
  have fpf: "fp_header fp = h" "fp_cluster_read_stream fp = a" "fp_fat_read_stream fp = b" "fp_directory_stream fp = c"
    by (simp_all add: r(11))
  have m1: "fat_mounted img fp s1"
    using assms(3,5) r(2,10,13) os fpf by (auto simp: fat_mounted_def fat_streams_def disk_stream_obj_def)
  have P1: "P = dk_fs_private (gdisk s1)" by (simp add: r(13))
  have bt: "boot_ok img (fp_header fp) n m" "?R = root_start (fp_header fp)" "0 < free_blocks s1"
    using assms(2,8) fpf(1) r(9) by simp_all
  let ?total = "int (length (used_items img (512 * ?R) m))"
  obtain d s2 where d: "fat16_get_root_directory TheDisk P zero_fat_directory s1 = Some (0,
      \<lparr>dir_item = d, dir_total = ?total, dir_sector_pos = int ?R, dir_end_sector_pos = int (?R + 32 * n div 512)\<rparr>, s2)"
    "d \<noteq> 0" "objs s1 d = None" "objs s2 d = Some (OBytes (disk_bytes img (512 * ?R) (32 * n)))"
    "\<And>x. x \<noteq> d \<Longrightarrow> x \<noteq> c \<Longrightarrow> objs s2 x = objs s1 x"
    "objs s2 c = Some (OStream \<lparr>ds_pos = int (512 * ?R + 32 * n), ds_disk = TheDisk\<rparr>)"
    "mem_inv s2" "gdisk s2 = gdisk s1" "device s2 = device s1" "free_blocks s2 = free_blocks s1 - 1" "mount_step s1 s2"
    by (rule root_directory_ok [OF m1 r(8) bt(3,1) P1 bt(2), of zero_fat_directory]) (use fpf(4) in auto)
  have nd: "d \<noteq> P" "d \<noteq> a" "d \<noteq> b" "d \<noteq> c" "d \<noteq> t" using d(3) os by auto
  let ?dir = "\<lparr>dir_item = d, dir_total = ?total, dir_sector_pos = int ?R, dir_end_sector_pos = int (?R + 32 * n div 512)\<rparr>"
  let ?fp = "fp\<lparr>fp_root_directory := ?dir\<rparr>"
  have P2: "objs s2 P = Some (OFatPrivate fp)" using d(5) [of P] nd os r(1) by simp
  obtain s3 where s3: "put P (OFatPrivate ?fp) s2 = Some s3" "objs s3 = (objs s2)(P \<mapsto> OFatPrivate ?fp)"
    "mem_inv s3 = mem_inv s2" "heap_step s2 s3" "free_blocks s3 = free_blocks s2"
    by (rule put_live [of s2 P]) (use P2 in auto)
  have t3: "objs s3 t \<noteq> None" using s3(2) d(5) [of t] nd(5) os(5) r(1) by auto
  have mi3: "mem_inv s3" using s3(3) d(7) by simp
  have tz: "t \<noteq> 0" using r(2) by auto
  obtain s4 where s4: "resolve_out 0 t P s3 = Some (0, s4)" "objs s4 = (objs s3)(t := None)" "mem_inv s4" "heap_step s3 s4" "free_blocks s3 < free_blocks s4"
    by (rule resolve_out_ok [OF mi3 t3 tz, of 0 P]) simp
  have "fat16_resolve TheDisk s = Some (0, s4)"
    unfolding r(15) using assms(7) d(1) P2 s3(1) s4(1) by (simp add: get_fat_private_def PLUMOS_ALL_OK_def)
  moreover have "fat_mounted img ?fp s4"
  proof -
    have g: "gdisk s4 = gdisk s1" "device s4 = device s1"
      using heap_stepD [OF s4(4)] heap_stepD [OF s3(4)] d(8,9) by auto
    have "objs s4 P = Some (OFatPrivate ?fp)" using s4(2) s3(2) r(1) by auto
    moreover have "objs s4 a = Some disk_stream_obj" "objs s4 b = Some disk_stream_obj"
      using s4(2) s3(2) d(5) [of a] d(5) [of b] nd os r(1) by auto
    moreover have "objs s4 c = Some (OStream \<lparr>ds_pos = int (512 * ?R + 32 * n), ds_disk = TheDisk\<rparr>)"
      using s4(2) s3(2) d(6) r(1) by auto
    ultimately show ?thesis
      using m1 g fpf by (auto simp: fat_mounted_def fat_streams_def disk_stream_obj_def r(13))
  qed
  moreover have "objs s4 d = Some (OBytes (disk_bytes img (512 * ?R) (32 * n)))"
    using s4(2) s3(2) d(4) nd by auto
  moreover have "objs s4 x = objs s x" if "x \<in> dom (objs s)" for x
  proof -
    have "x \<noteq> P" "x \<noteq> a" "x \<noteq> b" "x \<noteq> c" "x \<noteq> t" using that r(3-7) by auto
    moreover have "x \<noteq> d" using that d(3) r(12) nd by auto
    ultimately show ?thesis using s4(2) s3(2) d(5) [of x] r(12) by simp
  qed
  moreover have "mount_step s s4"
    using r(14) d(11) heap_mount_step [OF s3(4)] heap_mount_step [OF s4(4)] by (blast intro: mount_step_trans)
  moreover have "free_blocks s \<le> free_blocks s4 + 5" using r(9) d(10) s3(5) s4(5) assms(2) by linarith
  ultimately show ?thesis using s4(3) fpf(1) by (auto simp: volume_mounted_def)
qed

lemma resolve_wrong_signature:
  assumes "mem_inv s" "5 < free_blocks s" "ata_serves (device s) img" "dk_id (gdisk s) = 0" "dk_sector_size (gdisk s) = 512"
    "h = disk_bytes img 0 62" "header_signature h \<noteq> PLUMOS_FAT16_SIGNATURE"
  shows "\<exists>a b c s'. fat16_resolve TheDisk s = Some (- EFSNOTUS, s') \<and> mem_inv s' \<and> dk_fs_private (gdisk s') = 0 \<and>
    distinct [a, b, c] \<and> {a, b, c} \<inter> dom (objs s) = {} \<and>
    objs s' = (objs s)(a \<mapsto> disk_stream_obj, b \<mapsto> disk_stream_obj, c \<mapsto> disk_stream_obj)"
proof -
  obtain P a b c t fp s1 where r: "distinct [P, a, b, c, t]" "0 \<notin> {P, a, b, c, t}"
    "objs s P = None" "objs s a = None" "objs s b = None" "objs s c = None" "objs s t = None"
    "mem_inv s1" "free_blocks s1 = free_blocks s - 5" "device s1 = device s"
    "fp = zero_fat_private\<lparr>fp_header := h, fp_cluster_read_stream := a, fp_fat_read_stream := b, fp_directory_stream := c\<rparr>"
    "objs s1 = (objs s)(a \<mapsto> disk_stream_obj, b \<mapsto> disk_stream_obj, c \<mapsto> disk_stream_obj,
       t \<mapsto> OStream \<lparr>ds_pos = 62, ds_disk = TheDisk\<rparr>, P \<mapsto> OFatPrivate fp)"
    "gdisk s1 = (gdisk s)\<lparr>dk_fs_private := P, dk_filesystem := Fat16Fs\<rparr>" "mount_step s s1"
    "fat16_resolve TheDisk s =
      (if header_signature h \<noteq> PLUMOS_FAT16_SIGNATURE then resolve_out (- EFSNOTUS) t P s1
       else do {
         (res, dir, s) \<leftarrow> fat16_get_root_directory TheDisk P zero_fat_directory s1;
         fp \<leftarrow> get_fat_private s P;
         s \<leftarrow> put P (OFatPrivate (fp\<lparr>fp_root_directory := dir\<rparr>)) s;
         resolve_out (if res \<noteq> PLUMOS_ALL_OK then - EIO else 0) t P s
       })"
    by (rule resolve_head [OF assms(1-6)])
  have os: "objs s1 t \<noteq> None" "objs s1 P \<noteq> None" "t \<noteq> P" "t \<noteq> 0" using r(1,2,12) by auto
  obtain s2 where s2: "resolve_out (- EFSNOTUS) t P s1 = Some (- EFSNOTUS, s2)" "objs s2 = (objs s1)(t := None, P := None)"
    "mem_inv s2" "dk_fs_private (gdisk s2) = 0"
    by (rule resolve_out_fail [OF r(8) os, of "- EFSNOTUS"]) (simp add: EFSNOTUS_def)
  have "objs s2 x = ((objs s)(a \<mapsto> disk_stream_obj, b \<mapsto> disk_stream_obj, c \<mapsto> disk_stream_obj)) x" for x
    using s2(2) r(1,3,7,12) by auto
  then have "objs s2 = (objs s)(a \<mapsto> disk_stream_obj, b \<mapsto> disk_stream_obj, c \<mapsto> disk_stream_obj)" by blast
  moreover have "fat16_resolve TheDisk s = Some (- EFSNOTUS, s2)" unfolding r(15) using assms(7) s2(1) by simp
  ultimately show ?thesis using s2(3,4) r(1,4-6) by (intro exI [of _ a] exI [of _ b] exI [of _ c] exI [of _ s2]) auto
qed

section \<open>Properties\<close>

text \<open>
  Mounting: when the boot sector carries the FAT16 signature and describes a root directory of at
  most 128 entries, \<open>fat16_resolve\<close> returns 0 and leaves a mounted volume whose header is the boot
  sector's, whose root directory starts right behind the FATs and holds the directory's bytes on the
  disk, and whose item count is the number of entries before the first blank one that are not marked
  as deleted; no object there was before changes and the heap stays well formed. Without the
  signature the result is \<open>-EFSNOTUS\<close>, the private data is cleared, and exactly the three streams of
  the driver stay allocated.
\<close>
theorem fat16_resolve_correct:
  assumes "mem_inv s" "5 < free_blocks s" "ata_serves (device s) img" "dk_id (gdisk s) = 0"
    "dk_sector_size (gdisk s) = 512" "h = disk_bytes img 0 62"
  shows "(header_signature h = PLUMOS_FAT16_SIGNATURE \<and> boot_ok img h n m \<longrightarrow>
      (\<exists>fp s'. fat16_resolve TheDisk s = Some (0, s') \<and> volume_mounted img h n m fp s' \<and> mem_inv s' \<and>
         (\<forall>a \<in> dom (objs s). objs s' a = objs s a))) \<and>
    (header_signature h \<noteq> PLUMOS_FAT16_SIGNATURE \<longrightarrow>
      (\<exists>a b c s'. fat16_resolve TheDisk s = Some (- EFSNOTUS, s') \<and> mem_inv s' \<and> dk_fs_private (gdisk s') = 0 \<and>
         distinct [a, b, c] \<and> {a, b, c} \<inter> dom (objs s) = {} \<and>
         objs s' = (objs s)(a \<mapsto> disk_stream_obj, b \<mapsto> disk_stream_obj, c \<mapsto> disk_stream_obj)))"
proof (intro conjI impI)
  assume "header_signature h = PLUMOS_FAT16_SIGNATURE \<and> boot_ok img h n m"
  then show "\<exists>fp s'. fat16_resolve TheDisk s = Some (0, s') \<and> volume_mounted img h n m fp s' \<and> mem_inv s' \<and>
         (\<forall>a \<in> dom (objs s). objs s' a = objs s a)"
    using resolve_ok [OF assms, of n m] by (elim conjE) metis
qed (rule resolve_wrong_signature [OF assms])

definition sample_unmounted :: "(nat \<Rightarrow> u8 list) \<Rightarrow> kernel" where
  "sample_unmounted img = (sample_store [] 9)\<lparr>device := ata_device img,
     gdisk := \<lparr>dk_type = 0, dk_sector_size = 512, dk_id = 0, dk_filesystem = NullFs, dk_fs_private = 0\<rparr>\<rparr>"

lemma sample_unmounted_ok:
  "mem_inv (sample_unmounted img)" "5 < free_blocks (sample_unmounted img)"
  using sample_store_inv [of "[]" 9] sample_store_free [of "[]" 9]
  by (simp_all add: sample_unmounted_def mem_inv_def free_blocks_def)

lemma sample_boot:
  "header_signature (disk_bytes sample_volume 0 62) = PLUMOS_FAT16_SIGNATURE"
  "boot_ok sample_volume (disk_bytes sample_volume 0 62) 16 1" "root_start (disk_bytes sample_volume 0 62) = 2"
proof -
  have h: "disk_bytes sample_volume 0 62 = sample_header"
    by (rule nth_equalityI)
      (simp_all add: disk_bytes_def disk_byte_def sample_volume_def nth_pad_to sample_header_def)
  show r: "root_start (disk_bytes sample_volume 0 62) = 2"
    by (simp add: h root_start_def le16_def sample_header_def)
  show "header_signature (disk_bytes sample_volume 0 62) = PLUMOS_FAT16_SIGNATURE"
    by (simp add: h header_signature_def sample_header_def PLUMOS_FAT16_SIGNATURE_def)
  have "dir_ends sample_volume 1024 1"
    by (simp add: dir_ends_def dir_item_at_def disk_bytes_def disk_byte_def sample_volume_def nth_pad_to hello_item_def)
  then show "boot_ok sample_volume (disk_bytes sample_volume 0 62) 16 1"
    using r by (simp add: boot_ok_def) (simp add: h le16_def sample_header_def)
qed

theorem fat16_resolve_correct_witness:
  "(\<exists>fp s'. fat16_resolve TheDisk (sample_unmounted sample_volume) = Some (0, s') \<and>
     volume_mounted sample_volume (disk_bytes sample_volume 0 62) 16 1 fp s' \<and> dir_total (fp_root_directory fp) = 1) \<and>
   (\<exists>s'. fat16_resolve TheDisk (sample_unmounted (\<lambda>_. replicate 512 0)) = Some (- EFSNOTUS, s'))"
proof
  have d: "ata_serves (device (sample_unmounted sample_volume)) sample_volume"
    using sample_volume_served by (simp add: sample_unmounted_def)
  have u: "used_items sample_volume 1024 1 = [0]"
    by (simp add: used_items_def dir_item_at_def disk_bytes_def disk_byte_def sample_volume_def nth_pad_to hello_item_def)
  show "\<exists>fp s'. fat16_resolve TheDisk (sample_unmounted sample_volume) = Some (0, s') \<and>
     volume_mounted sample_volume (disk_bytes sample_volume 0 62) 16 1 fp s' \<and> dir_total (fp_root_directory fp) = 1"
    using fat16_resolve_correct [OF sample_unmounted_ok d _ _ refl, of 16 1] sample_boot u
    by (auto simp: sample_unmounted_def volume_mounted_def)
  let ?z = "\<lambda>_. replicate 512 0"
  have d: "ata_serves (device (sample_unmounted ?z)) ?z"
    by (simp add: sample_unmounted_def ata_device_serves)
  have "header_signature (disk_bytes ?z 0 62) \<noteq> PLUMOS_FAT16_SIGNATURE"
    by (simp add: header_signature_def disk_bytes_def disk_byte_def PLUMOS_FAT16_SIGNATURE_def)
  then show "\<exists>s'. fat16_resolve TheDisk (sample_unmounted ?z) = Some (- EFSNOTUS, s')"
    using fat16_resolve_correct [OF sample_unmounted_ok d _ _ refl]
    by (auto simp: sample_unmounted_def)
qed

end
