(* ===== verification/Slots.thy ===== *)
theory Slots
  imports KernelState
begin

text \<open>
  The kernel keeps filesystems, file descriptors and processes in arrays of pointers in which a null
  entry is free, and looks for the first free one. This theory has the search and the laws of such a
  table as a locale, interpreted on the three arrays.
\<close>

fun first_slot :: "'a \<Rightarrow> 'a list \<Rightarrow> nat option" where
  "first_slot e [] = None"
| "first_slot e (x # xs) = (if x = e then Some 0 else map_option Suc (first_slot e xs))"

lemma first_slot_Some:
  "first_slot e xs = Some i \<longleftrightarrow> i < length xs \<and> xs ! i = e \<and> (\<forall>j < i. xs ! j \<noteq> e)"
proof (induction xs arbitrary: i)
  case (Cons x xs)
  show ?case
  proof (cases i)
    case 0
    then show ?thesis by auto
  next
    case (Suc k)
    then show ?thesis using Cons.IH [of k] by (auto simp: All_less_Suc2)
  qed
qed simp

lemma first_slot_None: "first_slot e xs = None \<longleftrightarrow> e \<notin> set xs"
  by (induction xs) auto

lemma first_slot_obtain:
  assumes "e \<in> set xs"
  obtains i where "first_slot e xs = Some i" "i < length xs" "xs ! i = e"
  using assms first_slot_None [of e xs] first_slot_Some [of e xs] by (cases "first_slot e xs") auto

locale slot_table =
  fixes slots :: "'s \<Rightarrow> 'a list" and upd :: "'a list \<Rightarrow> 's \<Rightarrow> 's" and free_entry :: 'a
  assumes slots_upd: "slots (upd xs s) = xs"
    and upd_upd: "upd xs (upd ys s) = upd xs s"
    and upd_slots: "upd (slots s) s = s"
begin

definition claim :: "'a \<Rightarrow> 's \<Rightarrow> (nat \<times> 's) option" where
  "claim v s = map_option (\<lambda>i. (i, upd ((slots s)[i := v]) s)) (first_slot free_entry (slots s))"

definition release :: "nat \<Rightarrow> 's \<Rightarrow> 's" where
  "release i s = upd ((slots s)[i := free_entry]) s"

lemma claim_spec:
  assumes "claim v s = Some (i, s')"
  shows "i < length (slots s)" "slots s ! i = free_entry" "slots s' ! i = v" "length (slots s') = length (slots s)"
    "j \<noteq> i \<Longrightarrow> slots s' ! j = slots s ! j" "j < i \<Longrightarrow> slots s ! j \<noteq> free_entry"
  using assms by (auto simp: claim_def slots_upd first_slot_Some)

lemma release_claim:
  assumes "claim v s = Some (i, s')"
  shows "release i s' = s"
proof -
  have "(slots s)[i := free_entry] = slots s" using claim_spec(1,2) [OF assms] by (metis list_update_id)
  then show ?thesis using assms by (auto simp: claim_def release_def slots_upd upd_upd upd_slots)
qed

lemma claim_full: "claim v s = None \<longleftrightarrow> free_entry \<notin> set (slots s)"
  by (simp add: claim_def first_slot_None)

lemma claim_next:
  assumes "claim v s = Some (i, s')" "v \<noteq> free_entry" "claim w s' = Some (j, s'')"
  shows "i < j"
proof (rule ccontr)
  assume "\<not> i < j"
  moreover have "i \<noteq> j" using claim_spec(3) [OF assms(1)] claim_spec(2) [OF assms(3)] assms(2) by auto
  ultimately have "j < i" by simp
  then have "slots s ! j \<noteq> free_entry" by (rule claim_spec(6) [OF assms(1)])
  moreover have "slots s' ! j = free_entry" by (rule claim_spec(2) [OF assms(3)])
  ultimately show False using claim_spec(5) [OF assms(1)] \<open>i \<noteq> j\<close> by auto
qed

end

interpretation fds: slot_table file_descriptors "\<lambda>xs s. s\<lparr>file_descriptors := xs\<rparr>" 0
  by unfold_locales simp_all

interpretation procs: slot_table processes "\<lambda>xs s. s\<lparr>processes := xs\<rparr>" 0
  by unfold_locales simp_all

interpretation fss: slot_table filesystems "\<lambda>xs s. s\<lparr>filesystems := xs\<rparr>" NullFs
  by unfold_locales simp_all

end
