(* ===== verification/Vfs.thy ===== *)
theory Vfs
  imports FatMount Slots
begin

unbundle bit_operations_syntax

text \<open>
  The virtual file system \<open>src/src/fs/file.c\<close>: the table of drivers, the table of file descriptors, and
  the operations \<open>fopen\<close>, \<open>fread\<close>, \<open>fseek\<close>, \<open>fstat\<close>, \<open>fclose\<close>; and the search for the disk in
  \<open>src/src/disk/disk.c\<close>. A call through the function pointers of \<open>struct filesystem\<close> is a case
  distinction on the driver; through a null pointer it has no result.
\<close>

section \<open>Drivers\<close>

definition PLUMOS_MAX_FILESYSTEMS :: nat where "PLUMOS_MAX_FILESYSTEMS = 12"
definition PLUMOS_MAX_FILE_DESCRIPTORS :: nat where "PLUMOS_MAX_FILE_DESCRIPTORS = 512"

fun call_resolve :: "fs_ptr \<Rightarrow> disk_ptr \<Rightarrow> kernel \<Rightarrow> (int \<times> kernel) option" where
  "call_resolve NullFs disk s = None"
| "call_resolve Fat16Fs disk s = fat16_resolve disk s"

fun call_open :: "fs_ptr \<Rightarrow> disk_ptr \<Rightarrow> u32 \<Rightarrow> u32 \<Rightarrow> kernel \<Rightarrow> (u32 \<times> kernel) option" where
  "call_open NullFs disk path mode s = None"
| "call_open Fat16Fs disk path mode s = fat16_open disk path mode s"

fun call_read :: "fs_ptr \<Rightarrow> disk_ptr \<Rightarrow> u32 \<Rightarrow> u32 \<Rightarrow> u32 \<Rightarrow> kernel \<Rightarrow> (int \<times> u8 list \<times> kernel) option" where
  "call_read NullFs disk private sz nmemb s = None"
| "call_read Fat16Fs disk private sz nmemb s = fat16_read disk private sz nmemb s"

fun call_seek :: "fs_ptr \<Rightarrow> u32 \<Rightarrow> u32 \<Rightarrow> u32 \<Rightarrow> kernel \<Rightarrow> (int \<times> kernel) option" where
  "call_seek NullFs private offset mode s = None"
| "call_seek Fat16Fs private offset mode s = fat16_seek private offset mode s"

fun call_stat :: "fs_ptr \<Rightarrow> disk_ptr \<Rightarrow> u32 \<Rightarrow> file_stat \<Rightarrow> kernel \<Rightarrow> (int \<times> file_stat) option" where
  "call_stat NullFs disk private stat s = None"
| "call_stat Fat16Fs disk private stat s = fat16_stat disk private stat s"

fun call_close :: "fs_ptr \<Rightarrow> u32 \<Rightarrow> kernel \<Rightarrow> (int \<times> kernel) option" where
  "call_close NullFs private s = None"
| "call_close Fat16Fs private s = fat16_close private s"

text \<open>The address of a slot of the array is its index.\<close>

definition fs_get_free_filesystem :: "kernel \<Rightarrow> nat option" where
  "fs_get_free_filesystem s = first_slot NullFs (filesystems s)"

definition fs_insert_filesystem :: "fs_ptr \<Rightarrow> kernel \<Rightarrow> kernel option" where
  "fs_insert_filesystem filesystem s =
     (if filesystem = NullFs then panic (lit ''PANIC: inserting NULL filesystem'') s
      else case fs_get_free_filesystem s of
          None \<Rightarrow> panic (lit ''PANIC: no free space for inserting filesystem'') s
        | Some i \<Rightarrow> Some (s\<lparr>filesystems := (filesystems s)[i := filesystem]\<rparr>))"

definition fs_static_load :: "kernel \<Rightarrow> kernel option" where
  "fs_static_load s = do { (fs, name) \<leftarrow> fat16_init; fs_insert_filesystem fs s }"

definition fs_load :: "kernel \<Rightarrow> kernel option" where
  "fs_load s = fs_static_load (s\<lparr>filesystems := replicate PLUMOS_MAX_FILESYSTEMS NullFs\<rparr>)"

definition fs_init :: "kernel \<Rightarrow> kernel option" where
  "fs_init s = fs_load (s\<lparr>file_descriptors := replicate PLUMOS_MAX_FILE_DESCRIPTORS 0\<rparr>)"

fun resolve_loop :: "fs_ptr list \<Rightarrow> disk_ptr \<Rightarrow> kernel \<Rightarrow> (fs_ptr \<times> kernel) option" where
  "resolve_loop [] disk s = Some (NullFs, s)"
| "resolve_loop (fs # fss) disk s =
     (if fs \<noteq> NullFs then do {
        (res, s) \<leftarrow> call_resolve fs disk s;
        if res = 0 then Some (fs, s) else resolve_loop fss disk s
      } else resolve_loop fss disk s)"

definition fs_resolve :: "disk_ptr \<Rightarrow> kernel \<Rightarrow> (fs_ptr \<times> kernel) option" where
  "fs_resolve disk s = resolve_loop (filesystems s) disk s"

text \<open>\<open>disk.c\<close>\<close>

definition disk_search_and_init :: "kernel \<Rightarrow> kernel option" where
  "disk_search_and_init s =
     do {
       let s = s\<lparr>gdisk := \<lparr>dk_type = 0, dk_sector_size = PLUMOS_SECTOR_SIZE, dk_id = 0,
         dk_filesystem = NullFs, dk_fs_private = 0\<rparr>\<rparr>;
       (fs, s) \<leftarrow> fs_resolve TheDisk s;
       Some (s\<lparr>gdisk := (gdisk s)\<lparr>dk_filesystem := fs\<rparr>\<rparr>)
     }"

section \<open>File descriptors\<close>

definition zero_file_desc :: file_descriptor where
  "zero_file_desc = \<lparr>fd_index = 0, fd_filesystem = NullFs, fd_private = 0, fd_disk = NullDisk\<rparr>"

text \<open>The result with the descriptor stored through \<open>desc_out\<close>, 0 when nothing is stored.\<close>

definition file_new_descriptor :: "kernel \<Rightarrow> (int \<times> u32 \<times> kernel) option" where
  "file_new_descriptor s =
     (case first_slot 0 (file_descriptors s) of
        None \<Rightarrow> Some (- ENOMEM, 0, s)
      | Some i \<Rightarrow> do {
          (desc, s) \<leftarrow> kzalloc 16 (OFileDesc zero_file_desc) s;
          s \<leftarrow> put desc (OFileDesc (zero_file_desc\<lparr>fd_index := int i + 1\<rparr>)) s;
          Some (0, desc, s\<lparr>file_descriptors := (file_descriptors s)[i := desc]\<rparr>)
        })"

definition file_free_descriptor :: "u32 \<Rightarrow> kernel \<Rightarrow> kernel option" where
  "file_free_descriptor desc s =
     do {
       d \<leftarrow> get_file_desc s desc;
       fds \<leftarrow> arr_set (file_descriptors s) (fd_index d - 1) 0;
       kfree desc (s\<lparr>file_descriptors := fds\<rparr>)
     }"

definition file_get_descriptor :: "int \<Rightarrow> kernel \<Rightarrow> u32 option" where
  "file_get_descriptor fd s =
     (if fd \<le> 0 \<or> fd \<ge> int PLUMOS_MAX_FILE_DESCRIPTORS then Some 0
      else arr_get (file_descriptors s) (fd - 1))"

definition file_get_mode_by_string :: "u8 list \<Rightarrow> u32 option" where
  "file_get_mode_by_string str =
     do {
       r \<leftarrow> strncmp str (lit ''r'') 1;
       if r = 0 then Some FILE_MODE_READ
       else do {
         w \<leftarrow> strncmp str (lit ''w'') 1;
         if w = 0 then Some FILE_MODE_WRITE
         else do {
           a \<leftarrow> strncmp str (lit ''a'') 1;
           Some (if a = 0 then FILE_MODE_APPEND else FILE_MODE_INVALID)
         }
       }
     }"

section \<open>The operations\<close>

text \<open>Every negative result of \<open>fopen\<close> becomes 0.\<close>

definition fopen :: "u8 list \<Rightarrow> u8 list \<Rightarrow> kernel \<Rightarrow> (int \<times> kernel) option" where
  "fopen filename mode_str s =
     do {
       (root_path, s) \<leftarrow> pathparser_parse filename s;
       if root_path = 0 then Some (0, s)
       else do {
         r \<leftarrow> get_path_root s root_path;
         if pr_first r = 0 then Some (0, s)
         else do {
           let disk = disk_get (pr_drive_no r);
           if disk = NullDisk then Some (0, s)
           else do {
             d \<leftarrow> deref_disk disk s;
             if dk_filesystem d = NullFs then Some (0, s)
             else do {
               mode \<leftarrow> file_get_mode_by_string mode_str;
               if mode = FILE_MODE_INVALID then Some (0, s)
               else do {
                 (private, s) \<leftarrow> call_open (dk_filesystem d) disk (pr_first r) mode s;
                 if to_int private < 0 then Some (0, s)
                 else do {
                   (res, desc, s) \<leftarrow> file_new_descriptor s;
                   if res < 0 then Some (0, s)
                   else do {
                     f \<leftarrow> get_file_desc s desc;
                     d \<leftarrow> deref_disk disk s;
                     s \<leftarrow> put desc (OFileDesc (f\<lparr>fd_filesystem := dk_filesystem d, fd_private := private,
                       fd_disk := disk\<rparr>)) s;
                     Some (if fd_index f < 0 then 0 else fd_index f, s)
                   }
                 }
               }
             }
           }
         }
       }
     }"

text \<open>The \<open>struct file_stat\<close> of the caller is passed in and returned.\<close>

definition fstat :: "int \<Rightarrow> file_stat \<Rightarrow> kernel \<Rightarrow> (int \<times> file_stat) option" where
  "fstat fd stat s =
     do {
       desc \<leftarrow> file_get_descriptor fd s;
       if desc = 0 then Some (- EIO, stat)
       else do {
         d \<leftarrow> get_file_desc s desc;
         call_stat (fd_filesystem d) (fd_disk d) (fd_private d) stat s
       }
     }"

definition fclose :: "int \<Rightarrow> kernel \<Rightarrow> (int \<times> kernel) option" where
  "fclose fd s =
     do {
       desc \<leftarrow> file_get_descriptor fd s;
       if desc = 0 then Some (- EIO, s)
       else do {
         d \<leftarrow> get_file_desc s desc;
         (res, s) \<leftarrow> call_close (fd_filesystem d) (fd_private d) s;
         s \<leftarrow> (if res = PLUMOS_ALL_OK then file_free_descriptor desc s else Some s);
         Some (res, s)
       }
     }"

definition fseek :: "int \<Rightarrow> int \<Rightarrow> u32 \<Rightarrow> kernel \<Rightarrow> (int \<times> kernel) option" where
  "fseek fd offset whence s =
     do {
       desc \<leftarrow> file_get_descriptor fd s;
       if desc = 0 then Some (- EIO, s)
       else do {
         d \<leftarrow> get_file_desc s desc;
         call_seek (fd_filesystem d) (fd_private d) (to_u32 offset) whence s
       }
     }"

text \<open>The bytes stored through \<open>ptr\<close> are part of the result.\<close>

definition fread :: "u32 \<Rightarrow> u32 \<Rightarrow> int \<Rightarrow> kernel \<Rightarrow> (int \<times> u8 list \<times> kernel) option" where
  "fread sz nmemb fd s =
     (if sz = 0 \<or> nmemb = 0 \<or> fd < 1 then Some (- EINVARG, [], s)
      else do {
        desc \<leftarrow> file_get_descriptor fd s;
        if desc = 0 then Some (- EINVARG, [], s)
        else do {
          d \<leftarrow> get_file_desc s desc;
          call_read (fd_filesystem d) (fd_disk d) (fd_private d) sz nmemb s
        }
      })"

section \<open>The table of descriptors\<close>

lemma mode_read: "file_get_mode_by_string (lit ''r'') = Some FILE_MODE_READ"
  by (simp add: file_get_mode_by_string_def lit_def)

text \<open>What the file system may change: the heap with its objects, the table of descriptors and the log of the disk.\<close>

definition fs_step :: "kernel \<Rightarrow> kernel \<Rightarrow> bool" where
  "fs_step s s' \<longleftrightarrow> s' = s\<lparr>kernel_heap := kernel_heap s', objs := objs s', io_log := io_log s',
       file_descriptors := file_descriptors s'\<rparr> \<and>
     heap_shape (kernel_heap s') = heap_shape (kernel_heap s)"

lemma fs_step_trans [trans]: "fs_step s s' \<Longrightarrow> fs_step s' s'' \<Longrightarrow> fs_step s s''"
  unfolding fs_step_def by (cases s; cases s'; cases s'') simp

lemma heap_fs_step: "heap_step s s' \<Longrightarrow> fs_step s s'"
  unfolding fs_step_def heap_step_def by (cases s; cases s') simp

lemma fat_fs_step: "fat_step fp s s' \<Longrightarrow> fs_step s s'"
  unfolding fs_step_def fat_step_def by (cases s; cases s') auto

lemma fs_step_fds: "fs_step s s' \<Longrightarrow> fs_step s (s'\<lparr>file_descriptors := t\<rparr>)"
  unfolding fs_step_def by (cases s; cases s') simp

lemma fs_step_shape: "fs_step s s' \<Longrightarrow> heap_shape (kernel_heap s') = heap_shape (kernel_heap s)"
  by (simp add: fs_step_def)

lemma new_descriptor_ok:
  assumes "mem_inv s" "0 < free_blocks s" "first_slot 0 (file_descriptors s) = Some i"
  obtains desc s' where "file_new_descriptor s = Some (0, desc, s')" "desc \<noteq> 0" "objs s desc = None"
    "objs s' = (objs s)(desc \<mapsto> OFileDesc (zero_file_desc\<lparr>fd_index := int i + 1\<rparr>))" "mem_inv s'"
    "file_descriptors s' = (file_descriptors s)[i := desc]" "gdisk s' = gdisk s" "device s' = device s"
    "free_blocks s' = free_blocks s - 1" "low_heap s' = low_heap s" "fs_step s s'"
proof -
  obtain desc s1 where k: "kzalloc 16 (OFileDesc zero_file_desc) s = Some (desc, s1)" "desc \<noteq> 0" "objs s desc = None"
    "objs s1 = (objs s)(desc \<mapsto> OFileDesc zero_file_desc)" "mem_inv s1" "free_blocks s1 = free_blocks s - 1" "heap_step s s1"
    by (rule kzalloc_block [OF assms(1,2), of 16]) auto
  let ?d = "OFileDesc (zero_file_desc\<lparr>fd_index := int i + 1\<rparr>)"
  obtain s2 where s2: "put desc ?d s1 = Some s2" "objs s2 = (objs s1)(desc \<mapsto> ?d)" "mem_inv s2 = mem_inv s1"
    "free_blocks s2 = free_blocks s1" "heap_step s1 s2"
    by (rule put_live [of s1 desc ?d]) (use k(4) in auto)
  let ?s = "s2\<lparr>file_descriptors := (file_descriptors s2)[i := desc]\<rparr>"
  have hs: "heap_step s s2" using k(7) s2(5) by (rule heap_step_trans)
  have "file_new_descriptor s = Some (0, desc, ?s)"
    using assms(3) k(1) s2(1) by (simp add: file_new_descriptor_def)
  moreover have "mem_inv ?s" "free_blocks ?s = free_blocks s - 1" "low_heap ?s = low_heap s"
    using s2(3,4) k(5,6) low_heap_step [OF hs] by (simp_all add: mem_inv_def free_blocks_def low_heap_def)
  ultimately show thesis
    using that [of desc ?s] k(2,3,4) s2(2) heap_stepD [OF hs] heap_fs_step [OF hs] by (simp add: fs_step_fds)
qed

lemma get_descriptor:
  assumes "i < 511" "i < length (file_descriptors s)"
  shows "file_get_descriptor (int i + 1) s = Some (file_descriptors s ! i)"
  using assms by (simp add: file_get_descriptor_def PLUMOS_MAX_FILE_DESCRIPTORS_def)

section \<open>Opening a file by its path\<close>

text \<open>
  \<open>file_at s fs filename b\<close>: the path \<open>0:/name\<close> names, in the root directory of the volume, the one file
  whose directory entry is \<open>b\<close>.
\<close>

definition file_at :: "kernel \<Rightarrow> fat_private \<Rightarrow> u8 list \<Rightarrow> u8 list \<Rightarrow> bool" where
  "file_at s fp filename b \<longleftrightarrow>
     (\<exists>cs w dir n j. 0 \<in> set filename \<and> cstr filename = 0x30 # 0x3A # 0x2F # cs \<and> components cs = [w] \<and>
        length (cstr filename) \<le> PLUMOS_MAX_PATH \<and> root_dir s fp dir n \<and> j < n \<and> b = dir_entry dir j \<and>
        name_matches b (w @ [0]) \<and> (\<forall>i < n. i \<noteq> j \<longrightarrow> \<not> name_matches (dir_entry dir i) (w @ [0])) \<and>
        item_attribute b AND FAT_FILE_SUBDIRECTORY = 0)"

lemma components_no0: "0 \<notin> set cs \<Longrightarrow> w \<in> set (components cs) \<Longrightarrow> 0 \<notin> set w"
proof (induction cs rule: components.induct)
  case (1 cs)
  obtain w1 r where sp: "split_at_slash cs = (w1, r)" by (cases "split_at_slash cs")
  obtain w' r' where w: "split_at_slash cs = (w', r')" "\<forall>x \<in> set w'. x \<noteq> 0x2F \<and> x \<noteq> 0"
    using split_word [OF 1(2)] by metis
  have w0: "0 \<notin> set w1" using w sp by auto
  then show ?case
    using 1 sp components_split [OF sp] split_no_null [OF 1(2) sp] by (auto split: if_splits)
qed

lemma cstr_name: "0 \<notin> set w \<Longrightarrow> cstr (w @ 0 # t) = w"
  by (simp add: cstr_append_no0)

text \<open>The objects of a parsed path of one component.\<close>

lemma parse_single:
  assumes "mem_inv s" "0 \<in> set path" "cstr path = 0x30 # 0x3A # 0x2F # cs" "components cs = [w]"
    "length (cstr path) \<le> PLUMOS_MAX_PATH" "3 < free_blocks s"
  obtains root q str s' where "pathparser_parse path s = Some (root, s')" "root \<noteq> 0" "q \<noteq> 0"
    "distinct [root, q, str]" "objs s root = None" "objs s q = None" "objs s str = None" "mem_inv s'" "heap_step s s'"
    "objs s' = (objs s)(root \<mapsto> OPathRoot \<lparr>pr_drive_no = 0, pr_first = q\<rparr>, str \<mapsto> name_buffer w,
       q \<mapsto> OPathPart \<lparr>pp_part = str, pp_next = 0\<rparr>)" "free_blocks s \<le> free_blocks s' + 3"
proof -
  have dg: "isdigit 0x30" "toenumericdigit 0x30 = 0" by (simp_all add: isdigit_def toenumericdigit_def)
  have fb: "2 * length (components cs) + 1 < free_blocks s" using assms(4,6) by simp
  obtain root s' p xs where r: "pathparser_parse path s = Some (root, s')" "root \<noteq> 0" "objs s root = None"
    "part_names xs = components cs"
    "list_built s ((objs s)(root \<mapsto> OPathRoot \<lparr>pr_drive_no = 0, pr_first = p\<rparr>)) p xs s'"
    "free_blocks s \<le> free_blocks s' + 2 * length (components cs) + 1"
    using parse_ok [OF assms(1-3) dg(1) assms(5) fb] unfolding dg(2) by blast
  let ?m = "(objs s)(root \<mapsto> OPathRoot \<lparr>pr_drive_no = 0, pr_first = p\<rparr>)"
  obtain q str where xs: "xs = [(q, str, w)]"
    using r(4) assms(4) by (cases xs) (auto simp: part_names_def)
  obtain new where n: "mem_inv s'" "heap_step s s'" "distinct [q, str]" "objs s' = ?m ++ new"
    "dom new = {q, str}" "dom new \<inter> dom ?m = {}" "path_parts new p xs"
  proof -
    have lb: "mem_inv s'" "heap_step s s'" "distinct [str, q]" using r(5) unfolding list_built_def xs by simp_all
    obtain new where new: "objs s' = ?m ++ new" "dom new = set (part_ptrs xs)" "dom new \<inter> dom ?m = {}" "path_parts new p xs"
      using r(5) unfolding list_built_def by blast
    have "dom new = {q, str}" "distinct [q, str]" using new(2) lb(3) unfolding xs by auto
    then show thesis using that [of new] lb new(1,3,4) by blast
  qed
  have pq: "p = q" "q \<noteq> 0" "new q = Some (OPathPart \<lparr>pp_part = str, pp_next = 0\<rparr>)" "new str = Some (name_buffer w)"
    using n(7) by (auto simp: xs)
  have "new = [str \<mapsto> name_buffer w, q \<mapsto> OPathPart \<lparr>pp_part = str, pp_next = 0\<rparr>]"
  proof
    fix x show "new x = [str \<mapsto> name_buffer w, q \<mapsto> OPathPart \<lparr>pp_part = str, pp_next = 0\<rparr>] x"
      using pq n(3,5) by (cases "x \<in> dom new") auto
  qed
  then have "objs s' = ?m(str \<mapsto> name_buffer w, q \<mapsto> OPathPart \<lparr>pp_part = str, pp_next = 0\<rparr>)" using n(4) by simp
  moreover have "objs s q = None" "objs s str = None" "root \<noteq> q" "root \<noteq> str" using n(5,6) by auto
  ultimately show thesis using that r(1,2,3,6) n(1,2,3) pq(1,2) assms(4) by simp
qed

lemma name_buffer_cstr:
  assumes "0 \<notin> set w" "length w < PLUMOS_MAX_PATH"
  obtains nm where "name_buffer w = OBytes nm" "0 \<in> set nm" "cstr nm = w"
proof -
  let ?k = "PLUMOS_MAX_PATH - length w"
  have k: "replicate ?k (0 :: u8) = 0 # replicate (?k - 1) 0" using assms(2) by (cases ?k) auto
  show thesis
    by (rule that [of "w @ replicate ?k 0"]) (use assms(2) cstr_name [OF assms(1)] in \<open>auto simp: name_buffer_def k\<close>)
qed

text \<open>The state after a successful \<open>fopen\<close> of a file in the root directory.\<close>

lemma fopen_ok:
  assumes "mem_inv s" "low_heap s" "6 < free_blocks s" "dk_filesystem (gdisk s) = Fat16Fs"
    "first_slot 0 (file_descriptors s) = Some i" "file_at s fp filename b"
  obtains root q str d f p desc pp s' where "fopen filename (lit ''r'') s = Some (int i + 1, s')"
    "distinct [root, q, str, d, f, p, desc]" "{root, q, str, d, f, p, desc} \<inter> dom (objs s) = {}" "desc \<noteq> 0"
    "objs s' = (objs s)(root \<mapsto> OPathRoot \<lparr>pr_drive_no = 0, pr_first = q\<rparr>, str \<mapsto> name_buffer pp,
       q \<mapsto> OPathPart \<lparr>pp_part = str, pp_next = 0\<rparr>,
       f \<mapsto> OFatItem \<lparr>fi_ptr = p, fi_type = FAT_ITEM_TYPE_FILE\<rparr>, p \<mapsto> OBytes b,
       d \<mapsto> OFatFileDesc \<lparr>ffd_item = f, ffd_pos = 0\<rparr>,
       desc \<mapsto> OFileDesc \<lparr>fd_index = int i + 1, fd_filesystem = Fat16Fs, fd_private = d, fd_disk = TheDisk\<rparr>)"
    "file_descriptors s' = (file_descriptors s)[i := desc]" "mem_inv s'" "gdisk s' = gdisk s" "device s' = device s"
    "length b = 32" "free_blocks s \<le> free_blocks s' + 7" "fs_step s s'"
proof -
  obtain cs w dir n j where a: "0 \<in> set filename" "cstr filename = 0x30 # 0x3A # 0x2F # cs" "components cs = [w]"
    "length (cstr filename) \<le> PLUMOS_MAX_PATH" "root_dir s fp dir n" "j < n" "b = dir_entry dir j"
    "name_matches b (w @ [0])" "\<forall>i < n. i \<noteq> j \<longrightarrow> \<not> name_matches (dir_entry dir i) (w @ [0])"
    "item_attribute b AND FAT_FILE_SUBDIRECTORY = 0"
    using assms(6) unfolding file_at_def by blast
  have "0 \<notin> set (cstr filename)" by (auto simp: cstr_def dest: set_takeWhileD)
  then have w0: "0 \<notin> set w" using a(2,3) components_no0 [of cs w] by simp
  have lw: "length w < PLUMOS_MAX_PATH" using length_component [of w cs] a(2-4) by simp
  have fb: "3 < free_blocks s" using assms(3) by simp
  obtain root q str s1 where r: "pathparser_parse filename s = Some (root, s1)" "root \<noteq> 0" "q \<noteq> 0"
    "distinct [root, q, str]" "objs s root = None" "objs s q = None" "objs s str = None" "mem_inv s1" "heap_step s s1"
    "objs s1 = (objs s)(root \<mapsto> OPathRoot \<lparr>pr_drive_no = 0, pr_first = q\<rparr>, str \<mapsto> name_buffer w,
       q \<mapsto> OPathPart \<lparr>pp_part = str, pp_next = 0\<rparr>)" "free_blocks s \<le> free_blocks s1 + 3"
    by (rule parse_single [OF assms(1) a(1-4) fb])
  obtain nm where nm: "name_buffer w = OBytes nm" "0 \<in> set nm" "cstr nm = w" by (rule name_buffer_cstr [OF w0 lw])
  have le: "objs s \<subseteq>\<^sub>m objs s1" using r(5-7,10) by (auto simp: map_le_def)
  have g1: "gdisk s1 = gdisk s" "device s1 = device s" "file_descriptors s1 = file_descriptors s"
    using heap_stepD [OF r(9)] by auto
  have rd: "root_dir s1 fp dir n" by (rule root_dir_mono [OF a(5) le g1(1)])
  have sp: "single_part s1 q nm" using r(4,10) nm by (auto simp: single_part_def)
  have nmm: "name_matches x nm = name_matches x (w @ [0])" for x
    using nm(3) cstr_name [OF w0, of "[]"] by (simp add: name_matches_def)
  have fb1: "2 < free_blocks s1" using assms(3) r(11) by simp
  obtain d f p s2 where o: "fat16_open TheDisk q FILE_MODE_READ s1 = Some (d, s2)" "d \<noteq> 0"
    "objs s1 d = None" "objs s1 f = None" "objs s1 p = None" "d \<noteq> f" "d \<noteq> p" "p \<noteq> f" "mem_inv s2"
    "free_blocks s2 = free_blocks s1 - 3" "heap_step s1 s2"
    "objs s2 = (objs s1)(f \<mapsto> OFatItem \<lparr>fi_ptr = p, fi_type = FAT_ITEM_TYPE_FILE\<rparr>, p \<mapsto> OBytes b,
       d \<mapsto> OFatFileDesc \<lparr>ffd_item = f, ffd_pos = 0\<rparr>)"
    by (rule open_ok [OF r(8) fb1 rd sp a(6)]) (use a(7-10) nmm in auto)
  have g2: "gdisk s2 = gdisk s" "device s2 = device s" "file_descriptors s2 = file_descriptors s"
    using heap_stepD [OF o(11)] g1 by auto
  have lh2: "low_heap s2" using assms(2) low_heap_step [OF r(9)] low_heap_step [OF o(11)] by simp
  have pos: "\<not> to_int d < 0" using low_heap_address [OF o(9) lh2, of d] o(12) by simp
  have fb2: "0 < free_blocks s2" using assms(3) o(10) r(11) by simp
  have fs2: "first_slot 0 (file_descriptors s2) = Some i" using assms(5) g2 by simp
  obtain desc s3 where n: "file_new_descriptor s2 = Some (0, desc, s3)" "desc \<noteq> 0" "objs s2 desc = None"
    "objs s3 = (objs s2)(desc \<mapsto> OFileDesc (zero_file_desc\<lparr>fd_index := int i + 1\<rparr>))" "mem_inv s3"
    "file_descriptors s3 = (file_descriptors s2)[i := desc]" "gdisk s3 = gdisk s2" "device s3 = device s2" "free_blocks s3 = free_blocks s2 - 1"
    "low_heap s3 = low_heap s2" "fs_step s2 s3"
    by (rule new_descriptor_ok [OF o(9) fb2 fs2])
  let ?d = "\<lparr>fd_index = int i + 1, fd_filesystem = Fat16Fs, fd_private = d, fd_disk = TheDisk\<rparr>"
  obtain s4 where s4: "put desc (OFileDesc ?d) s3 = Some s4" "objs s4 = (objs s3)(desc \<mapsto> OFileDesc ?d)"
    "mem_inv s4 = mem_inv s3" "heap_step s3 s4" "free_blocks s4 = free_blocks s3"
    by (rule put_live [of s3 desc "OFileDesc ?d"]) (use n(4) in auto)
  have g4: "gdisk s4 = gdisk s" "device s4 = device s" "file_descriptors s4 = (file_descriptors s)[i := desc]"
    using heap_stepD [OF s4(4)] n(6-8) g2 by auto
  have dg: "disk_get 0 = TheDisk" by (simp add: disk_get_def)
  have q1: "objs s1 root = Some (OPathRoot \<lparr>pr_drive_no = 0, pr_first = q\<rparr>)" using r(4,10) by auto
  have op: "call_open (dk_filesystem (gdisk s1)) TheDisk q FILE_MODE_READ s1 = Some (d, s2)"
    using assms(4) g1(1) o(1) by simp
  have mo: "FILE_MODE_READ \<noteq> FILE_MODE_INVALID" by (simp add: FILE_MODE_READ_def FILE_MODE_INVALID_def)
  have "fopen filename (lit ''r'') s = Some (int i + 1, s4)"
    using r(1-3) q1 dg op pos n(1,4) s4(1) g1(1) n(7) g2(1) assms(4) mo mode_read
    by (simp add: fopen_def get_defs deref_disk_def zero_file_desc_def)
  moreover have "distinct [root, q, str, d, f, p, desc]"
    using r(4,10) o(3-8,12) n(3) by (auto split: if_splits)
  moreover have "{root, q, str, d, f, p, desc} \<inter> dom (objs s) = {}"
    using r(5-7,10) o(3-5,12) n(3) by (auto split: if_splits)
  moreover have "objs s4 = (objs s1)(f \<mapsto> OFatItem \<lparr>fi_ptr = p, fi_type = FAT_ITEM_TYPE_FILE\<rparr>, p \<mapsto> OBytes b,
       d \<mapsto> OFatFileDesc \<lparr>ffd_item = f, ffd_pos = 0\<rparr>, desc \<mapsto> OFileDesc ?d)"
    using s4(2) n(4) o(12) by simp
  moreover have "32 * Suc j \<le> 32 * n" using a(6) by simp
  then have "length b = 32" using a(5,7) by (auto simp: root_dir_def dir_entry_def)
  moreover have "fs_step s s4"
    using heap_fs_step [OF r(9)] heap_fs_step [OF o(11)] n(11) heap_fs_step [OF s4(4)] by (blast intro: fs_step_trans)
  ultimately show thesis
    using that [of s4 root q str d f p desc w] n(2,5,9) s4(3,5) g4 r(10,11) o(10) by simp
qed

lemma fclose_ok:
  assumes "mem_inv s" "i < 511" "i < length (file_descriptors s)" "file_descriptors s ! i = desc" "desc \<noteq> 0"
    "objs s desc = Some (OFileDesc \<lparr>fd_index = int i + 1, fd_filesystem = Fat16Fs, fd_private = d, fd_disk = TheDisk\<rparr>)"
    "objs s d = Some (OFatFileDesc \<lparr>ffd_item = f, ffd_pos = pos\<rparr>)"
    "objs s f = Some (OFatItem \<lparr>fi_ptr = p, fi_type = FAT_ITEM_TYPE_FILE\<rparr>)" "objs s p = Some (OBytes it)"
  obtains s' where "fclose (int i + 1) s = Some (0, s')" "objs s' = (objs s)(p := None, f := None, d := None, desc := None)"
    "mem_inv s'" "file_descriptors s' = (file_descriptors s)[i := 0]" "fs_step s s'" "free_blocks s \<le> free_blocks s'"
proof -
  obtain s1 where s1: "fat16_close d s = Some (0, s1)" "objs s1 = (objs s)(p := None, f := None, d := None)"
    "mem_inv s1" "heap_step s s1" "free_blocks s \<le> free_blocks s1" by (rule close_ok [OF assms(1,7-9)])
  have fd: "file_descriptors s1 = file_descriptors s" using heap_stepD [OF s1(4)] by simp
  have o1: "objs s1 desc = objs s desc" using s1(2) assms(6-9) by auto
  let ?s = "s1\<lparr>file_descriptors := (file_descriptors s)[i := 0]\<rparr>"
  have "mem_inv ?s" using s1(3) by (simp add: mem_inv_def)
  moreover have "objs ?s desc \<noteq> None" using o1 assms(6) by simp
  ultimately obtain s2 where s2: "kfree desc ?s = Some s2" "objs s2 = (objs ?s)(desc := None)" "mem_inv s2" "heap_step ?s s2"
    "free_blocks ?s < free_blocks s2" by (rule kfree_block) blast
  have "fclose (int i + 1) s = Some (0, s2)"
    using get_descriptor [OF assms(2,3)] assms(3-6) s1(1) s2(1) o1 fd
    by (simp add: fclose_def get_defs file_free_descriptor_def PLUMOS_ALL_OK_def)
  moreover have "fs_step s s2"
    using fs_step_fds [OF heap_fs_step [OF s1(4)]] heap_fs_step [OF s2(4)] by (rule fs_step_trans)
  moreover have "free_blocks s \<le> free_blocks s2" using s1(5) s2(5) by (simp add: free_blocks_def)
  ultimately show thesis using that s2(2,3) s1(2) heap_stepD [OF s2(4)] by simp
qed

section \<open>Properties\<close>

text \<open>
  C18. A file of the root directory through the virtual file system: \<open>fopen\<close> of \<open>0:/name\<close> for reading
  returns the number, counted from 1, of the first free entry of the descriptor table, enters a fresh
  descriptor there and leaves the file open at position 0, without changing any object there was;
  \<open>fstat\<close> gives the size and the flags of the directory entry; \<open>fclose\<close> succeeds, frees the entry of
  the table and the four objects of the open file. What the parsed path occupies (a root, one part
  and its name) is never released.
\<close>
theorem fopen_fclose:
  assumes "mem_inv s" "low_heap s" "6 < free_blocks s" "dk_filesystem (gdisk s) = Fat16Fs"
    "first_slot 0 (file_descriptors s) = Some i" "i < 511" "file_at s fp filename b"
  shows "\<exists>desc d s'. fopen filename (lit ''r'') s = Some (int i + 1, s') \<and>
    file_descriptors s' = (file_descriptors s)[i := desc] \<and> desc \<noteq> 0 \<and>
    objs s' desc = Some (OFileDesc \<lparr>fd_index = int i + 1, fd_filesystem = Fat16Fs, fd_private = d, fd_disk = TheDisk\<rparr>) \<and>
    open_file s' d b 0 \<and> mem_inv s' \<and> (\<forall>a \<in> dom (objs s). objs s' a = objs s a) \<and>
    fstat (int i + 1) st s' = Some (0, \<lparr>st_flags =
        (if item_attribute b AND FAT_FILE_READ_ONLY \<noteq> 0 then FILE_STAT_READ_ONLY else 0),
      st_filesize = item_filesize b\<rparr>) \<and>
    (\<exists>root q str name s''. fclose (int i + 1) s' = Some (0, s'') \<and> mem_inv s'' \<and>
      file_descriptors s'' = file_descriptors s \<and> distinct [root, q, str] \<and> {root, q, str} \<inter> dom (objs s) = {} \<and>
      objs s'' = (objs s)(root \<mapsto> OPathRoot \<lparr>pr_drive_no = 0, pr_first = q\<rparr>, str \<mapsto> name_buffer name,
        q \<mapsto> OPathPart \<lparr>pp_part = str, pp_next = 0\<rparr>))"
proof -
  obtain root q str d f p desc name s' where o: "fopen filename (lit ''r'') s = Some (int i + 1, s')"
    "distinct [root, q, str, d, f, p, desc]" "{root, q, str, d, f, p, desc} \<inter> dom (objs s) = {}" "desc \<noteq> 0"
    "objs s' = (objs s)(root \<mapsto> OPathRoot \<lparr>pr_drive_no = 0, pr_first = q\<rparr>, str \<mapsto> name_buffer name,
       q \<mapsto> OPathPart \<lparr>pp_part = str, pp_next = 0\<rparr>,
       f \<mapsto> OFatItem \<lparr>fi_ptr = p, fi_type = FAT_ITEM_TYPE_FILE\<rparr>, p \<mapsto> OBytes b,
       d \<mapsto> OFatFileDesc \<lparr>ffd_item = f, ffd_pos = 0\<rparr>,
       desc \<mapsto> OFileDesc \<lparr>fd_index = int i + 1, fd_filesystem = Fat16Fs, fd_private = d, fd_disk = TheDisk\<rparr>)"
    "file_descriptors s' = (file_descriptors s)[i := desc]" "mem_inv s'" "length b = 32"
    by (rule fopen_ok [OF assms(1-5,7)])
  have il: "i < length (file_descriptors s)" "file_descriptors s ! i = 0"
    using assms(5) by (simp_all add: first_slot_Some)
  have os: "objs s' desc = Some (OFileDesc \<lparr>fd_index = int i + 1, fd_filesystem = Fat16Fs, fd_private = d, fd_disk = TheDisk\<rparr>)"
    "objs s' d = Some (OFatFileDesc \<lparr>ffd_item = f, ffd_pos = 0\<rparr>)"
    "objs s' f = Some (OFatItem \<lparr>fi_ptr = p, fi_type = FAT_ITEM_TYPE_FILE\<rparr>)" "objs s' p = Some (OBytes b)"
    using o(2,5) by (simp_all add: eq_commute)
  have il': "i < length (file_descriptors s')" "file_descriptors s' ! i = desc" using il o(6) by simp_all
  obtain s'' where c: "fclose (int i + 1) s' = Some (0, s'')"
    "objs s'' = (objs s')(p := None, f := None, d := None, desc := None)" "mem_inv s''"
    "file_descriptors s'' = (file_descriptors s')[i := 0]"
    by (rule fclose_ok [OF o(7) assms(6) il' o(4) os])
  have "open_file s' d b 0" using os(2-4) o(8) by (auto simp: open_file_def)
  moreover have "\<forall>a \<in> dom (objs s). objs s' a = objs s a" using o(3,5) by auto
  moreover have "fstat (int i + 1) st s' = Some (0, \<lparr>st_flags =
        (if item_attribute b AND FAT_FILE_READ_ONLY \<noteq> 0 then FILE_STAT_READ_ONLY else 0),
      st_filesize = item_filesize b\<rparr>)"
    using get_descriptor [OF assms(6) il'(1)] il'(2) o(4) os(1) stat_ok [OF os(2-4) o(8)]
    by (simp add: fstat_def get_defs)
  moreover have "file_descriptors s'' = file_descriptors s"
  proof -
    have "fds.claim desc s = Some (i, s\<lparr>file_descriptors := (file_descriptors s)[i := desc]\<rparr>)"
      by (simp add: fds.claim_def assms(5))
    from fds.release_claim [OF this] show ?thesis using c(4) o(6) by (auto simp: fds.release_def dest: arg_cong [of _ _ file_descriptors])
  qed
  moreover have "objs s'' = (objs s)(root \<mapsto> OPathRoot \<lparr>pr_drive_no = 0, pr_first = q\<rparr>, str \<mapsto> name_buffer name,
        q \<mapsto> OPathPart \<lparr>pp_part = str, pp_next = 0\<rparr>)"
  proof -
    have "objs s d = None" "objs s f = None" "objs s p = None" "objs s desc = None" using o(3) by auto
    then have "objs s'' x = ((objs s)(root \<mapsto> OPathRoot \<lparr>pr_drive_no = 0, pr_first = q\<rparr>, str \<mapsto> name_buffer name,
        q \<mapsto> OPathPart \<lparr>pp_part = str, pp_next = 0\<rparr>)) x" for x
      using o(2) unfolding c(2) o(5) by (cases "x = p"; cases "x = f"; cases "x = d"; cases "x = desc"; simp add: eq_commute)
    then show ?thesis by blast
  qed
  moreover have "distinct [root, q, str]" "{root, q, str} \<inter> dom (objs s) = {}" using o(2,3) by auto
  ultimately show ?thesis using o(1,4,6,7) os(1) c(1,3) by blast
qed

text \<open>The volume of \<open>HELLO.TXT\<close>, mounted, with an empty table of descriptors.\<close>

definition sample_vfs :: kernel where
  "sample_vfs = (let s = sample_mounted [] 8 in
     s\<lparr>gdisk := (gdisk s)\<lparr>dk_filesystem := Fat16Fs\<rparr>, file_descriptors := replicate PLUMOS_MAX_FILE_DESCRIPTORS 0\<rparr>)"

lemma sample_vfs_ok:
  "mem_inv sample_vfs" "low_heap sample_vfs" "6 < free_blocks sample_vfs" "dk_filesystem (gdisk sample_vfs) = Fat16Fs"
  "file_descriptors sample_vfs = replicate 512 0" "file_at sample_vfs sample_private (lit ''0:/hello.txt'') hello_item"
proof -
  let ?b = "pad_to 512 hello_item"
  let ?s = "sample_mounted [] 8"
  have st: "?s = (sample_store [OFatPrivate sample_private, disk_stream_obj, disk_stream_obj, disk_stream_obj,
       OBytes (pad_to 512 hello_item)] 8)\<lparr>device := device ?s, gdisk := gdisk ?s\<rparr>"
    by (simp add: sample_mounted_def)
  have mi: "mem_inv ?s" "free_blocks ?s = 8"
    using sample_store_inv [of "[OFatPrivate sample_private, disk_stream_obj, disk_stream_obj, disk_stream_obj,
       OBytes (pad_to 512 hello_item)]" 8] sample_store_free
    by (auto simp: sample_mounted_def mem_inv_def free_blocks_def)
  show "mem_inv sample_vfs" "6 < free_blocks sample_vfs" "dk_filesystem (gdisk sample_vfs) = Fat16Fs"
    "file_descriptors sample_vfs = replicate 512 0"
    using mi by (simp_all add: sample_vfs_def Let_def mem_inv_def free_blocks_def PLUMOS_MAX_FILE_DESCRIPTORS_def)
  show "low_heap sample_vfs"
    by (simp add: low_heap_def sample_vfs_def Let_def sample_mounted_def sample_store_def heap_shape_def sample_heap_def encode_def)
  have r: "root_dir sample_vfs sample_private ?b 1"
    by (auto simp: root_dir_def sample_vfs_def Let_def sample_mounted_objs sample_private_def sample_mounted_def intro!: stored_nth)
  have e: "dir_entry ?b 0 = hello_item" by (simp add: dir_entry_def pad_to_def hello_item_def)
  have mt: "name_matches hello_item ([0x68, 0x65, 0x6C, 0x6C, 0x6F, 0x2E, 0x74, 0x78, 0x74] @ [0])"
    by (simp add: name_matches_def item_name_def trimmed_def hello_item_def tolower_def PLUMOS_MAX_PATH_def)
  have f: "cstr (lit ''0:/hello.txt'') = 0x30 # 0x3A # 0x2F # [0x68, 0x65, 0x6C, 0x6C, 0x6F, 0x2E, 0x74, 0x78, 0x74]"
    "0 \<in> set (lit ''0:/hello.txt'')" by (simp_all add: lit_def)
  have c: "components [0x68, 0x65, 0x6C, 0x6C, 0x6F, 0x2E, 0x74, 0x78, 0x74] = [[0x68, 0x65, 0x6C, 0x6C, 0x6F, 0x2E, 0x74, 0x78, 0x74]]"
    by (simp add: components.simps)
  show "file_at sample_vfs sample_private (lit ''0:/hello.txt'') hello_item"
    unfolding file_at_def
    by (rule exI, rule exI, rule exI [of _ ?b], rule exI [of _ 1], rule exI [of _ 0])
      (use f c r e mt in \<open>auto simp: PLUMOS_MAX_PATH_def hello_item_def item_attribute_def FAT_FILE_SUBDIRECTORY_def\<close>)
qed

theorem fopen_fclose_witness:
  "\<exists>s' s''. fopen (lit ''0:/hello.txt'') (lit ''r'') sample_vfs = Some (1, s') \<and>
     fstat 1 \<lparr>st_flags = 0, st_filesize = 0\<rparr> s' = Some (0, \<lparr>st_flags = 1, st_filesize = 1000\<rparr>) \<and>
     fclose 1 s' = Some (0, s'') \<and> file_descriptors s'' = replicate 512 0"
proof -
  have "first_slot 0 (file_descriptors sample_vfs) = Some 0" by (simp add: sample_vfs_ok numeral_eq_Suc)
  note t = fopen_fclose [OF sample_vfs_ok(1-4) this _ sample_vfs_ok(6), of "\<lparr>st_flags = 0, st_filesize = 0\<rparr>"]
  have at: "item_attribute hello_item = 1" "item_filesize hello_item = 1000"
    by (simp_all add: item_attribute_def item_filesize_def le32_def le16_def hello_item_def)
  show ?thesis using t at sample_vfs_ok(5) by (auto simp: FAT_FILE_READ_ONLY_def FILE_STAT_READ_ONLY_def)
qed

text \<open>
  C35. The last descriptor is lost: when the first free entry of the table is its last one, \<open>fopen\<close> succeeds
  and returns 512, a number every other operation refuses, so the file can neither be read nor closed.
\<close>
theorem last_descriptor_lost:
  assumes "mem_inv s" "low_heap s" "6 < free_blocks s" "dk_filesystem (gdisk s) = Fat16Fs"
    "first_slot 0 (file_descriptors s) = Some 511" "file_at s fp filename b" "sz \<noteq> 0" "nmemb \<noteq> 0"
  shows "\<exists>s'. fopen filename (lit ''r'') s = Some (512, s') \<and> file_descriptors s' ! 511 \<noteq> 0 \<and>
    fread sz nmemb 512 s' = Some (- EINVARG, [], s') \<and> fseek 512 off whence s' = Some (- EIO, s') \<and>
    fstat 512 st s' = Some (- EIO, st) \<and> fclose 512 s' = Some (- EIO, s')"
proof -
  have g: "file_get_descriptor 512 s' = Some 0" for s'
    by (simp add: file_get_descriptor_def PLUMOS_MAX_FILE_DESCRIPTORS_def)
  have i: "511 < length (file_descriptors s)" using assms(5) by (simp add: first_slot_Some)
  show ?thesis
    by (rule fopen_ok [OF assms(1-6)]) (use g i assms(7,8) in \<open>simp add: fread_def fseek_def fstat_def fclose_def\<close>)
qed

theorem last_descriptor_lost_witness:
  "\<exists>s'. fopen (lit ''0:/hello.txt'') (lit ''r'') (sample_vfs\<lparr>file_descriptors := replicate 511 1 @ [0]\<rparr>) = Some (512, s') \<and>
     fclose 512 s' = Some (- EIO, s')"
proof -
  let ?s = "sample_vfs\<lparr>file_descriptors := replicate 511 1 @ [0]\<rparr>"
  have a: "mem_inv ?s" "low_heap ?s" "6 < free_blocks ?s" "dk_filesystem (gdisk ?s) = Fat16Fs"
    "file_at ?s sample_private (lit ''0:/hello.txt'') hello_item"
    using sample_vfs_ok by (simp_all add: mem_inv_def low_heap_def free_blocks_def file_at_def root_dir_def)
  have "first_slot 0 (file_descriptors ?s) = Some 511"
    unfolding first_slot_Some by (simp add: nth_append)
  from last_descriptor_lost [OF a(1-4) this a(5), of 1 1 0 0 "\<lparr>st_flags = 0, st_filesize = 0\<rparr>"]
  show ?thesis by auto
qed

section \<open>Mounting the disk\<close>

lemma insert_claims: "fs_insert_filesystem fs s = (if fs = NullFs then None else map_option snd (fss.claim fs s))"
  by (simp add: fs_insert_filesystem_def fs_get_free_filesystem_def fss.claim_def panic_def split: option.splits)

lemma fs_init_ok:
  "fs_init s = Some (s\<lparr>file_descriptors := replicate PLUMOS_MAX_FILE_DESCRIPTORS 0,
     filesystems := Fat16Fs # replicate 11 NullFs\<rparr>)"
proof -
  obtain nm where nm: "fat16_init = Some (Fat16Fs, nm)" by (auto simp: fat16_init_def lit_def strcpy_cstr)
  have "fs_init s = fs_insert_filesystem Fat16Fs
      (s\<lparr>file_descriptors := replicate PLUMOS_MAX_FILE_DESCRIPTORS 0, filesystems := NullFs # replicate 11 NullFs\<rparr>)"
    unfolding fs_init_def fs_load_def fs_static_load_def nm by (simp add: PLUMOS_MAX_FILESYSTEMS_def numeral_eq_Suc)
  then show ?thesis by (simp add: insert_claims fss.claim_def)
qed

lemma resolve_loop_none: "\<forall>fs \<in> set fss. fs = NullFs \<Longrightarrow> resolve_loop fss disk s = Some (NullFs, s)"
  by (induction fss) auto

lemma disk_mount_ok:
  assumes "mem_inv s" "5 < free_blocks s" "ata_serves (device s) img" "h = disk_bytes img 0 62"
    "header_signature h = PLUMOS_FAT16_SIGNATURE" "boot_ok img h n m" "filesystems s = Fat16Fs # replicate 11 NullFs"
  obtains fp s' where "disk_search_and_init s = Some s'" "volume_mounted img h n m fp s'" "mem_inv s'"
    "dk_filesystem (gdisk s') = Fat16Fs" "\<forall>a \<in> dom (objs s). objs s' a = objs s a" "mount_step s s'"
    "free_blocks s \<le> free_blocks s' + 5"
proof -
  let ?d = "s\<lparr>gdisk := \<lparr>dk_type = 0, dk_sector_size = PLUMOS_SECTOR_SIZE, dk_id = 0, dk_filesystem = NullFs, dk_fs_private = 0\<rparr>\<rparr>"
  have pre: "mem_inv ?d" "5 < free_blocks ?d" "ata_serves (device ?d) img" "dk_id (gdisk ?d) = 0" "dk_sector_size (gdisk ?d) = 512"
    using assms(1-3) by (simp_all add: mem_inv_def free_blocks_def PLUMOS_SECTOR_SIZE_def)
  obtain fp s' where r: "fat16_resolve TheDisk ?d = Some (0, s')" "volume_mounted img h n m fp s'" "mem_inv s'"
    "\<forall>a \<in> dom (objs ?d). objs s' a = objs ?d a" "mount_step ?d s'" "free_blocks ?d \<le> free_blocks s' + 5"
    using resolve_ok [OF pre assms(4-6)] by (elim exE conjE)
  let ?e = "s'\<lparr>gdisk := (gdisk s')\<lparr>dk_filesystem := Fat16Fs\<rparr>\<rparr>"
  have "disk_search_and_init s = Some ?e" using r(1) assms(7) by (simp add: disk_search_and_init_def fs_resolve_def)
  moreover have "volume_mounted img h n m fp ?e" using r(2) by (simp add: volume_mounted_def fat_mounted_def)
  moreover have "mount_step s ?e" by (rule mount_step_trans [OF disk_mount_step mount_step_trans [OF r(5) disk_mount_step]])
  ultimately show thesis using that [of ?e fp] r(3,4,6) by (simp add: mem_inv_def free_blocks_def)
qed

text \<open>
  C21. Finding the disk: after \<open>fs_init\<close> the table holds the FAT16 driver and no descriptor is in use, and
  \<open>disk_search_and_init\<close> then binds the disk to the driver with the volume mounted when the boot sector
  has the FAT16 signature (and describes a sane root directory), and leaves it without a filesystem
  when it has not; every object there was is kept. In the second case three streams nobody refers to stay allocated.
\<close>
theorem disk_mounts_volume:
  assumes "mem_inv s" "5 < free_blocks s" "ata_serves (device s) img" "h = disk_bytes img 0 62"
    "header_signature h = PLUMOS_FAT16_SIGNATURE \<longrightarrow> boot_ok img h n m"
  shows "\<exists>s1 s2. fs_init s = Some s1 \<and> filesystems s1 = Fat16Fs # replicate 11 NullFs \<and>
    file_descriptors s1 = replicate PLUMOS_MAX_FILE_DESCRIPTORS 0 \<and>
    disk_search_and_init s1 = Some s2 \<and> mem_inv s2 \<and> (\<forall>a \<in> dom (objs s). objs s2 a = objs s a) \<and>
    (if header_signature h = PLUMOS_FAT16_SIGNATURE
     then dk_filesystem (gdisk s2) = Fat16Fs \<and> (\<exists>fp. volume_mounted img h n m fp s2)
     else dk_filesystem (gdisk s2) = NullFs \<and> dk_fs_private (gdisk s2) = 0 \<and>
       (\<exists>a b c. distinct [a, b, c] \<and> {a, b, c} \<inter> dom (objs s) = {} \<and>
          objs s2 = (objs s)(a \<mapsto> disk_stream_obj, b \<mapsto> disk_stream_obj, c \<mapsto> disk_stream_obj)))"
proof -
  let ?s1 = "s\<lparr>file_descriptors := replicate PLUMOS_MAX_FILE_DESCRIPTORS 0, filesystems := Fat16Fs # replicate 11 NullFs\<rparr>"
  let ?d = "?s1\<lparr>gdisk := \<lparr>dk_type = 0, dk_sector_size = PLUMOS_SECTOR_SIZE, dk_id = 0, dk_filesystem = NullFs, dk_fs_private = 0\<rparr>\<rparr>"
  have pre: "mem_inv ?d" "5 < free_blocks ?d" "ata_serves (device ?d) img" "dk_id (gdisk ?d) = 0" "dk_sector_size (gdisk ?d) = 512"
    using assms(1-3) by (simp_all add: mem_inv_def free_blocks_def PLUMOS_SECTOR_SIZE_def)
  have inv: "mem_inv (s\<lparr>gdisk := x\<rparr>) = mem_inv s" for s x by (simp add: mem_inv_def)
  have "\<exists>s2. disk_search_and_init ?s1 = Some s2 \<and> mem_inv s2 \<and> (\<forall>a \<in> dom (objs s). objs s2 a = objs s a) \<and>
    (if header_signature h = PLUMOS_FAT16_SIGNATURE
     then dk_filesystem (gdisk s2) = Fat16Fs \<and> (\<exists>fp. volume_mounted img h n m fp s2)
     else dk_filesystem (gdisk s2) = NullFs \<and> dk_fs_private (gdisk s2) = 0 \<and>
       (\<exists>a b c. distinct [a, b, c] \<and> {a, b, c} \<inter> dom (objs s) = {} \<and>
          objs s2 = (objs s)(a \<mapsto> disk_stream_obj, b \<mapsto> disk_stream_obj, c \<mapsto> disk_stream_obj)))"
  proof (cases "header_signature h = PLUMOS_FAT16_SIGNATURE")
    case True
    have "mem_inv ?s1" "5 < free_blocks ?s1" "ata_serves (device ?s1) img" "boot_ok img h n m"
      "filesystems ?s1 = Fat16Fs # replicate 11 NullFs"
      using assms True by (simp_all add: mem_inv_def free_blocks_def)
    note r = disk_mount_ok [OF this(1-3) assms(4) True this(4,5)]
    show ?thesis by (rule r) (use True in auto)
  next
    case False
    then obtain a b c s' where r: "fat16_resolve TheDisk ?d = Some (- EFSNOTUS, s')" "mem_inv s'" "dk_fs_private (gdisk s') = 0"
      "distinct [a, b, c]" "{a, b, c} \<inter> dom (objs ?d) = {}"
      "objs s' = (objs ?d)(a \<mapsto> disk_stream_obj, b \<mapsto> disk_stream_obj, c \<mapsto> disk_stream_obj)"
      using resolve_wrong_signature [OF pre assms(4)] by blast
    let ?t = "s'\<lparr>gdisk := (gdisk s')\<lparr>dk_filesystem := NullFs\<rparr>\<rparr>"
    have d: "disk_search_and_init ?s1 = Some ?t"
      using r(1) by (simp add: disk_search_and_init_def fs_resolve_def EFSNOTUS_def resolve_loop_none)
    have o: "objs ?t = (objs s)(a \<mapsto> disk_stream_obj, b \<mapsto> disk_stream_obj, c \<mapsto> disk_stream_obj)" using r(6) by simp
    have ds: "{a, b, c} \<inter> dom (objs s) = {}" using r(5) by simp
    then have k: "\<forall>x \<in> dom (objs s). objs ?t x = objs s x" unfolding o by auto
    have leak: "\<exists>a b c. distinct [a, b, c] \<and> {a, b, c} \<inter> dom (objs s) = {} \<and>
        objs ?t = (objs s)(a \<mapsto> disk_stream_obj, b \<mapsto> disk_stream_obj, c \<mapsto> disk_stream_obj)"
      using r(4) ds o by blast
    show ?thesis
      unfolding if_not_P [OF False] by (intro exI [of _ ?t] conjI, rule d) (use r(2,3) inv k leak in simp_all)
  qed
  then show ?thesis by (simp add: fs_init_ok)
qed

theorem disk_mounts_volume_witness:
  "\<exists>s1 s2. fs_init (sample_unmounted sample_volume) = Some s1 \<and> disk_search_and_init s1 = Some s2 \<and>
     dk_filesystem (gdisk s2) = Fat16Fs \<and> (\<exists>fp. volume_mounted sample_volume (disk_bytes sample_volume 0 62) 16 1 fp s2)"
proof -
  have d: "ata_serves (device (sample_unmounted sample_volume)) sample_volume"
    using sample_volume_served by (simp add: sample_unmounted_def)
  show ?thesis
    using disk_mounts_volume [OF sample_unmounted_ok d refl, of 16 1] sample_boot by auto
qed

end
