(* ===== verification/Gdt.thy ===== *)
theory Gdt
  imports Terminal
begin

unbundle bit_operations_syntax

text \<open>
  Segment descriptors (\<open>src/src/gdt/gdt.c\<close>, \<open>src/src/gdt/gdt.h\<close>): the encoding of the kernel's description of
  a segment into the eight bytes the processor reads, the table of \<open>src/src/kernel.c\<close>, and the processor's
  reading of a descriptor as the specification.
\<close>

section \<open>Encoding\<close>

record gdt_structured =
  gs_base :: u32
  gs_limit :: u32
  gs_type :: u8

text \<open>A \<open>struct gdt\<close> is its eight bytes. A panic has no result.\<close>

definition encodeGdtEntry :: "u8 list \<Rightarrow> gdt_structured \<Rightarrow> u8 list option" where
  "encodeGdtEntry target source =
     (if gs_limit source > 0x10000 \<and> gs_limit source AND 0xFFF \<noteq> 0xFFF then None
      else do {
        target \<leftarrow> arr_set target 6 0x40;
        (target, limit) \<leftarrow>
          (if gs_limit source > 0x10000
           then do { target \<leftarrow> arr_set target 6 0xC0; Some (target, drop_bit 12 (gs_limit source)) }
           else Some (target, gs_limit source));
        target \<leftarrow> arr_set target 0 (ucast (limit AND 0xFF));
        target \<leftarrow> arr_set target 1 (ucast (drop_bit 8 limit AND 0xFF));
        flags \<leftarrow> arr_get target 6;
        target \<leftarrow> arr_set target 6 (flags OR ucast (drop_bit 16 limit AND 0x0F));
        target \<leftarrow> arr_set target 2 (ucast (gs_base source AND 0xFF));
        target \<leftarrow> arr_set target 3 (ucast (drop_bit 8 (gs_base source) AND 0xFF));
        target \<leftarrow> arr_set target 4 (ucast (drop_bit 16 (gs_base source) AND 0xFF));
        target \<leftarrow> arr_set target 7 (ucast (drop_bit 24 (gs_base source) AND 0xFF));
        arr_set target 5 (gs_type source)
      })"

text \<open>The counter of the loop runs from \<open>i\<close>; \<open>n\<close> iterations are left.\<close>

fun encode_entries :: "nat \<Rightarrow> int \<Rightarrow> u8 list list \<Rightarrow> gdt_structured list \<Rightarrow> u8 list list option" where
  "encode_entries 0 i gdt structured_gdt = Some gdt"
| "encode_entries (Suc n) i gdt structured_gdt =
     do {
       target \<leftarrow> arr_get gdt i;
       source \<leftarrow> arr_get structured_gdt i;
       target \<leftarrow> encodeGdtEntry target source;
       gdt \<leftarrow> arr_set gdt i target;
       encode_entries n (i + 1) gdt structured_gdt
     }"

definition gdt_structured_to_gdt :: "u8 list list \<Rightarrow> gdt_structured list \<Rightarrow> int \<Rightarrow> u8 list list option" where
  "gdt_structured_to_gdt gdt structured_gdt total_entries =
     encode_entries (nat total_entries) 0 gdt structured_gdt"

definition PLUMOS_TOTAL_GDT_SEGMENTS :: int where "PLUMOS_TOTAL_GDT_SEGMENTS = 6"

text \<open>The table of the kernel. The address of the task state segment is a parameter.\<close>

definition gdt_structured_table :: "u32 \<Rightarrow> gdt_structured list" where
  "gdt_structured_table tss =
     [\<lparr>gs_base = 0, gs_limit = 0, gs_type = 0\<rparr>,
      \<lparr>gs_base = 0, gs_limit = 0xFFFFFFFF, gs_type = 0x9A\<rparr>,
      \<lparr>gs_base = 0, gs_limit = 0xFFFFFFFF, gs_type = 0x92\<rparr>,
      \<lparr>gs_base = 0, gs_limit = 0xFFFFFFFF, gs_type = 0xF8\<rparr>,
      \<lparr>gs_base = 0, gs_limit = 0xFFFFFFFF, gs_type = 0xF2\<rparr>,
      \<lparr>gs_base = tss, gs_limit = 100, gs_type = 0xE9\<rparr>]"

section \<open>The processor's reading\<close>

definition segment_base :: "u8 list \<Rightarrow> u32" where
  "segment_base e = ucast (e ! 2) OR push_bit 8 (ucast (e ! 3)) OR push_bit 16 (ucast (e ! 4)) OR push_bit 24 (ucast (e ! 7))"

definition segment_raw_limit :: "u8 list \<Rightarrow> u32" where
  "segment_raw_limit e = ucast (e ! 0) OR push_bit 8 (ucast (e ! 1)) OR push_bit 16 (ucast (e ! 6 AND 0x0F))"

text \<open>With the granularity bit the limit counts pages.\<close>

definition segment_limit :: "u8 list \<Rightarrow> u32" where
  "segment_limit e = (if bit (e ! 6) 7 then push_bit 12 (segment_raw_limit e) OR 0xFFF else segment_raw_limit e)"

definition describes :: "u8 list \<Rightarrow> gdt_structured \<Rightarrow> bool" where
  "describes e g \<longleftrightarrow> length e = 8 \<and> segment_base e = gs_base g \<and> segment_limit e = gs_limit g \<and> e ! 5 = gs_type g \<and> bit (e ! 6) 6"

definition encodable :: "gdt_structured \<Rightarrow> bool" where
  "encodable g \<longleftrightarrow> gs_limit g \<le> 0x10000 \<or> gs_limit g AND 0xFFF = 0xFFF"

lemma bit_low_mask:
  "bit (0xFF :: u32) k \<longleftrightarrow> k < 8" "bit (0x0F :: u32) k \<longleftrightarrow> k < 4" "bit (0x0F :: u8) k \<longleftrightarrow> k < 4" "bit (0xFFF :: u32) k \<longleftrightarrow> k < 12"
proof -
  have "(0xFF :: u32) = mask 8" "(0x0F :: u32) = mask 4" "(0x0F :: u8) = mask 4" "(0xFFF :: u32) = mask 12"
    by (simp_all add: mask_eq_exp_minus_1)
  then show "bit (0xFF :: u32) k \<longleftrightarrow> k < 8" "bit (0x0F :: u32) k \<longleftrightarrow> k < 4" "bit (0x0F :: u8) k \<longleftrightarrow> k < 4" "bit (0xFFF :: u32) k \<longleftrightarrow> k < 12"
    by (auto simp only: bit_mask_iff) simp_all
qed

text \<open>Byte \<open>k\<close> of a word.\<close>

lemma bit_byte: "bit (ucast (ucast (drop_bit k b AND 0xFF) :: u8) :: u32) j \<longleftrightarrow> j < 8 \<and> bit (b :: u32) (j + k)"
proof -
  have "bit (ucast (ucast (drop_bit k b AND 0xFF) :: u8) :: u32) j \<longleftrightarrow> j < 8 \<and> j < 32 \<and> bit (drop_bit k b AND 0xFF) j"
    by (simp only: bit_ucast_iff possible_bit_word) auto
  also have "\<dots> \<longleftrightarrow> j < 8 \<and> bit b (j + k)"
    by (simp only: bit_and_iff bit_low_mask bit_drop_bit_eq comp_apply) (auto simp: add.commute)
  finally show ?thesis .
qed

lemma bit_shift: "n < 32 \<Longrightarrow> bit (push_bit m (x :: u32)) n \<longleftrightarrow> m \<le> n \<and> bit x (n - m)"
  by (simp add: bit_push_bit_iff)

lemma bit_drop: "bit (drop_bit m (x :: u32)) n \<longleftrightarrow> bit x (n + m)"
  by (simp add: bit_drop_bit_eq add.commute)

lemma bit_byte0: "bit (ucast (ucast (b AND 0xFF) :: u8) :: u32) j \<longleftrightarrow> j < 8 \<and> bit (b :: u32) j"
  using bit_byte [of 0 b j] by simp

lemma base_bytes:
  "(ucast (ucast (b AND 0xFF) :: u8) :: u32) OR push_bit 8 (ucast (ucast (drop_bit 8 b AND 0xFF) :: u8))
     OR push_bit 16 (ucast (ucast (drop_bit 16 b AND 0xFF) :: u8)) OR push_bit 24 (ucast (ucast (drop_bit 24 b AND 0xFF) :: u8)) = b"
    (is "?l = b")
proof (rule bit_eqI)
  fix n assume "possible_bit TYPE(u32) n"
  then have n: "n < 32" by simp
  have "bit ?l n \<longleftrightarrow> (n < 8 \<and> bit b n) \<or> (8 \<le> n \<and> n - 8 < 8 \<and> bit b (n - 8 + 8)) \<or>
      (16 \<le> n \<and> n - 16 < 8 \<and> bit b (n - 16 + 16)) \<or> (24 \<le> n \<and> n - 24 < 8 \<and> bit b (n - 24 + 24))"
    by (simp only: bit_or_iff bit_shift [OF n] bit_byte bit_byte0 bit_drop disj_assoc)
  also have "\<dots> \<longleftrightarrow> bit b n"
  proof -
    have "n < 8 \<or> (8 \<le> n \<and> n < 16) \<or> (16 \<le> n \<and> n < 24) \<or> (24 \<le> n \<and> n < 32)" using n by linarith
    then show ?thesis by (elim disjE) auto
  qed
  finally show "bit ?l n = bit b n" .
qed

lemma limit_bytes:
  assumes "l < 2 ^ 20" "\<forall>k < 4. \<not> bit f k"
  shows "(ucast (ucast (l AND 0xFF) :: u8) :: u32) OR push_bit 8 (ucast (ucast (drop_bit 8 l AND 0xFF) :: u8))
     OR push_bit 16 (ucast (((f :: u8) OR ucast (drop_bit 16 l AND 0x0F)) AND 0x0F)) = l" (is "?l = l")
proof (rule bit_eqI)
  fix n assume "possible_bit TYPE(u32) n"
  then have n: "n < 32" by simp
  have "take_bit 20 l = l" using assms(1) by (simp add: take_bit_eq_mod mod_word_less)
  then have hi: "\<not> bit l k" if "20 \<le> k" for k using that by (metis bit_take_bit_iff leD)
  have nib: "bit (ucast ((f OR ucast (drop_bit 16 l AND 0x0F)) AND 0x0F) :: u32) j \<longleftrightarrow> j < 4 \<and> bit l (j + 16)" for j
  proof -
    have "bit (ucast ((f OR ucast (drop_bit 16 l AND 0x0F)) AND 0x0F) :: u32) j \<longleftrightarrow>
        j < 32 \<and> (bit f j \<or> j < 8 \<and> bit l (16 + j) \<and> j < 4) \<and> j < 4"
      by (simp only: bit_ucast_iff bit_and_iff bit_or_iff bit_low_mask bit_drop_bit_eq comp_apply possible_bit_word) auto
    then show ?thesis using assms(2) by (auto simp: add.commute)
  qed
  have "bit ?l n \<longleftrightarrow> (n < 8 \<and> bit l n) \<or> (8 \<le> n \<and> n - 8 < 8 \<and> bit l (n - 8 + 8)) \<or>
      (16 \<le> n \<and> n - 16 < 4 \<and> bit l (n - 16 + 16))"
    by (simp only: bit_or_iff bit_shift [OF n] bit_byte bit_byte0 bit_drop nib disj_assoc)
  also have "\<dots> \<longleftrightarrow> bit l n"
  proof -
    have "n < 8 \<or> (8 \<le> n \<and> n < 16) \<or> (16 \<le> n \<and> n < 20) \<or> 20 \<le> n" using n by linarith
    then show ?thesis using hi [of n] by (elim disjE) auto
  qed
  finally show "bit ?l n = bit l n" .
qed

lemma page_limit:
  assumes "l AND 0xFFF = 0xFFF"
  shows "push_bit 12 (drop_bit 12 l) OR 0xFFF = (l :: u32)"
proof (rule bit_eqI)
  fix n assume "possible_bit TYPE(u32) n"
  then have n: "n < 32" by simp
  have "n < 12 \<Longrightarrow> bit l n" using bit_and_iff [of l "0xFFF" n] unfolding assms bit_low_mask by simp
  then show "bit (push_bit 12 (drop_bit 12 l) OR 0xFFF) n = bit l n"
    by (cases "n < 12") (simp_all only: bit_or_iff bit_shift [OF n] bit_drop bit_low_mask, auto)
qed

lemma flag_bits:
  "k < 4 \<Longrightarrow> \<not> bit (0x40 :: u8) k" "k < 4 \<Longrightarrow> \<not> bit (0xC0 :: u8) k"
  "\<not> bit (ucast (x AND (0x0F :: u32)) :: u8) 7" "\<not> bit (ucast (x AND (0x0F :: u32)) :: u8) 6"
  by (auto simp: bit_simps bit_low_mask numeral_eq_Suc less_Suc_eq)

lemma encode_ok:
  assumes "length e = 8" "encodable g"
  obtains e' where "encodeGdtEntry e g = Some e'" "describes e' g"
proof -
  obtain a0 a1 a2 a3 a4 a5 a6 a7 where e: "e = [a0, a1, a2, a3, a4, a5, a6, a7]"
    using assms(1) by (auto simp: length_Suc_conv numeral_eq_Suc)
  obtain l f where l: "l = (if gs_limit g > 0x10000 then drop_bit 12 (gs_limit g) else gs_limit g)"
    and f: "f = (if gs_limit g > 0x10000 then 0xC0 else 0x40 :: u8)" by blast
  let ?b = "\<lambda>k w. ucast (drop_bit k w AND 0xFF) :: u8"
  let ?fl = "f OR ucast (drop_bit 16 l AND 0x0F)"
  let ?e = "[ucast (l AND 0xFF), ?b 8 l, ucast (gs_base g AND 0xFF), ?b 8 (gs_base g), ?b 16 (gs_base g), gs_type g,
     ?fl, ?b 24 (gs_base g)]"
  have low: "gs_limit g > 0x10000 \<Longrightarrow> gs_limit g AND 0xFFF = 0xFFF" using assms(2) by (auto simp: encodable_def)
  have "encodeGdtEntry e g = Some ?e"
    using low by (simp add: encodeGdtEntry_def e arr_set_def arr_get_def l f)
  moreover have "describes ?e g"
  proof -
    have "unat (gs_limit g) div 4096 < 2 ^ 20"
      using unsigned_less [of "gs_limit g", where ?'a = nat] by simp
    moreover have "take_bit 32 (unat (gs_limit g)) = unat (gs_limit g)"
      using unsigned_less [of "gs_limit g", where ?'a = nat] by (simp add: take_bit_nat_eq_self)
    ultimately have "drop_bit 12 (gs_limit g) < 2 ^ 20"
      by (simp add: word_less_nat_alt unsigned_drop_bit_eq drop_bit_nat_def)
    moreover have "\<not> gs_limit g > 0x10000 \<Longrightarrow> gs_limit g < 2 ^ 20" by (simp add: word_less_nat_alt word_le_nat_alt)
    ultimately have l20: "l < 2 ^ 20" by (simp add: l)
    have "\<forall>k < 4. \<not> bit f k" using flag_bits(1,2) by (simp add: f)
    from limit_bytes [OF l20 this] have raw: "segment_raw_limit ?e = l" by (simp add: segment_raw_limit_def)
    have fb: "bit ?fl 7 \<longleftrightarrow> gs_limit g > 0x10000" "bit ?fl 6"
      by (simp_all only: bit_or_iff flag_bits) (simp_all add: f bit_simps)
    have "segment_limit ?e = gs_limit g"
      unfolding segment_limit_def raw using fb(1) page_limit [OF low] l by (cases "gs_limit g > 0x10000") simp_all
    moreover have "segment_base ?e = gs_base g"
      using base_bytes [of "gs_base g"] by (simp add: segment_base_def)
    ultimately show ?thesis using fb(2) by (simp add: describes_def)
  qed
  ultimately show thesis by (rule that)
qed

lemma encode_rejects: "\<not> encodable g \<Longrightarrow> encodeGdtEntry e g = None"
  by (simp add: encodable_def encodeGdtEntry_def not_le)

lemma encode_entries_ok:
  assumes "i + n \<le> length gdt" "i + n \<le> length gs" "\<forall>e \<in> set gdt. length e = 8"
    "\<forall>k < n. encodable (gs ! (i + k))"
  shows "\<exists>gdt'. encode_entries n (int i) gdt gs = Some gdt' \<and> length gdt' = length gdt \<and>
    (\<forall>k < length gdt. if i \<le> k \<and> k < i + n then describes (gdt' ! k) (gs ! k) else gdt' ! k = gdt ! k)"
  using assms
proof (induction n arbitrary: i gdt)
  case (Suc n)
  have i: "i < length gdt" "i < length gs" "length (gdt ! i) = 8" "encodable (gs ! i)"
    using Suc.prems(1-3) Suc.prems(4) [rule_format, of 0] by simp_all
  obtain e where e: "encodeGdtEntry (gdt ! i) (gs ! i) = Some e" "describes e (gs ! i)" by (rule encode_ok [OF i(3,4)])
  let ?g = "gdt[i := e]"
  have "\<forall>x \<in> set ?g. length x = 8"
    using Suc.prems(3) e(2) set_update_subset_insert [of gdt i e] by (auto simp: describes_def)
  moreover have "\<forall>k < n. encodable (gs ! (Suc i + k))" using Suc.prems(4) by auto
  ultimately obtain gdt' where g: "encode_entries n (int (Suc i)) ?g gs = Some gdt'" "length gdt' = length ?g"
    "\<forall>k < length ?g. if Suc i \<le> k \<and> k < Suc i + n then describes (gdt' ! k) (gs ! k) else gdt' ! k = ?g ! k"
    using Suc.IH [of "Suc i" ?g] Suc.prems(1,2) by auto
  have "encode_entries (Suc n) (int i) gdt gs = Some gdt'"
    using i(1,2) e(1) g(1) by (simp add: add.commute)
  moreover have "\<forall>k < length gdt. if i \<le> k \<and> k < i + Suc n then describes (gdt' ! k) (gs ! k) else gdt' ! k = gdt ! k"
  proof (intro allI impI)
    fix k assume k: "k < length gdt"
    have "k = i \<or> k < i \<or> Suc i \<le> k" by linarith
    then show "if i \<le> k \<and> k < i + Suc n then describes (gdt' ! k) (gs ! k) else gdt' ! k = gdt ! k"
      using g(3) [rule_format, of k] k e(2) by (elim disjE) (simp_all split: if_splits)
  qed
  ultimately show ?case using g(2) by auto
qed auto

lemma encode_entries_rejects:
  assumes "i + n \<le> length gdt" "\<forall>e \<in> set gdt. length e = 8" "k < n" "\<not> encodable (gs ! (i + k))"
  shows "encode_entries n (int i) gdt gs = None"
  using assms
proof (induction n arbitrary: i k gdt)
  case (Suc n)
  show ?case
  proof (cases "encodable (gs ! i)")
    case False
    then show ?thesis by (cases "i < length gs") (simp_all add: Suc.prems(1) Suc_le_lessD encode_rejects bind_eq_None_conv split: option.splits)
  next
    case True
    have i: "i < length gdt" "length (gdt ! i) = 8" using Suc.prems(1,2) by simp_all
    obtain e where e: "encodeGdtEntry (gdt ! i) (gs ! i) = Some e" "describes e (gs ! i)" by (rule encode_ok [OF i(2) True])
    obtain j where j: "k = Suc j" "j < n" using Suc.prems(3,4) True by (cases k) auto
    have "\<forall>x \<in> set (gdt[i := e]). length x = 8"
      using Suc.prems(2) e(2) set_update_subset_insert [of gdt i e] by (auto simp: describes_def)
    then have "encode_entries n (int (Suc i)) (gdt[i := e]) gs = None"
      using Suc.IH [of "Suc i" "gdt[i := e]" j] Suc.prems(1,4) j by simp
    then show ?thesis using i e(1) by (cases "i < length gs") (simp_all add: add.commute)
  qed
qed simp

section \<open>Properties\<close>

text \<open>
  C27. The segment descriptors the processor reads are the segments the kernel describes: whenever every
  limit is at most 64 KiB or ends a page, \<open>gdt_structured_to_gdt\<close> writes descriptors whose base, limit
  (in bytes, whatever the granularity), access byte and 32-bit flag are those described, and leaves the
  entries behind \<open>total_entries\<close> alone; a segment whose limit is larger and does not end a page
  makes it panic. The table of the kernel is accepted.
\<close>
theorem gdt_correct:
  assumes "0 \<le> total_entries" "nat total_entries \<le> length gdt" "nat total_entries \<le> length gs"
    "\<forall>e \<in> set gdt. length e = 8"
  shows "((\<forall>k < nat total_entries. encodable (gs ! k)) \<longrightarrow>
      (\<exists>gdt'. gdt_structured_to_gdt gdt gs total_entries = Some gdt' \<and> length gdt' = length gdt \<and>
        (\<forall>k < length gdt. if int k < total_entries then describes (gdt' ! k) (gs ! k) else gdt' ! k = gdt ! k))) \<and>
    ((\<exists>k < nat total_entries. \<not> encodable (gs ! k)) \<longrightarrow> gdt_structured_to_gdt gdt gs total_entries = None) \<and>
    (\<forall>tss. \<forall>g \<in> set (gdt_structured_table tss). encodable g)"
proof (intro conjI impI)
  assume "\<forall>k < nat total_entries. encodable (gs ! k)"
  then show "\<exists>gdt'. gdt_structured_to_gdt gdt gs total_entries = Some gdt' \<and> length gdt' = length gdt \<and>
        (\<forall>k < length gdt. if int k < total_entries then describes (gdt' ! k) (gs ! k) else gdt' ! k = gdt ! k)"
    using encode_entries_ok [of 0 "nat total_entries" gdt gs] assms
    by (auto simp: gdt_structured_to_gdt_def zless_nat_eq_int_zless)
next
  assume "\<exists>k < nat total_entries. \<not> encodable (gs ! k)"
  then show "gdt_structured_to_gdt gdt gs total_entries = None"
    using encode_entries_rejects [of 0 "nat total_entries" gdt] assms by (auto simp: gdt_structured_to_gdt_def)
qed (auto simp: gdt_structured_table_def encodable_def)

theorem gdt_correct_witness:
  "\<exists>gdt'. gdt_structured_to_gdt (replicate 6 (replicate 8 0)) (gdt_structured_table 0x1000) PLUMOS_TOTAL_GDT_SEGMENTS = Some gdt' \<and>
     describes (gdt' ! 3) \<lparr>gs_base = 0, gs_limit = 0xFFFFFFFF, gs_type = 0xF8\<rparr>"
proof -
  let ?t = "gdt_structured_table 0x1000"
  note g = gdt_correct [of 6 "replicate 6 (replicate 8 0)" ?t]
  have l: "length ?t = 6" by (simp add: gdt_structured_table_def)
  have "\<forall>x \<in> set ?t. encodable x" using g l by simp
  then have "\<forall>k < nat 6. encodable (?t ! k)" using l nth_mem [of _ ?t] by simp
  then obtain gdt' where "gdt_structured_to_gdt (replicate 6 (replicate 8 0)) ?t 6 = Some gdt'"
    "\<forall>k < 6. describes (gdt' ! k) (?t ! k)"
    using g l by auto
  moreover have "?t ! 3 = \<lparr>gs_base = 0, gs_limit = 0xFFFFFFFF, gs_type = 0xF8\<rparr>" by (simp add: gdt_structured_table_def)
  ultimately show ?thesis by (intro exI [of _ gdt']) (simp add: PLUMOS_TOTAL_GDT_SEGMENTS_def flip: \<open>?t ! 3 = _\<close>)
qed

end
