(* ===== verification/Stdlib.thy ===== *)
theory Stdlib
  imports CLib
begin

unbundle bit_operations_syntax

text \<open>
  The library of the user programs (\<open>src/programs/stdlib\<close>): \<open>itoa\<close> and \<open>printf\<close>. The system calls they
  make are recorded in order; \<open>print\<close> and \<open>plumos_putchar\<close> are the entry points of
  \<open>src/programs/stdlib/src/plumos.asm\<close>.
\<close>

section \<open>Definitions\<close>

text \<open>\<open>string.c\<close> and \<open>memory.c\<close> of the library repeat the functions of the kernel word for word.\<close>

definition user_tolower :: "u8 \<Rightarrow> u8" where "user_tolower = tolower"
definition user_strlen :: "u8 list \<Rightarrow> int option" where "user_strlen = strlen"
definition user_strnlen :: "u8 list \<Rightarrow> int \<Rightarrow> int option" where "user_strnlen = strnlen"
definition user_isdigit :: "u8 \<Rightarrow> bool" where "user_isdigit = isdigit"
definition user_toenumericdigit :: "u8 \<Rightarrow> int" where "user_toenumericdigit = toenumericdigit"
definition user_strcpy :: "u8 list \<Rightarrow> u8 list \<Rightarrow> u8 list option" where "user_strcpy = strcpy"
definition user_strncpy :: "u8 list \<Rightarrow> u8 list \<Rightarrow> int \<Rightarrow> u8 list option" where "user_strncpy = strncpy"
definition user_istrncmp :: "u8 list \<Rightarrow> u8 list \<Rightarrow> int \<Rightarrow> int option" where "user_istrncmp = istrncmp"
definition user_strncmp :: "u8 list \<Rightarrow> u8 list \<Rightarrow> int \<Rightarrow> int option" where "user_strncmp = strncmp"
definition user_strnlen_terminator :: "u8 list \<Rightarrow> int \<Rightarrow> u8 \<Rightarrow> int option" where
  "user_strnlen_terminator = strnlen_terminator"
definition user_memset :: "u8 list \<Rightarrow> int \<Rightarrow> u32 \<Rightarrow> u8 list option" where "user_memset = memset"
definition user_memcmp :: "u8 list \<Rightarrow> u8 list \<Rightarrow> int \<Rightarrow> int option" where "user_memcmp = memcmp"
definition user_memcpy :: "u8 list \<Rightarrow> u8 list \<Rightarrow> int \<Rightarrow> u8 list option" where "user_memcpy = memcpy"

text \<open>
  Memory and the start of a program. The entry points of \<open>plumos.asm\<close> and \<open>main\<close> of the program are parameters,
  over the states \<open>'s\<close> of the machine.
\<close>

definition malloc :: "(u32 \<Rightarrow> 's \<Rightarrow> u32 \<times> 's) \<Rightarrow> u32 \<Rightarrow> 's \<Rightarrow> u32 \<times> 's" where
  "malloc plumos_malloc bytes s = plumos_malloc bytes s"

definition free_memory :: "(u32 \<Rightarrow> 's \<Rightarrow> 's) \<Rightarrow> u32 \<Rightarrow> 's \<Rightarrow> 's" where
  "free_memory plumos_free ptr s = plumos_free ptr s"

definition c_start ::
  "('s \<Rightarrow> (int \<times> u32) \<times> 's) \<Rightarrow> (int \<Rightarrow> u32 \<Rightarrow> 's \<Rightarrow> (int \<times> 's) option) \<Rightarrow> 's \<Rightarrow> 's option" where
  "c_start plumos_process_get_arguments program_main s =
     (case plumos_process_get_arguments s of ((argc, argv), s) \<Rightarrow>
        do { (res, s) \<leftarrow> program_main argc argv s; Some s })"

datatype syscall = SysPrint "u8 list" | SysPutchar u8

text \<open>
  \<open>buf\<close> is the static buffer of \<open>itoa\<close>; the pointer returned is a position in it. Inside the loop the
  number is never positive.
\<close>

function itoa_loop :: "u8 list \<Rightarrow> int \<Rightarrow> int \<Rightarrow> (u8 list \<times> int) option" where
  "itoa_loop buf loc i =
     (if i \<noteq> 0 then do {
        buf \<leftarrow> arr_set buf (loc - 1) (word_of_int (48 - i smod 10));
        itoa_loop buf (loc - 1) (i sdiv 10)
      } else Some (buf, loc))"
  by pat_completeness auto
termination
proof (relation "measure (\<lambda>(buf, loc, i). nat \<bar>i\<bar>)")
  fix i :: int assume "i \<noteq> 0"
  then have "\<bar>i\<bar> div 10 < \<bar>i\<bar>" by simp
  then show "((x, loc - 1, i sdiv 10), buf, loc, i) \<in> measure (\<lambda>(buf, loc, i). nat \<bar>i\<bar>)" for x buf :: "u8 list" and loc :: int
    by (auto simp: signed_divide_int_def abs_mult)
qed simp

declare itoa_loop.simps [simp del]

definition itoa :: "u8 list \<Rightarrow> int \<Rightarrow> (u8 list \<times> int) option" where
  "itoa buf i =
     do {
       buf \<leftarrow> arr_set buf 11 0;
       (buf, loc) \<leftarrow> itoa_loop buf 11 (if i \<ge> 0 then - i else i);
       (buf, loc) \<leftarrow>
         (if loc = 11 then do { buf \<leftarrow> arr_set buf (loc - 1) 0x30; Some (buf, loc - 1) } else Some (buf, loc));
       if i < 0 then do { buf \<leftarrow> arr_set buf (loc - 1) 0x2D; Some (buf, loc - 1) } else Some (buf, loc)
     }"

definition putchar :: "u8 \<Rightarrow> syscall list \<Rightarrow> syscall list" where
  "putchar c out = out @ [SysPutchar c]"

text \<open>An argument of the wrong type, or one too few, has no result; nor has reading past the format.\<close>

datatype printf_arg = ArgInt int | ArgStr "u8 list"

fun printf_loop ::
  "u8 list \<Rightarrow> printf_arg list \<Rightarrow> u8 list \<Rightarrow> syscall list \<Rightarrow> (int \<times> u8 list \<times> syscall list) option" where
  "printf_loop [] ap buf out = None"
| "printf_loop [c] ap buf out =
     (if c = 0 then Some (0, buf, out)
      else if c \<noteq> 0x25 then printf_loop [] ap buf (putchar c out) else None)"
| "printf_loop (c # d # p) ap buf out =
     (if c = 0 then Some (0, buf, out)
      else if c \<noteq> 0x25 then printf_loop (d # p) ap buf (putchar c out)
      else if d = 0x69 then
        (case ap of ArgInt ival # ap \<Rightarrow> do {
             (buf, loc) \<leftarrow> itoa buf ival;
             printf_loop p ap buf (out @ [SysPrint (cstr (drop (nat loc) buf))])
           }
         | _ \<Rightarrow> None)
      else if d = 0x73 then
        (case ap of ArgStr sval # ap \<Rightarrow> printf_loop p ap buf (out @ [SysPrint (cstr sval)]) | _ \<Rightarrow> None)
      else printf_loop p ap buf (putchar d out))"

definition printf :: "u8 list \<Rightarrow> printf_arg list \<Rightarrow> u8 list \<Rightarrow> syscall list \<Rightarrow> (int \<times> u8 list \<times> syscall list) option" where
  "printf fmt ap buf out = printf_loop fmt ap buf out"

text \<open>One round of the loop of \<open>blank.c\<close>, which never ends; the counting loop in it has no effect.\<close>

definition blank_round :: "u8 list list \<Rightarrow> syscall list \<Rightarrow> syscall list option" where
  "blank_round argv out = do { arg \<leftarrow> arr_get argv 0; Some (out @ [SysPrint (cstr arg)]) }"

section \<open>Decimal notation\<close>

fun digits :: "nat \<Rightarrow> u8 list" where
  "digits n = (if n < 10 then [0x30 + of_nat n] else digits (n div 10) @ [0x30 + of_nat (n mod 10)])"

declare digits.simps [simp del]

definition decimal :: "int \<Rightarrow> u8 list" where
  "decimal i = (if i < 0 then 0x2D # digits (nat (- i)) else digits (nat i))"

text \<open>Reading a decimal number back.\<close>

definition read_digits :: "u8 list \<Rightarrow> int" where
  "read_digits = foldl (\<lambda>a c. 10 * a + (uint c - 48)) 0"

fun read_decimal :: "u8 list \<Rightarrow> int" where
  "read_decimal [] = 0"
| "read_decimal (c # cs) = (if c = 0x2D then - read_digits cs else read_digits (c # cs))"

lemma digit_char: "k < 10 \<Longrightarrow> uint (0x30 + of_nat k :: u8) = 48 + int k"
proof -
  assume "k < 10"
  then have "uint (of_nat (48 + k) :: u8) = int (48 + k)"
    by (subst unsigned_of_nat) (simp add: take_bit_nat_eq_self)
  then show ?thesis by simp
qed

lemma digit_not: "k < 10 \<Longrightarrow> (0x30 + of_nat k :: u8) \<noteq> 0 \<and> (0x30 + of_nat k :: u8) \<noteq> 0x2D"
proof -
  assume k: "k < 10"
  obtain w :: u8 where w: "w = 0x30 + of_nat k" by blast
  then have "uint w = 48 + int k" using digit_char [OF k] by simp
  then have "w \<noteq> 0 \<and> w \<noteq> 0x2D" by auto
  then show ?thesis unfolding w .
qed

lemma read_digits: "read_digits (digits n) = int n"
proof (induction n rule: digits.induct)
  case (1 n)
  show ?case
  proof (cases "n < 10")
    case True
    then show ?thesis by (subst digits.simps) (simp add: read_digits_def digit_char)
  next
    case False
    have "read_digits (digits n) = 10 * read_digits (digits (n div 10)) + int (n mod 10)"
      using False by (subst digits.simps) (simp add: read_digits_def digit_char)
    then show ?thesis using 1 False by (simp add: zdiv_int zmod_int)
  qed
qed

lemma digits_chars: "c \<in> set (digits n) \<Longrightarrow> c \<noteq> 0 \<and> c \<noteq> 0x2D"
proof (induction n rule: digits.induct)
  case (1 n)
  show ?case
  proof (cases "n < 10")
    case True
    then show ?thesis using 1(2) digit_not [of n] by (subst (asm) digits.simps) simp
  next
    case False
    then show ?thesis using 1 digit_not [of "n mod 10"] by (subst (asm) (2) digits.simps) auto
  qed
qed

lemma digits_nonempty: "digits n \<noteq> []"
  by (subst digits.simps) simp

lemma length_digits: "n < 10 ^ k \<Longrightarrow> 0 < k \<Longrightarrow> length (digits n) \<le> k"
proof (induction n arbitrary: k rule: digits.induct)
  case (1 n)
  show ?case
  proof (cases "n < 10")
    case True
    then show ?thesis using 1(3) by (subst digits.simps) simp
  next
    case False
    obtain m where "k = Suc m" using 1(3) by (cases k) auto
    moreover from this have "0 < m" using False 1(2) by (cases m) auto
    ultimately have m: "k = Suc m" "0 < m" by auto
    then have "n div 10 < 10 ^ m" using 1(2) by (simp add: less_mult_imp_div_less mult.commute)
    then have "length (digits (n div 10)) \<le> m" using 1(1) False m(2) by blast
    then show ?thesis using False m(1) by (subst digits.simps) simp
  qed
qed

lemma read_decimal: "read_decimal (decimal i) = i"
proof (cases "i < 0")
  case True
  then show ?thesis by (simp add: decimal_def read_digits)
next
  case False
  obtain c cs where c: "digits (nat i) = c # cs" using digits_nonempty by (cases "digits (nat i)") auto
  then have "c \<noteq> 0x2D" using digits_chars [of c "nat i"] by simp
  then show ?thesis using False c read_digits [of "nat i"] by (simp add: decimal_def)
qed

section \<open>itoa\<close>

lemma smod_neg: "(- int n) smod 10 = - int (n mod 10)" "(- int n) sdiv 10 = - int (n div 10)"
  by (auto simp: signed_divide_int_def signed_modulo_int_def sgn_if zdiv_int zmod_int minus_mult_div_eq_mod [symmetric])

lemma itoa_loop_zero [simp]: "itoa_loop buf loc 0 = Some (buf, loc)"
  by (simp add: itoa_loop.simps)

lemma itoa_loop_digits:
  assumes "0 < n" "length (digits n) \<le> loc" "loc \<le> length buf"
  shows "itoa_loop buf (int loc) (- int n) =
    Some (take (loc - length (digits n)) buf @ digits n @ drop loc buf, int (loc - length (digits n)))"
  using assms
proof (induction n arbitrary: loc buf rule: digits.induct)
  case (1 n)
  let ?c = "0x30 + of_nat (n mod 10) :: u8"
  obtain l where l: "loc = Suc l" using 1(3) digits_nonempty [of n] by (cases loc) auto
  let ?b = "buf[l := ?c]"
  have "word_of_int (48 - (- int n) smod 10) = ?c" unfolding smod_neg by simp
  then have step: "itoa_loop buf (int loc) (- int n) = itoa_loop ?b (int l) (- int (n div 10))"
    using 1(2,4) l by (subst itoa_loop.simps, unfold smod_neg) simp
  have dr: "drop l ?b = ?c # drop loc buf" using 1(4) l by (simp add: drop_update_swap Cons_nth_drop_Suc [symmetric])
  show ?case
  proof (cases "n < 10")
    case True
    then have "digits n = [?c]" by (subst digits.simps) simp
    then show ?thesis using step True l 1(4) dr by (simp add: upd_conv_take_nth_drop)
  next
    case False
    then have d: "digits n = digits (n div 10) @ [?c]" by (subst digits.simps) simp
    have "itoa_loop ?b (int l) (- int (n div 10)) =
        Some (take (l - length (digits (n div 10))) ?b @ digits (n div 10) @ drop l ?b, int (l - length (digits (n div 10))))"
      using False 1(3,4) l d by (intro 1(1)) auto
    then show ?thesis using step d l dr by simp
  qed
qed

lemma itoa_ok:
  assumes "length buf = 12" "- (2 ^ 31) \<le> i" "i < 2 ^ 31"
  obtains buf' loc where "itoa buf i = Some (buf', int loc)" "length buf' = 12" "cstr (drop loc buf') = decimal i"
proof -
  obtain n where n: "n = nat \<bar>i\<bar>" by blast
  let ?b = "buf[11 := 0]" and ?k = "length (digits n)"
  have k10: "?k \<le> 10" using assms(2,3) by (intro length_digits) (auto simp: n)
  have ni: "(if i \<ge> 0 then - i else i) = - int n" by (simp add: n)
  have d11: "drop 11 ?b = [0]" using assms(1) by (auto simp: length_Suc_conv numeral_eq_Suc)
  obtain b1 loc1 where b1: "itoa_loop ?b 11 (- int n) = Some (b1, loc1)"
    "(if loc1 = 11 then do { buf \<leftarrow> arr_set b1 (loc1 - 1) 0x30; Some (buf, loc1 - 1) } else Some (b1, loc1)) =
       Some (take (11 - ?k) ?b @ digits n @ [0], int (11 - ?k))"
  proof (cases "n = 0")
    case True
    have "digits 0 = [0x30]" by (subst digits.simps) simp
    moreover have "?b[10 := 0x30] = take 10 ?b @ [0x30, 0]" using assms(1) by (auto simp: length_Suc_conv numeral_eq_Suc)
    moreover have "arr_set ?b 10 0x30 = Some (?b[10 := 0x30])" using assms(1) by (simp add: arr_set_def)
    ultimately show ?thesis using that [of ?b 11] True by simp
  next
    case False
    have "itoa_loop ?b (int 11) (- int n) = Some (take (11 - ?k) ?b @ digits n @ drop 11 ?b, int (11 - ?k))"
      using False k10 assms(1) by (intro itoa_loop_digits) simp_all
    moreover have "0 < ?k" using digits_nonempty [of n] by simp
    ultimately show ?thesis using that d11 k10 by simp
  qed
  let ?t = "take (11 - ?k) ?b @ digits n @ [0]" and ?l = "11 - ?k"
  have c0: "cstr (digits n @ [0]) = digits n"
    using digits_chars [of _ n] by (subst cstr_append_no0) auto
  have a11: "arr_set buf 11 0 = Some ?b" using assms(1) by (simp add: arr_set_def)
  show thesis
  proof (cases "i < 0")
    case True
    have s: "arr_set ?t (int ?l - 1) 0x2D = Some (?t[10 - ?k := 0x2D])"
      using k10 assms(1) by (simp add: arr_set_def nat_diff_distrib)
    have "itoa buf i = Some (?t[10 - ?k := 0x2D], int (10 - ?k))"
      unfolding itoa_def a11 ni using True b1 s k10 by simp
    moreover have "drop (10 - ?k) (?t[10 - ?k := 0x2D]) = 0x2D # digits n @ [0]"
    proof -
      have "Suc (10 - ?k) = ?l" using k10 by simp
      then show ?thesis using k10 assms(1)
        by (subst Cons_nth_drop_Suc [symmetric]) simp_all
    qed
    ultimately show thesis using that [of "?t[10 - ?k := 0x2D]" "10 - ?k"] assms(1) k10 c0 True
      by (simp add: decimal_def n)
  next
    case False
    have "itoa buf i = Some (?t, int ?l)" unfolding itoa_def a11 ni using False b1 by simp
    moreover have "drop ?l ?t = digits n @ [0]" using k10 assms(1) by simp
    ultimately show thesis using that [of ?t ?l] assms(1) k10 c0 False by (simp add: decimal_def n)
  qed
qed

section \<open>printf\<close>

text \<open>A format as its pieces: a plain character, an integer, a string, an escaped character.\<close>

datatype piece = Plain u8 | IntArg int | StrArg "u8 list" | Escaped u8

fun piece_format :: "piece \<Rightarrow> u8 list" where
  "piece_format (Plain c) = [c]"
| "piece_format (IntArg i) = [0x25, 0x69]"
| "piece_format (StrArg s) = [0x25, 0x73]"
| "piece_format (Escaped c) = [0x25, c]"

fun piece_args :: "piece \<Rightarrow> printf_arg list" where
  "piece_args (IntArg i) = [ArgInt i]"
| "piece_args (StrArg s) = [ArgStr s]"
| "piece_args _ = []"

fun piece_output :: "piece \<Rightarrow> syscall list" where
  "piece_output (Plain c) = [SysPutchar c]"
| "piece_output (IntArg i) = [SysPrint (decimal i)]"
| "piece_output (StrArg s) = [SysPrint (cstr s)]"
| "piece_output (Escaped c) = [SysPutchar c]"

fun piece_ok :: "piece \<Rightarrow> bool" where
  "piece_ok (Plain c) \<longleftrightarrow> c \<noteq> 0 \<and> c \<noteq> 0x25"
| "piece_ok (IntArg i) \<longleftrightarrow> - (2 ^ 31) \<le> i \<and> i < 2 ^ 31"
| "piece_ok (StrArg s) \<longleftrightarrow> 0 \<in> set s"
| "piece_ok (Escaped c) \<longleftrightarrow> c \<noteq> 0 \<and> c \<noteq> 0x69 \<and> c \<noteq> 0x73"

lemma printf_plain: "c \<noteq> 0 \<Longrightarrow> c \<noteq> 0x25 \<Longrightarrow> printf_loop (c # p) ap buf out = printf_loop p ap buf (putchar c out)"
  by (cases p) auto

lemma printf_end: "printf_loop (0 # t) ap buf out = Some (0, buf, out)"
  by (cases t) auto

lemma printf_pieces:
  assumes "\<forall>p \<in> set ps. piece_ok p" "length buf = 12"
  shows "\<exists>buf'. printf_loop (concat (map piece_format ps) @ 0 # t) (concat (map piece_args ps) @ more) buf out =
    Some (0, buf', out @ concat (map piece_output ps)) \<and> length buf' = 12"
  using assms
proof (induction ps arbitrary: buf out)
  case Nil
  then show ?case by (simp add: printf_end)
next
  case (Cons p ps)
  have ih: "\<exists>buf'. printf_loop (concat (map piece_format ps) @ 0 # t) (concat (map piece_args ps) @ more) b o1 =
    Some (0, buf', o1 @ concat (map piece_output ps)) \<and> length buf' = 12" if "length b = 12" for b o1
    using Cons.IH [OF _ that] Cons.prems(1) by simp
  show ?case
  proof (cases p)
    case (IntArg i)
    obtain b1 loc where "itoa buf i = Some (b1, int loc)" "length b1 = 12" "cstr (drop loc b1) = decimal i"
      by (rule itoa_ok [OF Cons.prems(2), of i]) (use Cons.prems(1) IntArg in auto)
    then show ?thesis using ih [of b1 "out @ [SysPrint (decimal i)]"] IntArg by simp
  qed (use Cons.prems ih [of buf "out @ piece_output p"] in \<open>auto simp: printf_plain putchar_def\<close>)
qed

section \<open>Properties\<close>

text \<open>
  C30. \<open>itoa\<close> never leaves its 12-byte buffer: for every \<open>int\<close>, whatever the buffer held, it returns a
  position in the buffer at which the decimal notation of the number stands, null-terminated; reading
  that notation back gives the number.
\<close>
theorem itoa_correct:
  assumes "length buf = 12" "- (2 ^ 31) \<le> i" "i < 2 ^ 31"
  shows "\<exists>buf' loc. itoa buf i = Some (buf', int loc) \<and> length buf' = 12 \<and> loc < 12 \<and>
    cstr (drop loc buf') = decimal i \<and> read_decimal (cstr (drop loc buf')) = i"
proof -
  obtain buf' loc where o: "itoa buf i = Some (buf', int loc)" "length buf' = 12" "cstr (drop loc buf') = decimal i"
    by (rule itoa_ok [OF assms])
  have "decimal i \<noteq> []" by (simp add: decimal_def digits_nonempty)
  then have "loc < 12" using o(2,3) by (cases "12 \<le> loc") (auto simp: cstr_def)
  then show ?thesis using o read_decimal by auto
qed

theorem itoa_correct_witness:
  "\<exists>buf' loc. itoa (replicate 12 7) (- 2147483648) = Some (buf', int loc) \<and>
     cstr (drop loc buf') = [0x2D, 0x32, 0x31, 0x34, 0x37, 0x34, 0x38, 0x33, 0x36, 0x34, 0x38]"
proof -
  have "decimal (- 2147483648) = [0x2D, 0x32, 0x31, 0x34, 0x37, 0x34, 0x38, 0x33, 0x36, 0x34, 0x38]"
    by (simp add: decimal_def digits.simps)
  then show ?thesis using itoa_correct [of "replicate 12 7" "- 2147483648"] by auto
qed

text \<open>
  C31. \<open>printf\<close> renders its format: for a format made of plain characters, \<open>%i\<close>, \<open>%s\<close> and escaped
  characters, with the arguments these ask for, it returns 0 after the system calls of the pieces in
  order, an integer as the string of its decimal notation. A format that ends in \<open>%\<close> is read past its
  end.
\<close>
theorem printf_renders:
  assumes "\<forall>p \<in> set ps. piece_ok p" "length buf = 12"
  shows "(\<exists>buf'. printf (concat (map piece_format ps) @ 0 # t) (concat (map piece_args ps)) buf [] =
      Some (0, buf', concat (map piece_output ps)) \<and> length buf' = 12) \<and>
    printf (concat (map piece_format ps) @ [0x25, 0]) (concat (map piece_args ps)) buf [] = None"
proof
  show "\<exists>buf'. printf (concat (map piece_format ps) @ 0 # t) (concat (map piece_args ps)) buf [] =
      Some (0, buf', concat (map piece_output ps)) \<and> length buf' = 12"
    using printf_pieces [OF assms, of t "[]" "[]"] by (simp add: printf_def)
  have "printf_loop (concat (map piece_format ps) @ [0x25, 0]) (concat (map piece_args ps)) b out = None"
    if "length b = 12" for b out
    using assms(1) that
  proof (induction ps arbitrary: b out)
    case (Cons p ps)
    show ?case
    proof (cases p)
      case (IntArg i)
      obtain b1 loc where "itoa b i = Some (b1, int loc)" "length b1 = 12"
        by (rule itoa_ok [OF Cons.prems(2), of i]) (use Cons.prems(1) IntArg in auto)
      then show ?thesis using Cons IntArg by simp
    qed (use Cons in \<open>auto simp: printf_plain\<close>)
  qed simp
  then show "printf (concat (map piece_format ps) @ [0x25, 0]) (concat (map piece_args ps)) buf [] = None"
    using assms(2) by (simp add: printf_def)
qed

theorem printf_renders_witness:
  "\<exists>buf'. printf (lit ''x = %i, %s%%'') [ArgInt (- 7), ArgStr (lit ''ok'')] (replicate 12 0) [] =
     Some (0, buf', [SysPutchar 0x78, SysPutchar 0x20, SysPutchar 0x3D, SysPutchar 0x20, SysPrint [0x2D, 0x37],
       SysPutchar 0x2C, SysPutchar 0x20, SysPrint [0x6F, 0x6B], SysPutchar 0x25])"
  using printf_renders [of "[Plain 0x78, Plain 0x20, Plain 0x3D, Plain 0x20, IntArg (- 7), Plain 0x2C, Plain 0x20,
      StrArg (lit ''ok''), Escaped 0x25]" "replicate 12 0" "[]"]
  by (auto simp: lit_def decimal_def digits.simps)

end
