(* ===== verification/Shell.thy ===== *)
theory Shell
  imports Stdlib
begin

unbundle bit_operations_syntax

text \<open>
  Reading and splitting commands in user space: \<open>strtok\<close> of \<open>src/programs/stdlib/src/string.c\<close>, the command
  functions of \<open>src/programs/stdlib/src/plumos.c\<close>, and the loop of the shell. A pointer into a string is
  the buffer with a position in it. What the kernel answers to the calls for a key, for memory and to run a
  command is a parameter.
\<close>

section \<open>strtok\<close>

type_synonym cursor = "(u8 list \<times> nat) option"

text \<open>The inner loop: the index of the delimiter equal to \<open>c\<close>, the number of delimiters if there is none.\<close>

fun find_delimiter :: "u8 \<Rightarrow> u8 list \<Rightarrow> nat \<Rightarrow> nat" where
  "find_delimiter c [] i = i"
| "find_delimiter c (d # delimiters) i = (if c = d then i else find_delimiter c delimiters (i + 1))"

function skip_delimiters :: "u8 list \<Rightarrow> u8 list \<Rightarrow> nat \<Rightarrow> nat option" where
  "skip_delimiters delimiters buf p_start =
     (if p_start < length buf
      then if find_delimiter (buf ! p_start) delimiters 0 = length delimiters then Some p_start
           else skip_delimiters delimiters buf (p_start + 1)
      else None)"
  by pat_completeness auto
termination by (relation "measure (\<lambda>(d, b, p). length b - p)") auto

function scan_token :: "u8 list \<Rightarrow> u8 list \<Rightarrow> nat \<Rightarrow> (u8 list \<times> nat) option" where
  "scan_token delimiters buf sp =
     (if sp < length buf
      then if buf ! sp = 0 then Some (buf, sp)
           else if find_delimiter (buf ! sp) delimiters 0 < length delimiters then Some (buf[sp := 0], sp + 1)
           else scan_token delimiters buf (sp + 1)
      else None)"
  by pat_completeness auto
termination by (relation "measure (\<lambda>(d, b, p). length b - p)") auto

declare skip_delimiters.simps [simp del] scan_token.simps [simp del]

text \<open>The result is the token and the global \<open>sp\<close>.\<close>

definition strtok :: "cursor \<Rightarrow> u8 list \<Rightarrow> cursor \<Rightarrow> (cursor \<times> cursor) option" where
  "strtok str delimiters sp =
     do {
       len \<leftarrow> user_strlen delimiters;
       let delimiters = take (nat len) delimiters;
       case (if sp = None then str else sp) of
         None \<Rightarrow> Some (None, None)
       | Some (buf, p) \<Rightarrow> do {
           p_start \<leftarrow> skip_delimiters delimiters buf p;
           c \<leftarrow> arr_get buf (int p_start);
           if c = 0 then Some (None, None)
           else do {
             (buf, q) \<leftarrow> scan_token delimiters buf p_start;
             Some (Some (buf, p_start), Some (buf, q))
           }
         }
     }"

section \<open>Commands\<close>

text \<open>
  \<open>memory i\<close> says whether request \<open>i\<close> for memory succeeds; the kernel clears the memory it gives. The
  linked list of arguments is a list. \<open>scommand\<close> is the uninitialised array on the stack.
\<close>

partial_function (option) parse_arguments ::
  "(nat \<Rightarrow> bool) \<Rightarrow> nat \<Rightarrow> u8 list list \<Rightarrow> cursor \<Rightarrow> cursor \<Rightarrow> (u8 list list \<times> cursor) option" where
  "parse_arguments memory i arguments token sp =
     (case token of
        None \<Rightarrow> Some (arguments, sp)
      | Some (buf, p) \<Rightarrow>
          if memory i then do {
            argument \<leftarrow> user_strncpy (replicate 512 0) (drop p buf) 512;
            (token, sp) \<leftarrow> strtok None (lit '' '') sp;
            parse_arguments memory (i + 1) (arguments @ [argument]) token sp
          } else Some (arguments, sp))"

definition plumos_parse_command ::
  "(nat \<Rightarrow> bool) \<Rightarrow> u8 list \<Rightarrow> u8 list \<Rightarrow> int \<Rightarrow> cursor \<Rightarrow> (u8 list list \<times> cursor) option" where
  "plumos_parse_command memory scommand command max_len sp =
     (if max_len \<ge> 1025 then Some ([], sp)
      else do {
        scommand \<leftarrow> user_strncpy scommand command 1025;
        (token, sp) \<leftarrow> strtok (Some (scommand, 0)) (lit '' '') sp;
        case token of
          None \<Rightarrow> Some ([], sp)
        | Some (buf, p) \<Rightarrow>
            if memory 0 then do {
              argument \<leftarrow> user_strncpy (replicate 512 0) (drop p buf) 512;
              (token, sp) \<leftarrow> strtok None (lit '' '') sp;
              parse_arguments memory 1 [argument] token sp
            } else Some ([], sp)
      })"

text \<open>\<open>plumos_system\<close> is the entry to the kernel.\<close>

definition plumos_system_run ::
  "(u8 list list \<Rightarrow> int) \<Rightarrow> (nat \<Rightarrow> bool) \<Rightarrow> u8 list \<Rightarrow> u8 list \<Rightarrow> u8 list \<Rightarrow> cursor \<Rightarrow> (int \<times> cursor) option" where
  "plumos_system_run plumos_system memory buf scommand command sp =
     do {
       buf \<leftarrow> user_strncpy buf command 1024;
       (root_command_argument, sp) \<leftarrow> plumos_parse_command memory scommand buf 1024 sp;
       if root_command_argument = [] then Some (- 1, sp) else Some (plumos_system root_command_argument, sp)
     }"

section \<open>Reading a line\<close>

definition BACKSPACE_KEY :: u8 where "BACKSPACE_KEY = 0x08"
definition CARRIEGE_RETURN_KEY :: u8 where "CARRIEGE_RETURN_KEY = 0x0D"

text \<open>\<open>keys k\<close> is what the kernel answers to request \<open>k\<close> for a key, 0 when none was pressed.\<close>

partial_function (option) plumos_getkeyblock :: "(nat \<Rightarrow> u8) \<Rightarrow> nat \<Rightarrow> (u8 \<times> nat) option" where
  "plumos_getkeyblock keys k = (if keys k = 0 then plumos_getkeyblock keys (k + 1) else Some (keys k, k + 1))"

partial_function (option) readline_loop ::
  "(nat \<Rightarrow> u8) \<Rightarrow> bool \<Rightarrow> int \<Rightarrow> u8 list \<Rightarrow> int \<Rightarrow> nat \<Rightarrow> syscall list \<Rightarrow> (u8 list \<times> nat \<times> syscall list) option" where
  "readline_loop keys echo max_len out i k calls =
     (if i < max_len - 1 then do {
        (key, k) \<leftarrow> plumos_getkeyblock keys k;
        if key = CARRIEGE_RETURN_KEY then do { out \<leftarrow> arr_set out i 0; Some (out, k, calls) }
        else do {
          let calls = (if echo then calls @ [SysPutchar key] else calls);
          if key = BACKSPACE_KEY \<and> i \<ge> 1 then do {
            out \<leftarrow> arr_set out (i - 1) 0;
            readline_loop keys echo max_len out (i - 2 + 1) k calls
          } else do {
            out \<leftarrow> arr_set out i key;
            readline_loop keys echo max_len out (i + 1) k calls
          }
        }
      } else do { out \<leftarrow> arr_set out i 0; Some (out, k, calls) })"

definition plumos_terminal_readline ::
  "(nat \<Rightarrow> u8) \<Rightarrow> u8 list \<Rightarrow> int \<Rightarrow> bool \<Rightarrow> nat \<Rightarrow> syscall list \<Rightarrow> (u8 list \<times> nat \<times> syscall list) option" where
  "plumos_terminal_readline keys out max_len output_while_typing k calls =
     readline_loop keys output_while_typing max_len out 0 k calls"

text \<open>One round of the loop of the shell; \<open>buf\<close>, \<open>cbuf\<close> and \<open>scommand\<close> are arrays on the stack.\<close>

definition shell_round ::
  "(nat \<Rightarrow> u8) \<Rightarrow> (u8 list list \<Rightarrow> int) \<Rightarrow> (nat \<Rightarrow> bool) \<Rightarrow> u8 list \<Rightarrow> u8 list \<Rightarrow> u8 list \<Rightarrow>
   nat \<Rightarrow> cursor \<Rightarrow> syscall list \<Rightarrow> (nat \<times> cursor \<times> syscall list) option" where
  "shell_round keys plumos_system memory buf cbuf scommand k sp calls =
     do {
       let calls = calls @ [SysPrint (cstr (lit ''> ''))];
       (buf, k, calls) \<leftarrow> plumos_terminal_readline keys buf 1024 True k calls;
       let calls = calls @ [SysPrint [0x0A]];
       (res, sp) \<leftarrow> plumos_system_run plumos_system memory cbuf scommand buf sp;
       Some (k, sp, calls @ [SysPrint [0x0A]])
     }"

declare parse_arguments.simps [code] plumos_getkeyblock.simps [code] readline_loop.simps [code]

section \<open>Words\<close>

text \<open>The words of a string, separated by any number of delimiters.\<close>

function words :: "u8 list \<Rightarrow> u8 list \<Rightarrow> u8 list list" where
  "words ds cs =
     (let r = dropWhile (\<lambda>c. c \<in> set ds) cs in
      if r = [] then [] else takeWhile (\<lambda>c. c \<notin> set ds) r # words ds (tl (dropWhile (\<lambda>c. c \<notin> set ds) r)))"
  by pat_completeness auto
termination
proof (relation "measure (\<lambda>(ds, cs). length cs)")
  fix ds cs r :: "u8 list" assume r: "r = dropWhile (\<lambda>c. c \<in> set ds) cs" "r \<noteq> []"
  have "length (tl (dropWhile (\<lambda>c. c \<notin> set ds) r)) \<le> length r - 1"
    unfolding length_tl by (intro diff_le_mono length_dropWhile_le)
  also have "\<dots> < length r" using r(2) by (cases r) simp_all
  also have "length r \<le> length cs" unfolding r(1) by (rule length_dropWhile_le)
  finally show "((ds, tl (dropWhile (\<lambda>c. c \<notin> set ds) r)), ds, cs) \<in> measure (\<lambda>(ds, cs). length cs)" by simp
qed simp

declare words.simps [simp del]

lemma find_delimiter_shift: "find_delimiter c ds (Suc i) = Suc (find_delimiter c ds i)"
  by (induction ds arbitrary: i) auto

lemma find_delimiter: "find_delimiter c ds 0 < length ds \<longleftrightarrow> c \<in> set ds" "find_delimiter c ds 0 = length ds \<longleftrightarrow> c \<notin> set ds"
  by (induction ds) (auto simp: find_delimiter_shift)

lemma skip_ok:
  "0 \<notin> set ds \<Longrightarrow> skip_delimiters ds (pre @ rest @ 0 # t) (length pre) =
     Some (length pre + (length rest - length (dropWhile (\<lambda>c. c \<in> set ds) rest)))"
proof (induction rest arbitrary: pre)
  case Nil
  then show ?case by (subst skip_delimiters.simps) (simp add: find_delimiter)
next
  case (Cons c rest)
  have "skip_delimiters ds ((pre @ [c]) @ rest @ 0 # t) (length (pre @ [c])) =
     Some (length (pre @ [c]) + (length rest - length (dropWhile (\<lambda>c. c \<in> set ds) rest)))"
    using Cons by blast
  then show ?case
    using length_dropWhile_le [of "\<lambda>c. c \<in> set ds" rest]
    by (subst skip_delimiters.simps) (auto simp: find_delimiter nth_append Suc_diff_le)
qed

lemma scan_ok:
  assumes "0 \<notin> set w" "set w \<inter> set ds = {}"
  shows "scan_token ds (pre @ w @ 0 # t) (length pre) = Some (pre @ w @ 0 # t, length (pre @ w))"
    "d \<in> set ds \<Longrightarrow> d \<noteq> 0 \<Longrightarrow> scan_token ds (pre @ w @ d # u) (length pre) = Some (pre @ w @ 0 # u, length (pre @ w) + 1)"
  using assms
proof (induction w arbitrary: pre)
  case Nil
  { case 1 then show ?case by (subst scan_token.simps) simp }
  { case 2 then show ?case by (subst scan_token.simps) (simp add: find_delimiter) }
next
  case (Cons c w)
  { case 1
    then show ?case using Cons(1) [of "pre @ [c]"] by (subst scan_token.simps) (auto simp: find_delimiter) }
  { case 2
    then show ?case using Cons(2) [of "pre @ [c]"] by (subst scan_token.simps) (auto simp: find_delimiter) }
qed

text \<open>One call on a cursor: the first word of what is left, and a cursor to the rest.\<close>

lemma strtok_next:
  assumes "0 \<notin> set rest" "0 \<in> set dl" "ds = cstr dl" "r = dropWhile (\<lambda>c. c \<in> set ds) rest"
    "(if sp = None then str else sp) = Some (pre @ rest @ 0 # t, length pre)"
  shows "r = [] \<Longrightarrow> strtok str dl sp = Some (None, None)"
    "r \<noteq> [] \<Longrightarrow> \<exists>buf p pre' rest' t'. strtok str dl sp = Some (Some (buf, p), Some (buf, length pre')) \<and>
       buf = pre' @ rest' @ 0 # t' \<and> length buf = length (pre @ rest @ 0 # t) \<and>
       rest' = tl (dropWhile (\<lambda>c. c \<notin> set ds) r) \<and>
       cstr (drop p buf) = takeWhile (\<lambda>c. c \<notin> set ds) r \<and> 0 \<in> set (drop p buf) \<and> 0 \<notin> set rest'"
proof -
  have ds: "take (nat (int (length ds))) dl = ds" "0 \<notin> set ds" "user_strlen dl = Some (int (length ds))"
  proof -
    obtain u where "dl = ds @ 0 # u" using cstr_terminated [OF assms(2)] assms(3) by blast
    then show "take (nat (int (length ds))) dl = ds" by simp
    show "0 \<notin> set ds" using cstr_nonzero [of 0 dl] assms(3) by auto
    show "user_strlen dl = Some (int (length ds))" using assms(2,3) by (simp add: user_strlen_def strlen_cstr)
  qed
  obtain q where q: "rest = q @ r" using assms(4) by (metis takeWhile_dropWhile_id)
  let ?n = "length pre + (length rest - length r)"
  have sk: "skip_delimiters ds (pre @ rest @ 0 # t) (length pre) = Some ?n"
    using skip_ok [OF ds(2), of pre rest t] assms(4) by simp
  have n: "?n = length (pre @ q)" using q by simp
  have b: "pre @ rest @ 0 # t = (pre @ q) @ r @ 0 # t" using q by simp
  have at: "arr_get (pre @ rest @ 0 # t) (int ?n) = Some (hd (r @ [0]))"
    unfolding b n by (subst arr_get_nat) (auto simp: nth_append hd_append hd_conv_nth)
  { assume "r = []"
    then show "strtok str dl sp = Some (None, None)"
      using ds assms(5) sk at by (simp add: strtok_def) }
  assume r: "r \<noteq> []"
  let ?w = "takeWhile (\<lambda>c. c \<notin> set ds) r" and ?u = "dropWhile (\<lambda>c. c \<notin> set ds) r"
  have wu: "r = ?w @ ?u" by simp
  have r0: "0 \<notin> set r" using assms(1) q by simp
  have w: "0 \<notin> set ?w" "set ?w \<inter> set ds = {}" using r0 by (auto dest: set_takeWhileD)
  have hd: "hd (r @ [0]) \<noteq> 0" using r r0 by (cases r) auto
  have st: "strtok str dl sp = (case scan_token ds (pre @ rest @ 0 # t) ?n of None \<Rightarrow> None
      | Some (buf, q) \<Rightarrow> Some (Some (buf, ?n), Some (buf, q)))"
    using ds assms(5) sk at hd by (simp add: strtok_def split: option.split)
  show "\<exists>buf p pre' rest' t'. strtok str dl sp = Some (Some (buf, p), Some (buf, length pre')) \<and>
       buf = pre' @ rest' @ 0 # t' \<and> length buf = length (pre @ rest @ 0 # t) \<and>
       rest' = tl ?u \<and> cstr (drop p buf) = ?w \<and> 0 \<in> set (drop p buf) \<and> 0 \<notin> set rest'"
  proof (cases ?u)
    case Nil
    then have e: "r = ?w" by (metis append_Nil2 wu)
    have "scan_token ds (pre @ rest @ 0 # t) ?n = Some (pre @ rest @ 0 # t, length (pre @ rest))"
      using scan_ok(1) [OF w, of "pre @ q" t] unfolding b n e [symmetric] using q by simp
    moreover have "cstr (drop ?n (pre @ rest @ 0 # t)) = ?w"
      unfolding b n using cstr_append_no0 [OF w(1), of "0 # t"] e by simp
    moreover have "0 \<in> set (drop ?n (pre @ rest @ 0 # t))" unfolding b n by simp
    ultimately show ?thesis using st Nil
      by (intro exI [of _ "pre @ rest @ 0 # t"] exI [of _ ?n] exI [of _ "pre @ rest"] exI [of _ "[]"] exI [of _ t])
        (simp del: dropWhile_eq_Nil_conv)
  next
    case (Cons d u)
    then have d: "d \<in> set ds" by (metis dropWhile_eq_Cons_conv)
    then have d0: "d \<noteq> 0" using ds(2) by metis
    have ru: "r = ?w @ d # u" using wu Cons by simp
    have b2: "pre @ rest @ 0 # t = (pre @ q) @ ?w @ d # (u @ 0 # t)" using b ru by simp
    let ?b = "(pre @ q) @ ?w @ 0 # (u @ 0 # t)"
    have "scan_token ds (pre @ rest @ 0 # t) ?n = Some (?b, length ((pre @ q) @ ?w) + 1)"
      unfolding b2 n by (rule scan_ok(2) [OF w d d0])
    moreover have "length ((pre @ q) @ ?w) + 1 = length (pre @ q @ ?w @ [0])" by simp
    moreover have "cstr (drop ?n ?b) = ?w" unfolding n using cstr_append_no0 [OF w(1), of "0 # u @ 0 # t"] by simp
    moreover have "0 \<in> set (drop ?n ?b)" unfolding n by simp
    moreover have "length ?b = length (pre @ rest @ 0 # t)" unfolding b2 by simp
    moreover have "0 \<notin> set u" using r0 ru by (metis UnCI list.set_intros(2) set_append)
    ultimately show ?thesis using st Cons
      by (intro exI [of _ ?b] exI [of _ ?n] exI [of _ "pre @ q @ ?w @ [0]"] exI [of _ u] exI [of _ t]) simp
  qed
qed

section \<open>Parsing a command\<close>

lemma copy_argument:
  assumes "0 \<in> set s"
  obtains a where "user_strncpy (replicate 512 0) s 512 = Some a" "length a = 512" "cstr a = take 511 (cstr s)"
proof -
  let ?n = "min (nat (512 - 1)) (length (cstr s))"
  let ?a = "take ?n (cstr s) @ 0 # drop (Suc ?n) (replicate 512 0)"
  have "strncpy (replicate 512 0) s 512 = Some ?a"
    by (rule strncpy_cstr) (use assms in simp_all)
  moreover have "0 \<notin> set (take ?n (cstr s))" using cstr_nonzero [of 0 s] by (auto dest: in_set_takeD)
  then have "cstr ?a = take 511 (cstr s)" by (subst cstr_append_no0) (simp_all add: min_def)
  moreover have "length ?a = 512" by simp
  ultimately show thesis using that [of ?a] by (simp add: user_strncpy_def)
qed

lemma space: "cstr (lit '' '') = [0x20]" "0 \<in> set (lit '' '')"
  by (simp_all add: lit_def)

lemma parse_arguments_ok:
  assumes "0 \<notin> set rest" "\<forall>k. memory k"
  shows "\<exists>token sp args. strtok None (lit '' '') (Some (pre @ rest @ 0 # t, length pre)) = Some (token, sp) \<and>
    parse_arguments memory i acc token sp = Some (acc @ args, None) \<and>
    map cstr args = map (take 511) (words [0x20] rest) \<and> (\<forall>a \<in> set args. length a = 512)"
  using assms(1)
proof (induction "[0x20 :: u8]" rest arbitrary: pre t i acc rule: words.induct)
  case (1 rest)
  let ?sp = "Some (pre @ rest @ 0 # t, length pre)"
  let ?r = "dropWhile (\<lambda>c. c \<in> set [0x20]) rest"
  have c: "(if ?sp = None then None else ?sp) = Some (pre @ rest @ 0 # t, length pre)" by simp
  note nx = strtok_next [OF 1(2) space(2) space(1) [symmetric] refl c]
  show ?case
  proof (cases "?r = []")
    case True
    have "words [0x20] rest = []" using True by (subst words.simps) (simp add: Let_def del: dropWhile_eq_Nil_conv)
    then show ?thesis using nx(1) [OF True] by (simp add: parse_arguments.simps)
  next
    case False
    let ?w = "takeWhile (\<lambda>c. c \<notin> set [0x20]) ?r"
    obtain buf p pre' rest' t' where n: "strtok None (lit '' '') ?sp = Some (Some (buf, p), Some (buf, length pre'))"
      "buf = pre' @ rest' @ 0 # t'" "rest' = tl (dropWhile (\<lambda>c. c \<notin> set [0x20]) ?r)"
      "cstr (drop p buf) = ?w" "0 \<in> set (drop p buf)" "0 \<notin> set rest'"
      using nx(2) [OF False] by blast
    obtain a where a: "user_strncpy (replicate 512 0) (drop p buf) 512 = Some a" "length a = 512" "cstr a = take 511 ?w"
      by (rule copy_argument [OF n(5)]) (use n(4) in auto)
    obtain token sp args where ih: "strtok None (lit '' '') (Some (pre' @ rest' @ 0 # t', length pre')) = Some (token, sp)"
      "parse_arguments memory (i + 1) (acc @ [a]) token sp = Some ((acc @ [a]) @ args, None)"
      "map cstr args = map (take 511) (words [0x20] rest')" "\<forall>a \<in> set args. length a = 512"
      using 1(1) [OF refl False, folded n(3), OF n(6)] by blast
    have "words [0x20] rest = ?w # words [0x20] rest'"
      using False n(3) by (subst words.simps) (simp only: Let_def if_False)
    moreover have "parse_arguments memory i acc (Some (buf, p)) (Some (buf, length pre')) = Some (acc @ a # args, None)"
      using a(1) ih(1,2) n(2) assms(2) by (subst parse_arguments.simps) simp
    ultimately show ?thesis using n(1) a(2,3) ih(3,4)
      by (intro exI [of _ "Some (buf, p)"] exI [of _ "Some (buf, length pre')"] exI [of _ "a # args"]) simp
  qed
qed

lemma parse_command_ok:
  assumes "0 \<in> set command" "length scommand = 1025" "max_len < 1025" "\<forall>k. memory k"
  shows "\<exists>args. plumos_parse_command memory scommand command max_len None = Some (args, None) \<and>
    map cstr args = map (take 511) (words [0x20] (take 1024 (cstr command))) \<and> (\<forall>a \<in> set args. length a = 512)"
proof -
  let ?c = "take 1024 (cstr command)"
  let ?n = "min (nat (1025 - 1)) (length (cstr command))"
  have n: "?n < length scommand" "take ?n (cstr command) = ?c" using assms(2) by (simp_all add: min_def)
  have sc: "user_strncpy scommand command 1025 = Some ([] @ ?c @ 0 # drop (Suc ?n) scommand)"
    unfolding user_strncpy_def n(2) [symmetric] append_Nil by (rule strncpy_cstr) (use assms(1) n(1) in simp_all)
  let ?s = "[] @ ?c @ 0 # drop (Suc ?n) scommand"
  have c0: "0 \<notin> set ?c" using cstr_nonzero [of 0 command] by (auto dest: in_set_takeD)
  obtain token sp args where p: "strtok None (lit '' '') (Some (?s, length ([] :: u8 list))) = Some (token, sp)"
    "parse_arguments memory 0 [] token sp = Some ([] @ args, None)"
    "map cstr args = map (take 511) (words [0x20] ?c)" "\<forall>a \<in> set args. length a = 512"
    using parse_arguments_ok [OF c0 assms(4), of "[]" "drop (Suc ?n) scommand" 0 "[]"] by blast
  have "strtok (Some (?s, 0)) (lit '' '') None = Some (token, sp)" using p(1) by (simp add: strtok_def)
  then have "plumos_parse_command memory scommand command max_len None =
      (case token of None \<Rightarrow> Some ([], sp) | Some (buf, p) \<Rightarrow>
        if memory 0 then do {
          argument \<leftarrow> user_strncpy (replicate 512 0) (drop p buf) 512;
          (token, sp) \<leftarrow> strtok None (lit '' '') sp;
          parse_arguments memory 1 [argument] token sp
        } else Some ([], sp))"
    using assms(3) sc by (simp add: plumos_parse_command_def)
  also have "\<dots> = parse_arguments memory 0 [] token sp"
    by (subst (2) parse_arguments.simps) (simp split: option.split)
  finally show ?thesis using p(2-4) by auto
qed

section \<open>Reading a line\<close>

text \<open>The keys \<open>ks\<close> arrive, one after the other with any number of empty answers before each, from request
  \<open>k\<close> up to request \<open>k'\<close>.\<close>

fun arrives :: "(nat \<Rightarrow> u8) \<Rightarrow> nat \<Rightarrow> u8 list \<Rightarrow> nat \<Rightarrow> bool" where
  "arrives keys k [] k' \<longleftrightarrow> k' = k"
| "arrives keys k (c # cs) k' \<longleftrightarrow>
     (\<exists>m. (\<forall>j < m. keys (k + j) = 0) \<and> keys (k + m) = c \<and> c \<noteq> 0 \<and> arrives keys (k + m + 1) cs k')"

lemma arrives_now: "keys k = c \<Longrightarrow> c \<noteq> 0 \<Longrightarrow> arrives keys (Suc k) cs k' \<Longrightarrow> arrives keys k (c # cs) k'"
  by (auto intro!: exI [of _ 0])

lemma arrives_wait:
  assumes "keys k = 0" "arrives keys (Suc k) (c # cs) k'"
  shows "arrives keys k (c # cs) k'"
proof -
  obtain m where "\<forall>j < m. keys (Suc k + j) = 0" "keys (Suc k + m) = c" "c \<noteq> 0" "arrives keys (Suc k + m + 1) cs k'"
    using assms(2) by auto
  then show ?thesis using assms(1) by (auto simp: less_Suc_eq_0_disj intro!: exI [of _ "Suc m"])
qed

text \<open>Editing: a backspace takes back the last key, one on the empty line is an ordinary key.\<close>

definition edit_key :: "u8 list \<Rightarrow> u8 \<Rightarrow> u8 list" where
  "edit_key line c = (if c = BACKSPACE_KEY \<and> line \<noteq> [] then butlast line else line @ [c])"

definition edited :: "u8 list \<Rightarrow> u8 list" where
  "edited ks = foldl edit_key [] ks"

lemma getkey_ok:
  "(\<forall>j < m. keys (k + j) = 0) \<Longrightarrow> keys (k + m) \<noteq> 0 \<Longrightarrow> plumos_getkeyblock keys k = Some (keys (k + m), k + m + 1)"
proof (induction m arbitrary: k)
  case 0
  then show ?case by (simp add: plumos_getkeyblock.simps)
next
  case (Suc m)
  have "plumos_getkeyblock keys (Suc k) = Some (keys (Suc k + m), Suc k + m + 1)"
    using Suc.prems by (intro Suc.IH) (auto simp: All_less_Suc2)
  moreover have "keys k = 0" using Suc.prems(1) by auto
  ultimately show ?case by (subst plumos_getkeyblock.simps) simp
qed

lemma readline_ok:
  assumes "arrives keys k (ks @ [CARRIEGE_RETURN_KEY]) k'" "CARRIEGE_RETURN_KEY \<notin> set ks"
    "\<forall>n \<le> length ks. int (length (foldl edit_key line (take n ks))) < max_len - 1"
    "take (length line) out = line" "length line \<le> length out" "max_len \<le> int (length out)"
  shows "\<exists>out'. readline_loop keys echo max_len out (int (length line)) k calls =
      Some (out', k', calls @ (if echo then map SysPutchar ks else [])) \<and> length out' = length out \<and>
    take (length (foldl edit_key line ks) + 1) out' = foldl edit_key line ks @ [0]"
  using assms
proof (induction ks arbitrary: line out k calls)
  case Nil
  let ?l = "length line"
  obtain m where m: "\<forall>j < m. keys (k + j) = 0" "keys (k + m) = CARRIEGE_RETURN_KEY" "k' = k + m + 1"
    using Nil.prems(1) by auto
  have g: "plumos_getkeyblock keys k = Some (CARRIEGE_RETURN_KEY, k')"
    using getkey_ok [OF m(1)] m(2,3) by (simp add: CARRIEGE_RETURN_KEY_def)
  have l: "int ?l < max_len - 1" "?l < length out" using Nil.prems(3,6) by auto
  have "readline_loop keys echo max_len out (int ?l) k calls = Some (out[?l := 0], k', calls)"
    using g l by (subst readline_loop.simps) simp
  moreover have "take (?l + 1) (out[?l := 0]) = line @ [0]"
    using l(2) Nil.prems(4) by (simp add: take_Suc_conv_app_nth)
  ultimately show ?case by simp
next
  case (Cons c ks)
  let ?l = "length line"
  obtain m where m: "\<forall>j < m. keys (k + j) = 0" "keys (k + m) = c" "c \<noteq> 0"
    "arrives keys (k + m + 1) (ks @ [CARRIEGE_RETURN_KEY]) k'"
    using Cons.prems(1) by auto
  have g: "plumos_getkeyblock keys k = Some (c, k + m + 1)" using getkey_ok [OF m(1)] m(2,3) by simp
  have l: "int ?l < max_len - 1" "?l < length out" using Cons.prems(3) [rule_format, of 0] Cons.prems(6) by auto
  have cr: "c \<noteq> CARRIEGE_RETURN_KEY" "CARRIEGE_RETURN_KEY \<notin> set ks" using Cons.prems(2) by auto
  have pre: "\<forall>n \<le> length ks. int (length (foldl edit_key (edit_key line c) (take n ks))) < max_len - 1"
  proof (intro allI impI)
    fix n assume "n \<le> length ks"
    then show "int (length (foldl edit_key (edit_key line c) (take n ks))) < max_len - 1"
      using Cons.prems(3) [rule_format, of "Suc n"] by simp
  qed
  let ?calls = "if echo then calls @ [SysPutchar c] else calls"
  let ?out = "if c = BACKSPACE_KEY \<and> line \<noteq> [] then out[?l - 1 := 0] else out[?l := c]"
  have step: "readline_loop keys echo max_len out (int ?l) k calls =
      readline_loop keys echo max_len ?out (int (length (edit_key line c))) (k + m + 1) ?calls"
  proof (cases "c = BACKSPACE_KEY \<and> line \<noteq> []")
    case True
    then obtain j where j: "?l = Suc j" by (cases line) auto
    then have i: "(1 \<le> int ?l) = True" "arr_set out (int ?l - 1) 0 = Some (out[j := 0])" "int ?l - 2 + 1 = int j" "?l - 1 = j"
      using l(2) by (simp_all add: arr_set_def)
    have e: "length (edit_key line c) = j" using True j by (simp add: edit_key_def)
    have b: "(c = BACKSPACE_KEY) = True" "(line \<noteq> []) = True" using True by simp_all
    show ?thesis unfolding e i(4)
      by (subst readline_loop.simps)
        (simp only: l(1) g cr(1) b i(1-3) if_True if_False Option.bind.bind_lunit prod.case Let_def simp_thms)
  next
    case False
    then have "\<not> (c = BACKSPACE_KEY \<and> int ?l \<ge> 1)" by (cases line) auto
    then show ?thesis using False g l cr(1) by (subst readline_loop.simps) (auto simp: Let_def edit_key_def add.commute)
  qed
  have tk: "take (length (edit_key line c)) ?out = edit_key line c"
  proof (cases "c = BACKSPACE_KEY \<and> line \<noteq> []")
    case True
    have "take (?l - 1) out = butlast line" using Cons.prems(4) l(2) by (metis butlast_conv_take take_take min.absorb1 diff_le_self)
    then show ?thesis using True by (simp add: edit_key_def)
  next
    case False
    then show ?thesis using Cons.prems(4) l(2) by (auto simp: edit_key_def take_Suc_conv_app_nth)
  qed
  have lo: "length (edit_key line c) \<le> length ?out" "max_len \<le> int (length ?out)"
    using l(2) Cons.prems(6) by (auto simp: edit_key_def)
  have len: "length ?out = length out" by simp
  obtain out' where o: "readline_loop keys echo max_len ?out (int (length (edit_key line c))) (k + m + 1) ?calls =
      Some (out', k', ?calls @ (if echo then map SysPutchar ks else []))" "length out' = length ?out"
    "take (length (foldl edit_key (edit_key line c) ks) + 1) out' = foldl edit_key (edit_key line c) ks @ [0]"
    using Cons.IH [OF m(4) cr(2) pre tk lo, of ?calls] by blast
  have "?calls @ (if echo then map SysPutchar ks else []) = calls @ (if echo then map SysPutchar (c # ks) else [])" by simp
  with o(1) have "readline_loop keys echo max_len out (int ?l) k calls =
      Some (out', k', calls @ (if echo then map SysPutchar (c # ks) else []))" unfolding step by (simp only:)
  then show ?case using o(2,3) unfolding len foldl.simps by blast
qed

section \<open>Properties\<close>

text \<open>
  C28. Splitting a command: when the memory requests succeed and no earlier splitting was cut short (the
  global cursor of \<open>strtok\<close> is null), \<open>plumos_parse_command\<close> ends, returns the words of the first 1024
  characters of the command in order, each cut to 511 characters and null-terminated in its 512-byte
  buffer, and leaves the global cursor null again.
\<close>
theorem parse_command_words:
  assumes "0 \<in> set command" "length scommand = 1025" "max_len < 1025" "\<forall>k. memory k"
  shows "\<exists>args. plumos_parse_command memory scommand command max_len None = Some (args, None) \<and>
    map cstr args = map (take 511) (words [0x20] (take 1024 (cstr command))) \<and> (\<forall>a \<in> set args. length a = 512)"
  by (rule parse_command_ok [OF assms])

theorem parse_command_words_witness:
  "\<exists>args. plumos_parse_command (\<lambda>_. True) (replicate 1025 7) (lit '' blank.elf  a b '') 1024 None = Some (args, None) \<and>
     map cstr args = [[0x62, 0x6C, 0x61, 0x6E, 0x6B, 0x2E, 0x65, 0x6C, 0x66], [0x61], [0x62]]"
proof -
  have "words [0x20] [0x20, 0x62, 0x6C, 0x61, 0x6E, 0x6B, 0x2E, 0x65, 0x6C, 0x66, 0x20, 0x20, 0x61, 0x20, 0x62, 0x20] =
      [[0x62, 0x6C, 0x61, 0x6E, 0x6B, 0x2E, 0x65, 0x6C, 0x66], [0x61], [0x62]]"
    by (simp add: words.simps)
  then show ?thesis
    using parse_command_words [of "lit '' blank.elf  a b ''" "replicate 1025 7" 1024 "\<lambda>_. True"]
    by (auto simp: lit_def)
qed

text \<open>
  C29. Reading a line returns as soon as the enter key arrives: whatever the timing of the keys, if the
  edited line always fits, the buffer holds the line with every backspace taking back the key before it
  (on the empty line it is stored as a character), null-terminated; each key but the enter key is echoed
  exactly once, in order, when echo is on.
\<close>
theorem readline_edits:
  assumes "arrives keys k (ks @ [CARRIEGE_RETURN_KEY]) k'" "CARRIEGE_RETURN_KEY \<notin> set ks"
    "\<forall>n \<le> length ks. int (length (edited (take n ks))) < max_len - 1" "max_len \<le> int (length out)"
  shows "\<exists>out'. plumos_terminal_readline keys out max_len echo k calls =
      Some (out', k', calls @ (if echo then map SysPutchar ks else [])) \<and> length out' = length out \<and>
    take (length (edited ks) + 1) out' = edited ks @ [0]"
  using readline_ok [OF assms(1,2), of "[]" max_len out echo calls] assms(3,4)
  by (simp add: plumos_terminal_readline_def edited_def)

theorem readline_edits_witness:
  "\<exists>out'. plumos_terminal_readline (\<lambda>k. [0x6C, 0, 0x78, 0x08, 0x73, 0, 0x0D] ! k) (replicate 8 7) 8 True 0 [] =
     Some (out', 7, map SysPutchar [0x6C, 0x78, 0x08, 0x73]) \<and> take 3 out' = [0x6C, 0x73, 0]"
proof -
  let ?ks = "[0x6C, 0x78, 0x08, 0x73] :: u8 list"
  have "arrives (\<lambda>k. [0x6C, 0, 0x78, 0x08, 0x73, 0, 0x0D] ! k) 0 (?ks @ [CARRIEGE_RETURN_KEY]) 7"
    by (simp add: CARRIEGE_RETURN_KEY_def arrives_now arrives_wait del: arrives.simps(2))
  moreover have "\<forall>n \<le> length ?ks. int (length (edited (take n ?ks))) < 8 - 1"
  proof (intro allI impI)
    fix n assume "n \<le> length ?ks"
    then have "n = 0 \<or> n = 1 \<or> n = 2 \<or> n = 3 \<or> n = 4" by auto
    then show "int (length (edited (take n ?ks))) < 8 - 1"
      by (elim disjE) (simp_all add: edited_def edit_key_def BACKSPACE_KEY_def)
  qed
  moreover have "edited ?ks = [0x6C, 0x73]" by (simp add: edited_def edit_key_def BACKSPACE_KEY_def)
  ultimately show ?thesis
    using readline_edits [of "\<lambda>k. [0x6C, 0, 0x78, 0x08, 0x73, 0, 0x0D] ! k" 0 ?ks 7 8 "replicate 8 7" True "[]"]
    by (auto simp: CARRIEGE_RETURN_KEY_def numeral_3_eq_3 simp del: arrives.simps)
qed

end
