(* ===== verification/Elf.thy ===== *)
theory Elf
  imports Vfs
begin

unbundle bit_operations_syntax

text \<open>
  The ELF loader: the structures of \<open>src/src/loader/formats/elf.h\<close> as the bytes of the loaded file,
  \<open>elf.c\<close>, and \<open>elfloader.c\<close>. A pointer to a header inside the file is its offset in the file's
  memory; a field that does not lie inside that memory cannot be read.
\<close>

section \<open>elf.h\<close>

definition PF_W :: u32 where "PF_W = 0x02"
definition PT_LOAD :: u32 where "PT_LOAD = 1"
definition ET_EXEC :: u16 where "ET_EXEC = 2"
definition EI_CLASS :: int where "EI_CLASS = 4"
definition EI_DATA :: int where "EI_DATA = 5"
definition ELFCLASSNONE :: u8 where "ELFCLASSNONE = 0"
definition ELFCLASS32 :: u8 where "ELFCLASS32 = 1"
definition ELFDATANONE :: u8 where "ELFDATANONE = 0"
definition ELFDATA2LSB :: u8 where "ELFDATA2LSB = 1"
definition PLUMOS_PROGRAM_VIRTUAL_ADDRESS :: u32 where "PLUMOS_PROGRAM_VIRTUAL_ADDRESS = 0x400000"

definition field16 :: "u8 list \<Rightarrow> int \<Rightarrow> u16 option" where
  "field16 b off = (if 0 \<le> off \<and> off + 2 \<le> int (length b) then Some (le16 b (nat off)) else None)"

definition field32 :: "u8 list \<Rightarrow> int \<Rightarrow> u32 option" where
  "field32 b off = (if 0 \<le> off \<and> off + 4 \<le> int (length b) then Some (le32 b (nat off)) else None)"

text \<open>\<open>struct elf_header\<close>, \<open>struct elf32_phdr\<close>, \<open>struct elf32_shdr\<close>\<close>

definition e_ident :: "u8 list \<Rightarrow> int \<Rightarrow> u8 option" where "e_ident b i = arr_get b i"
definition e_type :: "u8 list \<Rightarrow> u16 option" where "e_type b = field16 b 16"
definition e_entry :: "u8 list \<Rightarrow> u32 option" where "e_entry b = field32 b 24"
definition e_phoff :: "u8 list \<Rightarrow> int option" where "e_phoff b = map_option to_int (field32 b 28)"
definition e_shoff :: "u8 list \<Rightarrow> int option" where "e_shoff b = map_option to_int (field32 b 32)"
definition e_phnum :: "u8 list \<Rightarrow> int option" where "e_phnum b = map_option uint (field16 b 44)"
definition e_shstrndx :: "u8 list \<Rightarrow> int option" where "e_shstrndx b = map_option uint (field16 b 50)"
definition p_type :: "u8 list \<Rightarrow> int \<Rightarrow> u32 option" where "p_type b ph = field32 b ph"
definition p_offset :: "u8 list \<Rightarrow> int \<Rightarrow> u32 option" where "p_offset b ph = field32 b (ph + 4)"
definition p_vaddr :: "u8 list \<Rightarrow> int \<Rightarrow> u32 option" where "p_vaddr b ph = field32 b (ph + 8)"
definition p_filesz :: "u8 list \<Rightarrow> int \<Rightarrow> u32 option" where "p_filesz b ph = field32 b (ph + 16)"
definition p_memsz :: "u8 list \<Rightarrow> int \<Rightarrow> u32 option" where "p_memsz b ph = field32 b (ph + 20)"
definition p_flags :: "u8 list \<Rightarrow> int \<Rightarrow> u32 option" where "p_flags b ph = field32 b (ph + 24)"
definition sh_offset :: "u8 list \<Rightarrow> int \<Rightarrow> int option" where "sh_offset b sh = map_option to_int (field32 b (sh + 16))"

text \<open>\<open>elf.c\<close>\<close>

definition elf_get_entry_ptr :: "u8 list \<Rightarrow> u32 option" where "elf_get_entry_ptr b = e_entry b"
definition elf_get_entry :: "u8 list \<Rightarrow> u32 option" where "elf_get_entry b = e_entry b"

section \<open>elfloader.c\<close>

definition elf_signature :: "u8 list" where "elf_signature = [0x7F, 0x45, 0x4C, 0x46]"

definition elf_valid_signature :: "u8 list \<Rightarrow> bool option" where
  "elf_valid_signature b = map_option (\<lambda>r. r = 0) (memcmp b elf_signature 4)"

definition elf_valid_class :: "u8 list \<Rightarrow> bool option" where
  "elf_valid_class b = map_option (\<lambda>c. c = ELFCLASSNONE \<or> c = ELFCLASS32) (e_ident b EI_CLASS)"

definition elf_valid_encoding :: "u8 list \<Rightarrow> bool option" where
  "elf_valid_encoding b = map_option (\<lambda>d. d = ELFDATANONE \<or> d = ELFDATA2LSB) (e_ident b EI_DATA)"

text \<open>Never called.\<close>

definition elf_is_executable :: "u8 list \<Rightarrow> bool option" where
  "elf_is_executable b =
     do {
       ty \<leftarrow> e_type b;
       if ty = ET_EXEC then map_option (\<lambda>e. e \<ge> PLUMOS_PROGRAM_VIRTUAL_ADDRESS) (e_entry b) else Some False
     }"

definition elf_has_program_header :: "u8 list \<Rightarrow> bool option" where
  "elf_has_program_header b = map_option (\<lambda>off. off \<noteq> 0) (e_phoff b)"

definition elf_memory :: "elf_file \<Rightarrow> u32" where
  "elf_memory file = ef_elf_memory file"

definition elf_header :: "elf_file \<Rightarrow> u32" where
  "elf_header file = ef_elf_memory file"

definition elf_sheader :: "u8 list \<Rightarrow> int option" where
  "elf_sheader b = e_shoff b"

definition elf_section :: "u8 list \<Rightarrow> int \<Rightarrow> int option" where
  "elf_section b index = map_option (\<lambda>p. p + 40 * index) (elf_sheader b)"

text \<open>\<open>Some None\<close> is the null pointer.\<close>

definition elf_pheader :: "u8 list \<Rightarrow> int option option" where
  "elf_pheader b = map_option (\<lambda>off. if off = 0 then None else Some off) (e_phoff b)"

definition elf_program_header :: "u8 list \<Rightarrow> int \<Rightarrow> int option" where
  "elf_program_header b index =
     (case elf_pheader b of Some (Some p) \<Rightarrow> Some (p + 32 * index) | _ \<Rightarrow> None)"

definition elf_phdr_phys_address :: "elf_file \<Rightarrow> u8 list \<Rightarrow> int \<Rightarrow> u32 option" where
  "elf_phdr_phys_address file b phdr = map_option (\<lambda>off. elf_memory file + off) (p_offset b phdr)"

definition elf_string_Table :: "u8 list \<Rightarrow> int option" where
  "elf_string_Table b = do { i \<leftarrow> e_shstrndx b; sh \<leftarrow> elf_section b i; sh_offset b sh }"

definition elf_virtual_base :: "elf_file \<Rightarrow> u32" where "elf_virtual_base file = ef_virtual_base_address file"
definition elf_virtual_end :: "elf_file \<Rightarrow> u32" where "elf_virtual_end file = ef_virtual_end_address file"
definition elf_phys_base :: "elf_file \<Rightarrow> u32" where "elf_phys_base file = ef_physical_base_address file"
definition elf_phys_end :: "elf_file \<Rightarrow> u32" where "elf_phys_end file = ef_physical_end_address file"

text \<open>The conditions are evaluated from left to right, up to the first that fails.\<close>

definition elf_validate_loaded :: "u8 list \<Rightarrow> int option" where
  "elf_validate_loaded b =
     do {
       v \<leftarrow> elf_valid_signature b;
       v \<leftarrow> (if v then elf_valid_class b else Some False);
       v \<leftarrow> (if v then elf_valid_encoding b else Some False);
       v \<leftarrow> (if v then elf_has_program_header b else Some False);
       Some (if v then PLUMOS_ALL_OK else - EINVFORMAT)
     }"

definition elf_process_phdr_pt_load :: "u8 list \<Rightarrow> int \<Rightarrow> elf_file \<Rightarrow> (int \<times> elf_file) option" where
  "elf_process_phdr_pt_load b phdr elf_file =
     do {
       vaddr \<leftarrow> p_vaddr b phdr;
       offset \<leftarrow> p_offset b phdr;
       filesz \<leftarrow> p_filesz b phdr;
       let elf_file =
         (if ef_virtual_base_address elf_file \<ge> vaddr \<or> ef_virtual_base_address elf_file = 0
          then elf_file\<lparr>ef_virtual_base_address := vaddr,
            ef_physical_base_address := elf_memory elf_file + offset\<rparr>
          else elf_file);
       let end_virtual_address = vaddr + filesz;
       let elf_file =
         (if ef_virtual_end_address elf_file \<le> end_virtual_address \<or> ef_virtual_end_address elf_file = 0
          then elf_file\<lparr>ef_virtual_end_address := end_virtual_address,
            ef_physical_end_address := elf_memory elf_file + offset + filesz\<rparr>
          else elf_file);
       Some (0, elf_file)
     }"

definition elf_process_pheader :: "u8 list \<Rightarrow> int \<Rightarrow> elf_file \<Rightarrow> (int \<times> elf_file) option" where
  "elf_process_pheader b phdr elf_file =
     do {
       t \<leftarrow> p_type b phdr;
       if t = PT_LOAD then elf_process_phdr_pt_load b phdr elf_file else Some (0, elf_file)
     }"

text \<open>Iteration \<open>i\<close> with \<open>n\<close> iterations left.\<close>

fun pheaders_loop :: "nat \<Rightarrow> int \<Rightarrow> u8 list \<Rightarrow> elf_file \<Rightarrow> (int \<times> elf_file) option" where
  "pheaders_loop 0 i b elf_file = Some (0, elf_file)"
| "pheaders_loop (Suc n) i b elf_file =
     do {
       phdr \<leftarrow> elf_program_header b i;
       (res, elf_file) \<leftarrow> elf_process_pheader b phdr elf_file;
       if res < 0 then Some (res, elf_file) else pheaders_loop n (i + 1) b elf_file
     }"

definition elf_process_pheaders :: "u8 list \<Rightarrow> elf_file \<Rightarrow> (int \<times> elf_file) option" where
  "elf_process_pheaders b elf_file = do { n \<leftarrow> e_phnum b; pheaders_loop (nat n) 0 b elf_file }"

definition elf_process_loaded :: "u8 list \<Rightarrow> elf_file \<Rightarrow> (int \<times> elf_file) option" where
  "elf_process_loaded b elf_file =
     do {
       res \<leftarrow> elf_validate_loaded b;
       if res < 0 then Some (res, elf_file) else elf_process_pheaders b elf_file
     }"

definition zero_elf_file :: elf_file where
  "zero_elf_file = \<lparr>ef_filename = replicate PLUMOS_MAX_PATH 0, ef_in_memory_size = 0, ef_elf_memory = 0,
     ef_virtual_base_address = 0, ef_virtual_end_address = 0, ef_physical_base_address = 0,
     ef_physical_end_address = 0\<rparr>"

text \<open>The common end of \<open>elf_load\<close>; the pointer is 0 when none is stored through \<open>file_out\<close>.\<close>

definition elf_load_out :: "int \<Rightarrow> int \<Rightarrow> u32 \<Rightarrow> kernel \<Rightarrow> (int \<times> u32 \<times> kernel) option" where
  "elf_load_out fd res file_out s = do { (r, s) \<leftarrow> fclose fd s; Some (res, file_out, s) }"

definition elf_load :: "u8 list \<Rightarrow> kernel \<Rightarrow> (int \<times> u32 \<times> kernel) option" where
  "elf_load filename s =
     do {
       (elf_file, s) \<leftarrow> kzalloc 132 (OElfFile zero_elf_file) s;
       (res, s) \<leftarrow> fopen filename (lit ''r'') s;
       if res \<le> 0 then elf_load_out 0 (- EIO) 0 s
       else do {
         let fd = res;
         (res, stat) \<leftarrow> fstat fd \<lparr>st_flags = 0, st_filesize = 0\<rparr> s;
         if res < 0 then elf_load_out fd res 0 s
         else do {
           (memory, s) \<leftarrow> kzalloc (st_filesize stat) (OBytes (replicate (unat (st_filesize stat)) 0)) s;
           f \<leftarrow> get_elf_file s elf_file;
           s \<leftarrow> put elf_file (OElfFile (f\<lparr>ef_elf_memory := memory\<rparr>)) s;
           (res, bs, s) \<leftarrow> fread (st_filesize stat) 1 fd s;
           s \<leftarrow> (if bs = [] then Some s else store_bytes memory bs s);
           if res < 0 then elf_load_out fd res 0 s
           else do {
             f \<leftarrow> get_elf_file s elf_file;
             b \<leftarrow> get_bytes s (elf_memory f);
             (res, f) \<leftarrow> elf_process_loaded b f;
             s \<leftarrow> put elf_file (OElfFile f) s;
             if res < 0 then elf_load_out fd res 0 s else elf_load_out fd 0 elf_file s
           }
         }
       }
     }"

definition elf_close :: "u32 \<Rightarrow> kernel \<Rightarrow> kernel option" where
  "elf_close file s =
     (if file = 0 then Some s
      else do {
        f \<leftarrow> get_elf_file s file;
        s \<leftarrow> kfree (ef_elf_memory f) s;
        kfree file s
      })"

section \<open>Segments\<close>

text \<open>The loadable segments of a file: virtual address, offset in the file, size in the file.\<close>

definition phdr_pos :: "u8 list \<Rightarrow> nat \<Rightarrow> nat" where
  "phdr_pos b i = unat (le32 b 28) + 32 * i"

definition phdr_count :: "u8 list \<Rightarrow> nat" where
  "phdr_count b = unat (le16 b 44)"

definition segment_at :: "u8 list \<Rightarrow> nat \<Rightarrow> u32 \<times> u32 \<times> u32" where
  "segment_at b p = (le32 b (p + 8), le32 b (p + 4), le32 b (p + 16))"

definition load_segments :: "u8 list \<Rightarrow> nat \<Rightarrow> nat \<Rightarrow> (u32 \<times> u32 \<times> u32) list" where
  "load_segments b i n =
     map (segment_at b) (filter (\<lambda>p. le32 b p = PT_LOAD) (map (phdr_pos b) [i..<i + n]))"

text \<open>The header is one the loader accepts, and its table of program headers lies in the file.\<close>

definition accepted :: "u8 list \<Rightarrow> bool" where
  "accepted b \<longleftrightarrow> take 4 b = elf_signature \<and> b ! 4 \<in> {0, 1} \<and> b ! 5 \<in> {0, 1} \<and> le32 b 28 \<noteq> 0"

definition table_in_file :: "u8 list \<Rightarrow> bool" where
  "table_in_file b \<longleftrightarrow> 52 \<le> length b \<and> unat (le32 b 28) + 32 * phdr_count b \<le> length b \<and> length b < 2 ^ 31"

definition include_segment :: "elf_file \<Rightarrow> u32 \<times> u32 \<times> u32 \<Rightarrow> elf_file" where
  "include_segment f = (\<lambda>(v, off, z).
     let f = (if ef_virtual_base_address f \<ge> v \<or> ef_virtual_base_address f = 0
         then f\<lparr>ef_virtual_base_address := v, ef_physical_base_address := ef_elf_memory f + off\<rparr> else f) in
     if ef_virtual_end_address f \<le> v + z \<or> ef_virtual_end_address f = 0
     then f\<lparr>ef_virtual_end_address := v + z, ef_physical_end_address := ef_elf_memory f + off + z\<rparr> else f)"

lemma field32_nat: "p + 4 \<le> length b \<Longrightarrow> field32 b (int p) = Some (le32 b p)"
  by (simp add: field32_def)

lemma field32_add: "p + k + 4 \<le> length b \<Longrightarrow> field32 b (int p + int k) = Some (le32 b (p + k))"
  using field32_nat [of "p + k" b] by simp

lemma pheader_ok:
  assumes "p + 32 \<le> length b"
  shows "elf_process_pheader b (int p) f =
    Some (0, if le32 b p = PT_LOAD then include_segment f (segment_at b p) else f)"
  using assms field32_nat [of p b] field32_add [of p 4 b] field32_add [of p 8 b] field32_add [of p 16 b]
  by (simp add: elf_process_pheader_def elf_process_phdr_pt_load_def p_type_def p_vaddr_def p_offset_def p_filesz_def
      segment_at_def include_segment_def elf_memory_def Let_def)

lemma phoff_ok:
  assumes "table_in_file b" "0 < phdr_count b"
  shows "e_phoff b = Some (int (phdr_pos b 0))"
proof -
  have "unat (le32 b 28) < 2 ^ 31" using assms by (simp add: table_in_file_def)
  then show ?thesis using assms(1) by (simp add: e_phoff_def field32_def table_in_file_def sint_eq_unat phdr_pos_def)
qed

lemma program_header_ok:
  assumes "table_in_file b" "le32 b 28 \<noteq> 0" "i < phdr_count b"
  shows "elf_program_header b (int i) = Some (int (phdr_pos b i))" "phdr_pos b i + 32 \<le> length b"
proof -
  have "phdr_pos b i + 32 = unat (le32 b 28) + 32 * Suc i" by (simp add: phdr_pos_def)
  also have "\<dots> \<le> unat (le32 b 28) + 32 * phdr_count b" using assms(3) by (intro add_left_mono mult_le_mono2) simp
  also have "\<dots> \<le> length b" using assms(1) by (simp add: table_in_file_def)
  finally show "phdr_pos b i + 32 \<le> length b" .
  obtain m where m: "phdr_pos b 0 = m" by blast
  then have nz: "m \<noteq> 0" "phdr_pos b i = m + 32 * i" using assms(2) unsigned_eq_0_iff [of "le32 b 28", where ?'a = nat]
    by (auto simp: phdr_pos_def)
  have "e_phoff b = Some (int (phdr_pos b 0))" by (rule phoff_ok [OF assms(1)]) (use assms(3) in simp)
  then show "elf_program_header b (int i) = Some (int (phdr_pos b i))"
    unfolding m using nz by (simp add: elf_program_header_def elf_pheader_def)
qed

lemma pheaders_loop_ok:
  assumes "table_in_file b" "le32 b 28 \<noteq> 0" "i + n \<le> phdr_count b"
  shows "pheaders_loop n (int i) b f = Some (0, foldl include_segment f (load_segments b i n))"
  using assms(3)
proof (induction n arbitrary: i f)
  case 0
  then show ?case by (simp add: load_segments_def)
next
  case (Suc n)
  have i: "i < phdr_count b" using Suc.prems by simp
  note h = program_header_ok [OF assms(1,2) i]
  have "load_segments b i (Suc n) =
      (if le32 b (phdr_pos b i) = PT_LOAD then [segment_at b (phdr_pos b i)] else []) @ load_segments b (Suc i) n"
    by (simp add: load_segments_def upt_conv_Cons del: upt_Suc)
  then show ?case
    using h(1) pheader_ok [OF h(2)] Suc.IH [of "Suc i"] Suc.prems by (simp add: add.commute)
qed

lemma validate_ok:
  assumes "52 \<le> length b"
  shows "elf_validate_loaded b = Some (if accepted b then 0 else - EINVFORMAT)"
proof -
  have m: "\<exists>r. memcmp b elf_signature 4 = Some r \<and> (r = 0 \<longleftrightarrow> take 4 b = take 4 elf_signature)"
    using memcmp_zero [of 4 b elf_signature] assms by (simp add: elf_signature_def)
  then obtain r where r: "memcmp b elf_signature 4 = Some r" "r = 0 \<longleftrightarrow> take 4 b = elf_signature"
    by (auto simp: elf_signature_def)
  have "e_ident b EI_CLASS = Some (b ! 4)" "e_ident b EI_DATA = Some (b ! 5)"
    using assms by (simp_all add: e_ident_def EI_CLASS_def EI_DATA_def arr_get_def)
  moreover have "e_phoff b = Some (to_int (le32 b 28))" using assms by (simp add: e_phoff_def field32_def)
  moreover have "to_int (le32 b 28) = 0 \<longleftrightarrow> le32 b 28 = 0" by (metis signed_0 word_eq_iff_signed)
  ultimately show ?thesis
    using r by (auto simp: elf_validate_loaded_def elf_valid_signature_def elf_valid_class_def elf_valid_encoding_def
        elf_has_program_header_def accepted_def ELFCLASSNONE_def ELFCLASS32_def ELFDATANONE_def ELFDATA2LSB_def PLUMOS_ALL_OK_def)
qed

lemma process_loaded_ok:
  assumes "table_in_file b"
  shows "elf_process_loaded b f =
    Some (if accepted b then (0, foldl include_segment f (load_segments b 0 (phdr_count b))) else (- EINVFORMAT, f))"
proof -
  have l: "52 \<le> length b" using assms by (simp add: table_in_file_def)
  have "e_phnum b = Some (int (phdr_count b))" using l by (simp add: e_phnum_def field16_def phdr_count_def)
  then show ?thesis
    using validate_ok [OF l] pheaders_loop_ok [OF assms, of 0 "phdr_count b" f]
    by (auto simp: elf_process_loaded_def elf_process_pheaders_def accepted_def EINVFORMAT_def)
qed

text \<open>The range of a set of segments.\<close>

definition covers :: "u32 \<Rightarrow> (u32 \<times> u32 \<times> u32) set \<Rightarrow> elf_file \<Rightarrow> bool" where
  "covers memory segs f \<longleftrightarrow> ef_elf_memory f = memory \<and>
     (if segs = {} then ef_virtual_base_address f = 0 \<and> ef_virtual_end_address f = 0
      else (\<exists>(v, off, z) \<in> segs. ef_virtual_base_address f = v \<and> ef_physical_base_address f = memory + off \<and>
             (\<forall>(v', off', z') \<in> segs. v \<le> v')) \<and>
           (\<exists>(v, off, z) \<in> segs. ef_virtual_end_address f = v + z \<and> ef_physical_end_address f = memory + off + z \<and>
             (\<forall>(v', off', z') \<in> segs. v' + z' \<le> v + z)))"

lemma covers_include:
  assumes "covers memory segs f" "\<forall>(v, off, z) \<in> insert s segs. v \<noteq> 0 \<and> v \<le> v + z"
  shows "covers memory (insert s segs) (include_segment f s)"
proof -
  obtain v off z where s: "s = (v, off, z)" by (cases s)
  have nz: "v \<noteq> 0" "v + z \<noteq> 0" using assms(2) s by (auto simp: word_le_0_iff)
  show ?thesis
  proof (cases "segs = {}")
    case True
    then show ?thesis using assms(1) nz s by (auto simp: covers_def include_segment_def)
  next
    case False
    have be: "\<exists>(v, off, z) \<in> segs. ef_virtual_base_address f = v \<and> ef_physical_base_address f = memory + off \<and>
        (\<forall>(v', off', z') \<in> segs. v \<le> v')"
      "\<exists>(v, off, z) \<in> segs. ef_virtual_end_address f = v + z \<and> ef_physical_end_address f = memory + off + z \<and>
        (\<forall>(v', off', z') \<in> segs. v' + z' \<le> v + z)"
      using assms(1) False by (simp_all only: covers_def if_False)
    obtain v1 o1 z1 where b: "(v1, o1, z1) \<in> segs" "ef_virtual_base_address f = v1" "ef_physical_base_address f = memory + o1"
      "\<forall>(v', off', z') \<in> segs. v1 \<le> v'" using be(1) by blast
    obtain v2 o2 z2 where e: "(v2, o2, z2) \<in> segs" "ef_virtual_end_address f = v2 + z2"
      "ef_physical_end_address f = memory + o2 + z2" "\<forall>(v', off', z') \<in> segs. v' + z' \<le> v2 + z2"
      using be(2) by blast
    have m: "ef_elf_memory f = memory" using assms(1) by (simp add: covers_def)
    have n1: "v1 \<noteq> 0" "v2 + z2 \<noteq> 0" using assms(2) b(1) e(1) by (auto simp: word_le_0_iff)
    let ?f = "include_segment f s"
    have "\<exists>(v0, o0, z0) \<in> insert s segs. ef_virtual_base_address ?f = v0 \<and> ef_physical_base_address ?f = memory + o0 \<and>
             (\<forall>(v', off', z') \<in> insert s segs. v0 \<le> v')"
    proof (cases "v1 \<ge> v")
      case True
      then have "\<forall>(v', off', z') \<in> segs. v \<le> v'" using b(4) by fastforce
      then show ?thesis using True b(2) m s by (auto simp: include_segment_def Let_def)
    next
      case False
      then have "v1 \<le> v" by simp
      then show ?thesis using False b n1 m s by (intro bexI [of _ "(v1, o1, z1)"]) (auto simp: include_segment_def Let_def)
    qed
    moreover have "\<exists>(v0, o0, z0) \<in> insert s segs. ef_virtual_end_address ?f = v0 + z0 \<and>
        ef_physical_end_address ?f = memory + o0 + z0 \<and> (\<forall>(v', off', z') \<in> insert s segs. v' + z' \<le> v0 + z0)"
    proof (cases "v2 + z2 \<le> v + z")
      case True
      then have "\<forall>(v', off', z') \<in> segs. v' + z' \<le> v + z" using e(4) by fastforce
      then show ?thesis using True e(2) m s by (auto simp: include_segment_def Let_def)
    next
      case False
      then have "v + z \<le> v2 + z2" by simp
      then show ?thesis using False e n1 m s by (intro bexI [of _ "(v2, o2, z2)"]) (auto simp: include_segment_def Let_def)
    qed
    moreover have "ef_elf_memory ?f = memory" using m s by (simp add: include_segment_def Let_def)
    ultimately show ?thesis by (simp add: covers_def)
  qed
qed

lemma covers_fold:
  assumes "covers memory segs f" "\<forall>(v, off, z) \<in> segs \<union> set ss. v \<noteq> 0 \<and> v \<le> v + z"
  shows "covers memory (segs \<union> set ss) (foldl include_segment f ss)"
  using assms
proof (induction ss arbitrary: segs f)
  case (Cons s ss)
  have "covers memory (insert s segs) (include_segment f s)" by (rule covers_include) (use Cons.prems in auto)
  then have "covers memory (insert s segs \<union> set ss) (foldl include_segment (include_segment f s) ss)"
    by (rule Cons.IH) (use Cons.prems(2) in auto)
  then show ?case by simp
qed simp

end
