(* ===== verification/ElfLoad.thy ===== *)
theory ElfLoad
  imports Elf Room
begin

unbundle bit_operations_syntax

text \<open>
  What \<open>elf_load\<close> does from the path to the loaded file, through the virtual file system, the FAT16
  driver, the disk and the heap, for a file of any size the heap has room for.
\<close>

section \<open>States that differ in streams and fresh objects\<close>

text \<open>Every object outside \<open>X\<close> is still there; a stream may have moved.\<close>

definition kept :: "u32 set \<Rightarrow> kernel \<Rightarrow> kernel \<Rightarrow> bool" where
  "kept X s s' \<longleftrightarrow> (\<forall>a y. a \<notin> X \<longrightarrow> objs s a = Some y \<longrightarrow>
     (case y of OStream d \<Rightarrow> \<exists>p. objs s' a = Some (OStream (d\<lparr>ds_pos := p\<rparr>)) | _ \<Rightarrow> objs s' a = Some y))"

lemma kept_obj: "kept X s s' \<Longrightarrow> objs s a = Some y \<Longrightarrow> a \<notin> X \<Longrightarrow> \<forall>d. y \<noteq> OStream d \<Longrightarrow> objs s' a = Some y"
  unfolding kept_def by (cases y) fastforce+

lemma kept_stream: "kept X s s' \<Longrightarrow> objs s a = Some (OStream d) \<Longrightarrow> a \<notin> X \<Longrightarrow> \<exists>p. objs s' a = Some (OStream (d\<lparr>ds_pos := p\<rparr>))"
  unfolding kept_def by fastforce

lemma same_stream: "\<exists>p. d = d\<lparr>ds_pos := p\<rparr>"
  by (intro exI [of _ "ds_pos d"]) simp

lemma kept_same:
  assumes "\<And>a y. objs s a = Some y \<Longrightarrow> a \<notin> X \<Longrightarrow> objs s' a = Some y"
  shows "kept X s s'"
  unfolding kept_def
proof (intro allI impI)
  fix a y
  assume "a \<notin> X" "objs s a = Some y"
  then have "objs s' a = Some y" using assms by blast
  then show "case y of OStream d \<Rightarrow> \<exists>p. objs s' a = Some (OStream (d\<lparr>ds_pos := p\<rparr>)) | _ \<Rightarrow> objs s' a = Some y"
    using same_stream by (cases y) auto
qed

lemma kept_refl [simp]: "kept X s s"
  by (rule kept_same)

lemma kept_trans:
  assumes "kept X s s'" "kept Y s' s''"
  shows "kept (X \<union> Y) s s''"
  unfolding kept_def
proof (intro allI impI)
  fix a y
  assume a: "a \<notin> X \<union> Y" and y: "objs s a = Some y"
  show "case y of OStream d \<Rightarrow> \<exists>p. objs s'' a = Some (OStream (d\<lparr>ds_pos := p\<rparr>)) | _ \<Rightarrow> objs s'' a = Some y"
  proof (cases "\<exists>d. y = OStream d")
    case True
    then obtain d p where d: "y = OStream d" "objs s' a = Some (OStream (d\<lparr>ds_pos := p\<rparr>))"
      using kept_stream [OF assms(1)] y a by blast
    then show ?thesis using kept_stream [OF assms(2) d(2)] a by auto
  next
    case False
    then have "objs s'' a = Some y" using kept_obj [OF assms(1) y] kept_obj [OF assms(2), of a y] a by blast
    then show ?thesis using False by (cases y) auto
  qed
qed

lemma kept_cong: "objs t = objs s' \<Longrightarrow> kept X s t = kept X s s'"
  unfolding kept_def by (rule arg_cong [of _ _ "\<lambda>m. \<forall>a y. a \<notin> X \<longrightarrow> objs s a = Some y \<longrightarrow>
     (case y of OStream d \<Rightarrow> \<exists>p. m a = Some (OStream (d\<lparr>ds_pos := p\<rparr>)) | _ \<Rightarrow> m a = Some y)"])

lemma kept_mono: "objs s \<subseteq>\<^sub>m objs s' \<Longrightarrow> kept X s s'"
  by (rule kept_same) (auto simp: map_le_def dom_def)

lemma kept_drop: "kept X s s' \<Longrightarrow> X \<inter> dom (objs s) \<subseteq> Y \<Longrightarrow> kept Y s s'"
  unfolding kept_def by blast

lemma fat_step_kept:
  assumes "fat_mounted img fp s" "fat_step fp s s'"
  shows "kept X s s'"
  unfolding kept_def
proof (intro allI impI)
  fix a y
  assume y: "objs s a = Some y"
  show "case y of OStream d \<Rightarrow> \<exists>p. objs s' a = Some (OStream (d\<lparr>ds_pos := p\<rparr>)) | _ \<Rightarrow> objs s' a = Some y"
  proof (cases "a \<in> fat_streams fp")
    case True
    then obtain p where p: "y = OStream \<lparr>ds_pos = p, ds_disk = TheDisk\<rparr>"
      using assms(1) y unfolding fat_mounted_def by fastforce
    have "\<exists>q. objs s' a = Some (OStream \<lparr>ds_pos = q, ds_disk = TheDisk\<rparr>)"
      using assms(2) True y p unfolding fat_step_def by metis
    then show ?thesis using p by simp
  next
    case False
    then have "objs s' a = Some y" using fat_stepD(4) [OF assms(2)] y by simp
    then show ?thesis using same_stream by (cases y) auto
  qed
qed

text \<open>A mounted volume and its files stay.\<close>

lemma fat_mounted_kept:
  assumes "fat_mounted img fp s" "kept X s s'" "X \<inter> insert (dk_fs_private (gdisk s)) (fat_streams fp) = {}"
    "gdisk s' = gdisk s" "device s' = device s"
  shows "fat_mounted img fp s'"
proof -
  have "\<exists>p. objs s' st = Some (OStream \<lparr>ds_pos = p, ds_disk = TheDisk\<rparr>)" if st: "st \<in> fat_streams fp" for st
  proof -
    obtain p where "objs s st = Some (OStream \<lparr>ds_pos = p, ds_disk = TheDisk\<rparr>)"
      using assms(1) st unfolding fat_mounted_def by blast
    from kept_stream [OF assms(2) this] show ?thesis using assms(3) st by auto
  qed
  moreover have "objs s (dk_fs_private (gdisk s)) = Some (OFatPrivate fp)" using assms(1) by (simp add: fat_mounted_def)
  from kept_obj [OF assms(2) this] have "objs s' (dk_fs_private (gdisk s)) = Some (OFatPrivate fp)" using assms(3) by simp
  ultimately show ?thesis using assms(1,4,5) by (simp add: fat_mounted_def)
qed

lemma file_at_kept:
  assumes "file_at s fp filename b" "kept X s s'"
    "X \<inter> {dk_fs_private (gdisk s), dir_item (fp_root_directory fp)} = {}" "gdisk s' = gdisk s"
  shows "file_at s' fp filename b"
proof -
  have "root_dir s' fp dir n" if "root_dir s fp dir n" for dir n
    using that kept_obj [OF assms(2)] assms(3,4) by (auto simp: root_dir_def)
  then show ?thesis using assms(1) unfolding file_at_def by metis
qed

lemma fat_step_keeps:
  assumes "fat_mounted img fp s" "fat_step fp s s'" "objs s a = Some x" "\<forall>d. x \<noteq> OStream d"
  shows "objs s' a = Some x"
proof -
  have "a \<notin> fat_streams fp" using assms(1,3,4) unfolding fat_mounted_def by (metis option.inject)
  then show ?thesis using fat_stepD(4) [OF assms(2)] assms(3) by simp
qed

lemma fat_step_inv:
  assumes "fat_mounted img fp s" "fat_step fp s s'"
  shows "mem_inv s' = mem_inv s"
proof -
  have "objs s' a = None \<longleftrightarrow> objs s a = None" for a
  proof (cases "a \<in> fat_streams fp")
    case True
    then show ?thesis using assms unfolding fat_mounted_def fat_step_def by (metis option.distinct(1))
  qed (use fat_stepD(4) [OF assms(2)] in simp)
  then have "dom (objs s') = dom (objs s)" by (auto simp: dom_def)
  then show ?thesis by (rule mem_inv_cong [OF fat_stepD(3) [OF assms(2)]])
qed

lemma fat_step_fds: "fat_step fp s s' \<Longrightarrow> file_descriptors s' = file_descriptors s"
  unfolding fat_step_def by (cases s; cases s') auto

lemma fat_mounted_mono:
  assumes "fat_mounted img fp s" "objs s \<subseteq>\<^sub>m objs s'" "gdisk s' = gdisk s" "device s' = device s"
  shows "fat_mounted img fp s'"
proof -
  have "\<exists>p. objs s' st = Some (OStream \<lparr>ds_pos = p, ds_disk = TheDisk\<rparr>)" if "st \<in> fat_streams fp" for st
    using assms(1) that map_le_Some [OF assms(2), of st] unfolding fat_mounted_def by blast
  then show ?thesis using assms(1,3,4) map_le_Some [OF assms(2)] by (simp add: fat_mounted_def)
qed

lemma file_at_mono:
  assumes "file_at s fp filename b" "objs s \<subseteq>\<^sub>m objs s'" "gdisk s' = gdisk s"
  shows "file_at s' fp filename b"
  using assms(1) root_dir_mono [OF _ assms(2,3)] unfolding file_at_def by metis

lemma store_ok:
  assumes "objs s p = Some (OBytes old)" "length bs = length old"
  obtains s' where "store_bytes p bs s = Some s'" "objs s' = (objs s)(p \<mapsto> OBytes bs)" "mem_inv s' = mem_inv s"
    "heap_step s s'" "free_blocks s' = free_blocks s"
proof -
  obtain s' where s': "put p (OBytes bs) s = Some s'" "objs s' = (objs s)(p \<mapsto> OBytes bs)" "mem_inv s' = mem_inv s"
    "heap_step s s'" "free_blocks s' = free_blocks s"
    by (rule put_live [of s p]) (use assms(1) in auto)
  have "store_bytes p bs s = Some s'" using assms s'(1) by (simp add: store_bytes_def get_defs overwrite_def)
  then show thesis using that s'(2-5) by blast
qed

text \<open>An open file of the virtual file system: entry \<open>i\<close> of the table, its descriptor, and the objects of the driver.\<close>

definition vfs_open :: "kernel \<Rightarrow> nat \<Rightarrow> u32 \<Rightarrow> u32 \<Rightarrow> u32 \<Rightarrow> u32 \<Rightarrow> u8 list \<Rightarrow> bool" where
  "vfs_open s i desc d f p b \<longleftrightarrow> i < 511 \<and> i < length (file_descriptors s) \<and> file_descriptors s ! i = desc \<and> desc \<noteq> 0 \<and>
     objs s desc = Some (OFileDesc \<lparr>fd_index = int i + 1, fd_filesystem = Fat16Fs, fd_private = d, fd_disk = TheDisk\<rparr>) \<and>
     objs s d = Some (OFatFileDesc \<lparr>ffd_item = f, ffd_pos = 0\<rparr>) \<and>
     objs s f = Some (OFatItem \<lparr>fi_ptr = p, fi_type = FAT_ITEM_TYPE_FILE\<rparr>) \<and> objs s p = Some (OBytes b) \<and> length b = 32"

lemma vfs_open_mono:
  "vfs_open s i desc d f p b \<Longrightarrow> objs s \<subseteq>\<^sub>m objs s' \<Longrightarrow> file_descriptors s' = file_descriptors s \<Longrightarrow> vfs_open s' i desc d f p b"
  unfolding vfs_open_def by (simp add: map_le_Some)

lemma vfs_open_keep:
  assumes "vfs_open s i desc d f p b" "file_descriptors s' = file_descriptors s"
    "\<And>a. a \<in> {desc, d, f, p} \<Longrightarrow> objs s' a = objs s a"
  shows "vfs_open s' i desc d f p b"
  using assms(1,2) assms(3) [of desc] assms(3) [of d] assms(3) [of f] assms(3) [of p] by (simp add: vfs_open_def)

lemma vfs_stat:
  assumes "vfs_open s i desc d f p b"
  shows "\<exists>fl. fstat (int i + 1) st s = Some (0, \<lparr>st_flags = fl, st_filesize = item_filesize b\<rparr>)"
proof -
  have o: "i < 511" "i < length (file_descriptors s)" "file_descriptors s ! i = desc" "desc \<noteq> 0"
    "objs s desc = Some (OFileDesc \<lparr>fd_index = int i + 1, fd_filesystem = Fat16Fs, fd_private = d, fd_disk = TheDisk\<rparr>)"
    "objs s d = Some (OFatFileDesc \<lparr>ffd_item = f, ffd_pos = 0\<rparr>)"
    "objs s f = Some (OFatItem \<lparr>fi_ptr = p, fi_type = FAT_ITEM_TYPE_FILE\<rparr>)" "objs s p = Some (OBytes b)" "length b = 32"
    using assms by (simp_all add: vfs_open_def)
  show ?thesis using get_descriptor [OF o(1,2)] o(3-5) stat_ok [OF o(6-9)] by (simp add: fstat_def get_defs)
qed

lemma vfs_close:
  assumes "vfs_open s i desc d f p b" "mem_inv s"
  obtains s' where "fclose (int i + 1) s = Some (0, s')" "objs s' = (objs s)(p := None, f := None, d := None, desc := None)"
    "mem_inv s'" "file_descriptors s' = (file_descriptors s)[i := 0]" "fs_step s s'" "free_blocks s \<le> free_blocks s'"
  by (rule fclose_ok [OF assms(2), of i desc d f 0 p b]) (use assms(1) in \<open>auto simp: vfs_open_def\<close>)

lemma vfs_read:
  assumes "vfs_open s i desc d f p b" "fat_mounted img fp s" "fat_layout fp" "unat (fat16_get_first_cluster b) = c"
    "c < 65536" "n = unat (item_filesize b)" "0 < n" "n < 2 ^ 31" "chain_ok img fp c 0 n"
  obtains s' where "fread (item_filesize b) 1 (int i + 1) s = Some (1, file_bytes img fp c 0 n, s')" "fat_step fp s s'"
proof -
  have o: "i < 511" "i < length (file_descriptors s)" "file_descriptors s ! i = desc" "desc \<noteq> 0"
    "objs s desc = Some (OFileDesc \<lparr>fd_index = int i + 1, fd_filesystem = Fat16Fs, fd_private = d, fd_disk = TheDisk\<rparr>)"
    "open_file s d b (of_nat 0)"
    using assms(1) by (auto simp: vfs_open_def open_file_def)
  have ch: "\<forall>j < unat (1 :: u32). chain_ok img fp c (0 + j * unat (item_filesize b)) (unat (item_filesize b)) \<and>
       ((0 + j * unat (item_filesize b)) mod cluster_size fp = 0 \<or>
        (0 + j * unat (item_filesize b)) mod cluster_size fp + unat (item_filesize b) \<le> cluster_size fp)"
    using assms(6,9) by simp
  have "unat (1 :: u32) * unat (item_filesize b) = n" using assms(6) by simp
  then have sz: "int 0 + int (unat (1 :: u32) * unat (item_filesize b)) < 2 ^ 31" using assms(8) by (simp only: of_nat_0) simp
  obtain s' where r: "fat16_read TheDisk d (item_filesize b) 1 s =
      Some (to_int 1, file_bytes img fp c 0 (unat (1 :: u32) * unat (item_filesize b)), s')" "fat_step fp s s'"
    by (rule fat16_read_ok [OF assms(2,3) o(6) assms(4,5) sz ch])
  have nz: "item_filesize b \<noteq> 0" using assms(6,7) by auto
  have "fread (item_filesize b) 1 (int i + 1) s = Some (1, file_bytes img fp c 0 n, s')"
    using get_descriptor [OF o(1,2)] o(3-5) r(1) nz assms(6) by (simp add: fread_def get_defs)
  then show thesis using that r(2) by blast
qed

section \<open>Loading\<close>

text \<open>The loaded file: its object, the memory with the bytes \<open>data\<close>, and the range of its segments.\<close>

definition elf_loaded :: "kernel \<Rightarrow> u32 \<Rightarrow> u32 \<Rightarrow> u8 list \<Rightarrow> bool" where
  "elf_loaded s ef memory data \<longleftrightarrow> objs s memory = Some (OBytes data) \<and>
     objs s ef = Some (OElfFile (foldl include_segment (zero_elf_file\<lparr>ef_elf_memory := memory\<rparr>)
       (load_segments data 0 (phdr_count data))))"

text \<open>\<open>fopen\<close> of a file of the volume leaves it open in entry \<open>i\<close>.\<close>

lemma fopen_opens:
  assumes "mem_inv s" "low_heap s" "6 < free_blocks s" "dk_filesystem (gdisk s) = Fat16Fs"
    "first_slot 0 (file_descriptors s) = Some i" "file_at s fp filename b" "i < 511"
  obtains desc d f p s' where "fopen filename (lit ''r'') s = Some (int i + 1, s')" "vfs_open s' i desc d f p b"
    "{desc, d, f, p} \<inter> dom (objs s) = {}" "objs s \<subseteq>\<^sub>m objs s'" "file_descriptors s' = (file_descriptors s)[i := desc]"
    "mem_inv s'" "gdisk s' = gdisk s" "device s' = device s" "free_blocks s \<le> free_blocks s' + 7" "fs_step s s'"
proof -
  obtain root q str d f p desc w s' where o: "fopen filename (lit ''r'') s = Some (int i + 1, s')"
    "distinct [root, q, str, d, f, p, desc]" "{root, q, str, d, f, p, desc} \<inter> dom (objs s) = {}" "desc \<noteq> 0"
    "objs s' = (objs s)(root \<mapsto> OPathRoot \<lparr>pr_drive_no = 0, pr_first = q\<rparr>, str \<mapsto> name_buffer w,
       q \<mapsto> OPathPart \<lparr>pp_part = str, pp_next = 0\<rparr>,
       f \<mapsto> OFatItem \<lparr>fi_ptr = p, fi_type = FAT_ITEM_TYPE_FILE\<rparr>, p \<mapsto> OBytes b,
       d \<mapsto> OFatFileDesc \<lparr>ffd_item = f, ffd_pos = 0\<rparr>,
       desc \<mapsto> OFileDesc \<lparr>fd_index = int i + 1, fd_filesystem = Fat16Fs, fd_private = d, fd_disk = TheDisk\<rparr>)"
    "file_descriptors s' = (file_descriptors s)[i := desc]" "mem_inv s'" "gdisk s' = gdisk s" "device s' = device s"
    "length b = 32" "free_blocks s \<le> free_blocks s' + 7" "fs_step s s'"
    by (rule fopen_ok [OF assms(1-6)])
  have "i < length (file_descriptors s)" using assms(5) by (simp add: first_slot_Some)
  moreover have "objs s' desc = Some (OFileDesc \<lparr>fd_index = int i + 1, fd_filesystem = Fat16Fs, fd_private = d, fd_disk = TheDisk\<rparr>)"
    "objs s' d = Some (OFatFileDesc \<lparr>ffd_item = f, ffd_pos = 0\<rparr>)"
    "objs s' f = Some (OFatItem \<lparr>fi_ptr = p, fi_type = FAT_ITEM_TYPE_FILE\<rparr>)" "objs s' p = Some (OBytes b)"
    unfolding o(5) using o(2) by auto
  ultimately have "vfs_open s' i desc d f p b" using o(4,6,10) assms(7) by (simp add: vfs_open_def)
  moreover have "objs s \<subseteq>\<^sub>m objs s'" using o(3,5) by (auto simp: map_le_def)
  ultimately show thesis using that [OF o(1)] o(3,6-9,11,12) by blast
qed

text \<open>\<open>elf_load\<close> up to the read: the structure, the open file, its size and the memory for its bytes.\<close>

lemma load_opened:
  assumes "mem_inv s" "low_heap s" "room s 8 (blocks_for n)" "dk_filesystem (gdisk s) = Fat16Fs"
    "first_slot 0 (file_descriptors s) = Some i" "i < 511" "file_at s fp filename b" "fat_mounted img fp s"
    "n = unat (item_filesize b)" "0 < n" "n \<le> 2 ^ 31 - 4096" "z = OBytes (replicate n 0)"
  obtains ef m fl s1 s2 s3 s4 desc d f p where "kzalloc 132 (OElfFile zero_elf_file) s = Some (ef, s1)"
    "fopen filename (lit ''r'') s1 = Some (int i + 1, s2)"
    "fstat (int i + 1) \<lparr>st_flags = 0, st_filesize = 0\<rparr> s2 = Some (0, \<lparr>st_flags = fl, st_filesize = item_filesize b\<rparr>)"
    "kzalloc (item_filesize b) z s2 = Some (m, s3)" "objs s3 ef = Some (OElfFile zero_elf_file)"
    "put ef (OElfFile (zero_elf_file\<lparr>ef_elf_memory := m\<rparr>)) s3 = Some s4" "ef \<noteq> 0" "m \<noteq> 0" "m \<noteq> ef"
    "objs s4 ef = Some (OElfFile (zero_elf_file\<lparr>ef_elf_memory := m\<rparr>))" "objs s4 m = Some z" "mem_inv s4"
    "{ef, m, p, f, d, desc} \<inter> dom (objs s) = {}" "{ef, m} \<inter> {p, f, d, desc} = {}"
    "vfs_open s4 i desc d f p b" "fat_mounted img fp s4" "objs s \<subseteq>\<^sub>m objs s4"
    "file_descriptors s4 = (file_descriptors s)[i := desc]" "fs_step s s4" "free_blocks s \<le> free_blocks s4 + 8 + blocks_for n"
proof -
  have n1: "1 \<le> blocks_for n" using assms(10) blocks_bounds(1) [of n] by (cases "blocks_for n") auto
  have f8: "8 < free_blocks s"
  proof -
    have "9 \<le> blocks_for n * (snd (heap_shape (kernel_heap s)) - free_blocks s + 8 + 1)"
      using mult_le_mono [OF n1, of 9 "snd (heap_shape (kernel_heap s)) - free_blocks s + 8 + 1"] by simp
    then show ?thesis using assms(3) by (simp add: room_def)
  qed
  obtain ef s1 where e: "kzalloc 132 (OElfFile zero_elf_file) s = Some (ef, s1)" "ef \<noteq> 0" "objs s ef = None"
    "objs s1 = (objs s)(ef \<mapsto> OElfFile zero_elf_file)" "mem_inv s1" "free_blocks s1 = free_blocks s - 1" "heap_step s s1"
    by (rule kzalloc_block [OF assms(1), of 132]) (use f8 in auto)
  have le1: "objs s \<subseteq>\<^sub>m objs s1" by (rule map_le_fresh [OF e(3,4)])
  note h1 = heap_stepD [OF e(7)]
  have p1: "low_heap s1" "6 < free_blocks s1" "dk_filesystem (gdisk s1) = Fat16Fs"
    "first_slot 0 (file_descriptors s1) = Some i" "file_at s1 fp filename b"
    using assms(2,4,5) f8 low_heap_step [OF e(7)] e(6) h1 file_at_mono [OF assms(7) le1] by simp_all
  obtain desc d f p s2 where o: "fopen filename (lit ''r'') s1 = Some (int i + 1, s2)" "vfs_open s2 i desc d f p b"
    "{desc, d, f, p} \<inter> dom (objs s1) = {}" "objs s1 \<subseteq>\<^sub>m objs s2" "file_descriptors s2 = (file_descriptors s1)[i := desc]"
    "mem_inv s2" "gdisk s2 = gdisk s1" "device s2 = device s1" "free_blocks s1 \<le> free_blocks s2 + 7" "fs_step s1 s2"
    by (rule fopen_opens [OF e(5) p1 assms(6)])
  have ef2: "objs s2 ef = Some (OElfFile zero_elf_file)" using map_le_Some [OF o(4), of ef] e(4) by simp
  obtain fl where st: "fstat (int i + 1) \<lparr>st_flags = 0, st_filesize = 0\<rparr> s2 = Some (0, \<lparr>st_flags = fl, st_filesize = item_filesize b\<rparr>)"
    using vfs_stat [OF o(2)] by blast
  have fb2: "free_blocks s \<le> free_blocks s2 + 8" using o(9) e(6) by simp
  have fs2: "fs_step s s2" by (rule fs_step_trans [OF heap_fs_step [OF e(7)] o(10)])
  have rm: "room s2 0 (blocks_for (unat (item_filesize b)))"
    by (rule room_step [OF assms(3) fs_step_shape [OF fs2] fb2]) (simp_all add: assms(9))
  have so: "size_ok (item_filesize b)" using assms(9-11) by (auto simp: size_ok_def)
  obtain m s3 where m: "kzalloc (item_filesize b) z s2 = Some (m, s3)" "m \<noteq> 0" "objs s2 m = None"
    "objs s3 = (objs s2)(m \<mapsto> z)" "mem_inv s3" "heap_step s2 s3" "free_blocks s2 = free_blocks s3 + blocks_for n"
    by (rule kzalloc_run [OF o(6) rm so, of z]) (use assms(9,12) in auto)
  have mne: "m \<noteq> ef" using m(3) ef2 by auto
  let ?f1 = "zero_elf_file\<lparr>ef_elf_memory := m\<rparr>"
  obtain s4 where s4: "put ef (OElfFile ?f1) s3 = Some s4" "objs s4 = (objs s3)(ef \<mapsto> OElfFile ?f1)" "mem_inv s4 = mem_inv s3"
    "heap_step s3 s4" "free_blocks s4 = free_blocks s3"
    by (rule put_live [of s3 ef]) (use ef2 m(4) in auto)
  note h3 = heap_stepD [OF m(6)] and h4 = heap_stepD [OF s4(4)]
  have ne: "{ef, m} \<inter> {p, f, d, desc} = {}" using o(2,3) e(4) m(3) by (auto simp: vfs_open_def)
  have v4: "vfs_open s4 i desc d f p b"
    by (rule vfs_open_keep [OF o(2)]) (use h3 h4 ne s4(2) m(4) in auto)
  have f2: "fat_mounted img fp s2"
    by (rule fat_mounted_mono [OF fat_mounted_mono [OF assms(8) le1] o(4)]) (use h1 o(7,8) in auto)
  then have "st \<noteq> ef \<and> st \<noteq> m" if "st \<in> fat_streams fp" for st
    using that ef2 m(3) by (auto simp: fat_mounted_def)
  moreover have "dk_fs_private (gdisk s2) \<noteq> ef \<and> dk_fs_private (gdisk s2) \<noteq> m"
    using f2 ef2 m(3) by (auto simp: fat_mounted_def)
  ultimately have f4: "fat_mounted img fp s4" using f2 h3 h4 s4(2) m(4) by (simp add: fat_mounted_def)
  have le4: "objs s \<subseteq>\<^sub>m objs s4"
    using e(3) m(3) map_le_Some [OF o(4)] map_le_Some [OF le1] by (auto simp: map_le_def s4(2) m(4) domI)
  have fs4: "fs_step s s4" using fs2 heap_fs_step [OF m(6)] heap_fs_step [OF s4(4)] by (blast intro: fs_step_trans)
  have new: "{ef, m, p, f, d, desc} \<inter> dom (objs s) = {}"
    using e(3) o(3) m(3) map_le_Some [OF o(4)] map_le_Some [OF le1] by fastforce
  have fd4: "file_descriptors s4 = (file_descriptors s)[i := desc]" using h1 o(5) h3 h4 by simp
  have "objs s3 ef = Some (OElfFile zero_elf_file)" "objs s4 ef = Some (OElfFile ?f1)" "objs s4 m = Some z" "mem_inv s4"
    "free_blocks s \<le> free_blocks s4 + 8 + blocks_for n"
    using s4(2,3,5) m(4,5,7) ef2 mne fb2 by simp_all
  then show thesis
    using that [OF e(1) o(1) st m(1) _ s4(1) e(2) m(2) mne _ _ _ new ne v4 f4 le4 fd4 fs4] by blast
qed

text \<open>The rest of \<open>elf_load\<close>: the bytes of the file, the structure filled from them, and the file closed again.\<close>

lemma load_read:
  assumes "vfs_open s i desc d f p b" "fat_mounted img fp s" "mem_inv s" "fat_layout fp" "unat (fat16_get_first_cluster b) = c"
    "c < 65536" "n = unat (item_filesize b)" "0 < n" "n < 2 ^ 31" "chain_ok img fp c 0 n" "data = file_bytes img fp c 0 n"
    "objs s ef = Some (OElfFile e)" "objs s m = Some (OBytes (replicate n 0))" "m \<noteq> ef" "{ef, m} \<inter> {p, f, d, desc} = {}"
  obtains s5 s6 s7 s8 where "fread (item_filesize b) 1 (int i + 1) s = Some (1, data, s5)"
    "store_bytes m data s5 = Some s6" "objs s6 ef = Some (OElfFile e)" "objs s6 m = Some (OBytes data)"
    "put ef (OElfFile e') s6 = Some s7" "fclose (int i + 1) s7 = Some (0, s8)" "data \<noteq> []"
    "objs s8 ef = Some (OElfFile e')" "objs s8 m = Some (OBytes data)" "mem_inv s8"
    "\<And>a. a \<notin> {ef, m, p, f, d, desc} \<Longrightarrow> a \<notin> fat_streams fp \<Longrightarrow> objs s8 a = objs s a"
    "kept {ef, m, p, f, d, desc} s s8" "file_descriptors s8 = (file_descriptors s)[i := 0]" "fs_step s s8"
    "free_blocks s \<le> free_blocks s8"
proof -
  obtain s5 where r: "fread (item_filesize b) 1 (int i + 1) s = Some (1, data, s5)" "fat_step fp s s5"
    using vfs_read [OF assms(1,2,4-10)] assms(11) by blast
  have k5: "objs s5 a = Some x" if "objs s a = Some x" "\<forall>d. x \<noteq> OStream d" for a x
    by (rule fat_step_keeps [OF assms(2) r(2) that])
  have m5: "objs s5 m = Some (OBytes (replicate n 0))" using k5 assms(13) by simp
  have ef5: "objs s5 ef = Some (OElfFile e)" using k5 assms(12) by simp
  have v5: "vfs_open s5 i desc d f p b"
    by (rule vfs_open_keep [OF assms(1) fat_step_fds [OF r(2)]]) (use assms(1) k5 in \<open>auto simp: vfs_open_def\<close>)
  have ld: "length data = n" "data \<noteq> []" using assms(8,11) by (auto simp: file_bytes_def)
  obtain s6 where s6: "store_bytes m data s5 = Some s6" "objs s6 = (objs s5)(m \<mapsto> OBytes data)" "mem_inv s6 = mem_inv s5"
    "heap_step s5 s6" "free_blocks s6 = free_blocks s5"
    by (rule store_ok [OF m5]) (use ld(1) in simp)
  obtain s7 where s7: "put ef (OElfFile e') s6 = Some s7" "objs s7 = (objs s6)(ef \<mapsto> OElfFile e')"
    "mem_inv s7 = mem_inv s6" "heap_step s6 s7" "free_blocks s7 = free_blocks s6"
    by (rule put_live [of s6 ef]) (use ef5 s6(2) assms(14) in auto)
  note h6 = heap_stepD [OF s6(4)] and h7 = heap_stepD [OF s7(4)]
  have v7: "vfs_open s7 i desc d f p b"
    by (rule vfs_open_keep [OF v5]) (use h6 h7 assms(15) s6(2) s7(2) in auto)
  have mi7: "mem_inv s7" using s7(3) s6(3) fat_step_inv [OF assms(2) r(2)] assms(3) by simp
  obtain s8 where c: "fclose (int i + 1) s7 = Some (0, s8)" "objs s8 = (objs s7)(p := None, f := None, d := None, desc := None)"
    "mem_inv s8" "file_descriptors s8 = (file_descriptors s7)[i := 0]" "fs_step s7 s8" "free_blocks s7 \<le> free_blocks s8"
    by (rule vfs_close [OF v7 mi7])
  have "objs s6 ef = Some (OElfFile e)" "objs s6 m = Some (OBytes data)" using s6(2) ef5 assms(14) by auto
  moreover have "objs s8 ef = Some (OElfFile e')" "objs s8 m = Some (OBytes data)"
    using c(2) s7(2) s6(2) assms(14,15) by auto
  moreover have "kept {ef, m, p, f, d, desc} s5 s8" by (rule kept_same) (use s6(2) s7(2) c(2) in auto)
  then have "kept ({} \<union> {ef, m, p, f, d, desc}) s s8"
    using fat_step_kept [OF assms(2) r(2), of "{}"] by (blast intro: kept_trans)
  moreover have "objs s8 a = objs s a" if "a \<notin> {ef, m, p, f, d, desc}" "a \<notin> fat_streams fp" for a
    using that c(2) s7(2) s6(2) fat_stepD(4) [OF r(2) that(2)] by simp
  moreover have "fs_step s s8"
    using fat_fs_step [OF r(2)] heap_fs_step [OF s6(4)] heap_fs_step [OF s7(4)] c(5) by (blast intro: fs_step_trans)
  moreover have "free_blocks s \<le> free_blocks s8"
    using fat_stepD(3) [OF r(2)] s6(5) s7(5) c(6) by (simp add: free_blocks_def)
  moreover have "file_descriptors s8 = (file_descriptors s)[i := 0]"
    using c(4) fat_step_fds [OF r(2)] h6 h7 by simp
  ultimately show thesis using that [OF r(1) s6(1) _ _ s7(1) c(1) ld(2)] c(3) by simp
qed

lemma elf_load_ok:
  assumes "mem_inv s" "low_heap s" "room s 8 (blocks_for n)" "dk_filesystem (gdisk s) = Fat16Fs"
    "first_slot 0 (file_descriptors s) = Some i" "i < 511" "file_at s fp filename b"
    "fat_mounted img fp s" "fat_layout fp" "unat (fat16_get_first_cluster b) = c" "c < 65536"
    "n = unat (item_filesize b)" "0 < n" "n \<le> 2 ^ 31 - 4096" "chain_ok img fp c 0 n" "data = file_bytes img fp c 0 n" "table_in_file data"
  obtains ef memory s' where "elf_load filename s = Some (if accepted data then (0, ef, s') else (- EINVFORMAT, 0, s'))"
    "ef \<noteq> 0" "mem_inv s'" "file_descriptors s' = file_descriptors s" "ef \<notin> dom (objs s)" "memory \<notin> dom (objs s)"
    "objs s' memory = Some (OBytes data)" "accepted data \<Longrightarrow> elf_loaded s' ef memory data"
    "\<And>a. a \<in> dom (objs s) \<Longrightarrow> a \<notin> fat_streams fp \<Longrightarrow> objs s' a = objs s a"
    "fs_step s s'" "free_blocks s \<le> free_blocks s' + 8 + blocks_for n" "kept {} s s'"
proof -
  let ?z = "OBytes (replicate n 0)"
  obtain ef m fl s1 s2 s3 s4 desc d f p where o: "kzalloc 132 (OElfFile zero_elf_file) s = Some (ef, s1)"
    "fopen filename (lit ''r'') s1 = Some (int i + 1, s2)"
    "fstat (int i + 1) \<lparr>st_flags = 0, st_filesize = 0\<rparr> s2 = Some (0, \<lparr>st_flags = fl, st_filesize = item_filesize b\<rparr>)"
    "kzalloc (item_filesize b) ?z s2 = Some (m, s3)" "objs s3 ef = Some (OElfFile zero_elf_file)"
    "put ef (OElfFile (zero_elf_file\<lparr>ef_elf_memory := m\<rparr>)) s3 = Some s4" "ef \<noteq> 0" "m \<noteq> 0" "m \<noteq> ef"
    "objs s4 ef = Some (OElfFile (zero_elf_file\<lparr>ef_elf_memory := m\<rparr>))" "objs s4 m = Some ?z" "mem_inv s4"
    "{ef, m, p, f, d, desc} \<inter> dom (objs s) = {}" "{ef, m} \<inter> {p, f, d, desc} = {}"
    "vfs_open s4 i desc d f p b" "fat_mounted img fp s4" "objs s \<subseteq>\<^sub>m objs s4"
    "file_descriptors s4 = (file_descriptors s)[i := desc]" "fs_step s s4" "free_blocks s \<le> free_blocks s4 + 8 + blocks_for n"
    by (rule load_opened [OF assms(1-8,12-14) refl])
  let ?f1 = "zero_elf_file\<lparr>ef_elf_memory := m\<rparr>"
  let ?r = "if accepted data then (0, foldl include_segment ?f1 (load_segments data 0 (phdr_count data))) else (- EINVFORMAT, ?f1)"
  have n31: "n < 2 ^ 31" using assms(14) by simp
  obtain s5 s6 s7 s8 where r: "fread (item_filesize b) 1 (int i + 1) s4 = Some (1, data, s5)"
    "store_bytes m data s5 = Some s6" "objs s6 ef = Some (OElfFile ?f1)" "objs s6 m = Some (OBytes data)"
    "put ef (OElfFile (snd ?r)) s6 = Some s7" "fclose (int i + 1) s7 = Some (0, s8)" "data \<noteq> []"
    "objs s8 ef = Some (OElfFile (snd ?r))" "objs s8 m = Some (OBytes data)" "mem_inv s8"
    "\<And>a. a \<notin> {ef, m, p, f, d, desc} \<Longrightarrow> a \<notin> fat_streams fp \<Longrightarrow> objs s8 a = objs s4 a"
    "kept {ef, m, p, f, d, desc} s4 s8" "file_descriptors s8 = (file_descriptors s4)[i := 0]" "fs_step s4 s8"
    "free_blocks s4 \<le> free_blocks s8"
    by (rule load_read [OF o(15,16,12) assms(9-13) n31 assms(15,16) o(10,11,9,14), where e' = "snd ?r"]) blast
  have pl: "elf_process_loaded data ?f1 = Some ?r" by (rule process_loaded_ok [OF assms(17)])
  have einv: "- EINVFORMAT < 0" by (simp add: EINVFORMAT_def)
  have load: "elf_load filename s = Some (if accepted data then (0, ef, s8) else (- EINVFORMAT, 0, s8))"
    using o(1-6,8) r(1-7) pl einv assms(12)
    by (cases "accepted data") (simp_all add: elf_load_def get_defs elf_load_out_def elf_memory_def)
  have il: "i < length (file_descriptors s)" "file_descriptors s ! i = 0" using assms(5) by (simp_all add: first_slot_Some)
  have fdl: "file_descriptors s8 = file_descriptors s"
    using r(13) o(18) il by (metis list_update_id list_update_overwrite)
  have keep: "objs s8 a = objs s a" if "a \<in> dom (objs s)" "a \<notin> fat_streams fp" for a
    using that r(11) [of a] o(13) map_le_Some [OF o(17)] by fastforce
  have "kept {} s s4" by (rule kept_same) (use map_le_Some [OF o(17)] in auto)
  then have "kept ({} \<union> {ef, m, p, f, d, desc}) s s8" by (rule kept_trans [OF _ r(12)])
  then have kp: "kept {} s s8" by (rule_tac kept_drop) (use o(13) in auto)
  have "fs_step s s8" by (rule fs_step_trans [OF o(19) r(14)])
  moreover have "free_blocks s \<le> free_blocks s8 + 8 + blocks_for n" using o(20) r(15) by simp
  moreover have "ef \<notin> dom (objs s)" "m \<notin> dom (objs s)" using o(13) by auto
  moreover have "accepted data \<Longrightarrow> elf_loaded s8 ef m data" using r(8,9) by (simp add: elf_loaded_def)
  ultimately show thesis using that [OF load o(7) r(10) fdl _ _ r(9)] keep kp by blast
qed

section \<open>A volume with a program\<close>

text \<open>A program of two segments, in one cluster of the small volume.\<close>

definition sample_elf :: "u8 list" where
  "sample_elf =
    [0x7F, 0x45, 0x4C, 0x46, 1, 1, 1, 0, 0, 0, 0, 0, 0, 0, 0, 0, 2, 0, 3, 0, 1, 0, 0, 0, 0, 0, 0x40, 0,
     0x34, 0, 0, 0, 0, 0, 0, 0, 0, 0, 0, 0, 0x34, 0, 0x20, 0, 2, 0, 0, 0, 0, 0, 0, 0,
     1, 0, 0, 0, 0, 0, 0, 0, 0, 0, 0x40, 0, 0, 0, 0x40, 0, 0x64, 0, 0, 0, 0x64, 0, 0, 0, 5, 0, 0, 0, 0, 0x10, 0, 0,
     1, 0, 0, 0, 0x64, 0, 0, 0, 0x64, 0x10, 0x40, 0, 0x64, 0x10, 0x40, 0, 0x10, 0, 0, 0, 0x20, 0, 0, 0, 6, 0, 0, 0, 0, 0x10, 0, 0]"

definition elf_item :: "u8 list" where
  "elf_item = [0x41, 0x20, 0x20, 0x20, 0x20, 0x20, 0x20, 0x20, 0x45, 0x4C, 0x46, 0, 0, 0, 0, 0,
     0, 0, 0, 0, 0, 0, 0, 0, 0, 0, 2, 0, 116, 0, 0, 0]"

definition elf_volume :: "nat \<Rightarrow> u8 list" where
  "elf_volume i = (if i = 2 then pad_to 512 elf_item else if i = 3 then pad_to 512 sample_elf else sample_volume i)"

definition sample_elf_state :: "obj list \<Rightarrow> nat \<Rightarrow> kernel" where
  "sample_elf_state xs n = (sample_store
     ([OFatPrivate sample_private, disk_stream_obj, disk_stream_obj, disk_stream_obj, OBytes (pad_to 512 elf_item)] @ xs) n)
     \<lparr>device := ata_device elf_volume, file_descriptors := replicate PLUMOS_MAX_FILE_DESCRIPTORS 0,
      gdisk := \<lparr>dk_type = 0, dk_sector_size = 512, dk_id = 0, dk_filesystem = Fat16Fs, dk_fs_private = slot 0\<rparr>,
      processes := replicate 12 0, task_head := 0\<rparr>"

lemma sample_elf_header:
  "table_in_file sample_elf" "accepted sample_elf"
  "load_segments sample_elf 0 (phdr_count sample_elf) = [(0x400000, 0, 100), (0x401064, 100, 16)]"
proof -
  have f: "le32 sample_elf 28 = 52" "phdr_count sample_elf = 2"
    by (simp_all add: sample_elf_def le32_def le16_def phdr_count_def)
  show "table_in_file sample_elf" by (simp add: table_in_file_def f) (simp add: sample_elf_def)
  show "accepted sample_elf" by (simp add: accepted_def f) (simp add: sample_elf_def elf_signature_def)
  have "map (phdr_pos sample_elf) [0..<0 + 2] = [52, 84]" by (simp add: phdr_pos_def f upt_rec)
  moreover have "le32 sample_elf 52 = PT_LOAD" "le32 sample_elf 84 = PT_LOAD"
    by (simp_all add: sample_elf_def le32_def le16_def PT_LOAD_def)
  moreover have "segment_at sample_elf 52 = (0x400000, 0, 100)" "segment_at sample_elf 84 = (0x401064, 100, 16)"
    by (simp_all add: segment_at_def sample_elf_def le32_def le16_def)
  ultimately show "load_segments sample_elf 0 (phdr_count sample_elf) = [(0x400000, 0, 100), (0x401064, 100, 16)]"
    unfolding load_segments_def f by (simp del: upt_Suc)
qed

lemma sample_elf_state_ok:
  assumes "length xs < 900" "n < 3000"
  shows "mem_inv (sample_elf_state xs n)" "low_heap (sample_elf_state xs n)" "free_blocks (sample_elf_state xs n) = n"
    "dk_filesystem (gdisk (sample_elf_state xs n)) = Fat16Fs" "file_descriptors (sample_elf_state xs n) = replicate 512 0"
    "file_at (sample_elf_state xs n) sample_private (lit ''0:/a.elf'') elf_item"
    "fat_mounted elf_volume sample_private (sample_elf_state xs n)"
    "snd (heap_shape (kernel_heap (sample_elf_state xs n))) = 5 + length xs + n"
proof -
  let ?xs = "[OFatPrivate sample_private, disk_stream_obj, disk_stream_obj, disk_stream_obj, OBytes (pad_to 512 elf_item)] @ xs"
  let ?s = "sample_elf_state xs n" and ?b = "pad_to 512 elf_item"
  have os: "objs ?s = stored ?xs" by (simp add: sample_elf_state_def)
  show "mem_inv ?s" "free_blocks ?s = n"
    using sample_store_inv [of ?xs n] sample_store_free [of ?xs n] assms
    by (simp_all add: sample_elf_state_def mem_inv_def free_blocks_def)
  show "dk_filesystem (gdisk ?s) = Fat16Fs" "file_descriptors ?s = replicate 512 0"
    by (simp_all add: sample_elf_state_def PLUMOS_MAX_FILE_DESCRIPTORS_def)
  have "length (encode (replicate k (Used 0) @ replicate m Free)) = k + m" for k m
    by (induction k) (simp_all add: encode_def)
  then show "low_heap ?s" "snd (heap_shape (kernel_heap ?s)) = 5 + length xs + n"
    using assms by (simp_all add: low_heap_def sample_elf_state_def sample_store_def heap_shape_def sample_heap_def del: replicate_Suc)
  have o: "objs ?s (slot 0) = Some (OFatPrivate sample_private)" "objs ?s (slot 1) = Some disk_stream_obj"
    "objs ?s (slot 2) = Some disk_stream_obj" "objs ?s (slot 3) = Some disk_stream_obj" "objs ?s (slot 4) = Some (OBytes ?b)"
    using assms(1) by (auto simp: os nth_append intro!: stored_nth)
  have "ata_serves (ata_device elf_volume) elf_volume"
    by (rule ata_device_serves) (simp add: elf_volume_def sample_volume_def)
  then show "fat_mounted elf_volume sample_private ?s"
    using o by (auto simp: fat_mounted_def sample_elf_state_def fat_streams_def sample_private_def disk_stream_obj_def slot_nonnull)
  have r: "root_dir ?s sample_private ?b 1"
    using o by (auto simp: root_dir_def sample_private_def sample_elf_state_def)
  have e: "dir_entry ?b 0 = elf_item" by (simp add: dir_entry_def pad_to_def elf_item_def)
  have mt: "name_matches elf_item ([0x61, 0x2E, 0x65, 0x6C, 0x66] @ [0])"
    by (simp add: name_matches_def item_name_def trimmed_def elf_item_def tolower_def PLUMOS_MAX_PATH_def)
  have f: "cstr (lit ''0:/a.elf'') = 0x30 # 0x3A # 0x2F # [0x61, 0x2E, 0x65, 0x6C, 0x66]" "0 \<in> set (lit ''0:/a.elf'')"
    by (simp_all add: lit_def)
  have c: "components [0x61, 0x2E, 0x65, 0x6C, 0x66] = [[0x61, 0x2E, 0x65, 0x6C, 0x66]]" by (simp add: components.simps)
  show "file_at ?s sample_private (lit ''0:/a.elf'') elf_item"
    unfolding file_at_def
    by (rule exI, rule exI, rule exI [of _ ?b], rule exI [of _ 1], rule exI [of _ 0])
      (use f c r e mt in \<open>auto simp: PLUMOS_MAX_PATH_def elf_item_def item_attribute_def FAT_FILE_SUBDIRECTORY_def\<close>)
qed

lemma sample_elf_data: "file_bytes elf_volume sample_private 2 0 116 = sample_elf" "chain_ok elf_volume sample_private 2 0 116"
proof -
  have f: "follow elf_volume sample_private 0 2 = Some 2" by simp
  show "file_bytes elf_volume sample_private 2 0 116 = sample_elf"
  proof (rule nth_equalityI)
    fix i assume "i < length (file_bytes elf_volume sample_private 2 0 116)"
    then have i: "i < 116" by (simp add: file_bytes_def)
    have l: "length sample_elf = 116" by (simp add: sample_elf_def)
    have "file_bytes elf_volume sample_private 2 0 116 ! i = disk_byte elf_volume (1536 + i)"
      using i f by (simp add: file_bytes_def file_byte_def sample_cluster)
    also have "\<dots> = sample_elf ! i"
    proof -
      have d: "disk_byte elf_volume (512 * k + j) = elf_volume k ! j" if "j < 512" for k j
        using that by (simp add: disk_byte_def)
      show ?thesis using d [of i 3] i l by (simp add: elf_volume_def nth_pad_to)
    qed
    finally show "file_bytes elf_volume sample_private 2 0 116 ! i = sample_elf ! i" .
  qed (simp add: file_bytes_def sample_elf_def)
  show "chain_ok elf_volume sample_private 2 0 116"
    using f by (auto simp: chain_ok_def sample_cluster cluster_ok_def)
qed

section \<open>Properties\<close>

text \<open>
  C26. The range of a program: for a file whose table of program headers lies in it, \<open>elf_process_loaded\<close>
  accepts exactly the files with the ELF signature, a 32-bit or unspecified class, a little-endian or
  unspecified encoding and a program header table, and rejects the others with \<open>-EINVFORMAT\<close>; for an
  accepted file whose loadable segments neither start at 0 nor wrap around, the virtual and physical
  base it records are those of a lowest segment and the ends those of a highest one (the sizes taken
  from the file). The type of the file and its entry point are not looked at.
\<close>
theorem elf_range:
  assumes "table_in_file data"
  shows "(\<not> accepted data \<longrightarrow> elf_process_loaded data f = Some (- EINVFORMAT, f)) \<and>
    (accepted data \<and> ef_virtual_base_address f = 0 \<and> ef_virtual_end_address f = 0 \<and>
      (\<forall>(v, off, z) \<in> set (load_segments data 0 (phdr_count data)). v \<noteq> 0 \<and> v \<le> v + z) \<longrightarrow>
      (\<exists>f'. elf_process_loaded data f = Some (0, f') \<and>
        covers (ef_elf_memory f) (set (load_segments data 0 (phdr_count data))) f'))"
proof (intro conjI impI)
  assume "\<not> accepted data"
  then show "elf_process_loaded data f = Some (- EINVFORMAT, f)" using process_loaded_ok [OF assms, of f] by simp
next
  assume a: "accepted data \<and> ef_virtual_base_address f = 0 \<and> ef_virtual_end_address f = 0 \<and>
      (\<forall>(v, off, z) \<in> set (load_segments data 0 (phdr_count data)). v \<noteq> 0 \<and> v \<le> v + z)"
  then have "covers (ef_elf_memory f) {} f" by (simp add: covers_def)
  then have "covers (ef_elf_memory f) ({} \<union> set (load_segments data 0 (phdr_count data)))
      (foldl include_segment f (load_segments data 0 (phdr_count data)))"
    by (rule covers_fold) (use a in auto)
  then show "\<exists>f'. elf_process_loaded data f = Some (0, f') \<and>
        covers (ef_elf_memory f) (set (load_segments data 0 (phdr_count data))) f'"
    using process_loaded_ok [OF assms, of f] a by auto
qed

theorem elf_range_witness:
  "\<exists>f. elf_process_loaded sample_elf (zero_elf_file\<lparr>ef_elf_memory := 0x1000000\<rparr>) = Some (0, f) \<and>
     covers 0x1000000 {(0x400000, 0, 100), (0x401064, 100, 16)} f"
  using elf_range [OF sample_elf_header(1), of "zero_elf_file\<lparr>ef_elf_memory := 0x1000000\<rparr>"]
  by (auto simp: sample_elf_header zero_elf_file_def)

text \<open>
  C25. Loading a program by its path: for a file in the root directory of the mounted volume, of any size for
  which the heap has room, \<open>elf_load\<close> returns a fresh file object whose memory holds exactly the bytes of the
  file's cluster chain and whose addresses are those of the segments processed in order, or
  \<open>-EINVFORMAT\<close> when the file is no ELF file (whose object and memory are then not released); the
  table of descriptors is as before and no object there was changes, the driver's streams apart.
\<close>
theorem elf_load_file:
  assumes "mem_inv s" "low_heap s" "room s 8 (blocks_for n)" "dk_filesystem (gdisk s) = Fat16Fs"
    "first_slot 0 (file_descriptors s) = Some i" "i < 511" "file_at s fp filename b"
    "fat_mounted img fp s" "fat_layout fp" "unat (fat16_get_first_cluster b) = c" "c < 65536"
    "n = unat (item_filesize b)" "0 < n" "n \<le> 2 ^ 31 - 4096" "chain_ok img fp c 0 n" "data = file_bytes img fp c 0 n" "table_in_file data"
  shows "\<exists>ef memory s'. elf_load filename s = Some (if accepted data then (0, ef, s') else (- EINVFORMAT, 0, s')) \<and>
    mem_inv s' \<and> file_descriptors s' = file_descriptors s \<and> {ef, memory} \<inter> dom (objs s) = {} \<and>
    objs s' memory = Some (OBytes data) \<and> (accepted data \<longrightarrow> elf_loaded s' ef memory data) \<and>
    (\<forall>a \<in> dom (objs s) - fat_streams fp. objs s' a = objs s a)"
  by (rule elf_load_ok [OF assms]) blast

theorem elf_load_file_witness:
  "\<exists>ef memory s'. elf_load (lit ''0:/a.elf'') (sample_elf_state [] 1500) = Some (0, ef, s') \<and>
     elf_loaded s' ef memory sample_elf"
proof -
  have i: "first_slot 0 (file_descriptors (sample_elf_state [] 1500)) = Some 0"
    by (simp add: sample_elf_state_ok numeral_eq_Suc)
  have l: "fat_layout sample_private" by (rule sample_mounted_ok(2) [of "[]"]) simp
  have c: "unat (fat16_get_first_cluster elf_item) = 2" "unat (item_filesize elf_item) = 116"
    by (simp_all add: fat16_get_first_cluster_def le16_def item_filesize_def le32_def elf_item_def)
  show ?thesis
    using elf_load_file [OF sample_elf_state_ok(1,2) _ sample_elf_state_ok(4) i _ sample_elf_state_ok(6,7) l c(1) _ c(2) [symmetric]
        _ _ sample_elf_data(2) refl, unfolded sample_elf_data(1)]
    by (auto simp: sample_elf_state_ok sample_elf_header room_def blocks_one)
qed

end
