(* ===== verification/Task.thy ===== *)
theory Task
  imports Elf Paging
begin

unbundle bit_operations_syntax

text \<open>
  Tasks (\<open>src/src/task/task.c\<close>, \<open>src/src/task/task.asm\<close>): the doubly linked list of tasks, the switch from
  one to the next, saving and restoring the registers, and the kernel's access to the memory of a task.
  Loading segment registers is not modelled. Memory of a task is reached through its page tables; a
  physical address lies in the heap object whose blocks cover it.
\<close>

section \<open>Memory\<close>

text \<open>The object that covers a physical address: the nearest one at or below its page.\<close>

fun covering :: "nat \<Rightarrow> u32 \<Rightarrow> kernel \<Rightarrow> u32 option" where
  "covering 0 a s = None"
| "covering (Suc n) a s = (if objs s a \<noteq> None then Some a else covering n (a - 4096) s)"

definition phys_place :: "u32 \<Rightarrow> kernel \<Rightarrow> (u32 \<times> nat) option" where
  "phys_place pa s =
     do {
       a \<leftarrow> covering 25600 (pa AND 0xfffff000) s;
       b \<leftarrow> get_bytes s a;
       if unat (pa - a) < length b then Some (a, unat (pa - a)) else None
     }"

definition load8 :: "u32 \<Rightarrow> kernel \<Rightarrow> u8 option" where
  "load8 pa s = do { (a, i) \<leftarrow> phys_place pa s; b \<leftarrow> get_bytes s a; arr_get b (int i) }"

definition store8 :: "u32 \<Rightarrow> u8 \<Rightarrow> kernel \<Rightarrow> kernel option" where
  "store8 pa v s =
     do {
       (a, i) \<leftarrow> phys_place pa s;
       b \<leftarrow> get_bytes s a;
       b \<leftarrow> arr_set b (int i) v;
       put a (OBytes b) s
     }"

definition store32 :: "u32 \<Rightarrow> u32 \<Rightarrow> kernel \<Rightarrow> kernel option" where
  "store32 pa v s =
     do {
       s \<leftarrow> store8 pa (ucast v) s;
       s \<leftarrow> store8 (pa + 1) (ucast (drop_bit 8 v)) s;
       s \<leftarrow> store8 (pa + 2) (ucast (drop_bit 16 v)) s;
       store8 (pa + 3) (ucast (drop_bit 24 v)) s
     }"

text \<open>The processor's translation with the page directory \<open>dir\<close> loaded; a page that is not present faults.\<close>

definition mmu :: "u32 \<Rightarrow> u32 \<Rightarrow> kernel \<Rightarrow> u32 option" where
  "mmu dir va s =
     do {
       entry \<leftarrow> paging_get dir (va AND 0xfffff000) s;
       if entry AND PAGING_IS_PRESENT = 0 then None
       else Some ((entry AND 0xfffff000) + (va AND 0xfff))
     }"

definition virt8 :: "u32 \<Rightarrow> kernel \<Rightarrow> u8 option" where
  "virt8 va s = do { pa \<leftarrow> mmu (cr3 s) va s; load8 pa s }"

definition virt32 :: "u32 \<Rightarrow> kernel \<Rightarrow> u32 option" where
  "virt32 va s =
     do {
       b0 \<leftarrow> virt8 va s;
       b1 \<leftarrow> virt8 (va + 1) s;
       b2 \<leftarrow> virt8 (va + 2) s;
       b3 \<leftarrow> virt8 (va + 3) s;
       Some (le32 [b0, b1, b2, b3] 0)
     }"

text \<open>The string at an address, up to its terminator or \<open>n\<close> bytes.\<close>

fun virt_string :: "nat \<Rightarrow> u32 \<Rightarrow> kernel \<Rightarrow> u8 list option" where
  "virt_string 0 va s = Some []"
| "virt_string (Suc n) va s =
     do {
       c \<leftarrow> virt8 va s;
       if c = 0 then Some [0] else map_option (\<lambda>r. c # r) (virt_string n (va + 1) s)
     }"

section \<open>The kernel's own pages\<close>

definition kernel_page :: "kernel \<Rightarrow> kernel option" where
  "kernel_page s = paging_switch (kernel_chunk s) s"

section \<open>task.c\<close>

definition USER_DATA_SEGMENT :: u32 where "USER_DATA_SEGMENT = 0x23"
definition USER_CODE_SEGMENT :: u32 where "USER_CODE_SEGMENT = 0x1b"
definition PLUMOS_PROGRAM_VIRTUAL_STACK_ADDRESS_START :: u32 where
  "PLUMOS_PROGRAM_VIRTUAL_STACK_ADDRESS_START = 0x3FF000"
definition PROCESS_FILETYPE_ELF :: u8 where "PROCESS_FILETYPE_ELF = 0"
definition PROCESS_FILETYPE_BINARY :: u8 where "PROCESS_FILETYPE_BINARY = 1"

definition task_current :: "kernel \<Rightarrow> u32" where
  "task_current s = current_task s"

definition zero_registers :: registers where
  "zero_registers = \<lparr>r_edi = 0, r_esi = 0, r_ebp = 0, r_ebx = 0, r_edx = 0, r_ecx = 0, r_eax = 0,
     r_ip = 0, r_cs = 0, r_flags = 0, r_esp = 0, r_ss = 0\<rparr>"

definition zero_task :: task where
  "zero_task = \<lparr>t_page_directory = 0, t_registers = zero_registers, t_process = 0, t_next = 0, t_prev = 0\<rparr>"

text \<open>The first instruction: the entry point of an ELF file, the load address of a binary.\<close>

definition start_ip :: "process \<Rightarrow> kernel \<Rightarrow> u32 option" where
  "start_ip p s =
     (if p_filetype p = PROCESS_FILETYPE_ELF then do {
        f \<leftarrow> get_elf_file s (p_ptr p);
        b \<leftarrow> get_bytes s (elf_header f);
        e_entry b
      } else Some PLUMOS_PROGRAM_VIRTUAL_ADDRESS)"

definition task_init :: "u32 \<Rightarrow> u32 \<Rightarrow> kernel \<Rightarrow> (int \<times> kernel) option" where
  "task_init task process s =
     do {
       s \<leftarrow> put task (OTask zero_task) s;
       (directory, s) \<leftarrow> paging_new_4gb (ucast (PAGING_IS_PRESENT OR PAGING_ACCESS_FROM_ALL)) s;
       t \<leftarrow> get_task s task;
       s \<leftarrow> put task (OTask (t\<lparr>t_page_directory := directory\<rparr>)) s;
       if directory = 0 then Some (- EIO, s)
       else do {
         p \<leftarrow> get_process s process;
         ip \<leftarrow> start_ip p s;
         t \<leftarrow> get_task s task;
         s \<leftarrow> put task (OTask (t\<lparr>t_registers := (t_registers t)\<lparr>r_ip := ip, r_ss := USER_DATA_SEGMENT,
             r_cs := USER_CODE_SEGMENT, r_esp := PLUMOS_PROGRAM_VIRTUAL_STACK_ADDRESS_START\<rparr>,
           t_process := process\<rparr>)) s;
         Some (0, s)
       }
     }"

definition task_get_next :: "kernel \<Rightarrow> u32 option" where
  "task_get_next s =
     do {
       t \<leftarrow> get_task s (current_task s);
       Some (if t_next t = 0 then task_head s else t_next t)
     }"

definition task_list_remove :: "u32 \<Rightarrow> kernel \<Rightarrow> kernel option" where
  "task_list_remove task s =
     (if task = 0 then Some s
      else do {
        t \<leftarrow> get_task s task;
        s \<leftarrow> (if t_prev t \<noteq> 0 then do {
               p \<leftarrow> get_task s (t_prev t);
               put (t_prev t) (OTask (p\<lparr>t_next := t_next t\<rparr>)) s
             } else Some s);
        t \<leftarrow> get_task s task;
        let s = (if task = task_head s then s\<lparr>task_head := t_next t\<rparr> else s);
        let s = (if task = task_tail s then s\<lparr>task_tail := t_prev t\<rparr> else s);
        if task = current_task s then do {
          n \<leftarrow> task_get_next s;
          Some (s\<lparr>current_task := n\<rparr>)
        } else Some s
      })"

definition task_free :: "u32 \<Rightarrow> kernel \<Rightarrow> (int \<times> kernel) option" where
  "task_free task s =
     do {
       t \<leftarrow> get_task s task;
       s \<leftarrow> paging_free_4gb (t_page_directory t) s;
       s \<leftarrow> task_list_remove task s;
       s \<leftarrow> kfree task s;
       Some (0, s)
     }"

definition task_new_out :: "int \<Rightarrow> u32 \<Rightarrow> kernel \<Rightarrow> (u32 \<times> kernel) option" where
  "task_new_out res task s =
     (if res < 0 then do { (r, s) \<leftarrow> task_free task s; Some (to_u32 res, s) } else Some (task, s))"

definition task_new :: "u32 \<Rightarrow> kernel \<Rightarrow> (u32 \<times> kernel) option" where
  "task_new process s =
     do {
       (task, s) \<leftarrow> kzalloc 64 (OTask zero_task) s;
       if task = 0 then task_new_out (- ENOMEM) task s
       else do {
         (res, s) \<leftarrow> task_init task process s;
         if res \<noteq> PLUMOS_ALL_OK then task_new_out res task s
         else if task_head s = 0
         then task_new_out res task (s\<lparr>task_head := task, task_tail := task, current_task := task\<rparr>)
         else do {
           l \<leftarrow> get_task s (task_tail s);
           s \<leftarrow> put (task_tail s) (OTask (l\<lparr>t_next := task\<rparr>)) s;
           t \<leftarrow> get_task s task;
           s \<leftarrow> put task (OTask (t\<lparr>t_prev := task_tail s\<rparr>)) s;
           task_new_out res task (s\<lparr>task_tail := task\<rparr>)
         }
       }
     }"

definition task_switch :: "u32 \<Rightarrow> kernel \<Rightarrow> (int \<times> kernel) option" where
  "task_switch task s =
     do {
       let s = s\<lparr>current_task := task\<rparr>;
       t \<leftarrow> get_task s task;
       s \<leftarrow> paging_switch (t_page_directory t) s;
       Some (0, s)
     }"

text \<open>
  \<open>task_return\<close> and \<open>restore_general_purpose_registers\<close> of \<open>task.asm\<close>: the registers with which the
  processor goes on in user mode. \<open>flags\<close> are those of the kernel; \<open>ecx\<close> is loaded from the place of
  \<open>ebx\<close>, and \<open>eax\<close> first from the place of \<open>ecx\<close>.
\<close>

definition restore_general_purpose_registers :: "registers \<Rightarrow> registers \<Rightarrow> registers" where
  "restore_general_purpose_registers regs cpu =
     cpu\<lparr>r_edi := r_edi regs, r_esi := r_esi regs, r_ebp := r_ebp regs, r_edx := r_edx regs,
       r_ecx := r_ebx regs, r_eax := r_eax regs, r_ebx := r_ebx regs\<rparr>"

definition task_return :: "u32 \<Rightarrow> registers \<Rightarrow> registers" where
  "task_return flags regs =
     restore_general_purpose_registers regs
       (zero_registers\<lparr>r_ss := r_ss regs, r_esp := r_esp regs, r_flags := flags OR 0x200,
          r_cs := r_cs regs, r_ip := r_ip regs\<rparr>)"

text \<open>\<open>task_next\<close> does not return: the result are the registers in user mode and the state of the kernel.\<close>

definition task_next :: "u32 \<Rightarrow> kernel \<Rightarrow> (registers \<times> kernel) option" where
  "task_next flags s =
     do {
       next_task \<leftarrow> task_get_next s;
       if next_task = 0 then None
       else do {
         (res, s) \<leftarrow> task_switch next_task s;
         t \<leftarrow> get_task s next_task;
         Some (task_return flags (t_registers t), s)
       }
     }"

definition save_registers :: "interrupt_frame \<Rightarrow> registers \<Rightarrow> registers" where
  "save_registers frame r =
     r\<lparr>r_ip := if_ip frame, r_cs := if_cs frame, r_flags := if_flags frame, r_esp := if_esp frame,
       r_ss := if_ss frame, r_eax := if_eax frame, r_ebp := if_ebp frame, r_ebx := if_ebx frame,
       r_ecx := if_ecx frame, r_edi := if_edi frame, r_edx := if_edx frame, r_esi := if_esi frame\<rparr>"

definition task_save_state :: "u32 \<Rightarrow> interrupt_frame \<Rightarrow> kernel \<Rightarrow> kernel option" where
  "task_save_state task frame s =
     do {
       t \<leftarrow> get_task s task;
       put task (OTask (t\<lparr>t_registers := save_registers frame (t_registers t)\<rparr>)) s
     }"

definition task_current_save_state :: "interrupt_frame \<Rightarrow> kernel \<Rightarrow> kernel option" where
  "task_current_save_state frame s =
     (if current_task s = 0 then None else task_save_state (task_current s) frame s)"

definition task_page :: "kernel \<Rightarrow> (int \<times> kernel) option" where
  "task_page s = do { (res, s) \<leftarrow> task_switch (current_task s) s; Some (0, s) }"

definition task_page_task :: "u32 \<Rightarrow> kernel \<Rightarrow> (int \<times> kernel) option" where
  "task_page_task task s =
     do {
       t \<leftarrow> get_task s task;
       s \<leftarrow> paging_switch (t_page_directory t) s;
       Some (0, s)
     }"

definition task_run_first_ever_task :: "u32 \<Rightarrow> kernel \<Rightarrow> (registers \<times> kernel) option" where
  "task_run_first_ever_task flags s =
     (if current_task s = 0 then None
      else do {
        (res, s) \<leftarrow> task_switch (task_head s) s;
        t \<leftarrow> get_task s (task_head s);
        Some (task_return flags (t_registers t), s)
      })"

text \<open>
  The result carries the bytes of \<open>phys\<close>, the kernel's buffer of the caller. While the pages of the task
  are loaded, \<open>tmp\<close> is mapped to itself.
\<close>

definition copy_string_from_task ::
  "u32 \<Rightarrow> u32 \<Rightarrow> u8 list \<Rightarrow> int \<Rightarrow> kernel \<Rightarrow> (int \<times> u8 list \<times> kernel) option" where
  "copy_string_from_task task virtual phys mx s =
     (if mx \<ge> uint PAGING_PAGE_SIZE then Some (- EINVARG, phys, s)
      else do {
        (tmp, s) \<leftarrow> kzalloc (to_u32 mx) (OBytes (replicate (nat mx) 0)) s;
        if tmp = 0 then Some (- ENOMEM, phys, s)
        else do {
          t \<leftarrow> get_task s task;
          task_directory \<leftarrow> get_chunk s (t_page_directory t);
          old_entry \<leftarrow> paging_get task_directory tmp s;
          (r, s) \<leftarrow> paging_map (t_page_directory t) tmp tmp
            (uint (PAGING_IS_WRITEABLE OR PAGING_IS_PRESENT OR PAGING_ACCESS_FROM_ALL)) s;
          s \<leftarrow> paging_switch (t_page_directory t) s;
          str \<leftarrow> virt_string (nat (mx - 1)) virtual s;
          b \<leftarrow> get_bytes s tmp;
          b \<leftarrow> strncpy b str mx;
          s \<leftarrow> put tmp (OBytes b) s;
          s \<leftarrow> kernel_page s;
          (res, s) \<leftarrow> paging_set task_directory tmp old_entry s;
          if res < 0 then do { s \<leftarrow> kfree tmp s; Some (- EIO, phys, s) }
          else do {
            phys \<leftarrow> strncpy phys b mx;
            s \<leftarrow> kfree tmp s;
            Some (res, phys, s)
          }
        }
      })"

definition task_get_stack_item :: "u32 \<Rightarrow> int \<Rightarrow> kernel \<Rightarrow> (u32 \<times> kernel) option" where
  "task_get_stack_item task index s =
     do {
       t \<leftarrow> get_task s task;
       let sp_ptr = r_esp (t_registers t);
       (r, s) \<leftarrow> task_page_task task s;
       result \<leftarrow> virt32 (sp_ptr + 4 * to_u32 index) s;
       s \<leftarrow> kernel_page s;
       Some (result, s)
     }"

definition task_virtual_address_to_physical :: "u32 \<Rightarrow> u32 \<Rightarrow> kernel \<Rightarrow> u32 option" where
  "task_virtual_address_to_physical task virtual_address s =
     do {
       t \<leftarrow> get_task s task;
       d \<leftarrow> get_chunk s (t_page_directory t);
       paging_get_phyiscal_address d virtual_address s
     }"

end
