(* ===== verification/TaskList.thy ===== *)
theory TaskList
  imports Task Samples
begin

unbundle bit_operations_syntax

text \<open>
  The doubly linked list of tasks: what it is, the task \<open>task_get_next\<close> chooses, what \<open>task_new\<close> appends
  and what \<open>task_list_remove\<close> leaves behind.
\<close>

section \<open>The list of tasks\<close>

definition task_at :: "kernel \<Rightarrow> u32 \<Rightarrow> task" where
  "task_at s a = (case objs s a of Some (OTask t) \<Rightarrow> t | _ \<Rightarrow> zero_task)"

lemma task_at_Some: "objs s a = Some (OTask t) \<Longrightarrow> task_at s a = t"
  by (simp add: task_at_def)

text \<open>The doubly linked list of tasks is \<open>ts\<close>; each has page tables.\<close>

definition task_list :: "kernel \<Rightarrow> u32 list \<Rightarrow> bool" where
  "task_list s ts \<longleftrightarrow> distinct ts \<and> 0 \<notin> set ts \<and> ts \<noteq> [] \<and> task_head s = hd ts \<and> task_tail s = last ts \<and>
     (\<forall>i < length ts. objs s (ts ! i) = Some (OTask (task_at s (ts ! i))) \<and>
        t_next (task_at s (ts ! i)) = (if Suc i < length ts then ts ! Suc i else 0) \<and>
        t_prev (task_at s (ts ! i)) = (if i = 0 then 0 else ts ! (i - 1)) \<and>
        (\<exists>d. objs s (t_page_directory (task_at s (ts ! i))) = Some (OChunk d)))"

lemma task_list_nth:
  assumes "task_list s ts" "i < length ts"
  shows "objs s (ts ! i) = Some (OTask (task_at s (ts ! i)))" "ts ! i \<noteq> 0"
    "t_next (task_at s (ts ! i)) = (if Suc i < length ts then ts ! Suc i else 0)"
    "get_task s (ts ! i) = Some (task_at s (ts ! i))"
    "\<exists>d. objs s (t_page_directory (task_at s (ts ! i))) = Some (OChunk d)"
proof -
  have z: "0 \<notin> set ts" using assms(1) by (simp add: task_list_def)
  then show "ts ! i \<noteq> 0" using nth_mem [OF assms(2)] by metis
qed (use assms in \<open>auto simp: task_list_def get_task_def\<close>)

lemma same_registers: "\<exists>r. t = t\<lparr>t_registers := r\<rparr>"
  by (intro exI [of _ "t_registers t"]) simp

text \<open>Kernel states that agree on the tasks and their address spaces.\<close>

lemma task_list_cong:
  assumes "task_list s ts" "task_head s' = task_head s" "task_tail s' = task_tail s"
    "\<And>a t. objs s a = Some (OTask t) \<Longrightarrow> \<exists>r. objs s' a = Some (OTask (t\<lparr>t_registers := r\<rparr>))"
    "\<And>a d. objs s a = Some (OChunk d) \<Longrightarrow> objs s' a = Some (OChunk d)"
  shows "task_list s' ts"
proof -
  have t: "\<exists>r. objs s' (ts ! i) = Some (OTask ((task_at s (ts ! i))\<lparr>t_registers := r\<rparr>))" if "i < length ts" for i
    using assms(4) task_list_nth(1) [OF assms(1) that] by blast
  have "objs s' (ts ! i) = Some (OTask (task_at s' (ts ! i))) \<and>
      t_next (task_at s' (ts ! i)) = t_next (task_at s (ts ! i)) \<and>
      t_prev (task_at s' (ts ! i)) = t_prev (task_at s (ts ! i)) \<and>
      t_page_directory (task_at s' (ts ! i)) = t_page_directory (task_at s (ts ! i))" if "i < length ts" for i
    using t [OF that] by (auto simp: task_at_def)
  then show ?thesis using assms(1,2,3,5) unfolding task_list_def by fastforce
qed

lemma task_get_next_ring:
  assumes "task_list s ts" "i < length ts" "current_task s = ts ! i"
  shows "task_get_next s = Some (ts ! (Suc i mod length ts))"
proof (cases "Suc i < length ts")
  case True
  then show ?thesis using task_list_nth [OF assms(1,2)] task_list_nth(2) [OF assms(1) True] assms(3)
    by (simp add: task_get_next_def)
next
  case False
  then have "Suc i mod length ts = 0" using assms(2) by (metis Suc_lessI mod_self)
  moreover have "ts ! 0 = task_head s" using assms(1) by (simp add: task_list_def hd_conv_nth)
  ultimately show ?thesis using False task_list_nth [OF assms(1,2)] assms(3)
    by (simp add: task_get_next_def)
qed

section \<open>A new task\<close>

lemma keeps_words:
  assumes "\<And>x w. m x = Some (OWords w) \<Longrightarrow> m' x = Some (OWords w)" "pd_ok m dir"
  shows "pd_ok m' dir" "n < 2 ^ 20 \<Longrightarrow> page_entry m' dir n = page_entry m dir n"
proof -
  obtain d where d: "m dir = Some (OWords d)" "length d = 1024" "inj_on (table_of d) {..<1024}"
    "\<And>i. i < 1024 \<Longrightarrow> (\<exists>t. m (table_of d i) = Some (OWords t) \<and> length t = 1024) \<and> table_of d i \<noteq> dir"
    using assms(2) unfolding pd_ok_def by blast
  have d': "m' dir = Some (OWords d)" using assms(1) d(1) .
  show "pd_ok m' dir" unfolding pd_ok_def using d' d(2,3) d(4) assms(1) by metis
  assume n: "n < 2 ^ 20"
  then have "n div 1024 < 1024" by simp
  with d(4) obtain t where t: "m (table_of d (n div 1024)) = Some (OWords t)" by blast
  have "m' (table_of d (n div 1024)) = Some (OWords t)" using assms(1) t .
  then show "page_entry m' dir n = page_entry m dir n" using d(1) d' t by (simp add: page_entry_def)
qed

text \<open>The registers a program starts with, and its task.\<close>

definition start_registers :: "u32 \<Rightarrow> registers" where
  "start_registers ip = zero_registers\<lparr>r_ip := ip, r_ss := USER_DATA_SEGMENT, r_cs := USER_CODE_SEGMENT,
     r_esp := PLUMOS_PROGRAM_VIRTUAL_STACK_ADDRESS_START\<rparr>"

definition new_task :: "u32 \<Rightarrow> u32 \<Rightarrow> u32 \<Rightarrow> task" where
  "new_task process ip chunk = zero_task\<lparr>t_page_directory := chunk, t_registers := start_registers ip,
     t_process := process\<rparr>"

lemma start_ip_cong:
  assumes "start_ip p s = Some ip" "\<And>x y. objs s x = Some y \<Longrightarrow> objs s' x = Some y"
  shows "start_ip p s' = Some ip"
  using assms by (auto simp: start_ip_def bind_Some split: if_splits)

lemma task_init_ok:
  assumes "mem_inv s" "1026 \<le> free_blocks s" "objs s a = Some (OTask zero_task)"
    "objs s process = Some (OProcess p)" "start_ip p s = Some ip"
  obtains c dir s' where "task_init a process s = Some (0, s')" "mem_inv s'" "heap_step s s'"
    "free_blocks s' = free_blocks s - 1026" "c \<noteq> a"
    "objs s' a = Some (OTask (new_task process ip c))" "\<And>x y. x \<noteq> a \<Longrightarrow> objs s x = Some y \<Longrightarrow> objs s' x = Some y"
    "objs s' c = Some (OChunk dir)" "pd_ok (objs s') dir"
    "\<forall>n < 2 ^ 20. page_entry (objs s') dir n = of_nat (4096 * n) OR 5"
    "insert dir (tables_of (objs s') dir) \<inter> dom (objs s) = {}"
proof -
  let ?fl = "ucast (PAGING_IS_PRESENT OR PAGING_ACCESS_FROM_ALL) :: u8"
  have fl: "?fl = 5" "(ucast ?fl :: u32) = 5" by (simp_all add: paging_consts)
  have p0: "put a (OTask zero_task) s = Some s"
    using assms(3) by (simp add: put_def fun_upd_idem)
  obtain c dir s2 where n: "paging_new_4gb ?fl s = Some (c, s2)" "mem_inv s2" "heap_step s s2"
    "free_blocks s2 = free_blocks s - 1026" "c \<noteq> 0" "identity_space (objs s) c dir ?fl (objs s2)"
    using paging_new_4gb_ok [OF assms(1,2)] by blast
  note i = identity_facts [OF n(6)] and fresh = identity_fresh [OF n(6)]
  have keep: "objs s2 x = Some y" if "objs s x = Some y" for x y
    using n(6) that unfolding identity_space_def by (metis domI)
  have ca: "c \<noteq> a" using n(6) assms(3) unfolding identity_space_def by auto
  have a2: "objs s2 a = Some (OTask zero_task)" by (rule keep [OF assms(3)])
  let ?t3 = "zero_task\<lparr>t_page_directory := c\<rparr>"
  have "objs s2 a \<noteq> None" using a2 by simp
  then obtain s3 where s3: "put a (OTask ?t3) s2 = Some s3" "objs s3 = (objs s2)(a \<mapsto> OTask ?t3)"
    "mem_inv s3 = mem_inv s2" "free_blocks s3 = free_blocks s2" "heap_step s2 s3" by (rule put_live)
  have pa: "process \<noteq> a" using assms(3,4) by auto
  have p3: "get_process s3 process = Some p"
    using keep [OF assms(4)] pa s3(2) by (simp add: get_process_def)
  have ip3: "start_ip p s3 = Some ip"
  proof (cases "p_filetype p = PROCESS_FILETYPE_ELF")
    case True
    then obtain f b where f: "objs s (p_ptr p) = Some (OElfFile f)" "objs s (elf_header f) = Some (OBytes b)"
      "e_entry b = Some ip" using assms(5) by (auto simp: start_ip_def bind_Some)
    moreover from f have "p_ptr p \<noteq> a" "elf_header f \<noteq> a" using assms(3) by auto
    ultimately have "objs s3 (p_ptr p) = Some (OElfFile f)" "objs s3 (elf_header f) = Some (OBytes b)"
      using keep s3(2) by simp_all
    then show ?thesis using f(3) True by (simp add: start_ip_def bind_Some)
  qed (use assms(5) in \<open>simp add: start_ip_def\<close>)
  have "objs s3 a \<noteq> None" using s3(2) by simp
  then obtain s4 where s4: "put a (OTask (new_task process ip c)) s3 = Some s4"
    "objs s4 = (objs s3)(a \<mapsto> OTask (new_task process ip c))" "mem_inv s4 = mem_inv s3"
    "free_blocks s4 = free_blocks s3" "heap_step s3 s4" by (rule put_live)
  have g: "get_task s2 a = Some zero_task" "get_task s3 a = Some ?t3"
    using a2 s3(2) by (simp_all add: get_task_def)
  have t4: "?t3\<lparr>t_registers := (t_registers ?t3)\<lparr>r_ip := ip, r_ss := USER_DATA_SEGMENT,
      r_cs := USER_CODE_SEGMENT, r_esp := PLUMOS_PROGRAM_VIRTUAL_STACK_ADDRESS_START\<rparr>, t_process := process\<rparr> =
      new_task process ip c" by (simp add: new_task_def start_registers_def zero_task_def)
  have run: "task_init a process s = Some (0, s4)"
    unfolding task_init_def p0 bind.bind_lunit n(1) prod.case g s3(1) p3 ip3 t4 s4(1) using n(5) by simp
  have o4: "objs s4 = (objs s2)(a \<mapsto> OTask (new_task process ip c))" using s4(2) s3(2) by simp
  have w: "\<And>x w. objs s2 x = Some (OWords w) \<Longrightarrow> objs s4 x = Some (OWords w)" using o4 a2 by auto
  show thesis
  proof (rule that [OF run])
    show "heap_step s s4" by (rule heap_step_trans [OF n(3) heap_step_trans [OF s3(5) s4(5)]])
    show "mem_inv s4" "free_blocks s4 = free_blocks s - 1026"
      using s4(3,4) s3(3,4) n(2,4) by simp_all
    show "objs s4 c = Some (OChunk dir)" using i(1) ca o4 by simp
    show "pd_ok (objs s4) dir" by (rule keeps_words(1) [OF w i(2)])
    show "\<forall>n < 2 ^ 20. page_entry (objs s4) dir n = of_nat (4096 * n) OR 5"
      using keeps_words(2) [OF w i(2)] i(3) fl(2) by simp
    show "c \<noteq> a" by (rule ca)
    have "dir \<noteq> a" using fresh a2 assms(3) by auto
    then show "insert dir (tables_of (objs s4) dir) \<inter> dom (objs s) = {}" using fresh o4 by (simp add: tables_of_def)
    show "objs s4 a = Some (OTask (new_task process ip c))" using o4 by simp
    show "objs s4 x = Some y" if "x \<noteq> a" "objs s x = Some y" for x y
      using keep [OF that(2)] that(1) o4 by simp
  qed
qed

text \<open>The state after a new task is linked in.\<close>

definition task_added :: "kernel \<Rightarrow> u32 list \<Rightarrow> u32 \<Rightarrow> kernel \<Rightarrow> bool" where
  "task_added s ts a s' \<longleftrightarrow> objs s a = None \<and> a \<noteq> 0 \<and> task_list s' (ts @ [a]) \<and>
     current_task s' = (if ts = [] then a else current_task s) \<and>
     (\<forall>x y. objs s x = Some y \<longrightarrow> objs s' x = Some (if ts \<noteq> [] \<and> x = last ts
        then OTask ((task_at s x)\<lparr>t_next := a\<rparr>) else y))"

lemma link_first:
  assumes "objs s a = None" "a \<noteq> 0" "objs s1 a = Some (OTask t)" "t_next t = 0" "t_prev t = 0"
    "objs s1 (t_page_directory t) = Some (OChunk d)"
    "\<And>x y. objs s x = Some y \<Longrightarrow> objs s1 x = Some y"
  shows "task_added s [] a (s1\<lparr>task_head := a, task_tail := a, current_task := a\<rparr>)"
  using assms by (auto simp: task_added_def task_list_def task_at_def)

text \<open>A list stays one when a task is linked behind its last.\<close>

lemma task_list_snoc:
  assumes "task_list s ts" "a \<notin> set ts" "a \<noteq> 0" "task_head s' = task_head s" "task_tail s' = a"
    "objs s' a = Some (OTask t)" "t_next t = 0" "t_prev t = last ts" "objs s' (t_page_directory t) = Some (OChunk d)"
    "\<And>i. i < length ts \<Longrightarrow> objs s' (ts ! i) = Some (OTask (if i = length ts - 1
       then (task_at s (ts ! i))\<lparr>t_next := a\<rparr> else task_at s (ts ! i)))"
    "\<And>x d. objs s x = Some (OChunk d) \<Longrightarrow> objs s' x = Some (OChunk d)"
  shows "task_list s' (ts @ [a])"
proof -
  have ne: "ts \<noteq> []" using assms(1) by (simp add: task_list_def)
  note nth = task_list_nth [OF assms(1)]
  have at: "task_at s' (ts ! i) = (if i = length ts - 1 then (task_at s (ts ! i))\<lparr>t_next := a\<rparr> else task_at s (ts ! i))"
    if "i < length ts" for i using assms(10) [OF that] by (rule task_at_Some)
  have aa: "task_at s' a = t" using assms(6) by (rule task_at_Some)
  have step: "objs s' ((ts @ [a]) ! i) = Some (OTask (task_at s' ((ts @ [a]) ! i)))"
    "t_next (task_at s' ((ts @ [a]) ! i)) = (if Suc i < length (ts @ [a]) then (ts @ [a]) ! Suc i else 0)"
    "t_prev (task_at s' ((ts @ [a]) ! i)) = (if i = 0 then 0 else (ts @ [a]) ! (i - 1))"
    "\<exists>d. objs s' (t_page_directory (task_at s' ((ts @ [a]) ! i))) = Some (OChunk d)"
    if "i < length (ts @ [a])" for i
  proof -
    consider (old) "i < length ts" | (new) "i = length ts" using \<open>i < length (ts @ [a])\<close> by fastforce
    then have "objs s' ((ts @ [a]) ! i) = Some (OTask (task_at s' ((ts @ [a]) ! i))) \<and>
      t_next (task_at s' ((ts @ [a]) ! i)) = (if Suc i < length (ts @ [a]) then (ts @ [a]) ! Suc i else 0) \<and>
      t_prev (task_at s' ((ts @ [a]) ! i)) = (if i = 0 then 0 else (ts @ [a]) ! (i - 1)) \<and>
      (\<exists>d. objs s' (t_page_directory (task_at s' ((ts @ [a]) ! i))) = Some (OChunk d))"
    proof cases
      case old
      have "t_prev (task_at s (ts ! i)) = (if i = 0 then 0 else ts ! (i - 1))" using assms(1) old by (simp add: task_list_def)
      moreover have "\<exists>d. objs s' (t_page_directory (task_at s (ts ! i))) = Some (OChunk d)"
        using nth(5) [OF old] assms(11) by blast
      ultimately show ?thesis using old at [OF old] assms(10) [OF old] nth(3) [OF old] by (auto simp: nth_append)
    next
      case new
      then show ?thesis using assms(6-9) aa ne by (simp add: nth_append last_conv_nth)
    qed
    then show "objs s' ((ts @ [a]) ! i) = Some (OTask (task_at s' ((ts @ [a]) ! i)))"
      "t_next (task_at s' ((ts @ [a]) ! i)) = (if Suc i < length (ts @ [a]) then (ts @ [a]) ! Suc i else 0)"
      "t_prev (task_at s' ((ts @ [a]) ! i)) = (if i = 0 then 0 else (ts @ [a]) ! (i - 1))"
      "\<exists>d. objs s' (t_page_directory (task_at s' ((ts @ [a]) ! i))) = Some (OChunk d)" by blast+
  qed
  show ?thesis unfolding task_list_def
    by (intro conjI allI impI step) (use assms(1-5) ne in \<open>auto simp: task_list_def\<close>)
qed

lemma link_last:
  assumes "task_list s ts" "objs s a = None" "a \<noteq> 0" "objs s1 a = Some (OTask t)" "t_next t = 0"
    "objs s1 (t_page_directory t) = Some (OChunk d)"
    "\<And>x y. objs s x = Some y \<Longrightarrow> objs s1 x = Some y"
    "task_head s1 = task_head s" "current_task s1 = current_task s"
  shows "task_added s ts a (s1\<lparr>objs := (objs s1)(last ts \<mapsto> OTask ((task_at s (last ts))\<lparr>t_next := a\<rparr>),
     a \<mapsto> OTask (t\<lparr>t_prev := last ts\<rparr>)), task_tail := a\<rparr>)" (is "task_added s ts a ?s")
proof -
  have ne: "ts \<noteq> []" and dis: "distinct ts" using assms(1) by (simp_all add: task_list_def)
  note nth = task_list_nth [OF assms(1)]
  have last: "last ts = ts ! (length ts - 1)" using ne by (rule last_conv_nth)
  have a: "a \<notin> set ts" using nth(1) assms(2) by (fastforce simp: in_set_conv_nth)
  have la: "last ts \<noteq> a" using a ne by auto
  have lt: "objs s (last ts) = Some (OTask (task_at s (last ts)))"
    unfolding last by (rule nth(1)) (use ne in simp)
  have ob: "objs ?s x = Some y" if "objs s x = Some y" "x \<noteq> last ts" for x y
    using that assms(2,7) by auto
  have at: "objs ?s (ts ! i) = Some (OTask (if i = length ts - 1
      then (task_at s (ts ! i))\<lparr>t_next := a\<rparr> else task_at s (ts ! i)))" if i: "i < length ts" for i
  proof -
    have "ts ! i \<noteq> a" using a nth_mem [OF i] by metis
    moreover have "ts ! i = last ts \<longleftrightarrow> i = length ts - 1"
      unfolding last using dis i ne by (simp add: nth_eq_iff_index_eq)
    moreover have "objs s1 (ts ! i) = Some (OTask (task_at s (ts ! i)))" using assms(7) nth(1) [OF i] by simp
    ultimately show ?thesis using last by auto
  qed
  have ch: "objs ?s x = Some (OChunk d)" if "objs s x = Some (OChunk d)" for x d
    by (rule ob [OF that]) (use that lt in auto)
  have "t_page_directory t \<noteq> a" "t_page_directory t \<noteq> last ts" using assms(4,6,7) lt by fastforce+
  then have "task_list ?s (ts @ [a])"
    by (intro task_list_snoc [OF assms(1) a assms(3) _ _ _ _ _ _ at ch, where t = "t\<lparr>t_prev := last ts\<rparr>" and d = d])
      (use assms(5,6,8) in simp_all)
  moreover have "objs ?s x = Some (if ts \<noteq> [] \<and> x = last ts then OTask ((task_at s x)\<lparr>t_next := a\<rparr>) else y)"
    if "objs s x = Some y" for x y
    using that la ne ob by (cases "x = last ts") auto
  ultimately show ?thesis unfolding task_added_def using assms(2,3,9) ne by simp
qed

text \<open>The directory of the new task survives the linking.\<close>

lemma link_space:
  assumes "objs s b = Some (OTask r)" "objs s a = Some (OTask t)" "pd_ok (objs s) dir"
    "objs s' = (objs s)(b \<mapsto> OTask r', a \<mapsto> OTask t')"
  shows "pd_ok (objs s') dir" "n < 2 ^ 20 \<Longrightarrow> page_entry (objs s') dir n = page_entry (objs s) dir n"
    "tables_of (objs s') dir = tables_of (objs s) dir" "dom (objs s') = dom (objs s)"
    "objs s x = Some (OChunk d) \<Longrightarrow> objs s' x = Some (OChunk d)"
proof -
  have w: "\<And>x w. objs s x = Some (OWords w) \<Longrightarrow> objs s' x = Some (OWords w)" using assms(1,2,4) by auto
  show "pd_ok (objs s') dir" by (rule keeps_words(1) [OF w assms(3)])
  show "page_entry (objs s') dir n = page_entry (objs s) dir n" if "n < 2 ^ 20" by (rule keeps_words(2) [OF w assms(3) that])
  have "dir \<noteq> b" "dir \<noteq> a" using assms(1-3) by (auto simp: pd_ok_def)
  then show "tables_of (objs s') dir = tables_of (objs s) dir" using assms(4) by (simp add: tables_of_def)
  show "dom (objs s') = dom (objs s)" using assms(1,2,4) by auto
  show "objs s' x = Some (OChunk d)" if "objs s x = Some (OChunk d)" using that assms(1,2,4) by auto
qed

lemma task_new_ok:
  assumes "mem_inv s" "1027 \<le> free_blocks s" "objs s process = Some (OProcess p)" "start_ip p s = Some ip"
    "ts = [] \<and> task_head s = 0 \<or> task_list s ts"
  obtains a c dir s' where "task_new process s = Some (a, s')" "mem_inv s'" "free_blocks s' = free_blocks s - 1027"
    "task_added s ts a s'" "a mod 4096 = 0" "heap_shape (kernel_heap s') = heap_shape (kernel_heap s)"
    "task_at s' a = (new_task process ip c)\<lparr>t_prev := if ts = [] then 0 else last ts\<rparr>"
    "objs s' c = Some (OChunk dir)" "pd_ok (objs s') dir"
    "\<forall>n < 2 ^ 20. page_entry (objs s') dir n = of_nat (4096 * n) OR 5"
    "s' = s\<lparr>kernel_heap := kernel_heap s', objs := objs s', task_head := task_head s', task_tail := task_tail s',
       current_task := current_task s'\<rparr>" "insert dir (tables_of (objs s') dir) \<inter> dom (objs s) = {}"
proof -
  have fb0: "0 < free_blocks s" using assms(2) by simp
  obtain a s1 where s1: "kzalloc 64 (OTask zero_task) s = Some (a, s1)" "a \<noteq> 0" "objs s a = None" "a mod 4096 = 0"
    "objs s1 = (objs s)(a \<mapsto> OTask zero_task)" "mem_inv s1" "free_blocks s1 = free_blocks s - 1" "heap_step s s1"
    by (rule kzalloc_block [OF assms(1) fb0, of 64 "OTask zero_task"]) simp_all
  have pa: "process \<noteq> a" using assms(3) s1(3) by auto
  have p1: "objs s1 process = Some (OProcess p)" using assms(3) pa s1(5) by simp
  have ip1: "start_ip p s1 = Some ip" by (rule start_ip_cong [OF assms(4)]) (use s1(3,5) in auto)
  have a1: "objs s1 a = Some (OTask zero_task)" using s1(5) by simp
  have fb: "1026 \<le> free_blocks s1" using s1(7) assms(2) by simp
  obtain c dir s2 where s2: "task_init a process s1 = Some (0, s2)" "mem_inv s2" "heap_step s1 s2"
    "free_blocks s2 = free_blocks s1 - 1026" "c \<noteq> a" "objs s2 a = Some (OTask (new_task process ip c))"
    "\<And>x y. x \<noteq> a \<Longrightarrow> objs s1 x = Some y \<Longrightarrow> objs s2 x = Some y" "objs s2 c = Some (OChunk dir)" "pd_ok (objs s2) dir"
    "\<forall>n < 2 ^ 20. page_entry (objs s2) dir n = of_nat (4096 * n) OR 5"
    "insert dir (tables_of (objs s2) dir) \<inter> dom (objs s1) = {}"
    by (rule task_init_ok [OF s1(6) fb a1 p1 ip1]) blast
  have fresh: "insert dir (tables_of (objs s2) dir) \<inter> dom (objs s) = {}" using s2(11) s1(5) by auto
  have hs: "heap_step s s2" by (rule heap_step_trans [OF s1(8) s2(3)])
  have keep: "objs s2 x = Some y" if "objs s x = Some y" for x y
    using that s1(3,5) s2(7) by (metis fun_upd_other option.distinct(1))
  have t0: "t_next (new_task process ip c) = 0" "t_prev (new_task process ip c) = 0"
    "t_page_directory (new_task process ip c) = c" by (simp_all add: new_task_def zero_task_def)
  have c2: "objs s2 (t_page_directory (new_task process ip c)) = Some (OChunk dir)" using s2(8) t0(3) by simp
  have fr: "free_blocks s2 = free_blocks s - 1027" using s2(4) s1(7) by simp
  have step: "s2 = s\<lparr>kernel_heap := kernel_heap s2, objs := objs s2\<rparr>"
    "heap_shape (kernel_heap s2) = heap_shape (kernel_heap s)" using hs by (simp_all add: heap_step_def)
  obtain h m where e: "s2 = s\<lparr>kernel_heap := h, objs := m\<rparr>" using step(1) by blast
  have vars: "task_head s2 = task_head s" "task_tail s2 = task_tail s" "current_task s2 = current_task s"
    using arg_cong [OF step(1), of task_head] arg_cong [OF step(1), of task_tail]
      arg_cong [OF step(1), of current_task] by simp_all
  show thesis
  proof (cases "ts = []")
    case True
    then have h0: "task_head s = 0" using assms(5) by (auto simp: task_list_def)
    let ?s = "s2\<lparr>task_head := a, task_tail := a, current_task := a\<rparr>"
    have "task_new process s = Some (a, ?s)"
      using s1(1,2) s2(1) h0 vars(1) by (simp add: task_new_def task_new_out_def status_defs)
    moreover have "task_added s ts a ?s"
      unfolding True by (rule link_first [OF s1(3,2) s2(6) t0(1,2) c2 keep])
    moreover have "?s = s\<lparr>kernel_heap := kernel_heap ?s, objs := objs ?s, task_head := task_head ?s,
        task_tail := task_tail ?s, current_task := current_task ?s\<rparr>" unfolding e by simp
    moreover have "task_at ?s a = (new_task process ip c)\<lparr>t_prev := if ts = [] then 0 else last ts\<rparr>"
      using s2(6) True t0(2) by (simp add: task_at_def)
    ultimately show thesis
      using that [of a ?s c dir] s2(2,8,9,10) fr s1(4) step(2) fresh by (simp add: mem_inv_def free_blocks_def)
  next
    case False
    then have l: "task_list s ts" using assms(5) by simp
    have lt: "objs s (last ts) = Some (OTask (task_at s (last ts)))" "last ts \<noteq> 0" "task_tail s = last ts" "task_head s \<noteq> 0"
      using task_list_nth(1,2) [OF l, of "length ts - 1"] task_list_nth(2) [OF l, of 0] l False
      by (auto simp: last_conv_nth task_list_def hd_conv_nth)
    have la: "last ts \<noteq> a" using lt(1) s1(3) by auto
    let ?nt = "new_task process ip c"
    let ?m = "(objs s2)(last ts \<mapsto> OTask ((task_at s (last ts))\<lparr>t_next := a\<rparr>),
       a \<mapsto> OTask (?nt\<lparr>t_prev := last ts\<rparr>))"
    let ?s = "s2\<lparr>objs := ?m, task_tail := a\<rparr>"
    have l2: "objs s2 (last ts) = Some (OTask (task_at s (last ts)))" by (rule keep [OF lt(1)])
    have "objs ?s = ?m" by simp
    note ls = link_space [OF l2 s2(6,9) this]
    have "task_new process s = Some (a, ?s)"
      using s1(1,2) s2(1) lt(3,4) vars l2 s2(6) la
      by (simp add: task_new_def task_new_out_def status_defs get_task_def put_def)
    moreover have "task_added s ts a ?s"
      by (rule link_last [OF l s1(3,2) s2(6) t0(1) c2 keep vars(1,3)])
    moreover have "?s = s\<lparr>kernel_heap := kernel_heap ?s, objs := objs ?s, task_head := task_head ?s,
        task_tail := task_tail ?s, current_task := current_task ?s\<rparr>" unfolding e by simp
    moreover have "mem_inv ?s" using s2(2) ls(4) by (simp add: mem_inv_def)
    moreover have "\<forall>n < 2 ^ 20. page_entry (objs ?s) dir n = of_nat (4096 * n) OR 5" using ls(2) s2(10) by simp
    moreover have "task_at ?s a = ?nt\<lparr>t_prev := if ts = [] then 0 else last ts\<rparr>" using False by (simp add: task_at_def)
    moreover have "free_blocks ?s = free_blocks s - 1027" using fr by (simp add: free_blocks_def)
    moreover have "heap_shape (kernel_heap ?s) = heap_shape (kernel_heap s)" using step(2) by simp
    moreover have "insert dir (tables_of (objs ?s) dir) \<inter> dom (objs s) = {}" using fresh ls(3) by simp
    ultimately show thesis using that [of a ?s c dir] s1(4) ls(1) ls(5) [OF s2(8)] by blast
  qed
qed

section \<open>Removal\<close>

lemma remove_first:
  assumes "task_list s (a # b # ts)"
  obtains s' where "task_list_remove a s = Some s'" "objs s' = objs s" "task_head s' = b"
    "kernel_heap s' = kernel_heap s" "t_prev (task_at s b) = a"
proof -
  have n: "objs s a = Some (OTask (task_at s a))" "t_next (task_at s a) = b" "t_prev (task_at s a) = 0"
    "t_prev (task_at s b) = a" "a \<noteq> 0"
    using assms unfolding task_list_def by (auto dest: spec [of _ 0] spec [of _ 1])
  have ab: "a \<noteq> last (b # ts)" "task_head s = a" "task_tail s = last (b # ts)"
    using assms unfolding task_list_def by (auto simp: last_in_set)
  have g: "get_task s a = Some (task_at s a)" using n(1) by (simp add: get_task_def)
  let ?s = "s\<lparr>task_head := b\<rparr>"
  have "task_get_next ?s = Some b" if "a = current_task s" "b \<noteq> 0"
    using that g n(2) by (simp add: task_get_next_def get_task_def)
  moreover have "b \<noteq> 0" using assms by (simp add: task_list_def)
  ultimately have "task_list_remove a s = Some (if a = current_task s then ?s\<lparr>current_task := b\<rparr> else ?s)"
    using g n ab by (simp add: task_list_remove_def)
  then show thesis using that n(4) by (cases "a = current_task s") auto
qed

section \<open>Properties\<close>

text \<open>
  C16. A new task. On a heap with 1027 free blocks \<open>task_new\<close> appends a fresh task to the list, empty or not:
  it starts at the entry of the program (for a binary at its load address) with the user segments and
  the stack of the program, belongs to the process and has address space of its own in which every page is
  mapped to itself, readable by the user. Every other object stays, but for the link of the last task;
  the running task changes only when there was none.
\<close>
theorem task_new_appends:
  assumes "mem_inv s" "1027 \<le> free_blocks s" "objs s process = Some (OProcess p)" "start_ip p s = Some ip"
    "ts = [] \<and> task_head s = 0 \<or> task_list s ts"
  shows "\<exists>a c dir s'. task_new process s = Some (a, s') \<and> mem_inv s' \<and> free_blocks s' = free_blocks s - 1027 \<and>
    objs s a = None \<and> task_list s' (ts @ [a]) \<and> current_task s' = (if ts = [] then a else current_task s) \<and>
    (\<forall>x y. objs s x = Some y \<longrightarrow> objs s' x = Some (if ts \<noteq> [] \<and> x = last ts
       then OTask ((task_at s x)\<lparr>t_next := a\<rparr>) else y)) \<and>
    t_registers (task_at s' a) = zero_registers\<lparr>r_ip := ip, r_ss := USER_DATA_SEGMENT,
      r_cs := USER_CODE_SEGMENT, r_esp := PLUMOS_PROGRAM_VIRTUAL_STACK_ADDRESS_START\<rparr> \<and>
    t_process (task_at s' a) = process \<and> t_page_directory (task_at s' a) = c \<and>
    objs s' c = Some (OChunk dir) \<and> pd_ok (objs s') dir \<and>
    (\<forall>n < 2 ^ 20. page_entry (objs s') dir n = of_nat (4096 * n) OR 5)"
proof -
  obtain a c dir s' where n: "task_new process s = Some (a, s')" "mem_inv s'" "free_blocks s' = free_blocks s - 1027"
    "task_added s ts a s'" "task_at s' a = (new_task process ip c)\<lparr>t_prev := if ts = [] then 0 else last ts\<rparr>"
    "objs s' c = Some (OChunk dir)" "pd_ok (objs s') dir"
    "\<forall>n < 2 ^ 20. page_entry (objs s') dir n = of_nat (4096 * n) OR 5"
    by (rule task_new_ok [OF assms])
  then show ?thesis unfolding task_added_def
    by (intro exI [of _ a] exI [of _ c] exI [of _ dir] exI [of _ s'])
      (simp add: new_task_def start_registers_def)
qed

definition sample_process :: process where
  "sample_process = \<lparr>p_id = 0, p_filename = [], p_task = 0, p_allocations = [], p_filetype = PROCESS_FILETYPE_BINARY,
     p_ptr = 0, p_stack = 0, p_size = 0, p_keyboard = \<lparr>kb_buffer = [], kb_tail = 0, kb_head = 0\<rparr>,
     p_arguments = \<lparr>arg_argc = 0, arg_argv = 0\<rparr>\<rparr>"

theorem task_new_appends_witness:
  "\<exists>a s'. task_new (slot 0) (sample_store [OProcess sample_process] 2000) = Some (a, s') \<and>
     r_ip (t_registers (task_at s' a)) = 0x400000 \<and> current_task s' = a"
proof -
  let ?s = "sample_store [OProcess sample_process] 2000"
  have "mem_inv ?s" "1027 \<le> free_blocks ?s"
    using sample_store_inv [of "[OProcess sample_process]" 2000] by (simp_all add: sample_store_free)
  moreover have "objs ?s (slot 0) = Some (OProcess sample_process)"
    using stored_slot [of 0 "[OProcess sample_process]"] by simp
  moreover have "start_ip sample_process ?s = Some 0x400000"
    by (simp add: start_ip_def sample_process_def PROCESS_FILETYPE_ELF_def PROCESS_FILETYPE_BINARY_def
        PLUMOS_PROGRAM_VIRTUAL_ADDRESS_def)
  moreover have "task_head ?s = 0" by (simp add: sample_store_def sample_kernel_def sample_terminal_def)
  ultimately show ?thesis using task_new_appends [where s = ?s and process = "slot 0" and ts = "[]"] by fastforce
qed

text \<open>
  C32. The link back to a removed task. \<open>task_list_remove\<close> of the first task makes the second one the head,
  but leaves its \<open>prev\<close> pointing to the removed task. Once that is freed, removing the second task as well
  writes through the dangling pointer: it has no defined result.
\<close>
theorem stale_prev:
  assumes "mem_inv s" "task_list s (a # b # ts)"
  shows "\<exists>s1 s2. task_list_remove a s = Some s1 \<and> task_head s1 = b \<and> kfree a s1 = Some s2 \<and>
    objs s2 b = objs s b \<and> t_prev (task_at s2 b) = a \<and> task_list_remove b s2 = None"
proof -
  obtain s1 where s1: "task_list_remove a s = Some s1" "objs s1 = objs s" "task_head s1 = b"
    "kernel_heap s1 = kernel_heap s" "t_prev (task_at s b) = a" by (rule remove_first [OF assms(2)])
  have ab: "a \<noteq> b" "b \<noteq> 0" "a \<noteq> 0" "objs s a = Some (OTask (task_at s a))" "objs s b = Some (OTask (task_at s b))"
    using assms(2) unfolding task_list_def by (auto dest: spec [of _ 0] spec [of _ 1])
  have "mem_inv s1" "objs s1 a \<noteq> None" using assms(1) s1 ab(4) by (simp_all add: mem_inv_def)
  then obtain s2 where s2: "kfree a s1 = Some s2" "objs s2 = (objs s1)(a := None)" by (rule kfree_block)
  have b2: "objs s2 b = Some (OTask (task_at s b))" using s2(2) s1(2) ab by simp
  then have "task_at s2 b = task_at s b" by (rule task_at_Some)
  moreover have "task_list_remove b s2 = None"
    using b2 s2(2) s1(5) ab by (simp add: task_list_remove_def get_task_def)
  ultimately show ?thesis using s1 s2 b2 ab by auto
qed

text \<open>Two tasks.\<close>

definition sample_tasks :: kernel where
  "sample_tasks = (sample_store [OTask (zero_task\<lparr>t_page_directory := slot 2, t_next := slot 1\<rparr>),
       OTask (zero_task\<lparr>t_page_directory := slot 3, t_prev := slot 0\<rparr>), OChunk 0x5000, OChunk 0x6000] 10)
     \<lparr>task_head := slot 0, task_tail := slot 1, current_task := slot 0, kernel_chunk := slot 2,
      interrupt_callbacks := replicate 0x20 (Some HandleException) @ [Some Clock]\<rparr>"

lemma sample_tasks_objs:
  "i < 4 \<Longrightarrow> objs sample_tasks (slot i) = Some ([OTask (zero_task\<lparr>t_page_directory := slot 2, t_next := slot 1\<rparr>),
     OTask (zero_task\<lparr>t_page_directory := slot 3, t_prev := slot 0\<rparr>), OChunk 0x5000, OChunk 0x6000] ! i)"
  using stored_slot [of i] by (simp add: sample_tasks_def)

lemma sample_tasks_inv: "mem_inv sample_tasks"
proof -
  let ?xs = "[OTask (zero_task\<lparr>t_page_directory := slot 2, t_next := slot 1\<rparr>),
       OTask (zero_task\<lparr>t_page_directory := slot 3, t_prev := slot 0\<rparr>), OChunk 0x5000, OChunk 0x6000]"
  have "mem_inv (sample_store ?xs 10)" by (rule sample_store_inv) simp
  then show ?thesis unfolding sample_tasks_def mem_inv_def by simp
qed

lemma sample_tasks_list: "task_list sample_tasks [slot 0, slot 1]"
proof -
  have s: "slot 0 = 0x1000000" "slot (Suc 0) = 0x1001000" "slot 2 = 0x1002000" "slot 3 = 0x1003000"
    by (simp_all add: slot_def)
  show ?thesis
    unfolding task_list_def using sample_tasks_objs [of 0] sample_tasks_objs [of 1]
      sample_tasks_objs [of 2] sample_tasks_objs [of 3]
    by (auto simp: sample_tasks_def task_at_def less_Suc_eq s zero_task_def)
qed

theorem stale_prev_witness:
  "\<exists>s1 s2. task_list_remove (slot 0) sample_tasks = Some s1 \<and> kfree (slot 0) s1 = Some s2 \<and>
     task_list_remove (slot 1) s2 = None"
  using stale_prev [OF sample_tasks_inv sample_tasks_list] by blast

end
