(* ===== verification/Process.thy ===== *)
theory Process
  imports Task Slots
begin

unbundle bit_operations_syntax

text \<open>
  Processes (\<open>src/src/task/process.c\<close>): the table of processes, the memory a process allocates, loading a
  program as an ELF or binary file, mapping it with its stack into the pages of its task, the arguments of
  the program and termination. A linked list of \<open>struct command_argument\<close> is the list of its strings.
\<close>

definition PLUMOS_MAX_PROCESSES :: int where "PLUMOS_MAX_PROCESSES = 12"
definition PLUMOS_MAX_PROGRAM_ALLOCATIONS :: nat where "PLUMOS_MAX_PROGRAM_ALLOCATIONS = 1024"
definition PLUMOS_USER_PROGRAM_STACK_SIZE :: u32 where "PLUMOS_USER_PROGRAM_STACK_SIZE = 1024 * 16"
definition PLUMOS_KEYBOARD_BUFFER_SIZE :: nat where "PLUMOS_KEYBOARD_BUFFER_SIZE = 1024"

definition PLUMOS_PROGRAM_VIRTUAL_STACK_ADDRESS_END :: u32 where
  "PLUMOS_PROGRAM_VIRTUAL_STACK_ADDRESS_END =
     PLUMOS_PROGRAM_VIRTUAL_STACK_ADDRESS_START - PLUMOS_USER_PROGRAM_STACK_SIZE"

text \<open>\<open>PAGING_IS_WRITEABLE | PAGING_IS_PRESENT | PAGING_ACCESS_FROM_ALL\<close>, the flags of user memory.\<close>

definition user_flags :: int where
  "user_flags = uint (PAGING_IS_WRITEABLE OR PAGING_IS_PRESENT OR PAGING_ACCESS_FROM_ALL)"

section \<open>The table of processes\<close>

definition zero_process :: process where
  "zero_process = \<lparr>p_id = 0, p_filename = replicate PLUMOS_MAX_PATH 0, p_task = 0,
     p_allocations = replicate PLUMOS_MAX_PROGRAM_ALLOCATIONS \<lparr>pa_ptr = 0, pa_size = 0\<rparr>, p_filetype = 0,
     p_ptr = 0, p_stack = 0, p_size = 0,
     p_keyboard = \<lparr>kb_buffer = replicate PLUMOS_KEYBOARD_BUFFER_SIZE 0, kb_tail = 0, kb_head = 0\<rparr>,
     p_arguments = \<lparr>arg_argc = 0, arg_argv = 0\<rparr>\<rparr>"

definition process_init :: "u32 \<Rightarrow> kernel \<Rightarrow> kernel option" where
  "process_init process s = put process (OProcess zero_process) s"

definition process_current :: "kernel \<Rightarrow> u32" where
  "process_current s = current_process s"

definition process_switch :: "u32 \<Rightarrow> kernel \<Rightarrow> int \<times> kernel" where
  "process_switch process s = (0, s\<lparr>current_process := process\<rparr>)"

definition process_get :: "int \<Rightarrow> kernel \<Rightarrow> u32 option" where
  "process_get process_id s =
     (if process_id < 0 \<or> process_id \<ge> PLUMOS_MAX_PROCESSES then Some 0 else arr_get (processes s) process_id)"

definition process_get_free_slot :: "kernel \<Rightarrow> int" where
  "process_get_free_slot s =
     (case first_slot 0 (processes s) of Some i \<Rightarrow> int i | None \<Rightarrow> EISTKN)"

text \<open>The first entry that is not null; a panic when there is none.\<close>

definition process_swtich_to_any :: "kernel \<Rightarrow> kernel option" where
  "process_swtich_to_any s =
     (case filter (\<lambda>p. p \<noteq> 0) (processes s) of
        [] \<Rightarrow> None
      | p # ps \<Rightarrow> Some (snd (process_switch p s)))"

definition process_unlink :: "u32 \<Rightarrow> kernel \<Rightarrow> kernel option" where
  "process_unlink process s =
     do {
       p \<leftarrow> get_process s process;
       ps \<leftarrow> arr_set (processes s) (uint (p_id p)) 0;
       let s = s\<lparr>processes := ps\<rparr>;
       if current_process s = process then process_swtich_to_any s else Some s
     }"

section \<open>Memory of a process\<close>

definition process_find_free_allocation_index :: "process \<Rightarrow> int" where
  "process_find_free_allocation_index p =
     (case first_slot 0 (map pa_ptr (p_allocations p)) of Some i \<Rightarrow> int i | None \<Rightarrow> - ENOMEM)"

definition process_chunk :: "u32 \<Rightarrow> kernel \<Rightarrow> u32 option" where
  "process_chunk process s =
     do { p \<leftarrow> get_process s process; t \<leftarrow> get_task s (p_task p); Some (t_page_directory t) }"

text \<open>At \<open>out_err\<close> the memory is not released: the test there is for a null pointer.\<close>

definition process_malloc :: "u32 \<Rightarrow> u32 \<Rightarrow> kernel \<Rightarrow> (u32 \<times> kernel) option" where
  "process_malloc process sz s =
     do {
       (ptr, s) \<leftarrow> kzalloc sz (OBytes (replicate (unat sz) 0)) s;
       if ptr = 0 then Some (0, s)
       else do {
         p \<leftarrow> get_process s process;
         let index = process_find_free_allocation_index p;
         if index < 0 then Some (0, s)
         else do {
           directory \<leftarrow> process_chunk process s;
           (res, s) \<leftarrow> paging_map_to directory ptr ptr (paging_align_address (ptr + sz)) user_flags s;
           if res < 0 then Some (0, s)
           else do {
             p \<leftarrow> get_process s process;
             as \<leftarrow> arr_set (p_allocations p) index \<lparr>pa_ptr = ptr, pa_size = sz\<rparr>;
             s \<leftarrow> put process (OProcess (p\<lparr>p_allocations := as\<rparr>)) s;
             Some (ptr, s)
           }
         }
       }
     }"

definition process_is_process_ptr :: "process \<Rightarrow> u32 \<Rightarrow> bool" where
  "process_is_process_ptr p ptr = list_ex (\<lambda>a. pa_ptr a = ptr) (p_allocations p)"

definition process_allocation_unjoin :: "process \<Rightarrow> u32 \<Rightarrow> process" where
  "process_allocation_unjoin p ptr =
     p\<lparr>p_allocations := map (\<lambda>a. if pa_ptr a = ptr then \<lparr>pa_ptr = 0, pa_size = 0\<rparr> else a) (p_allocations p)\<rparr>"

definition process_get_allocation_by_address :: "process \<Rightarrow> u32 \<Rightarrow> process_allocation option" where
  "process_get_allocation_by_address p addr = List.find (\<lambda>a. pa_ptr a = addr) (p_allocations p)"

definition process_free :: "u32 \<Rightarrow> u32 \<Rightarrow> kernel \<Rightarrow> kernel option" where
  "process_free process ptr s =
     do {
       p \<leftarrow> get_process s process;
       case process_get_allocation_by_address p ptr of
         None \<Rightarrow> Some s
       | Some allocation \<Rightarrow> do {
           directory \<leftarrow> process_chunk process s;
           (res, s) \<leftarrow> paging_map_to directory (pa_ptr allocation) (pa_ptr allocation)
             (paging_align_address (pa_ptr allocation + pa_size allocation)) 0 s;
           if res < 0 then Some s
           else do {
             p \<leftarrow> get_process s process;
             s \<leftarrow> put process (OProcess (process_allocation_unjoin p ptr)) s;
             kfree ptr s
           }
         }
     }"

text \<open>Entries \<open>i\<close> to \<open>i + n - 1\<close>.\<close>

fun terminate_allocations_loop :: "nat \<Rightarrow> int \<Rightarrow> u32 \<Rightarrow> kernel \<Rightarrow> kernel option" where
  "terminate_allocations_loop 0 i process s = Some s"
| "terminate_allocations_loop (Suc n) i process s =
     do {
       p \<leftarrow> get_process s process;
       a \<leftarrow> arr_get (p_allocations p) i;
       s \<leftarrow> process_free process (pa_ptr a) s;
       terminate_allocations_loop n (i + 1) process s
     }"

definition process_terminate_allocations :: "u32 \<Rightarrow> kernel \<Rightarrow> (int \<times> kernel) option" where
  "process_terminate_allocations process s =
     do { s \<leftarrow> terminate_allocations_loop PLUMOS_MAX_PROGRAM_ALLOCATIONS 0 process s; Some (0, s) }"

section \<open>Termination\<close>

definition process_free_binary_data :: "u32 \<Rightarrow> kernel \<Rightarrow> (int \<times> kernel) option" where
  "process_free_binary_data process s =
     do { p \<leftarrow> get_process s process; s \<leftarrow> kfree (p_ptr p) s; Some (0, s) }"

definition process_free_elf_data :: "u32 \<Rightarrow> kernel \<Rightarrow> (int \<times> kernel) option" where
  "process_free_elf_data process s =
     do { p \<leftarrow> get_process s process; s \<leftarrow> elf_close (p_ptr p) s; Some (0, s) }"

definition process_free_program_data :: "u32 \<Rightarrow> kernel \<Rightarrow> (int \<times> kernel) option" where
  "process_free_program_data process s =
     do {
       p \<leftarrow> get_process s process;
       if p_filetype p = PROCESS_FILETYPE_BINARY then process_free_binary_data process s
       else if p_filetype p = PROCESS_FILETYPE_ELF then process_free_elf_data process s
       else Some (- EINVARG, s)
     }"

definition process_terminate :: "u32 \<Rightarrow> kernel \<Rightarrow> (int \<times> kernel) option" where
  "process_terminate process s =
     do {
       (res, s) \<leftarrow> process_terminate_allocations process s;
       if res < 0 then Some (res, s)
       else do {
         (res, s) \<leftarrow> process_free_program_data process s;
         if res < 0 then Some (res, s)
         else do {
           p \<leftarrow> get_process s process;
           s \<leftarrow> kfree (p_stack p) s;
           (r, s) \<leftarrow> task_free (p_task p) s;
           s \<leftarrow> process_unlink process s;
           Some (res, s)
         }
       }
     }"

section \<open>Arguments\<close>

definition process_get_arguments :: "u32 \<Rightarrow> kernel \<Rightarrow> (int \<times> u32) option" where
  "process_get_arguments process s =
     do { p \<leftarrow> get_process s process; Some (arg_argc (p_arguments p), arg_argv (p_arguments p)) }"

fun process_count_command_arguments :: "u8 list list \<Rightarrow> int" where
  "process_count_command_arguments [] = 0"
| "process_count_command_arguments (a # as) = process_count_command_arguments as + 1"

text \<open>Storing the bytes of a word at an index of an array of words.\<close>

definition put_word :: "u32 \<Rightarrow> int \<Rightarrow> u32 \<Rightarrow> kernel \<Rightarrow> kernel option" where
  "put_word ptr i v s =
     do {
       b \<leftarrow> get_bytes s ptr;
       b \<leftarrow> arr_set b (4 * i) (ucast v);
       b \<leftarrow> arr_set b (4 * i + 1) (ucast (drop_bit 8 v));
       b \<leftarrow> arr_set b (4 * i + 2) (ucast (drop_bit 16 v));
       b \<leftarrow> arr_set b (4 * i + 3) (ucast (drop_bit 24 v));
       put ptr (OBytes b) s
     }"

text \<open>The loop over the list, from index \<open>i\<close> on; it ends with the result, 0 or an error.\<close>

fun inject_loop :: "int \<Rightarrow> u32 \<Rightarrow> int \<Rightarrow> u8 list list \<Rightarrow> u32 \<Rightarrow> kernel \<Rightarrow> (bool \<times> int \<times> kernel) option" where
  "inject_loop res argv i [] process s = Some (True, res, s)"
| "inject_loop res argv i (current # rest) process s =
     do {
       (argument_str, s) \<leftarrow> process_malloc process 512 s;
       if argument_str = 0 then Some (False, res - ENOMEM, s)
       else do {
         b \<leftarrow> get_bytes s argument_str;
         b \<leftarrow> strncpy b current 512;
         s \<leftarrow> put argument_str (OBytes b) s;
         s \<leftarrow> put_word argv i argument_str s;
         inject_loop res argv (i + 1) rest process s
       }
     }"

definition process_inject_arguments :: "u32 \<Rightarrow> u8 list list \<Rightarrow> kernel \<Rightarrow> (int \<times> kernel) option" where
  "process_inject_arguments process root_argument s =
     (let argc = process_count_command_arguments root_argument
      in if argc = 0 then Some (- EIO, s)
      else do {
        (argv, s) \<leftarrow> process_malloc process (4 * to_u32 argc) s;
        let res = (if argv = 0 then - ENOMEM else 0);
        (complete, res, s) \<leftarrow> inject_loop res argv 0 root_argument process s;
        if complete then do {
          p \<leftarrow> get_process s process;
          s \<leftarrow> put process (OProcess (p\<lparr>p_arguments := \<lparr>arg_argc = argc, arg_argv = argv\<rparr>\<rparr>)) s;
          Some (res, s)
        } else Some (res, s)
      })"

section \<open>Loading\<close>

text \<open>The common end: the memory of the program is released on an error, the file is closed.\<close>

definition process_load_binary_out :: "int \<Rightarrow> u32 \<Rightarrow> int \<Rightarrow> kernel \<Rightarrow> (int \<times> kernel) option" where
  "process_load_binary_out res program_data_ptr fd s =
     do {
       s \<leftarrow> (if res < 0 \<and> program_data_ptr \<noteq> 0 then kfree program_data_ptr s else Some s);
       (r, s) \<leftarrow> fclose fd s;
       Some (res, s)
     }"

definition process_load_binary :: "u8 list \<Rightarrow> u32 \<Rightarrow> kernel \<Rightarrow> (int \<times> kernel) option" where
  "process_load_binary filename process s =
     do {
       (fd, s) \<leftarrow> fopen filename (lit ''r'') s;
       if fd = 0 then process_load_binary_out (- EIO) 0 fd s
       else do {
         (res, stat) \<leftarrow> fstat fd \<lparr>st_flags = 0, st_filesize = 0\<rparr> s;
         if res \<noteq> PLUMOS_ALL_OK then process_load_binary_out res 0 fd s
         else do {
           (ptr, s) \<leftarrow> kzalloc (st_filesize stat) (OBytes (replicate (unat (st_filesize stat)) 0)) s;
           if ptr = 0 then process_load_binary_out (- ENOMEM) 0 fd s
           else do {
             (n, bs, s) \<leftarrow> fread (st_filesize stat) 1 fd s;
             s \<leftarrow> (if bs = [] then Some s else store_bytes ptr bs s);
             if n \<noteq> 1 then process_load_binary_out (- EIO) ptr fd s
             else do {
               p \<leftarrow> get_process s process;
               s \<leftarrow> put process (OProcess (p\<lparr>p_filetype := PROCESS_FILETYPE_BINARY, p_ptr := ptr,
                 p_size := st_filesize stat\<rparr>)) s;
               process_load_binary_out res ptr fd s
             }
           }
         }
       }
     }"

definition process_load_elf :: "u8 list \<Rightarrow> u32 \<Rightarrow> kernel \<Rightarrow> (int \<times> kernel) option" where
  "process_load_elf filename process s =
     do {
       (res, elf_file, s) \<leftarrow> elf_load filename s;
       if res < 0 then Some (res, s)
       else do {
         p \<leftarrow> get_process s process;
         s \<leftarrow> put process (OProcess (p\<lparr>p_filetype := PROCESS_FILETYPE_ELF, p_ptr := elf_file\<rparr>)) s;
         Some (res, s)
       }
     }"

definition process_load_data :: "u8 list \<Rightarrow> u32 \<Rightarrow> kernel \<Rightarrow> (int \<times> kernel) option" where
  "process_load_data filename process s =
     do {
       (res, s) \<leftarrow> process_load_elf filename process s;
       if res = - EINVFORMAT then process_load_binary filename process s else Some (res, s)
     }"

definition process_map_binary :: "u32 \<Rightarrow> kernel \<Rightarrow> (int \<times> kernel) option" where
  "process_map_binary process s =
     do {
       p \<leftarrow> get_process s process;
       directory \<leftarrow> process_chunk process s;
       (r, s) \<leftarrow> paging_map_to directory PLUMOS_PROGRAM_VIRTUAL_ADDRESS (p_ptr p)
         (paging_align_address (p_ptr p + p_size p)) user_flags s;
       Some (0, s)
     }"

text \<open>Header \<open>i\<close> with \<open>n\<close> headers left.\<close>

fun map_elf_loop :: "nat \<Rightarrow> int \<Rightarrow> elf_file \<Rightarrow> u8 list \<Rightarrow> u32 \<Rightarrow> kernel \<Rightarrow> (int \<times> kernel) option" where
  "map_elf_loop 0 i f b process s = Some (0, s)"
| "map_elf_loop (Suc n) i f b process s =
     do {
       phdr \<leftarrow> elf_program_header b i;
       phys \<leftarrow> elf_phdr_phys_address f b phdr;
       fl \<leftarrow> p_flags b phdr;
       vaddr \<leftarrow> p_vaddr b phdr;
       memsz \<leftarrow> p_memsz b phdr;
       let flags = PAGING_IS_PRESENT OR PAGING_ACCESS_FROM_ALL;
       let flags = (if fl AND PF_W \<noteq> 0 then flags OR PAGING_IS_WRITEABLE else flags);
       directory \<leftarrow> process_chunk process s;
       (res, s) \<leftarrow> paging_map_to directory (paging_align_to_lower_page vaddr) (paging_align_to_lower_page phys)
         (paging_align_address (phys + memsz)) (uint flags) s;
       if res < 0 then Some (res, s) else map_elf_loop n (i + 1) f b process s
     }"

definition process_map_elf :: "u32 \<Rightarrow> kernel \<Rightarrow> (int \<times> kernel) option" where
  "process_map_elf process s =
     do {
       p \<leftarrow> get_process s process;
       f \<leftarrow> get_elf_file s (p_ptr p);
       b \<leftarrow> get_bytes s (elf_header f);
       n \<leftarrow> e_phnum b;
       map_elf_loop (nat n) 0 f b process s
     }"

text \<open>A process of another type is a panic.\<close>

definition process_map_memory :: "u32 \<Rightarrow> kernel \<Rightarrow> (int \<times> kernel) option" where
  "process_map_memory process s =
     do {
       p \<leftarrow> get_process s process;
       (res, s) \<leftarrow>
         (if p_filetype p = PROCESS_FILETYPE_ELF then process_map_elf process s
          else if p_filetype p = PROCESS_FILETYPE_BINARY then process_map_binary process s
          else None);
       if res < 0 then Some (res, s)
       else do {
         directory \<leftarrow> process_chunk process s;
         (r, s) \<leftarrow> paging_map_to directory PLUMOS_PROGRAM_VIRTUAL_STACK_ADDRESS_END (p_stack p)
           (paging_align_address (p_stack p + PLUMOS_USER_PROGRAM_STACK_SIZE)) user_flags s;
         Some (res, s)
       }
     }"

text \<open>
  The results are the code, the value stored through \<open>process\<close> (0 for none) and the state. \<open>_process\<close> is
  null or the new process at the end.
\<close>

definition process_load_out :: "int \<Rightarrow> u32 \<Rightarrow> u32 \<Rightarrow> kernel \<Rightarrow> (int \<times> u32 \<times> kernel) option" where
  "process_load_out res new out s =
     (if res < 0 \<and> new \<noteq> 0 then do {
        p \<leftarrow> get_process s new;
        if p_task p \<noteq> 0 then do { (r, s) \<leftarrow> task_free (p_task p) s; Some (res, out, s) } else Some (res, out, s)
      } else Some (res, out, s))"

text \<open>When the slot is taken the function reads \<open>_process\<close>, which has no value yet.\<close>

definition process_load_for_slot :: "u8 list \<Rightarrow> int \<Rightarrow> kernel \<Rightarrow> (int \<times> u32 \<times> kernel) option" where
  "process_load_for_slot filename process_slot s =
     do {
       taken \<leftarrow> process_get process_slot s;
       if taken \<noteq> 0 then None
       else do {
         (new, s) \<leftarrow> kzalloc 9364 (OProcess zero_process) s;
         if new = 0 then process_load_out (- ENOMEM) 0 0 s
         else do {
           s \<leftarrow> process_init new s;
           (res, s) \<leftarrow> process_load_data filename new s;
           if res < 0 then process_load_out res new 0 s
           else do {
             (stack, s) \<leftarrow> kzalloc PLUMOS_USER_PROGRAM_STACK_SIZE
               (OBytes (replicate (unat PLUMOS_USER_PROGRAM_STACK_SIZE) 0)) s;
             if stack = 0 then process_load_out (- ENOMEM) new 0 s
             else do {
               p \<leftarrow> get_process s new;
               name \<leftarrow> strncpy (p_filename p) filename (int PLUMOS_MAX_PATH);
               s \<leftarrow> put new (OProcess (p\<lparr>p_filename := name, p_stack := stack,
                 p_id := word_of_int process_slot\<rparr>)) s;
               (task, s) \<leftarrow> task_new new s;
               if to_int task = 0 then process_load_out (to_int task) new 0 s
               else do {
                 p \<leftarrow> get_process s new;
                 s \<leftarrow> put new (OProcess (p\<lparr>p_task := task\<rparr>)) s;
                 (res, s) \<leftarrow> process_map_memory new s;
                 if res < 0 then process_load_out res new 0 s
                 else do {
                   ps \<leftarrow> arr_set (processes s) process_slot new;
                   process_load_out res new new (s\<lparr>processes := ps\<rparr>)
                 }
               }
             }
           }
         }
       }
     }"

definition process_load :: "u8 list \<Rightarrow> kernel \<Rightarrow> (int \<times> u32 \<times> kernel) option" where
  "process_load filename s =
     (let process_slot = process_get_free_slot s
      in if process_slot < 0 then Some (- ENOMEM, 0, s) else process_load_for_slot filename process_slot s)"

definition process_load_switch :: "u8 list \<Rightarrow> kernel \<Rightarrow> (int \<times> u32 \<times> kernel) option" where
  "process_load_switch filename s =
     do {
       (res, process, s) \<leftarrow> process_load filename s;
       if res = 0 then Some (res, process, snd (process_switch process s)) else Some (res, process, s)
     }"

section \<open>The null entries of the allocations\<close>

lemma put_frame:
  assumes "put a x s = Some s'"
  shows "kernel_heap s' = kernel_heap s" "y \<noteq> a \<Longrightarrow> objs s' y = objs s y" "objs s' a = Some x"
  using assms by (auto simp: put_def split: if_splits)

lemma set_word_frame:
  assumes "set_word p i v s = Some s'"
  shows "kernel_heap s' = kernel_heap s" "objs s x = Some (OProcess q) \<Longrightarrow> objs s' x = Some (OProcess q)"
proof -
  from assms obtain ws ws' where w: "objs s p = Some (OWords ws)" "put p (OWords ws') s = Some s'"
    by (auto simp: set_word_def bind_Some)
  show "kernel_heap s' = kernel_heap s" by (rule put_frame(1) [OF w(2)])
  show "objs s x = Some (OProcess q) \<Longrightarrow> objs s' x = Some (OProcess q)"
    using put_frame(2) [OF w(2), of x] w(1) by (cases "x = p") auto
qed

lemma paging_map_frame:
  assumes "paging_map c v p fl s = Some (r, s')"
  shows "kernel_heap s' = kernel_heap s" "objs s x = Some (OProcess q) \<Longrightarrow> objs s' x = Some (OProcess q)"
  using assms set_word_frame
  by (auto simp: paging_map_def paging_set_def bind_Some split: if_splits prod.splits)

lemma map_range_frame:
  assumes "map_range_loop k r0 c v p fl s = Some (r, s')"
  shows "kernel_heap s' = kernel_heap s \<and> (\<forall>x q. objs s x = Some (OProcess q) \<longrightarrow> objs s' x = Some (OProcess q))"
  using assms
proof (induction k arbitrary: r0 v p s)
  case (Suc k)
  then obtain r1 s1 where m: "paging_map c v p fl s = Some (r1, s1)" by (auto simp: bind_Some)
  with Suc show ?case using paging_map_frame [OF m] by (fastforce split: if_splits)
qed simp

lemma paging_map_to_frame:
  assumes "paging_map_to c v p e fl s = Some (r, s')"
  shows "kernel_heap s' = kernel_heap s" "objs s x = Some (OProcess q) \<Longrightarrow> objs s' x = Some (OProcess q)"
  using assms map_range_frame
  unfolding paging_map_to_def paging_map_range_def Let_def by (auto split: if_splits)

text \<open>What a release cannot change: the place of the heap and the size of its table.\<close>

definition heap_place :: "kernel \<Rightarrow> u32 \<times> u32" where
  "heap_place s = (saddr (kernel_heap s), total (table (kernel_heap s)))"

lemma kfree_frame:
  assumes "kfree a s = Some s'"
  shows "heap_place s' = heap_place s" "x \<noteq> a \<Longrightarrow> objs s' x = objs s x" "objs s' a = None"
  using assms by (auto simp: kfree_def heap_free_def heap_mark_blocks_free_def heap_place_def bind_Some)

definition null_entry :: "nat \<Rightarrow> process \<Rightarrow> bool" where
  "null_entry i p \<longleftrightarrow> i < length (p_allocations p) \<and> pa_ptr (p_allocations p ! i) = 0"

lemma process_free_frame:
  assumes "process_free process ptr s = Some s'" "objs s process = Some (OProcess p)" "null_entry i p"
  shows "heap_place s' = heap_place s"
    "objs s' process = None \<or> (\<exists>p'. objs s' process = Some (OProcess p') \<and> null_entry i p')"
proof -
  have "heap_place s' = heap_place s \<and>
      (objs s' process = None \<or> (\<exists>p'. objs s' process = Some (OProcess p') \<and> null_entry i p'))"
  proof (cases "process_get_allocation_by_address p ptr")
    case None
    then show ?thesis using assms by (auto simp: process_free_def get_process_def)
  next
    case (Some al)
    then obtain d r s1 where m: "paging_map_to d (pa_ptr al) (pa_ptr al)
        (paging_align_address (pa_ptr al + pa_size al)) 0 s = Some (r, s1)"
      and rest: "(if r < 0 then Some s1 else do {
          p \<leftarrow> get_process s1 process;
          s \<leftarrow> put process (OProcess (process_allocation_unjoin p ptr)) s1;
          kfree ptr s}) = Some s'"
      using assms(1,2) by (auto simp: process_free_def get_process_def bind_Some)
    have h1: "heap_place s1 = heap_place s" using paging_map_to_frame(1) [OF m] by (simp add: heap_place_def)
    have o1: "objs s1 process = Some (OProcess p)" by (rule paging_map_to_frame(2) [OF m assms(2)])
    show ?thesis
    proof (cases "r < 0")
      case True
      then show ?thesis using rest h1 o1 assms(3) by auto
    next
      case False
      then obtain s2 where s2: "put process (OProcess (process_allocation_unjoin p ptr)) s1 = Some s2"
        "kfree ptr s2 = Some s'" using rest o1 by (auto simp: get_process_def bind_Some)
      have n: "null_entry i (process_allocation_unjoin p ptr)"
        using assms(3) by (simp add: null_entry_def process_allocation_unjoin_def)
      have "heap_place s2 = heap_place s1" using put_frame(1) [OF s2(1)] by (simp add: heap_place_def)
      then show ?thesis using kfree_frame [OF s2(2)] put_frame(3) [OF s2(1)] n h1
        by (cases "process = ptr") auto
    qed
  qed
  then show "heap_place s' = heap_place s"
    "objs s' process = None \<or> (\<exists>p'. objs s' process = Some (OProcess p') \<and> null_entry i p')" by auto
qed

text \<open>A heap as \<open>kheap_init\<close> creates it, away from address 0 and below 2 GiB.\<close>

definition heap_away :: "kernel \<Rightarrow> bool" where
  "heap_away s \<longleftrightarrow> 4096 \<le> unat (fst (heap_place s)) \<and> unat (fst (heap_place s)) < 2 ^ 31 \<and>
     0 < to_int (snd (heap_place s))"

lemma kfree_null: "heap_away s \<Longrightarrow> kfree 0 s = None"
  using heap_free_null_None [of "kernel_heap s"] by (simp add: heap_away_def heap_place_def kfree_def)

lemma process_free_null:
  assumes "heap_away s" "objs s process = Some (OProcess p)" "null_entry i p"
    "\<forall>a \<in> set (p_allocations p). pa_ptr a = 0 \<longrightarrow> pa_size a = 0"
  shows "process_free process 0 s = None"
proof -
  have "\<exists>a \<in> set (p_allocations p). pa_ptr a = 0"
    using assms(3) by (auto simp: null_entry_def intro: bexI [of _ "p_allocations p ! i"])
  then obtain al where al: "process_get_allocation_by_address p 0 = Some al" "pa_ptr al = 0" "pa_size al = 0"
    unfolding process_get_allocation_by_address_def using assms(4)
    by (cases "List.find (\<lambda>a. pa_ptr a = 0) (p_allocations p)") (auto simp: find_None_iff find_Some_iff)
  show ?thesis
  proof (cases "process_chunk process s")
    case None
    then show ?thesis using assms(2) al by (simp add: process_free_def get_process_def)
  next
    case (Some d)
    have "paging_map_to d 0 0 0 0 s = Some (0, s)"
      by (simp add: paging_map_to_def paging_map_range_def paging_consts)
    moreover have "paging_align_address 0 = 0" by (simp add: paging_align_address_def paging_consts)
    moreover have "heap_away (s\<lparr>objs := m\<rparr>)" for m using assms(1) by (simp add: heap_away_def heap_place_def)
    ultimately show ?thesis using assms(2) al Some kfree_null
      by (simp add: process_free_def get_process_def put_def)
  qed
qed

lemma unjoin_sizes:
  "\<forall>a \<in> set (p_allocations p). pa_ptr a = 0 \<longrightarrow> pa_size a = 0 \<Longrightarrow>
   \<forall>a \<in> set (p_allocations (process_allocation_unjoin p ptr)). pa_ptr a = 0 \<longrightarrow> pa_size a = 0"
  by (auto simp: process_allocation_unjoin_def)

lemma process_free_sizes:
  assumes "process_free process ptr s = Some s'" "objs s process = Some (OProcess p)"
    "objs s' process = Some (OProcess p')" "\<forall>a \<in> set (p_allocations p). pa_ptr a = 0 \<longrightarrow> pa_size a = 0"
  shows "\<forall>a \<in> set (p_allocations p'). pa_ptr a = 0 \<longrightarrow> pa_size a = 0"
proof (cases "process_get_allocation_by_address p ptr")
  case None
  then show ?thesis using assms by (auto simp: process_free_def get_process_def)
next
  case (Some al)
  then obtain d r s1 where m: "paging_map_to d (pa_ptr al) (pa_ptr al)
      (paging_align_address (pa_ptr al + pa_size al)) 0 s = Some (r, s1)"
    and rest: "(if r < 0 then Some s1 else do {
        p \<leftarrow> get_process s1 process;
        s \<leftarrow> put process (OProcess (process_allocation_unjoin p ptr)) s1;
        kfree ptr s}) = Some s'"
    using assms(1,2) by (auto simp: process_free_def get_process_def bind_Some)
  have o1: "objs s1 process = Some (OProcess p)" by (rule paging_map_to_frame(2) [OF m assms(2)])
  show ?thesis
  proof (cases "r < 0")
    case True
    then show ?thesis using rest o1 assms(3,4) by auto
  next
    case False
    then obtain s2 where s2: "put process (OProcess (process_allocation_unjoin p ptr)) s1 = Some s2"
      "kfree ptr s2 = Some s'" using rest o1 by (auto simp: get_process_def bind_Some)
    then have "process \<noteq> ptr" using kfree_frame(3) [OF s2(2)] assms(3) by auto
    then have "p' = process_allocation_unjoin p ptr"
      using kfree_frame(2) [OF s2(2)] put_frame(3) [OF s2(1)] assms(3) by auto
    then show ?thesis using unjoin_sizes [OF assms(4)] by simp
  qed
qed

lemma terminate_loop_null:
  assumes "heap_away s" "objs s process = Some (OProcess p)" "null_entry i p" "j \<le> i" "i < j + n"
    "\<forall>a \<in> set (p_allocations p). pa_ptr a = 0 \<longrightarrow> pa_size a = 0"
  shows "terminate_allocations_loop n (int j) process s = None"
  using assms
proof (induction n arbitrary: j s p)
  case (Suc n)
  have len: "j < length (p_allocations p)" using Suc.prems(3,4) by (simp add: null_entry_def)
  let ?ptr = "pa_ptr (p_allocations p ! j)"
  have g: "get_process s process = Some p" using Suc.prems(2) by (simp add: get_process_def)
  show ?case
  proof (cases "process_free process ?ptr s")
    case None
    then show ?thesis using g len by simp
  next
    case (Some s')
    note fr = process_free_frame [OF Some Suc.prems(2,3)]
    have ji: "j \<noteq> i"
    proof
      assume "j = i"
      then have "?ptr = 0" using Suc.prems(3) by (simp add: null_entry_def)
      then show False using Some process_free_null [OF Suc.prems(1-3,6)] by simp
    qed
    have ha: "heap_away s'" using fr(1) Suc.prems(1) by (simp add: heap_away_def)
    have eq: "terminate_allocations_loop (Suc n) (int j) process s = terminate_allocations_loop n (int (Suc j)) process s'"
      using g len Some by (simp add: add.commute)
    from fr(2) show ?thesis
    proof (elim disjE exE conjE)
      assume "objs s' process = None"
      moreover obtain m where "n = Suc m" using ji Suc.prems(4,5) by (cases n) auto
      ultimately show ?thesis unfolding eq by (simp add: get_process_def)
    next
      fix p'
      assume p': "objs s' process = Some (OProcess p')" "null_entry i p'"
      show ?thesis unfolding eq
        by (rule Suc.IH [OF ha p' _ _ process_free_sizes [OF Some Suc.prems(2) p'(1) Suc.prems(6)]])
          (use ji Suc.prems(4,5) in auto)
    qed
  qed
qed simp

lemma process_terminate_null:
  assumes "heap_away s" "objs s process = Some (OProcess p)" "length (p_allocations p) = PLUMOS_MAX_PROGRAM_ALLOCATIONS"
    "\<exists>a \<in> set (p_allocations p). pa_ptr a = 0" "\<forall>a \<in> set (p_allocations p). pa_ptr a = 0 \<longrightarrow> pa_size a = 0"
  shows "process_terminate process s = None"
proof -
  obtain i where i: "null_entry i p" using assms(4) by (auto simp: null_entry_def in_set_conv_nth)
  then have "i < 0 + PLUMOS_MAX_PROGRAM_ALLOCATIONS" using assms(3) by (simp add: null_entry_def)
  from terminate_loop_null [OF assms(1,2) i _ this assms(5)]
  show ?thesis by (simp add: process_terminate_def process_terminate_allocations_def)
qed

end
