(* ===== verification/AddressSpace.thy ===== *)
theory AddressSpace
  imports TaskList Process Room
begin

unbundle bit_operations_syntax

text \<open>
  The address space of a process: rounding to pages, ranges of mapped pages, and what allocating and
  releasing memory does to it.
\<close>

section \<open>Pages\<close>

lemma align_up:
  assumes "unat a + 4095 < 2 ^ 32"
  shows "unat (paging_align_address a) = 4096 * blocks_for (unat a)" "paging_align_address a mod 4096 = 0"
proof -
  have m: "unat (a mod 4096) = unat a mod 4096" by (simp add: unat_mod_distrib)
  have u: "unat (paging_align_address a) = 4096 * blocks_for (unat a)"
  proof (cases "unat a mod 4096 = 0")
    case True
    then have "a mod 4096 = 0" using m by (simp add: unat_eq_0)
    moreover have "4096 * blocks_for (unat a) = unat a"
      using True blocks_mult [of "unat a div 4096" 0] by (simp add: blocks_for_def mod_0_imp_dvd)
    ultimately show ?thesis by (simp add: paging_align_address_def paging_consts)
  next
    case False
    then have nz: "a mod 4096 \<noteq> 0" using m by (metis unat_0)
    have "unat (a + 4096) = (unat a + 4096) mod 2 ^ 32" by (simp add: unat_word_ariths)
    show ?thesis
    proof (cases "unat a + 4096 < 2 ^ 32")
      case True
      then have s: "unat (a + 4096) = unat a + 4096" by (simp add: unat_word_ariths)
      have "a mod 4096 \<le> a + 4096" using m s by (simp add: word_le_nat_alt)
      then have "unat (a + 4096 - a mod 4096) = unat a + 4096 - unat a mod 4096"
        using m s by (simp add: unat_sub)
      also have "\<dots> = (unat a - unat a mod 4096) + 4096" by (rule Nat.diff_add_assoc2) simp
      also have "\<dots> = 4096 * (unat a div 4096 + 1)" by (simp add: minus_mod_eq_mult_div)
      also have "unat a div 4096 + 1 = blocks_for (unat a)"
        using blocks_mult [of "unat a div 4096" "unat a mod 4096"] blocks_one [of "unat a mod 4096"] False
        by simp
      finally show ?thesis using nz by (simp add: paging_align_address_def paging_consts)
    next
      case False
      then have "unat a = 2 ^ 32 - 4096" using assms by simp
      then show ?thesis using \<open>unat a mod 4096 \<noteq> 0\<close> by simp
    qed
  qed
  show "unat (paging_align_address a) = 4096 * blocks_for (unat a)" by (rule u)
  have "4096 dvd unat (paging_align_address a)" unfolding u by simp
  then show "paging_align_address a mod 4096 = 0" by (simp add: aligned_unat)
qed

lemma align_down:
  "unat (paging_align_to_lower_page a) = unat a div 4096 * 4096" "paging_align_to_lower_page a mod 4096 = 0"
  "page (paging_align_to_lower_page a) = page a"
proof -
  have "a mod 4096 \<le> a" by (simp add: word_le_nat_alt unat_mod_distrib)
  then have "unat (paging_align_to_lower_page a) = unat a - unat a mod 4096"
    by (simp add: paging_align_to_lower_page_def paging_consts unat_sub unat_mod_distrib)
  then show u: "unat (paging_align_to_lower_page a) = unat a div 4096 * 4096"
    by (simp add: minus_mod_eq_div_mult)
  have "4096 dvd unat (paging_align_to_lower_page a)" unfolding u by simp
  then show "paging_align_to_lower_page a mod 4096 = 0" by (simp add: aligned_unat)
  show "page (paging_align_to_lower_page a) = page a" by (simp add: page_def u)
qed

text \<open>The end of a range of \<open>sz\<close> bytes from a page on.\<close>

lemma align_end:
  assumes "ptr mod 4096 = 0" "unat ptr + 4096 * blocks_for (unat sz) < 2 ^ 32"
  shows "paging_align_address (ptr + sz) mod 4096 = 0" "ptr \<le> paging_align_address (ptr + sz)"
    "unat (paging_align_address (ptr + sz) - ptr) = 4096 * blocks_for (unat sz)"
proof -
  have s: "unat (ptr + sz) = unat ptr + unat sz" using assms(2) blocks_bounds(1) [of "unat sz"] by (simp add: unat_word_ariths)
  have d: "4096 dvd unat ptr" using assms(1) by (simp add: aligned_unat)
  then obtain k where k: "unat ptr = 4096 * k" by auto
  have lt: "4096 * (k + blocks_for (unat sz)) < 2 ^ 32" using assms(2) k by simp
  then have "k + blocks_for (unat sz) < 2 ^ 20" by simp
  then have "4096 * (k + blocks_for (unat sz)) \<le> 2 ^ 32 - 4096" by simp
  then have b: "unat (ptr + sz) + 4095 < 2 ^ 32" using s k blocks_bounds(1) [of "unat sz"] by simp
  have "blocks_for (unat ptr + unat sz) = k + blocks_for (unat sz)" unfolding k by (rule blocks_mult)
  then have u: "unat (paging_align_address (ptr + sz)) = unat ptr + 4096 * blocks_for (unat sz)"
    using align_up(1) [OF b] s k by simp
  show "paging_align_address (ptr + sz) mod 4096 = 0" by (rule align_up(2) [OF b])
  show le: "ptr \<le> paging_align_address (ptr + sz)" using u by (simp add: word_le_nat_alt)
  show "unat (paging_align_address (ptr + sz) - ptr) = 4096 * blocks_for (unat sz)"
    using unat_sub [OF le] u by simp
qed

text \<open>The entries after \<open>k\<close> pages from the virtual address \<open>v\<close> on are mapped to the frames from \<open>p\<close> on.\<close>

definition map_pages :: "(nat \<Rightarrow> u32) \<Rightarrow> u32 \<Rightarrow> u32 \<Rightarrow> nat \<Rightarrow> u32 \<Rightarrow> nat \<Rightarrow> u32" where
  "map_pages e v p k flags n =
     (if page v \<le> n \<and> n < page v + k then (p + of_nat (4096 * (n - page v))) OR flags else e n)"

lemma map_pages_identity:
  assumes "ptr mod 4096 = 0" "page ptr \<le> n"
  shows "ptr + of_nat (4096 * (n - page ptr)) = (of_nat (4096 * n) :: u32)"
proof -
  have "unat ptr = 4096 * page ptr" using assms(1) by (auto simp: page_def aligned_unat)
  moreover have "unat (of_nat (4096 * page ptr) :: u32) = 4096 * page ptr"
    by (rule unat_of_small_nat) (use page_less [of ptr] in simp)
  ultimately have "of_nat (4096 * page ptr) = ptr" unfolding word_unat_eq_iff by linarith
  then have "ptr + of_nat (4096 * (n - page ptr)) = of_nat (4096 * page ptr + 4096 * (n - page ptr))"
    by (simp only: of_nat_add)
  also have "4096 * page ptr + 4096 * (n - page ptr) = 4096 * n" using assms(2) by simp
  finally show ?thesis .
qed

section \<open>The address space of a process\<close>

definition process_space :: "kernel \<Rightarrow> u32 \<Rightarrow> process \<Rightarrow> u32 \<Rightarrow> u32 \<Rightarrow> bool" where
  "process_space s q p c dir \<longleftrightarrow> objs s q = Some (OProcess p) \<and>
     (\<exists>t. objs s (p_task p) = Some (OTask t) \<and> t_page_directory t = c) \<and>
     objs s c = Some (OChunk dir) \<and> pd_ok (objs s) dir"

lemma process_space_get:
  assumes "process_space s q p c dir"
  shows "get_process s q = Some p" "process_chunk q s = Some c" "objs s c = Some (OChunk dir)" "pd_ok (objs s) dir"
    "objs s q = Some (OProcess p)"
  using assms by (auto simp: process_space_def get_process_def process_chunk_def get_task_def)

lemma process_space_words:
  assumes "words_step s s'" "process_space s q p c dir" "pd_ok (objs s') dir"
  shows "process_space s' q p c dir"
  using assms(2,3) words_step_keeps [OF assms(1)] by (fastforce simp: process_space_def)

lemma process_space_map:
  assumes "process_space s q p c dir" "v mod 4096 = 0" "a mod 4096 = 0" "e mod 4096 = 0" "a \<le> e"
    "unat v + unat (e - a) \<le> 2 ^ 32"
  obtains s' where "paging_map_to c v a e flags s = Some (0, s')" "tables_step dir s s'" "process_space s' q p c dir"
    "\<forall>n < 2 ^ 20. page_entry (objs s') dir n =
       map_pages (page_entry (objs s) dir) v a (unat (e - a) div 4096) (to_u32 flags) n"
proof -
  note g = process_space_get [OF assms(1)]
  obtain s' where s': "paging_map_to c v a e flags s = Some (0, s')" "tables_step dir s s'" "pd_ok (objs s') dir"
    "\<forall>n < 2 ^ 20. page_entry (objs s') dir n = (if page v \<le> n \<and> n < page v + unat (e - a) div 4096
        then (a + of_nat (4096 * (n - page v))) OR to_u32 flags else page_entry (objs s) dir n)"
    using paging_map_to_ok [OF g(3,4) assms(2-6)] by blast
  show thesis
    by (rule that [OF s'(1,2) process_space_words [OF tables_stepD(1) [OF s'(2)] assms(1) s'(3)]])
      (use s'(4) in \<open>simp add: map_pages_def\<close>)
qed

lemma process_space_put:
  assumes "process_space s q p c dir" "p_task p' = p_task p"
  obtains s' where "put q (OProcess p') s = Some s'" "objs s' = (objs s)(q \<mapsto> OProcess p')"
    "mem_inv s' = mem_inv s" "free_blocks s' = free_blocks s" "heap_step s s'" "process_space s' q p' c dir"
    "\<forall>n < 2 ^ 20. page_entry (objs s') dir n = page_entry (objs s) dir n"
proof -
  note g = process_space_get [OF assms(1)]
  have "objs s q \<noteq> None" using g(5) by simp
  then obtain s' where s': "put q (OProcess p') s = Some s'" "objs s' = (objs s)(q \<mapsto> OProcess p')"
    "mem_inv s' = mem_inv s" "free_blocks s' = free_blocks s" "heap_step s s'" by (rule put_live)
  have w: "\<And>x w. objs s x = Some (OWords w) \<Longrightarrow> objs s' x = Some (OWords w)" using s'(2) g(5) by auto
  have pd: "pd_ok (objs s') dir" by (rule keeps_words(1) [OF w g(4)])
  have "process_space s' q p' c dir"
    unfolding process_space_def by (intro conjI pd) (use assms s'(2) in \<open>auto simp: process_space_def\<close>)
  moreover have "page_entry (objs s') dir n = page_entry (objs s) dir n" if "n < 2 ^ 20" for n
    by (rule keeps_words(2) [of "objs s" "objs s'"]) (use w g(4) that in blast)+
  ultimately show thesis using that [OF s'] by blast
qed

section \<open>Allocation\<close>

lemma kzalloc_range:
  assumes "mem_inv s" "low_heap s" "size_ok n" "kzalloc n z s = Some (a, s')" "a \<noteq> 0"
  shows "unat a + 4096 * blocks_for (unat n) \<le> 2 ^ 31" "heap_step s s'"
proof -
  obtain ss where ss: "table_rep (kernel_heap s) ss" using assms(1) by (auto simp: mem_inv_def)
  have sz: "0 < unat n" "unat n \<le> 2 ^ 31 - 4096" using assms(3) by (auto simp: size_ok_def)
  from assms(4,5) obtain h' where m: "heap_malloc (kernel_heap s) n = Some (a, h')"
    "s' = s\<lparr>kernel_heap := h', objs := (objs s)(a \<mapsto> z)\<rparr>"
    by (auto simp: kzalloc_def kmalloc_def bind_Some split: if_splits)
  obtain p ss' where p: "a = saddr (kernel_heap s) + of_nat (4096 * p)" "p + blocks_for (unat n) \<le> blocks ss"
    "h' = (kernel_heap s)\<lparr>table := (table (kernel_heap s))\<lparr>entries := encode ss'\<rparr>\<rparr>" "table_rep h' ss'"
    using heap_malloc_success [OF ss sz m(1) assms(5)] by metis
  have e: "entries (table (kernel_heap s)) = encode ss" "length (encode ss) = blocks ss"
    using ss by (simp_all add: table_rep_def)
  have b: "unat (saddr (kernel_heap s)) + 4096 * blocks ss \<le> 2 ^ 31"
    using assms(2) e by (simp add: low_heap_def heap_shape_def)
  have "unat (saddr (kernel_heap s)) + 4096 * p < 2 ^ 32" using b p(2) by simp
  then have "unat a = unat (saddr (kernel_heap s)) + 4096 * p"
    by (simp add: p(1) unat_word_ariths unat_of_small_nat del: of_nat_mult)
  then show "unat a + 4096 * blocks_for (unat n) \<le> 2 ^ 31" using b p(2) by simp
  have "total (table h') = total (table (kernel_heap s))" "total (table h') = of_nat (blocks ss')" "blocks ss' < 2 ^ 19"
    "total (table (kernel_heap s)) = of_nat (blocks ss)" "blocks ss < 2 ^ 19"
    using p(3,4) ss by (simp_all add: table_rep_def)
  then have "blocks ss' = blocks ss" 
    using of_nat_u32_eq_iff [of "blocks ss'" "blocks ss"] by simp
  then show "heap_step s s'" using m(2) p(3) e by (simp add: heap_shape_def heap_step_def)
qed
lemma process_space_alloc:
  assumes "process_space s q p c dir" "objs s a = None" "objs s' = (objs s)(a \<mapsto> OBytes b)"
  shows "process_space s' q p c dir" "n < 2 ^ 20 \<Longrightarrow> page_entry (objs s') dir n = page_entry (objs s) dir n"
proof -
  note g = process_space_get [OF assms(1)]
  have k: "objs s' x = Some y" if "objs s x = Some y" for x y using that assms(2,3) by auto
  have pd: "pd_ok (objs s') dir" by (rule keeps_words(1) [of "objs s"]) (use k g(4) in blast)+
  show "process_space s' q p c dir"
    unfolding process_space_def by (intro conjI pd) (use assms(1) k in \<open>fastforce simp: process_space_def\<close>)+
  show "n < 2 ^ 20 \<Longrightarrow> page_entry (objs s') dir n = page_entry (objs s) dir n"
    by (rule keeps_words(2) [of "objs s"]) (use k g(4) in blast)+
qed

text \<open>The live allocations of a process; an entry without one is null with size 0.\<close>

definition allocations_ok :: "kernel \<Rightarrow> process \<Rightarrow> bool" where
  "allocations_ok s p \<longleftrightarrow> (\<forall>a \<in> set (p_allocations p).
     if pa_ptr a = 0 then pa_size a = 0 else \<exists>b. objs s (pa_ptr a) = Some (OBytes b))"

lemma user_flags_word: "to_u32 user_flags = 7"
  by (simp add: user_flags_def paging_consts)

lemma process_malloc_ok:
  assumes "mem_inv s" "low_heap s" "process_space s q p c dir" "size_ok sz"
    "kzalloc sz (OBytes (replicate (unat sz) 0)) s = Some (ptr, s1)" "ptr \<noteq> 0"
    "first_slot 0 (map pa_ptr (p_allocations p)) = Some i"
  obtains s2 where "process_malloc q sz s = Some (ptr, s2)" "mem_inv s2" "heap_step s1 s2"
    "process_space s2 q (p\<lparr>p_allocations := (p_allocations p)[i := \<lparr>pa_ptr = ptr, pa_size = sz\<rparr>]\<rparr>) c dir"
    "objs s2 ptr = Some (OBytes (replicate (unat sz) 0))"
    "\<forall>x y. objs s x = Some y \<longrightarrow> x \<noteq> q \<longrightarrow> (\<forall>w. y \<noteq> OWords w) \<longrightarrow> objs s2 x = Some y"
    "\<forall>n < 2 ^ 20. page_entry (objs s2) dir n =
       map_pages (page_entry (objs s) dir) ptr ptr (blocks_for (unat sz)) 7 n"
    "\<forall>x y. objs s x = Some y \<longrightarrow> x \<noteq> q \<longrightarrow> x \<notin> tables_of (objs s) dir \<longrightarrow> objs s2 x = Some y"
    "tables_of (objs s2) dir = tables_of (objs s) dir" "free_blocks s2 = free_blocks s1"
proof -
  note k = kzalloc_spec [OF assms(1,4,5,6)] and r = kzalloc_range [OF assms(1,2,4,5,6)]
  have b: "unat ptr + 4096 * blocks_for (unat sz) < 2 ^ 32" using r(1) by simp
  note e = align_end [OF k(4) b]
  have sp1: "process_space s1 q p c dir" by (rule process_space_alloc(1) [OF assms(3) k(1,2)])
  have le: "unat ptr + unat (paging_align_address (ptr + sz) - ptr) \<le> 2 ^ 32" unfolding e(3) using b by simp
  obtain s2 where s2: "paging_map_to c ptr ptr (paging_align_address (ptr + sz)) user_flags s1 = Some (0, s2)"
    "tables_step dir s1 s2" "process_space s2 q p c dir" "\<forall>n < 2 ^ 20. page_entry (objs s2) dir n = map_pages
       (page_entry (objs s1) dir) ptr ptr (unat (paging_align_address (ptr + sz) - ptr) div 4096) (to_u32 user_flags) n"
    by (rule process_space_map [OF sp1 k(4) k(4) e(1,2) le])
  note w2 = tables_stepD(1) [OF s2(2)]
  let ?as = "(p_allocations p)[i := \<lparr>pa_ptr = ptr, pa_size = sz\<rparr>]"
  let ?p = "p\<lparr>p_allocations := ?as\<rparr>"
  have tk: "p_task ?p = p_task p" by simp
  obtain s3 where s3: "put q (OProcess ?p) s2 = Some s3" "objs s3 = (objs s2)(q \<mapsto> OProcess ?p)"
    "mem_inv s3 = mem_inv s2" "free_blocks s3 = free_blocks s2" "heap_step s2 s3" "process_space s3 q ?p c dir"
    "\<forall>n < 2 ^ 20. page_entry (objs s3) dir n = page_entry (objs s2) dir n"
    by (rule process_space_put [OF s2(3) tk])
  have i: "i < length (p_allocations p)" using assms(7) by (simp add: first_slot_Some)
  have "process_malloc q sz s = Some (ptr, s3)"
    unfolding process_malloc_def assms(5) bind.bind_lunit prod.case process_space_get(1) [OF sp1]
      process_space_get(2) [OF sp1] Let_def process_find_free_allocation_index_def assms(7) option.case s2(1)
      process_space_get(1) [OF s2(3)]
    using assms(6) i s3(1) by simp
  moreover have "mem_inv s3" using s3(3) words_step_inv(1) [OF w2] k(3) by simp
  moreover have "heap_step s1 s3" by (rule heap_step_trans [OF words_step_heap [OF w2] s3(5)])
  moreover have "objs s3 x = Some y" if "objs s x = Some y" "x \<noteq> q" "\<forall>w. y \<noteq> OWords w" for x y
  proof -
    have "objs s1 x = Some y" using that(1) k(1,2) by auto
    then have "objs s2 x = Some y" by (rule words_step_keeps [OF w2 _ that(3)])
    then show ?thesis using s3(2) that(2) by simp
  qed
  moreover have "objs s2 ptr = Some (OBytes (replicate (unat sz) 0))"
    by (rule words_step_keeps [OF w2]) (use k(2) in simp_all)
  then have "objs s3 ptr = Some (OBytes (replicate (unat sz) 0))"
    using s3(2) process_space_get(5) [OF s2(3)] by auto
  moreover have "page_entry (objs s3) dir n = map_pages (page_entry (objs s) dir) ptr ptr (blocks_for (unat sz)) 7 n"
    if n: "n < 2 ^ 20" for n
    using s3(7) s2(4) n process_space_alloc(2) [OF assms(3) k(1,2) n] e(3)
    by (simp add: user_flags_word map_pages_def)
  moreover have tb: "tables_of (objs s1) dir = tables_of (objs s) dir"
    using k(1,2) process_space_get(4) [OF assms(3)] by (auto simp: tables_of_def pd_ok_def)
  have "objs s3 x = Some y" if "objs s x = Some y" "x \<noteq> q" "x \<notin> tables_of (objs s) dir" for x y
  proof -
    have "objs s1 x = Some y" using that(1) k(1,2) by auto
    moreover have "objs s2 x = objs s1 x" by (rule tables_stepD(2) [OF s2(2)]) (use that(3) tb in simp)
    ultimately show ?thesis using s3(2) that(2) by simp
  qed
  moreover have "dir \<noteq> q" using process_space_get(4,5) [OF s2(3)] by (auto simp: pd_ok_def)
  then have "tables_of (objs s3) dir = tables_of (objs s2) dir" by (simp add: tables_of_def s3(2))
  then have "tables_of (objs s3) dir = tables_of (objs s) dir" using tables_step_tables [OF s2(2)] tb by simp
  moreover have "free_blocks s3 = free_blocks s1" using s3(4) words_step_inv(2) [OF w2] by simp
  ultimately show thesis using that s3(6) by blast
qed

lemma process_free_ok:
  assumes "mem_inv s" "process_space s q p c dir" "i < length (p_allocations p)" "ptr \<noteq> 0"
    "p_allocations p ! i = \<lparr>pa_ptr = ptr, pa_size = sz\<rparr>"
    "\<forall>j < length (p_allocations p). j \<noteq> i \<longrightarrow> pa_ptr (p_allocations p ! j) \<noteq> ptr"
    "objs s ptr = Some (OBytes b)" "ptr mod 4096 = 0" "unat ptr + 4096 * blocks_for (unat sz) < 2 ^ 32"
  obtains s' where "process_free q ptr s = Some s'" "mem_inv s'" "objs s' ptr = None"
    "process_space s' q (p\<lparr>p_allocations := (p_allocations p)[i := \<lparr>pa_ptr = 0, pa_size = 0\<rparr>]\<rparr>) c dir"
    "\<forall>x y. objs s x = Some y \<longrightarrow> x \<noteq> q \<longrightarrow> x \<noteq> ptr \<longrightarrow> (\<forall>w. y \<noteq> OWords w) \<longrightarrow> objs s' x = Some y"
    "\<forall>n < 2 ^ 20. page_entry (objs s') dir n =
       map_pages (page_entry (objs s) dir) ptr ptr (blocks_for (unat sz)) 0 n" "heap_step s s'"
proof -
  let ?as = "p_allocations p"
  let ?al = "\<lparr>pa_ptr = ptr, pa_size = sz\<rparr>"
  note e = align_end [OF assms(8,9)]
  have "find (\<lambda>a. pa_ptr a = ptr) ?as = Some ?al"
  proof (cases "find (\<lambda>a. pa_ptr a = ptr) ?as")
    case None
    then show ?thesis using nth_mem [OF assms(3)] assms(5) by (force simp: find_None_iff)
  next
    case (Some a)
    then obtain j where "j < length ?as" "pa_ptr (?as ! j) = ptr" "a = ?as ! j" by (auto simp: find_Some_iff)
    then show ?thesis using Some assms(5,6) by metis
  qed
  then have f: "process_get_allocation_by_address p ptr = Some ?al"
    by (simp add: process_get_allocation_by_address_def)
  have le: "unat ptr + unat (paging_align_address (ptr + sz) - ptr) \<le> 2 ^ 32" unfolding e(3) using assms(9) by simp
  obtain s2 where s2: "paging_map_to c ptr ptr (paging_align_address (ptr + sz)) 0 s = Some (0, s2)"
    "tables_step dir s s2" "process_space s2 q p c dir" "\<forall>n < 2 ^ 20. page_entry (objs s2) dir n = map_pages
       (page_entry (objs s) dir) ptr ptr (unat (paging_align_address (ptr + sz) - ptr) div 4096) (to_u32 0) n"
    by (rule process_space_map [OF assms(2,8,8) e(1,2) le])
  note w2 = tables_stepD(1) [OF s2(2)]
  have un: "process_allocation_unjoin p ptr = p\<lparr>p_allocations := ?as[i := \<lparr>pa_ptr = 0, pa_size = 0\<rparr>]\<rparr>"
  proof -
    have "map (\<lambda>a. if pa_ptr a = ptr then \<lparr>pa_ptr = 0, pa_size = 0\<rparr> else a) ?as =
        ?as[i := \<lparr>pa_ptr = 0, pa_size = 0\<rparr>]"
      using assms(3,5,6) by (intro nth_equalityI) (auto simp: nth_list_update)
    then show ?thesis by (simp add: process_allocation_unjoin_def)
  qed
  let ?p = "p\<lparr>p_allocations := ?as[i := \<lparr>pa_ptr = 0, pa_size = 0\<rparr>]\<rparr>"
  have tk: "p_task ?p = p_task p" by simp
  obtain s3 where s3: "put q (OProcess ?p) s2 = Some s3" "objs s3 = (objs s2)(q \<mapsto> OProcess ?p)"
    "mem_inv s3 = mem_inv s2" "free_blocks s3 = free_blocks s2" "heap_step s2 s3" "process_space s3 q ?p c dir"
    "\<forall>n < 2 ^ 20. page_entry (objs s3) dir n = page_entry (objs s2) dir n"
    by (rule process_space_put [OF s2(3) tk])
  have inv3: "mem_inv s3" using s3(3) words_step_inv(1) [OF w2] assms(1) by simp
  have b2: "objs s2 ptr = Some (OBytes b)" by (rule words_step_keeps [OF w2 assms(7)]) simp
  have qp: "q \<noteq> ptr" using b2 process_space_get(5) [OF s2(3)] by auto
  have b3: "objs s3 ptr = Some (OBytes b)" using s3(2) b2 qp by simp
  then have "objs s3 ptr \<noteq> None" by simp
  then obtain s4 where s4: "kfree ptr s3 = Some s4" "objs s4 = (objs s3)(ptr := None)" "mem_inv s4"
    "free_blocks s3 < free_blocks s4" "heap_step s3 s4" by (rule kfree_block [OF inv3])
  have "process_free q ptr s = Some s4"
    unfolding process_free_def process_space_get(1) [OF assms(2)] bind.bind_lunit f option.case
      process_space_get(2) [OF assms(2)]
    using s2(1) process_space_get(1) [OF s2(3)] s3(1) s4(1) un by simp
  moreover have w: "\<And>x w. objs s3 x = Some (OWords w) \<Longrightarrow> objs s4 x = Some (OWords w)" using s4(2) b3 by auto
  have pd: "pd_ok (objs s4) dir"
    by (rule keeps_words(1) [of "objs s3"]) (use w process_space_get(4) [OF s3(6)] in blast)+
  have "process_space s4 q ?p c dir" unfolding process_space_def
    by (intro conjI pd) (use s3(6) s4(2) b3 qp in \<open>auto simp: process_space_def\<close>)
  moreover have "page_entry (objs s4) dir n = map_pages (page_entry (objs s) dir) ptr ptr (blocks_for (unat sz)) 0 n"
    if n: "n < 2 ^ 20" for n
  proof -
    have "page_entry (objs s4) dir n = page_entry (objs s3) dir n"
      by (rule keeps_words(2) [of "objs s3"]) (use w process_space_get(4) [OF s3(6)] n in blast)+
    then show ?thesis using s3(7) s2(4) n e(3) by simp
  qed
  moreover have "objs s4 x = Some y" if "objs s x = Some y" "x \<noteq> q" "x \<noteq> ptr" "\<forall>w. y \<noteq> OWords w" for x y
    using that words_step_keeps [OF w2, of x y] s3(2) s4(2) by auto
  moreover have "heap_step s s4"
    by (rule heap_step_trans [OF heap_step_trans [OF words_step_heap [OF w2] s3(5)] s4(5)])
  ultimately show thesis using that s4(2,3) by auto
qed

section \<open>Properties\<close>

text \<open>
  C12. Memory of a process. When the kernel heap has \<open>sz\<close> bytes, \<open>process_malloc\<close> returns their address: the
  memory is zero, entered in the first free entry of the allocations and mapped to itself, writable for
  the user, while every other page of the process stays. \<open>process_free\<close> of that address gives the memory
  back, restores the process and leaves the pages without the present bit. When the table of allocations is
  full the process gets a null pointer, but the memory stays allocated.
\<close>
theorem process_malloc_free:
  assumes "mem_inv s" "low_heap s" "process_space s q p c dir" "allocations_ok s p" "size_ok sz"
    "kzalloc sz (OBytes (replicate (unat sz) 0)) s = Some (ptr, s1)" "ptr \<noteq> 0"
  shows "case first_slot 0 (map pa_ptr (p_allocations p)) of
      None \<Rightarrow> process_malloc q sz s = Some (0, s1) \<and> objs s1 ptr \<noteq> None
    | Some i \<Rightarrow> \<exists>s2 s3. process_malloc q sz s = Some (ptr, s2) \<and> mem_inv s2 \<and>
        objs s2 ptr = Some (OBytes (replicate (unat sz) 0)) \<and>
        objs s2 q = Some (OProcess (p\<lparr>p_allocations := (p_allocations p)[i := \<lparr>pa_ptr = ptr, pa_size = sz\<rparr>]\<rparr>)) \<and>
        (\<forall>n < 2 ^ 20. page_entry (objs s2) dir n =
           (if page ptr \<le> n \<and> n < page ptr + blocks_for (unat sz) then of_nat (4096 * n) OR 7
            else page_entry (objs s) dir n)) \<and>
        process_free q ptr s2 = Some s3 \<and> mem_inv s3 \<and> objs s3 ptr = None \<and> objs s3 q = Some (OProcess p) \<and>
        (\<forall>n < 2 ^ 20. page_entry (objs s3) dir n =
           (if page ptr \<le> n \<and> n < page ptr + blocks_for (unat sz) then of_nat (4096 * n)
            else page_entry (objs s) dir n))"
proof (cases "first_slot 0 (map pa_ptr (p_allocations p))")
  case None
  note k = kzalloc_spec [OF assms(1,5,6,7)]
  have "process_space s1 q p c dir" by (rule process_space_alloc(1) [OF assms(3) k(1,2)])
  then have "get_process s1 q = Some p" by (rule process_space_get(1))
  then show ?thesis using None assms(6,7) k(2)
    by (simp add: process_malloc_def process_find_free_allocation_index_def status_defs)
next
  case (Some i)
  let ?as = "(p_allocations p)[i := \<lparr>pa_ptr = ptr, pa_size = sz\<rparr>]"
  let ?p = "p\<lparr>p_allocations := ?as\<rparr>"
  note k = kzalloc_spec [OF assms(1,5,6,7)] and r = kzalloc_range [OF assms(1,2,5,6,7)]
  obtain s2 where s2: "process_malloc q sz s = Some (ptr, s2)" "mem_inv s2" "process_space s2 q ?p c dir"
    "objs s2 ptr = Some (OBytes (replicate (unat sz) 0))"
    "\<forall>n < 2 ^ 20. page_entry (objs s2) dir n = map_pages (page_entry (objs s) dir) ptr ptr (blocks_for (unat sz)) 7 n"
    by (rule process_malloc_ok [OF assms(1,2,3,5,6,7) Some])
  have i: "i < length (p_allocations p)" "pa_ptr (p_allocations p ! i) = 0"
    using Some by (auto simp: first_slot_Some)
  have z: "p_allocations p ! i = \<lparr>pa_ptr = 0, pa_size = 0\<rparr>"
    using assms(4) i nth_mem [OF i(1)] by (fastforce simp: allocations_ok_def)
  have "pa_ptr (p_allocations p ! j) \<noteq> ptr" if j: "j < length (p_allocations p)" for j
    using assms(4,7) nth_mem [OF j] k(1) by (force simp: allocations_ok_def split: if_splits)
  then have ob: "\<forall>j < length (p_allocations ?p). j \<noteq> i \<longrightarrow> pa_ptr (p_allocations ?p ! j) \<noteq> ptr" by simp
  have i': "i < length (p_allocations ?p)" "p_allocations ?p ! i = \<lparr>pa_ptr = ptr, pa_size = sz\<rparr>" using i by simp_all
  have b: "unat ptr + 4096 * blocks_for (unat sz) < 2 ^ 32" using r(1) by simp
  obtain s3 where s3: "process_free q ptr s2 = Some s3" "mem_inv s3" "objs s3 ptr = None"
    "process_space s3 q (?p\<lparr>p_allocations := (p_allocations ?p)[i := \<lparr>pa_ptr = 0, pa_size = 0\<rparr>]\<rparr>) c dir"
    "\<forall>n < 2 ^ 20. page_entry (objs s3) dir n = map_pages (page_entry (objs s2) dir) ptr ptr (blocks_for (unat sz)) 0 n"
    by (rule process_free_ok [OF s2(2,3) i'(1) assms(7) i'(2) ob s2(4) k(4) b])
  have "?p\<lparr>p_allocations := (p_allocations ?p)[i := \<lparr>pa_ptr = 0, pa_size = 0\<rparr>]\<rparr> = p"
    using list_update_id [of "p_allocations p" i] z by simp
  then have q3: "objs s3 q = Some (OProcess p)" using process_space_get(5) [OF s3(4)] by simp
  have e2: "page_entry (objs s2) dir n = (if page ptr \<le> n \<and> n < page ptr + blocks_for (unat sz)
      then of_nat (4096 * n) OR 7 else page_entry (objs s) dir n)" if "n < 2 ^ 20" for n
    using s2(5) that map_pages_identity [OF k(4), of n] by (simp add: map_pages_def)
  have e3: "page_entry (objs s3) dir n = (if page ptr \<le> n \<and> n < page ptr + blocks_for (unat sz)
      then of_nat (4096 * n) else page_entry (objs s) dir n)" if "n < 2 ^ 20" for n
    using s3(5) e2 that map_pages_identity [OF k(4), of n] by (simp add: map_pages_def)
  show ?thesis unfolding Some option.case
    using s2(1,2,4) process_space_get(5) [OF s2(3)] s3(1-3) q3 e2 e3 by blast
qed

text \<open>A process with one task, in its own address space.\<close>

lemma sample_space_process:
  "\<exists>s p c dir. mem_inv s \<and> low_heap s \<and> 900 \<le> free_blocks s \<and> process_space s (slot 0) p c dir \<and>
     allocations_ok s p \<and> p_allocations p = replicate 1024 \<lparr>pa_ptr = 0, pa_size = 0\<rparr> \<and>
     first_slot 0 (map pa_ptr (p_allocations p)) = Some 0"
proof -
  let ?p = "zero_process\<lparr>p_filetype := PROCESS_FILETYPE_BINARY\<rparr>"
  let ?s = "sample_store [OProcess ?p] 2000"
  have m: "mem_inv ?s" "1027 \<le> free_blocks ?s"
    using sample_store_inv [of "[OProcess ?p]" 2000] by (simp_all add: sample_store_free)
  have ob: "objs ?s (slot 0) = Some (OProcess ?p)" using stored_slot [of 0 "[OProcess ?p]"] by simp
  have ip: "start_ip ?p ?s = Some 0x400000"
    by (simp add: start_ip_def PROCESS_FILETYPE_ELF_def PROCESS_FILETYPE_BINARY_def
        PLUMOS_PROGRAM_VIRTUAL_ADDRESS_def)
  have h: "task_head ?s = 0" by (simp add: sample_store_def sample_kernel_def sample_terminal_def)
  have lh: "low_heap ?s"
    by (simp add: low_heap_def heap_shape_def sample_store_def sample_heap_def encode_def)
  obtain a c dir s' where n: "task_new (slot 0) ?s = Some (a, s')" "mem_inv s'" "free_blocks s' = free_blocks ?s - 1027"
    "task_added ?s [] a s'" "heap_shape (kernel_heap s') = heap_shape (kernel_heap ?s)"
    "task_at s' a = (new_task (slot 0) 0x400000 c)\<lparr>t_prev := if ([] :: u32 list) = [] then 0 else last []\<rparr>"
    "objs s' c = Some (OChunk dir)" "pd_ok (objs s') dir"
    by (rule task_new_ok [OF m ob ip, of "[]"]) (use h in auto)
  have o': "objs s' (slot 0) = Some (OProcess ?p)" "objs s' a = Some (OTask (task_at s' a))" "a \<noteq> slot 0"
    using n(4) ob by (auto simp: task_added_def task_list_def)
  let ?q = "?p\<lparr>p_task := a\<rparr>"
  have "objs s' (slot 0) \<noteq> None" using o'(1) by simp
  then obtain s'' where s'': "put (slot 0) (OProcess ?q) s' = Some s''" "objs s'' = (objs s')(slot 0 \<mapsto> OProcess ?q)"
    "mem_inv s'' = mem_inv s'" "free_blocks s'' = free_blocks s'" "heap_step s' s''" by (rule put_live)
  have pd: "pd_ok (objs s'') dir" by (rule keeps_words(1) [of "objs s'"]) (use s''(2) o'(1) n(8) in auto)
  have "t_page_directory (task_at s' a) = c" using n(6) by (simp add: new_task_def)
  then have "process_space s'' (slot 0) ?q c dir" unfolding process_space_def
    by (intro conjI pd) (use s''(2) o' n(7) in auto)
  moreover have "low_heap s''" using lh n(5) s''(5) by (simp add: low_heap_def heap_step_def)
  moreover have "900 \<le> free_blocks s''" using s''(4) n(3) by (simp add: sample_store_free)
  moreover have "allocations_ok s'' ?q" by (simp add: allocations_ok_def zero_process_def)
  moreover have "first_slot 0 (map pa_ptr (p_allocations ?q)) = Some 0"
    by (simp add: zero_process_def PLUMOS_MAX_PROGRAM_ALLOCATIONS_def numeral_eq_Suc)
  moreover have "p_allocations ?q = replicate 1024 \<lparr>pa_ptr = 0, pa_size = 0\<rparr>"
    by (simp add: zero_process_def PLUMOS_MAX_PROGRAM_ALLOCATIONS_def del: replicate_Suc)
  ultimately show ?thesis using n(2) s''(3) by blast
qed

theorem process_malloc_free_witness:
  "\<exists>s q ptr s2 s3. process_malloc q 100 s = Some (ptr, s2) \<and> objs s2 ptr = Some (OBytes (replicate 100 0)) \<and>
     process_free q ptr s2 = Some s3 \<and> objs s3 ptr = None"
proof -
  obtain s p c dir where s: "mem_inv s" "low_heap s" "900 \<le> free_blocks s" "process_space s (slot 0) p c dir"
    "allocations_ok s p" "first_slot 0 (map pa_ptr (p_allocations p)) = Some 0" using sample_space_process by blast
  have fb: "0 < free_blocks s" using s(3) by simp
  have r: "replicate (unat (100 :: u32)) 0 = (replicate 100 0 :: u8 list)" by simp
  obtain ptr s1 where k: "kzalloc 100 (OBytes (replicate (unat (100 :: u32)) 0)) s = Some (ptr, s1)" "ptr \<noteq> 0"
    by (rule kzalloc_block [OF s(1) fb, of 100 "OBytes (replicate (unat (100 :: u32)) 0)"]) simp_all
  have "size_ok 100" by (simp add: size_ok_def)
  from process_malloc_free [OF s(1,2,4,5) this k] show ?thesis unfolding s(6) option.case r by blast
qed

end
