(* ===== verification/Arguments.thy ===== *)
theory Arguments
  imports AddressSpace
begin

unbundle bit_operations_syntax

text \<open>
  The arguments of a program: \<open>process_inject_arguments\<close> copies them into memory of the process and leaves
  a vector of pointers to the copies.
\<close>

section \<open>Words in bytes\<close>

definition store_le32 :: "u8 list \<Rightarrow> nat \<Rightarrow> u32 \<Rightarrow> u8 list" where
  "store_le32 b i v = b[i := ucast v, i + 1 := ucast (drop_bit 8 v), i + 2 := ucast (drop_bit 16 v),
     i + 3 := ucast (drop_bit 24 v)]"

lemma length_store_le32 [simp]: "length (store_le32 b i v) = length b"
  by (simp add: store_le32_def)

lemma le32_store: "i + 3 < length b \<Longrightarrow> le32 (store_le32 b i v) i = v"
proof (rule bit_word_eqI)
  fix n assume i: "i + 3 < length b" and "n < LENGTH(32)"
  then show "bit (le32 (store_le32 b i v) i) n = bit v n"
    by (cases "n < 8"; cases "n < 16"; cases "n < 24")
      (auto simp: le32_def le16_def store_le32_def nth_list_update bit_simps)
qed

lemma le32_store_other: "j + 3 < i \<or> i + 3 < j \<Longrightarrow> le32 (store_le32 b i v) j = le32 b j"
  by (auto simp: le32_def le16_def store_le32_def)

lemma put_word_ok:
  assumes "objs s ptr = Some (OBytes b)" "4 * i + 3 < length b"
  obtains s' where "put_word ptr (int i) v s = Some s'" "objs s' = (objs s)(ptr \<mapsto> OBytes (store_le32 b (4 * i) v))"
    "mem_inv s' = mem_inv s" "free_blocks s' = free_blocks s" "heap_step s s'"
proof -
  let ?b = "store_le32 b (4 * i) v"
  have "put_word ptr (int i) v s = put ptr (OBytes ?b) s"
    using assms by (simp add: put_word_def get_bytes_def arr_set_def store_le32_def nat_add_distrib nat_mult_distrib)
  moreover have "objs s ptr \<noteq> None" using assms(1) by simp
  then obtain s' where "put ptr (OBytes ?b) s = Some s'" "objs s' = (objs s)(ptr \<mapsto> OBytes ?b)" "mem_inv s' = mem_inv s"
    "free_blocks s' = free_blocks s" "heap_step s s'" by (rule put_live)
  ultimately show thesis using that by simp
qed

section \<open>Memory of the process\<close>

text \<open>Bytes of an object of a process change, no address space does.\<close>

lemma process_space_bytes:
  assumes "process_space s q p c dir" "objs s a = Some (OBytes b)" "objs s' = (objs s)(a \<mapsto> OBytes b')"
  shows "process_space s' q p c dir" "n < 2 ^ 20 \<Longrightarrow> page_entry (objs s') dir n = page_entry (objs s) dir n"
    "tables_of (objs s') dir = tables_of (objs s) dir"
proof -
  note g = process_space_get [OF assms(1)]
  have k: "objs s' x = Some y" if "objs s x = Some y" "\<forall>b. y \<noteq> OBytes b" for x y using that assms(2,3) by auto
  have pd: "pd_ok (objs s') dir" by (rule keeps_words(1) [of "objs s"]) (use k g(4) in blast)+
  show "process_space s' q p c dir"
    unfolding process_space_def by (intro conjI pd) (use assms(1) k in \<open>fastforce simp: process_space_def\<close>)+
  show "n < 2 ^ 20 \<Longrightarrow> page_entry (objs s') dir n = page_entry (objs s) dir n"
    by (rule keeps_words(2) [of "objs s"]) (use k g(4) in blast)+
  have "dir \<noteq> a" using g(4) assms(2) by (auto simp: pd_ok_def)
  then show "tables_of (objs s') dir = tables_of (objs s) dir" by (simp add: tables_of_def assms(3))
qed

lemma process_space_bytes_apart:
  assumes "process_space s q p c dir" "objs s a = Some (OBytes b)"
  shows "a \<noteq> q" "a \<notin> tables_of (objs s) dir"
proof -
  note g = process_space_get [OF assms(1)]
  show "a \<noteq> q" using assms(2) g(5) by auto
  obtain d where "objs s dir = Some (OWords d)" "\<And>i. i < 1024 \<Longrightarrow> \<exists>t. objs s (table_of d i) = Some (OWords t)"
    using g(4) unfolding pd_ok_def by blast
  then show "a \<notin> tables_of (objs s) dir" using assms(2) by (fastforce simp: tables_of_def)
qed

text \<open>One block for a process whose entries \<open>xs\<close> are taken and whose others are free.\<close>

abbreviation no_allocation :: process_allocation where
  "no_allocation \<equiv> \<lparr>pa_ptr = 0, pa_size = 0\<rparr>"

lemma process_malloc_block:
  assumes "mem_inv s" "low_heap s" "process_space s q p c dir" "0 < unat sz" "unat sz \<le> 4096" "0 < free_blocks s"
    "p_allocations p = xs @ replicate (Suc m) no_allocation" "\<forall>x \<in> set xs. pa_ptr x \<noteq> 0"
  obtains ptr s' where "process_malloc q sz s = Some (ptr, s')" "ptr \<noteq> 0" "objs s ptr = None" "mem_inv s'" "heap_step s s'"
    "process_space s' q (p\<lparr>p_allocations := (xs @ [\<lparr>pa_ptr = ptr, pa_size = sz\<rparr>]) @ replicate m no_allocation\<rparr>) c dir"
    "objs s' ptr = Some (OBytes (replicate (unat sz) 0))"
    "\<forall>x y. objs s x = Some y \<longrightarrow> x \<noteq> q \<longrightarrow> x \<notin> tables_of (objs s) dir \<longrightarrow> objs s' x = Some y"
    "tables_of (objs s') dir = tables_of (objs s) dir" "free_blocks s = free_blocks s' + 1"
    "\<forall>n < 2 ^ 20. page_entry (objs s') dir n = (if n = page ptr then of_nat (4096 * n) OR 7 else page_entry (objs s) dir n)"
proof -
  let ?z = "OBytes (replicate (unat sz) 0)"
  obtain ptr s1 where k: "kzalloc sz ?z s = Some (ptr, s1)" "ptr \<noteq> 0" "objs s ptr = None" "ptr mod 4096 = 0"
    "objs s1 = (objs s)(ptr \<mapsto> ?z)" "mem_inv s1" "free_blocks s1 = free_blocks s - 1" "heap_step s s1"
    by (rule kzalloc_block [OF assms(1,6,4,5), of ?z])
  have sz: "size_ok sz" "blocks_for (unat sz) = 1" using assms(4,5) by (simp_all add: size_ok_def blocks_one)
  have i: "first_slot 0 (map pa_ptr (p_allocations p)) = Some (length xs)"
    using assms(8) by (auto simp: first_slot_Some assms(7) nth_append)
  obtain s2 where s2: "process_malloc q sz s = Some (ptr, s2)" "mem_inv s2" "heap_step s1 s2"
    "process_space s2 q (p\<lparr>p_allocations := (p_allocations p)[length xs := \<lparr>pa_ptr = ptr, pa_size = sz\<rparr>]\<rparr>) c dir"
    "objs s2 ptr = Some ?z"
    "\<forall>x y. objs s x = Some y \<longrightarrow> x \<noteq> q \<longrightarrow> (\<forall>w. y \<noteq> OWords w) \<longrightarrow> objs s2 x = Some y"
    "\<forall>n < 2 ^ 20. page_entry (objs s2) dir n = map_pages (page_entry (objs s) dir) ptr ptr (blocks_for (unat sz)) 7 n"
    "\<forall>x y. objs s x = Some y \<longrightarrow> x \<noteq> q \<longrightarrow> x \<notin> tables_of (objs s) dir \<longrightarrow> objs s2 x = Some y"
    "tables_of (objs s2) dir = tables_of (objs s) dir" "free_blocks s2 = free_blocks s1"
    by (rule process_malloc_ok [OF assms(1-3) sz(1) k(1,2) i])
  have as: "(p_allocations p)[length xs := \<lparr>pa_ptr = ptr, pa_size = sz\<rparr>] =
      (xs @ [\<lparr>pa_ptr = ptr, pa_size = sz\<rparr>]) @ replicate m no_allocation" by (simp add: assms(7) list_update_append)
  have e: "page_entry (objs s2) dir n = (if n = page ptr then of_nat (4096 * n) OR 7 else page_entry (objs s) dir n)"
    if "n < 2 ^ 20" for n
    using s2(7) that map_pages_identity [OF k(4), of n] by (auto simp: map_pages_def sz(2))
  show thesis
    by (rule that [OF s2(1) k(2,3) s2(2) heap_step_trans [OF k(8) s2(3)] s2(4) [unfolded as] s2(5,8,9)])
      (use k(7) s2(10) assms(6) e in auto)
qed
section \<open>Copying the arguments\<close>

text \<open>A copy of the argument \<open>a\<close>, cut to 511 characters, in the memory at \<open>ptr\<close>.\<close>

definition argument_at :: "kernel \<Rightarrow> u32 \<Rightarrow> u8 list \<Rightarrow> bool" where
  "argument_at s ptr a \<longleftrightarrow> (\<exists>t. objs s ptr = Some (OBytes t) \<and> length t = 512 \<and> 0 \<in> set t \<and> cstr t = take 511 (cstr a))"

lemma argument_copy_ok:
  assumes "0 \<in> set a"
  obtains t where "strncpy (replicate 512 0) a 512 = Some t" "length t = 512" "0 \<in> set t" "cstr t = take 511 (cstr a)"
proof -
  let ?n = "min 511 (length (cstr a))"
  let ?t = "take ?n (cstr a) @ 0 # drop (Suc ?n) (replicate 512 0)"
  have "strncpy (replicate 512 0) a 512 = Some ?t" by (rule strncpy_cstr) (use assms in simp_all)
  moreover have "0 \<notin> set (take ?n (cstr a))" using cstr_nonzero in_set_takeD by metis
  then have "cstr ?t = take 511 (cstr a)" by (simp add: cstr_append_no0 min_def)
  ultimately show thesis using that by simp
qed

lemma one_argument_ok:
  assumes "mem_inv s" "low_heap s" "process_space s q p c dir" "objs s argv = Some (OBytes b)" "4 * i + 3 < length b"
    "0 < free_blocks s" "p_allocations p = xs @ replicate (Suc m) no_allocation" "\<forall>x \<in> set xs. pa_ptr x \<noteq> 0" "0 \<in> set a"
  obtains ptr s' where "inject_loop res argv (int i) (a # rest) q s = inject_loop res argv (int (Suc i)) rest q s'"
    "ptr \<noteq> 0" "objs s ptr = None" "mem_inv s'" "heap_step s s'"
    "process_space s' q (p\<lparr>p_allocations := (xs @ [\<lparr>pa_ptr = ptr, pa_size = 512\<rparr>]) @ replicate m no_allocation\<rparr>) c dir"
    "objs s' argv = Some (OBytes (store_le32 b (4 * i) ptr))" "argument_at s' ptr a"
    "\<forall>x y. objs s x = Some y \<longrightarrow> x \<noteq> q \<longrightarrow> x \<noteq> argv \<longrightarrow> x \<notin> tables_of (objs s) dir \<longrightarrow> objs s' x = Some y"
    "tables_of (objs s') dir = tables_of (objs s) dir" "free_blocks s = free_blocks s' + 1"
    "\<forall>n < 2 ^ 20. page_entry (objs s') dir n = (if n = page ptr then of_nat (4096 * n) OR 7 else page_entry (objs s) dir n)"
proof -
  let ?z = "replicate (unat (512 :: u32)) 0 :: u8 list"
  have z: "?z = replicate 512 0" by simp
  have sz: "0 < unat (512 :: u32)" "unat (512 :: u32) \<le> 4096" by simp_all
  obtain ptr s1 where m: "process_malloc q 512 s = Some (ptr, s1)" "ptr \<noteq> 0" "objs s ptr = None" "mem_inv s1" "heap_step s s1"
    "process_space s1 q (p\<lparr>p_allocations := (xs @ [\<lparr>pa_ptr = ptr, pa_size = 512\<rparr>]) @ replicate m no_allocation\<rparr>) c dir"
    "objs s1 ptr = Some (OBytes ?z)"
    "\<forall>x y. objs s x = Some y \<longrightarrow> x \<noteq> q \<longrightarrow> x \<notin> tables_of (objs s) dir \<longrightarrow> objs s1 x = Some y"
    "tables_of (objs s1) dir = tables_of (objs s) dir" "free_blocks s = free_blocks s1 + 1"
    "\<forall>n < 2 ^ 20. page_entry (objs s1) dir n = (if n = page ptr then of_nat (4096 * n) OR 7 else page_entry (objs s) dir n)"
    by (rule process_malloc_block [OF assms(1-3) sz assms(6-8)])
  have a: "argv \<noteq> q" "argv \<notin> tables_of (objs s) dir" by (rule process_space_bytes_apart [OF assms(3,4)])+
  have a1: "objs s1 argv = Some (OBytes b)" using m(8) assms(4) a by blast
  have ne: "ptr \<noteq> argv" using m(3) assms(4) by auto
  obtain t where t: "strncpy (replicate 512 0) a 512 = Some t" "length t = 512" "0 \<in> set t" "cstr t = take 511 (cstr a)"
    by (rule argument_copy_ok [OF assms(9)])
  have "objs s1 ptr \<noteq> None" using m(7) by simp
  then obtain s2 where s2: "put ptr (OBytes t) s1 = Some s2" "objs s2 = (objs s1)(ptr \<mapsto> OBytes t)" "mem_inv s2 = mem_inv s1"
    "free_blocks s2 = free_blocks s1" "heap_step s1 s2" by (rule put_live)
  have a2: "objs s2 argv = Some (OBytes b)" using s2(2) a1 ne by simp
  obtain s3 where s3: "put_word argv (int i) ptr s2 = Some s3" "objs s3 = (objs s2)(argv \<mapsto> OBytes (store_le32 b (4 * i) ptr))"
    "mem_inv s3 = mem_inv s2" "free_blocks s3 = free_blocks s2" "heap_step s2 s3" by (rule put_word_ok [OF a2 assms(5)])
  note p2 = process_space_bytes [OF m(6,7) s2(2)]
  note p3 = process_space_bytes [OF p2(1) a2 s3(2)]
  have "inject_loop res argv (int i) (a # rest) q s = inject_loop res argv (int (Suc i)) rest q s3"
    using m(1,2,7) t(1) s2(1) s3(1) z by (simp add: get_bytes_def add.commute)
  moreover have "argument_at s3 ptr a" using s3(2) s2(2) ne t(2-4) by (simp add: argument_at_def)
  moreover have "objs s3 x = Some y" if "objs s x = Some y" "x \<noteq> q" "x \<noteq> argv" "x \<notin> tables_of (objs s) dir" for x y
  proof -
    have "x \<noteq> ptr" using that(1) m(3) by auto
    then show ?thesis using m(8) s2(2) s3(2) that by simp
  qed
  ultimately show thesis
    using that [of s3 ptr] m(2-5,9-11) s2(3-5) s3(2-5) p2(2,3) p3(1-3) heap_step_trans [OF m(5) heap_step_trans [OF s2(5) s3(5)]]
    by auto
qed
text \<open>What copying the arguments \<open>as\<close> to \<open>ps\<close> leaves, the vector from entry \<open>i\<close> on.\<close>

definition arguments_copied ::
  "kernel \<Rightarrow> u32 \<Rightarrow> u32 \<Rightarrow> u32 \<Rightarrow> u8 list \<Rightarrow> nat \<Rightarrow> u8 list list \<Rightarrow> u32 list \<Rightarrow> kernel \<Rightarrow> bool" where
  "arguments_copied s q dir argv b i as ps s' \<longleftrightarrow> length ps = length as \<and> 0 \<notin> set ps \<and>
     set ps \<inter> dom (objs s) = {} \<and> mem_inv s' \<and> heap_step s s' \<and>
     (\<exists>b'. objs s' argv = Some (OBytes b') \<and> length b' = length b \<and> (\<forall>k < i. le32 b' (4 * k) = le32 b (4 * k)) \<and>
        (\<forall>k < length as. le32 b' (4 * (i + k)) = ps ! k)) \<and>
     (\<forall>k < length as. argument_at s' (ps ! k) (as ! k)) \<and>
     (\<forall>x y. objs s x = Some y \<longrightarrow> x \<noteq> q \<longrightarrow> x \<noteq> argv \<longrightarrow> x \<notin> tables_of (objs s) dir \<longrightarrow> objs s' x = Some y) \<and>
     tables_of (objs s') dir = tables_of (objs s) dir \<and> free_blocks s = free_blocks s' + length as \<and>
     (\<forall>n < 2 ^ 20. page_entry (objs s') dir n =
        (if n \<in> page ` set ps then of_nat (4096 * n) OR 7 else page_entry (objs s) dir n))"

lemma arguments_copied_Nil:
  "mem_inv s \<Longrightarrow> objs s argv = Some (OBytes b) \<Longrightarrow> arguments_copied s q dir argv b i [] [] s"
  by (simp add: arguments_copied_def)

lemma arguments_copied_Cons:
  assumes "process_space s q p c dir" "objs s argv = Some (OBytes b)" "ptr \<noteq> 0" "objs s ptr = None" "heap_step s s1"
    "process_space s1 q p' c dir" "objs s1 argv = Some (OBytes (store_le32 b (4 * i) ptr))" "4 * i + 3 < length b"
    "argument_at s1 ptr a"
    "\<forall>x y. objs s x = Some y \<longrightarrow> x \<noteq> q \<longrightarrow> x \<noteq> argv \<longrightarrow> x \<notin> tables_of (objs s) dir \<longrightarrow> objs s1 x = Some y"
    "tables_of (objs s1) dir = tables_of (objs s) dir" "free_blocks s = free_blocks s1 + 1"
    "\<forall>n < 2 ^ 20. page_entry (objs s1) dir n = (if n = page ptr then of_nat (4096 * n) OR 7 else page_entry (objs s) dir n)"
    "arguments_copied s1 q dir argv (store_le32 b (4 * i) ptr) (Suc i) as ps s2"
  shows "arguments_copied s q dir argv b i (a # as) (ptr # ps) s2"
proof -
  note n = assms(14) [unfolded arguments_copied_def]
  obtain t where t: "objs s1 ptr = Some (OBytes t)" "length t = 512" "0 \<in> set t" "cstr t = take 511 (cstr a)"
    using assms(9) by (auto simp: argument_at_def)
  have pa: "ptr \<noteq> argv" using assms(2,4) by auto
  have "objs s2 ptr = Some (OBytes t)"
    using n process_space_bytes_apart [OF assms(6) t(1)] pa t(1) by blast
  then have ptr2: "argument_at s2 ptr a" using t(2-4) by (simp add: argument_at_def)
  obtain b' where b': "objs s2 argv = Some (OBytes b')" "length b' = length b"
    "\<forall>k < Suc i. le32 b' (4 * k) = le32 (store_le32 b (4 * i) ptr) (4 * k)" "\<forall>k < length as. le32 b' (4 * (Suc i + k)) = ps ! k"
    using n by auto
  have l: "le32 b' (4 * k) = le32 b (4 * k)" if "k < i" for k
    using b'(3) that le32_store_other [of "4 * k" "4 * i" b ptr] by simp
  have r: "le32 b' (4 * (i + k)) = (ptr # ps) ! k" if "k < length (a # as)" for k
    using b'(3,4) that le32_store [OF assms(8), of ptr] by (cases k) auto
  have dom: "dom (objs s) \<subseteq> dom (objs s1)"
  proof
    fix x assume "x \<in> dom (objs s)"
    then obtain y where y: "objs s x = Some y" by auto
    have "x \<in> dom (objs s1)" if "x \<in> tables_of (objs s) dir"
      using that pd_ok_tables [OF process_space_get(4) [OF assms(6)]] assms(11) by auto
    then show "x \<in> dom (objs s1)"
      using assms(7,10) y process_space_get(5) [OF assms(6)] by (cases "x = q"; cases "x = argv") auto
  qed
  have e: "page_entry (objs s2) dir n =
      (if n \<in> page ` set (ptr # ps) then of_nat (4096 * n) OR 7 else page_entry (objs s) dir n)" if "n < 2 ^ 20" for n
    using n assms(13) that by auto
  have k: "objs s2 x = Some y" if "objs s x = Some y" "x \<noteq> q" "x \<noteq> argv" "x \<notin> tables_of (objs s) dir" for x y
    using n assms(10,11) that by auto
  have arg: "argument_at s2 ((ptr # ps) ! k) ((a # as) ! k)" if "k < length (a # as)" for k
    using n ptr2 that by (cases k) auto
  have "set (ptr # ps) \<inter> dom (objs s) = {}" using n assms(4) dom by auto
  moreover have "heap_step s s2" using n heap_step_trans [OF assms(5)] by blast
  moreover have "length (ptr # ps) = length (a # as)" "0 \<notin> set (ptr # ps)" "mem_inv s2"
    "tables_of (objs s2) dir = tables_of (objs s) dir" "free_blocks s = free_blocks s2 + length (a # as)"
    using n assms(3,11,12) by simp_all
  ultimately show ?thesis
    unfolding arguments_copied_def by (intro conjI exI [of _ b'] b'(1,2)) (use l r e k arg in blast)+
qed

lemma inject_loop_ok:
  assumes "mem_inv s" "low_heap s" "process_space s q p c dir" "objs s argv = Some (OBytes b)" "length b = 4 * (i + length as)"
    "length as \<le> free_blocks s" "p_allocations p = xs @ replicate (length as + m) no_allocation" "\<forall>x \<in> set xs. pa_ptr x \<noteq> 0"
    "\<forall>a \<in> set as. 0 \<in> set a"
  shows "\<exists>ps s'. inject_loop res argv (int i) as q s = Some (True, res, s') \<and> arguments_copied s q dir argv b i as ps s' \<and>
    process_space s' q (p\<lparr>p_allocations := (xs @ map (\<lambda>a. \<lparr>pa_ptr = a, pa_size = 512\<rparr>) ps) @ replicate m no_allocation\<rparr>) c dir"
  using assms
proof (induction as arbitrary: s p b i xs)
  case Nil
  have "p\<lparr>p_allocations := xs @ replicate m no_allocation\<rparr> = p" using Nil.prems(7) by simp
  then show ?case using arguments_copied_Nil [OF Nil.prems(1,4)] Nil.prems(3) by (intro exI [of _ "[]"] exI [of _ s]) simp
next
  case (Cons a as)
  have fb: "0 < free_blocks s" and ib: "4 * i + 3 < length b" and za: "0 \<in> set a" using Cons.prems(5,6,9) by auto
  have al: "p_allocations p = xs @ replicate (Suc (length as + m)) no_allocation" using Cons.prems(7) by simp
  obtain ptr s1 where s1: "inject_loop res argv (int i) (a # as) q s = inject_loop res argv (int (Suc i)) as q s1"
    "ptr \<noteq> 0" "objs s ptr = None" "mem_inv s1" "heap_step s s1"
    "process_space s1 q (p\<lparr>p_allocations := (xs @ [\<lparr>pa_ptr = ptr, pa_size = 512\<rparr>]) @ replicate (length as + m) no_allocation\<rparr>) c dir"
    "objs s1 argv = Some (OBytes (store_le32 b (4 * i) ptr))" "argument_at s1 ptr a"
    "\<forall>x y. objs s x = Some y \<longrightarrow> x \<noteq> q \<longrightarrow> x \<noteq> argv \<longrightarrow> x \<notin> tables_of (objs s) dir \<longrightarrow> objs s1 x = Some y"
    "tables_of (objs s1) dir = tables_of (objs s) dir" "free_blocks s = free_blocks s1 + 1"
    "\<forall>n < 2 ^ 20. page_entry (objs s1) dir n = (if n = page ptr then of_nat (4096 * n) OR 7 else page_entry (objs s) dir n)"
    by (rule one_argument_ok [OF Cons.prems(1-4) ib fb al Cons.prems(8) za])
  let ?p = "p\<lparr>p_allocations := (xs @ [\<lparr>pa_ptr = ptr, pa_size = 512\<rparr>]) @ replicate (length as + m) no_allocation\<rparr>"
  have lh: "low_heap s1" using Cons.prems(2) low_heap_step [OF s1(5)] by simp
  obtain ps s2 where s2: "inject_loop res argv (int (Suc i)) as q s1 = Some (True, res, s2)"
    "arguments_copied s1 q dir argv (store_le32 b (4 * i) ptr) (Suc i) as ps s2"
    "process_space s2 q (?p\<lparr>p_allocations := ((xs @ [\<lparr>pa_ptr = ptr, pa_size = 512\<rparr>]) @ map (\<lambda>a. \<lparr>pa_ptr = a, pa_size = 512\<rparr>) ps) @
       replicate m no_allocation\<rparr>) c dir"
    using Cons.IH [OF s1(4) lh s1(6,7), of "Suc i" "xs @ [\<lparr>pa_ptr = ptr, pa_size = 512\<rparr>]"] Cons.prems(5,6,8,9) s1(2,11) by auto
  have "arguments_copied s q dir argv b i (a # as) (ptr # ps) s2"
    by (rule arguments_copied_Cons [OF Cons.prems(3,4) s1(2,3,5-7) ib s1(8-12) s2(2)])
  then show ?case using s1(1) s2(1,3) by (intro exI [of _ "ptr # ps"] exI [of _ s2]) simp
qed
lemma count_arguments: "process_count_command_arguments as = int (length as)"
  by (induction as) simp_all

lemma process_inject_ok:
  assumes "mem_inv s" "low_heap s" "process_space s q p c dir" "as \<noteq> []" "length as \<le> 1024" "length as < free_blocks s"
    "p_allocations p = xs @ replicate (Suc (length as + m)) no_allocation" "\<forall>x \<in> set xs. pa_ptr x \<noteq> 0" "\<forall>a \<in> set as. 0 \<in> set a"
  obtains argv b ps s' where "process_inject_arguments q as s = Some (0, s')"
    "process_space s' q (p\<lparr>p_allocations := (xs @ \<lparr>pa_ptr = argv, pa_size = of_nat (4 * length as)\<rparr> #
        map (\<lambda>a. \<lparr>pa_ptr = a, pa_size = 512\<rparr>) ps) @ replicate m no_allocation,
      p_arguments := \<lparr>arg_argc = int (length as), arg_argv = argv\<rparr>\<rparr>) c dir"
    "mem_inv s'" "heap_step s s'" "length ps = length as" "0 \<notin> set (argv # ps)" "set (argv # ps) \<inter> dom (objs s) = {}"
    "objs s' argv = Some (OBytes b)" "length b = 4 * length as"
    "\<forall>k < length as. le32 b (4 * k) = ps ! k \<and> argument_at s' (ps ! k) (as ! k)"
    "\<forall>x y. objs s x = Some y \<longrightarrow> x \<noteq> q \<longrightarrow> x \<notin> tables_of (objs s) dir \<longrightarrow> objs s' x = Some y"
    "tables_of (objs s') dir = tables_of (objs s) dir" "free_blocks s = free_blocks s' + length as + 1"
    "\<forall>n < 2 ^ 20. page_entry (objs s') dir n =
       (if n \<in> page ` set (argv # ps) then of_nat (4096 * n) OR 7 else page_entry (objs s) dir n)"
proof -
  let ?sz = "4 * to_u32 (int (length as))" and ?n = "length as"
  have sz: "?sz = of_nat (4 * ?n)" by simp
  have u: "unat ?sz = 4 * ?n" unfolding sz by (rule unat_of_small_nat) (use assms(5) in simp)
  have usz: "0 < unat ?sz" "unat ?sz \<le> 4096" unfolding u using assms(4,5) by simp_all
  have fb: "0 < free_blocks s" using assms(6) by simp
  obtain argv s1 where m: "process_malloc q ?sz s = Some (argv, s1)" "argv \<noteq> 0" "objs s argv = None" "mem_inv s1" "heap_step s s1"
    "process_space s1 q (p\<lparr>p_allocations := (xs @ [\<lparr>pa_ptr = argv, pa_size = ?sz\<rparr>]) @ replicate (?n + m) no_allocation\<rparr>) c dir"
    "objs s1 argv = Some (OBytes (replicate (unat ?sz) 0))"
    "\<forall>x y. objs s x = Some y \<longrightarrow> x \<noteq> q \<longrightarrow> x \<notin> tables_of (objs s) dir \<longrightarrow> objs s1 x = Some y"
    "tables_of (objs s1) dir = tables_of (objs s) dir" "free_blocks s = free_blocks s1 + 1"
    "\<forall>n < 2 ^ 20. page_entry (objs s1) dir n = (if n = page argv then of_nat (4096 * n) OR 7 else page_entry (objs s) dir n)"
    by (rule process_malloc_block [OF assms(1-3) usz fb assms(7,8)])
  let ?xs = "xs @ [\<lparr>pa_ptr = argv, pa_size = ?sz\<rparr>]"
  have lh: "low_heap s1" using assms(2) low_heap_step [OF m(5)] by simp
  obtain ps s2 where s2: "inject_loop 0 argv (int 0) as q s1 = Some (True, 0, s2)"
    "arguments_copied s1 q dir argv (replicate (unat ?sz) 0) 0 as ps s2"
    "process_space s2 q (p\<lparr>p_allocations := (?xs @ map (\<lambda>a. \<lparr>pa_ptr = a, pa_size = 512\<rparr>) ps) @ replicate m no_allocation\<rparr>) c dir"
    using inject_loop_ok [OF m(4) lh m(6,7), of 0 as ?xs m 0] u assms(6,8,9) m(2,10) by auto
  let ?p2 = "p\<lparr>p_allocations := (?xs @ map (\<lambda>a. \<lparr>pa_ptr = a, pa_size = 512\<rparr>) ps) @ replicate m no_allocation\<rparr>"
  let ?p3 = "?p2\<lparr>p_arguments := \<lparr>arg_argc = int ?n, arg_argv = argv\<rparr>\<rparr>"
  note n = s2(2) [unfolded arguments_copied_def]
  have tk: "p_task ?p3 = p_task ?p2" by simp
  obtain s3 where s3: "put q (OProcess ?p3) s2 = Some s3" "objs s3 = (objs s2)(q \<mapsto> OProcess ?p3)"
    "mem_inv s3 = mem_inv s2" "free_blocks s3 = free_blocks s2" "heap_step s2 s3" "process_space s3 q ?p3 c dir"
    "\<forall>n < 2 ^ 20. page_entry (objs s3) dir n = page_entry (objs s2) dir n"
    by (rule process_space_put [OF s2(3) tk])
  have g2: "objs s2 q = Some (OProcess ?p2)" by (rule process_space_get(5) [OF s2(3)])
  have run: "process_inject_arguments q as s = Some (0, s3)"
    using m(1,2) s2(1) s3(1) assms(4) process_space_get(1) [OF s2(3)]
    by (simp add: process_inject_arguments_def count_arguments)
  have kb: "objs s3 x = Some (OBytes t)" if "objs s2 x = Some (OBytes t)" for x t using that s3(2) g2 by auto
  obtain b where b: "objs s2 argv = Some (OBytes b)" "length b = 4 * ?n" "\<forall>k < ?n. le32 b (4 * k) = ps ! k"
    using n u by auto
  have args: "\<forall>k < ?n. le32 b (4 * k) = ps ! k \<and> argument_at s3 (ps ! k) (as ! k)"
    using b(3) n kb by (simp add: argument_at_def) metis
  have d1: "dom (objs s) \<subseteq> dom (objs s1)"
  proof
    fix x assume "x \<in> dom (objs s)"
    then obtain y where y: "objs s x = Some y" by auto
    have "x \<in> dom (objs s1)" if "x \<in> tables_of (objs s) dir"
      using that pd_ok_tables [OF process_space_get(4) [OF m(6)]] m(9) by auto
    then show "x \<in> dom (objs s1)" using m(8) y process_space_get(5) [OF m(6)] by (cases "x = q") auto
  qed
  have fresh: "set (argv # ps) \<inter> dom (objs s) = {}" using n m(3) d1 by auto
  have nz: "0 \<notin> set (argv # ps)" "length ps = ?n" using n m(2) by auto
  have keep: "\<forall>x y. objs s x = Some y \<longrightarrow> x \<noteq> q \<longrightarrow> x \<notin> tables_of (objs s) dir \<longrightarrow> objs s3 x = Some y"
  proof (intro allI impI)
    fix x y assume x: "objs s x = Some y" "x \<noteq> q" "x \<notin> tables_of (objs s) dir"
    then have "objs s1 x = Some y" "x \<noteq> argv" using m(3,8) by auto
    then have "objs s2 x = Some y" using n x(2,3) m(9) by metis
    then show "objs s3 x = Some y" using s3(2) x(2) by simp
  qed
  have "dir \<noteq> q" using process_space_get(4,5) [OF s2(3)] by (auto simp: pd_ok_def)
  then have tb: "tables_of (objs s3) dir = tables_of (objs s) dir" using n m(9) by (simp add: tables_of_def s3(2))
  have fbs: "free_blocks s = free_blocks s3 + ?n + 1" using n m(10) s3(4) by simp
  have e: "\<forall>k < 2 ^ 20. page_entry (objs s3) dir k =
       (if k \<in> page ` set (argv # ps) then of_nat (4096 * k) OR 7 else page_entry (objs s) dir k)"
    using n m(11) s3(7) by simp
  have p3: "?p3 = p\<lparr>p_allocations := (xs @ \<lparr>pa_ptr = argv, pa_size = of_nat (4 * ?n)\<rparr> #
        map (\<lambda>a. \<lparr>pa_ptr = a, pa_size = 512\<rparr>) ps) @ replicate m no_allocation,
      p_arguments := \<lparr>arg_argc = int ?n, arg_argv = argv\<rparr>\<rparr>" by (simp add: sz)
  have hs: "heap_step s s3" using heap_step_trans [OF m(5) heap_step_trans [OF _ s3(5)]] n by blast
  have mi: "mem_inv s3" using n s3(3) by simp
  show thesis by (rule that [OF run s3(6) [unfolded p3] mi hs nz(2,1) fresh kb [OF b(1)] b(2) args keep tb fbs e])
qed

section \<open>Properties\<close>

text \<open>
  C7. The arguments of a process. For a list of at most 1024 arguments, a table of allocations with a free entry for
  each and one more behind those taken, and as many blocks of memory, \<open>process_inject_arguments\<close> returns 0 and
  leaves the process with the number of its arguments and a vector of that many pointers; pointer \<open>k\<close> leads to
  a copy of argument \<open>k\<close>, cut to 511 characters. Vector and copies are fresh memory of the process, entered in
  its table and mapped to themselves, writable for the user; every other page keeps its entry, and no object
  but the process and its page tables changes. Without arguments the result is \<open>-EIO\<close>.
\<close>
theorem process_inject_arguments_correct:
  assumes "mem_inv s" "low_heap s" "process_space s q p c dir" "length as \<le> 1024" "length as < free_blocks s"
    "p_allocations p = xs @ replicate (Suc (length as + m)) \<lparr>pa_ptr = 0, pa_size = 0\<rparr>" "\<forall>x \<in> set xs. pa_ptr x \<noteq> 0"
    "\<forall>a \<in> set as. 0 \<in> set a"
  shows "if as = [] then process_inject_arguments q as s = Some (- EIO, s)
    else \<exists>argv b ps s' p'. process_inject_arguments q as s = Some (0, s') \<and> mem_inv s' \<and> process_space s' q p' c dir \<and>
      p_arguments p' = \<lparr>arg_argc = int (length as), arg_argv = argv\<rparr> \<and>
      p_allocations p' = (xs @ \<lparr>pa_ptr = argv, pa_size = of_nat (4 * length as)\<rparr> #
        map (\<lambda>a. \<lparr>pa_ptr = a, pa_size = 512\<rparr>) ps) @ replicate m \<lparr>pa_ptr = 0, pa_size = 0\<rparr> \<and>
      set (argv # ps) \<inter> dom (objs s) = {} \<and> objs s' argv = Some (OBytes b) \<and> length ps = length as \<and>
      (\<forall>k < length as. le32 b (4 * k) = ps ! k \<and> argument_at s' (ps ! k) (as ! k)) \<and>
      (\<forall>x y. objs s x = Some y \<longrightarrow> x \<noteq> q \<longrightarrow> x \<notin> tables_of (objs s) dir \<longrightarrow> objs s' x = Some y) \<and>
      (\<forall>n < 2 ^ 20. page_entry (objs s') dir n =
         (if n \<in> page ` set (argv # ps) then of_nat (4096 * n) OR 7 else page_entry (objs s) dir n))"
proof (cases "as = []")
  case True
  then show ?thesis by (simp add: process_inject_arguments_def)
next
  case False
  obtain argv b ps s' where i: "process_inject_arguments q as s = Some (0, s')"
    "process_space s' q (p\<lparr>p_allocations := (xs @ \<lparr>pa_ptr = argv, pa_size = of_nat (4 * length as)\<rparr> #
        map (\<lambda>a. \<lparr>pa_ptr = a, pa_size = 512\<rparr>) ps) @ replicate m no_allocation,
      p_arguments := \<lparr>arg_argc = int (length as), arg_argv = argv\<rparr>\<rparr>) c dir"
    "mem_inv s'" "heap_step s s'" "length ps = length as" "0 \<notin> set (argv # ps)" "set (argv # ps) \<inter> dom (objs s) = {}"
    "objs s' argv = Some (OBytes b)" "length b = 4 * length as"
    "\<forall>k < length as. le32 b (4 * k) = ps ! k \<and> argument_at s' (ps ! k) (as ! k)"
    "\<forall>x y. objs s x = Some y \<longrightarrow> x \<noteq> q \<longrightarrow> x \<notin> tables_of (objs s) dir \<longrightarrow> objs s' x = Some y"
    "tables_of (objs s') dir = tables_of (objs s) dir" "free_blocks s = free_blocks s' + length as + 1"
    "\<forall>n < 2 ^ 20. page_entry (objs s') dir n =
       (if n \<in> page ` set (argv # ps) then of_nat (4096 * n) OR 7 else page_entry (objs s) dir n)"
    by (rule process_inject_ok [OF assms(1-3) False assms(4-8)])
  show ?thesis unfolding if_not_P [OF False]
    by (intro exI conjI, rule i(1), rule i(3), rule i(2), simp, simp, rule i(7), rule i(8), rule i(5), rule i(10), rule i(11), rule i(14))
qed

theorem process_inject_arguments_correct_witness:
  "\<exists>s q p b s'. process_inject_arguments q [lit ''ls'', lit ''-l''] s = Some (0, s') \<and> objs s' q = Some (OProcess p) \<and>
     arg_argc (p_arguments p) = 2 \<and> objs s' (arg_argv (p_arguments p)) = Some (OBytes b) \<and> argument_at s' (le32 b 4) (lit ''-l'')"
proof -
  obtain s p c dir where s: "mem_inv s" "low_heap s" "900 \<le> free_blocks s" "process_space s (slot 0) p c dir"
    "p_allocations p = replicate 1024 no_allocation" using sample_space_process by blast
  have al: "p_allocations p = [] @ replicate (Suc (length [lit ''ls'', lit ''-l''] + 1021)) no_allocation"
    using s(5) by (simp del: replicate_Suc)
  have l: "length [lit ''ls'', lit ''-l''] \<le> 1024" "length [lit ''ls'', lit ''-l''] < free_blocks s"
    "\<forall>a \<in> set [lit ''ls'', lit ''-l'']. 0 \<in> set a" using s(3) by (simp_all add: lit_def)
  from process_inject_arguments_correct [OF s(1,2,4) l(1,2) al _ l(3)]
  obtain argv b ps s' p' where i: "process_inject_arguments (slot 0) [lit ''ls'', lit ''-l''] s = Some (0, s')"
    "process_space s' (slot 0) p' c dir" "p_arguments p' = \<lparr>arg_argc = int (length [lit ''ls'', lit ''-l'']), arg_argv = argv\<rparr>"
    "objs s' argv = Some (OBytes b)" "\<forall>k < length [lit ''ls'', lit ''-l'']. le32 b (4 * k) = ps ! k \<and>
       argument_at s' (ps ! k) ([lit ''ls'', lit ''-l''] ! k)"
    unfolding if_not_P [OF list.distinct(2)] by force
  from i(5) [rule_format, of 1] show ?thesis
    using i(1,3,4) process_space_get(5) [OF i(2)]
    by (intro exI [of _ s] exI [of _ "slot 0"] exI [of _ p'] exI [of _ b] exI [of _ s']) simp
qed

end
