(* ===== verification/ProcessLoad.thy ===== *)
theory ProcessLoad
  imports AddressSpace ElfLoad
begin

unbundle bit_operations_syntax

text \<open>
  Loading a program from the path to the mapped process: \<open>process_load\<close> through the file system, the ELF
  loader, the heap, the list of tasks and the page tables.
\<close>

section \<open>Translation through mapped pages\<close>

lemma page_mask: "(0xfffff000 :: u32) = NOT (mask 12)"
  by (simp add: mask_eq_exp_minus_1)

lemma low_bits: "(v :: u32) AND mask 12 = v mod 4096" "(v :: u32) AND 0xfff = v mod 4096"
proof -
  have m: "(mask 12 :: u32) = 0xfff" by (simp add: mask_eq_exp_minus_1)
  have "v AND mask 12 = take_bit 12 v" by (simp only: take_bit_eq_mask)
  also have "\<dots> = v mod 4096" by (simp add: take_bit_eq_mod)
  finally show "v AND mask 12 = v mod 4096" .
  then show "v AND 0xfff = v mod 4096" by (simp only: m)
qed

lemma page_bits: "(v :: u32) AND 0xfffff000 = v - v mod 4096"
proof -
  have "v AND NOT (v AND mask 12) = v - (v AND mask 12)"
    by (rule disjunctive_diff_eq_and_not [symmetric]) (simp add: bit_eq_iff bit_simps)
  moreover have "v AND NOT (v AND mask 12) = v AND NOT (mask 12)" by (auto simp: bit_eq_iff bit_simps)
  ultimately show ?thesis by (simp add: page_mask low_bits)
qed

lemma frame_mask:
  fixes x f :: u32
  assumes "x mod 4096 = 0" "f AND 0xfffff000 = 0"
  shows "(x OR f) AND 0xfffff000 = x"
proof -
  have "(x OR f) AND 0xfffff000 = (x AND 0xfffff000) OR (f AND 0xfffff000)" by (rule bit.conj_disj_distrib2)
  then show ?thesis using assms page_bits [of x] by simp
qed

lemma mmu_entry:
  assumes "pd_ok (objs s) dir" "page_entry (objs s) dir (page v) = x OR f" "x mod 4096 = 0"
    "f AND 0xfffff000 = 0" "f AND PAGING_IS_PRESENT \<noteq> 0"
  shows "mmu dir v s = Some (x + v mod 4096)"
proof -
  have "paging_get dir (paging_align_to_lower_page v) s = Some (x OR f)"
    using paging_get_ok [OF assms(1) align_down(2)] assms(2) align_down(3) by simp
  moreover have "(x OR f) AND PAGING_IS_PRESENT \<noteq> 0"
    using assms(5) by (simp add: bit.conj_disj_distrib2 or_eq_0_iff)
  ultimately show ?thesis
    using frame_mask [OF assms(3,4)] by (simp add: mmu_def page_bits low_bits paging_align_to_lower_page_def paging_consts)
qed
section \<open>Regions\<close>

text \<open>A region: virtual address, physical address, number of pages and flags of its entries.\<close>

type_synonym region = "u32 \<times> u32 \<times> nat \<times> u32"

definition in_region :: "nat \<Rightarrow> region \<Rightarrow> bool" where
  "in_region n = (\<lambda>(v, a, k, fl). page v \<le> n \<and> n < page v + k)"

definition map_region :: "(nat \<Rightarrow> u32) \<Rightarrow> region \<Rightarrow> nat \<Rightarrow> u32" where
  "map_region e = (\<lambda>(v, a, k, fl). map_pages e v a k fl)"

lemma map_region_out: "\<not> in_region n r \<Longrightarrow> map_region e r n = e n"
  by (auto simp: in_region_def map_region_def map_pages_def split: prod.splits)

lemma map_region_in: "in_region n r \<Longrightarrow> map_region e r n = map_region e' r n"
  by (auto simp: in_region_def map_region_def map_pages_def split: prod.splits)

lemma map_region_cong: "e n = e' n \<Longrightarrow> map_region e r n = map_region e' r n"
  by (auto simp: map_region_def map_pages_def split: prod.splits)

lemma map_regions_cong: "e n = e' n \<Longrightarrow> foldl map_region e rs n = foldl map_region e' rs n"
proof (induction rs arbitrary: e e')
  case (Cons r rs)
  have "map_region e r n = map_region e' r n" by (rule map_region_cong) (fact Cons.prems)
  then have "foldl map_region (map_region e r) rs n = foldl map_region (map_region e' r) rs n" by (rule Cons.IH)
  then show ?case by simp
qed simp

lemma map_regions_out: "\<forall>r \<in> set rs. \<not> in_region n r \<Longrightarrow> foldl map_region e rs n = e n"
  by (induction rs arbitrary: e) (simp_all add: map_region_out)

lemma map_regions_in:
  assumes "r \<in> set rs" "in_region n r" "\<forall>r' \<in> set rs. in_region n r' \<longrightarrow> r' = r"
  shows "foldl map_region e rs n = map_region e r n"
  using assms
proof (induction rs rule: rev_induct)
  case (snoc x rs)
  show ?case
  proof (cases "in_region n x")
    case True
    then have "x = r" using snoc.prems(3) by simp
    then have "foldl map_region e (rs @ [x]) n = map_region (foldl map_region e rs) r n" by simp
    also have "\<dots> = map_region e r n" by (rule map_region_in) (fact snoc.prems(2))
    finally show ?thesis .
  next
    case False
    then have "r \<in> set rs" using snoc.prems(1,2) by auto
    have "foldl map_region e (rs @ [x]) n = foldl map_region e rs n" using map_region_out [OF False] by simp
    also have "\<dots> = map_region e r n" by (rule snoc.IH [OF \<open>r \<in> set rs\<close> snoc.prems(2)]) (use snoc.prems(3) in simp)
    finally show ?thesis .
  qed
qed simp

lemma div_mod_add:
  fixes a j :: nat
  shows "a + j = 4096 * (a div 4096 + (a mod 4096 + j) div 4096) + (a mod 4096 + j) mod 4096"
proof -
  have "a + j = 4096 * (a div 4096) + (a mod 4096 + j)" using mult_div_mod_eq [of 4096 a] by (simp only: add.assoc [symmetric])
  also have "a mod 4096 + j = 4096 * ((a mod 4096 + j) div 4096) + (a mod 4096 + j) mod 4096"
    by (simp only: mult_div_mod_eq)
  finally show ?thesis by (simp only: distrib_left add.assoc)
qed

lemma div_mod_add_eq:
  fixes a j :: nat
  shows "(a + j) div 4096 = a div 4096 + (a mod 4096 + j) div 4096" "(a + j) mod 4096 = (a mod 4096 + j) mod 4096"
proof -
  have a: "a = 4096 * (a div 4096) + a mod 4096" by simp
  have "(a + j) div 4096 = (4096 * (a div 4096) + (a mod 4096 + j)) div 4096" by (subst a) (simp only: add.assoc)
  also have "\<dots> = a div 4096 + (a mod 4096 + j) div 4096" by (rule div_mult_self4) simp
  finally show "(a + j) div 4096 = a div 4096 + (a mod 4096 + j) div 4096" .
  show "(a + j) mod 4096 = (a mod 4096 + j) mod 4096" by (simp only: mod_add_left_eq)
qed

text \<open>Addresses \<open>v + j\<close> of a region whose virtual address is \<open>v\<close>, rounded down, go to \<open>x + j\<close>.\<close>

lemma region_translate:
  assumes "pd_ok (objs s) dir" "v mod 4096 = x mod 4096"
    "r = (paging_align_to_lower_page v, paging_align_to_lower_page x, blocks_for (unat v mod 4096 + m), fl)"
    "fl AND 0xfffff000 = 0" "fl AND PAGING_IS_PRESENT \<noteq> 0"
    "unat v + m \<le> 2 ^ 32" "unat x + m \<le> 2 ^ 32" "j < m"
    "\<And>n. n < 2 ^ 20 \<Longrightarrow> in_region n r \<Longrightarrow> page_entry (objs s) dir n = map_region e r n"
  shows "mmu dir (v + of_nat j) s = Some (x + of_nat j)"
proof -
  let ?q = "(unat v mod 4096 + j) div 4096" and ?d = "(unat v mod 4096 + j) mod 4096"
  have jw: "unat (of_nat j :: u32) = j" using assms(6,8) by (simp add: unat_of_small_nat)
  have uv: "unat (v + of_nat j) = unat v + j" using assms(6,8) jw by (simp add: unat_word_ariths)
  have pv: "page (v + of_nat j) = unat v div 4096 + ?q" "unat (v + of_nat j) mod 4096 = ?d"
    unfolding page_def uv by (rule div_mod_add_eq)+
  have pl: "page (paging_align_to_lower_page v) = unat v div 4096" by (simp add: align_down(3)) (simp add: page_def)
  have "unat v mod 4096 + j < 4096 * blocks_for (unat v mod 4096 + m)"
    using blocks_bounds(1) [of "unat v mod 4096 + m"] assms(8) by linarith
  then have "?q < blocks_for (unat v mod 4096 + m)" by (simp add: less_mult_imp_div_less mult.commute)
  then have inr: "in_region (page (v + of_nat j)) r" by (simp add: assms(3) in_region_def pl pv(1))
  let ?f = "paging_align_to_lower_page x + of_nat (4096 * ?q)"
  have e: "page_entry (objs s) dir (page (v + of_nat j)) = ?f OR fl"
    using assms(9) [OF page_less inr] inr by (simp add: assms(3) in_region_def map_region_def map_pages_def pl pv(1) del: of_nat_mult)
  have xm: "unat x mod 4096 = unat v mod 4096" using arg_cong [OF assms(2), of unat] by (simp add: unat_mod_distrib)
  have ux: "unat x + j = 4096 * (unat x div 4096 + ?q) + ?d"
    using div_mod_add [of "unat x" j] unfolding xm .
  have lt: "unat x + j < 2 ^ 32" using assms(7,8) by simp
  have uq: "unat (of_nat (4096 * ?q) :: u32) = 4096 * ?q" using ux lt by (simp add: unat_of_small_nat del: of_nat_mult)
  have uf: "unat ?f = 4096 * (unat x div 4096 + ?q)"
  proof -
    have "unat (paging_align_to_lower_page x) + 4096 * ?q < 2 ^ 32" using ux lt by (simp add: align_down(1))
    then show ?thesis using uq by (simp add: unat_word_ariths align_down(1) del: of_nat_mult)
  qed
  then have f0: "?f mod 4096 = 0" by (simp add: aligned_unat del: of_nat_mult)
  have "?f + (v + of_nat j) mod 4096 = x + of_nat j"
  proof -
    have m: "unat ((v + of_nat j) mod 4096) = ?d" using pv(2) by (simp add: unat_mod_distrib)
    have "unat (?f + (v + of_nat j) mod 4096) = unat x + j"
      using uf m ux lt by (simp add: unat_word_ariths del: of_nat_mult)
    moreover have "unat (x + of_nat j) = unat x + j" using lt jw by (simp add: unat_word_ariths)
    ultimately show ?thesis by (simp add: word_unat_eq_iff del: of_nat_mult)
  qed
  then show ?thesis using mmu_entry [OF assms(1) e f0 assms(4,5)] by simp
qed

lemma segment_range:
  assumes "unat x + unat m + 4095 < 2 ^ 32"
  shows "paging_align_to_lower_page x \<le> paging_align_address (x + m)"
    "unat (paging_align_address (x + m) - paging_align_to_lower_page x) = 4096 * blocks_for (unat x mod 4096 + unat m)"
    "paging_align_address (x + m) mod 4096 = 0"
proof -
  have u: "unat (x + m) = unat x + unat m" using assms by (simp add: unat_word_ariths)
  have b: "unat (x + m) + 4095 < 2 ^ 32" using u assms by simp
  have e: "unat (paging_align_address (x + m)) = 4096 * (unat x div 4096 + blocks_for (unat x mod 4096 + unat m))"
  proof -
    have "unat x + unat m = 4096 * (unat x div 4096) + (unat x mod 4096 + unat m)"
      using mult_div_mod_eq [of 4096 "unat x"] by (simp only: add.assoc [symmetric])
    then show ?thesis using align_up(1) [OF b] u blocks_mult [of "unat x div 4096" "unat x mod 4096 + unat m"] by simp
  qed
  show le: "paging_align_to_lower_page x \<le> paging_align_address (x + m)"
    unfolding word_le_nat_alt e align_down(1) by simp
  show "unat (paging_align_address (x + m) - paging_align_to_lower_page x) = 4096 * blocks_for (unat x mod 4096 + unat m)"
    unfolding unat_sub [OF le] e align_down(1) by simp
  show "paging_align_address (x + m) mod 4096 = 0" by (rule align_up(2) [OF b])
qed
section \<open>The segments of a program\<close>

text \<open>The pages of the program header at position \<open>p\<close> of a file loaded at \<open>memory\<close>.\<close>

definition segment_region :: "u32 \<Rightarrow> u8 list \<Rightarrow> nat \<Rightarrow> region" where
  "segment_region memory b p = (paging_align_to_lower_page (le32 b (p + 8)),
     paging_align_to_lower_page (memory + le32 b (p + 4)),
     blocks_for (unat (le32 b (p + 8)) mod 4096 + unat (le32 b (p + 20))),
     if le32 b (p + 24) AND PF_W \<noteq> 0 then 7 else 5)"

text \<open>
  What the format asks of a segment, address and offset being equal within a page, and sizes that do not
  wrap around.
\<close>

definition segment_ok :: "u8 list \<Rightarrow> nat \<Rightarrow> bool" where
  "segment_ok b p \<longleftrightarrow> le32 b (p + 8) mod 4096 = le32 b (p + 4) mod 4096 \<and>
     unat (le32 b (p + 4)) + unat (le32 b (p + 20)) + 4096 \<le> 2 ^ 31 \<and>
     unat (le32 b (p + 8)) + unat (le32 b (p + 20)) + 4096 \<le> 2 ^ 32"

lemma segment_facts:
  assumes "segment_ok b p" "memory mod 4096 = 0" "unat memory \<le> 2 ^ 31"
  shows "unat (memory + le32 b (p + 4)) + unat (le32 b (p + 20)) + 4095 < 2 ^ 32"
    "le32 b (p + 8) mod 4096 = (memory + le32 b (p + 4)) mod 4096"
    "unat (memory + le32 b (p + 4)) mod 4096 = unat (le32 b (p + 8)) mod 4096"
    "unat (paging_align_to_lower_page (le32 b (p + 8))) +
       4096 * blocks_for (unat (le32 b (p + 8)) mod 4096 + unat (le32 b (p + 20))) \<le> 2 ^ 32"
proof -
  let ?v = "le32 b (p + 8)" and ?x = "le32 b (p + 4)" and ?m = "le32 b (p + 20)"
  have a: "?v mod 4096 = ?x mod 4096" "unat ?x + unat ?m + 4096 \<le> 2 ^ 31" "unat ?v + unat ?m + 4096 \<le> 2 ^ 32"
    using assms(1) by (simp_all add: segment_ok_def)
  have u: "unat (memory + ?x) = unat memory + unat ?x" using a(2) assms(3) by (simp add: unat_word_ariths)
  show "unat (memory + ?x) + unat ?m + 4095 < 2 ^ 32" using u a(2) assms(3) by simp
  have "4096 dvd unat memory" using assms(2) by (simp add: aligned_unat)
  then have um: "unat (memory + ?x) mod 4096 = unat ?x mod 4096" unfolding u by auto
  then show m: "?v mod 4096 = (memory + ?x) mod 4096"
    using a(1) by (simp add: word_unat_eq_iff unat_mod_distrib)
  show "unat (memory + ?x) mod 4096 = unat ?v mod 4096" using um arg_cong [OF a(1), of unat] by (simp add: unat_mod_distrib)
  have "4096 * blocks_for (unat ?v mod 4096 + unat ?m) \<le> unat ?v mod 4096 + unat ?m + 4095" by (rule blocks_bounds(2))
  moreover have "unat (paging_align_to_lower_page ?v) + unat ?v mod 4096 = unat ?v" by (simp add: align_down(1))
  ultimately show "unat (paging_align_to_lower_page ?v) + 4096 * blocks_for (unat ?v mod 4096 + unat ?m) \<le> 2 ^ 32"
    using a(3) by linarith
qed

lemma map_elf_loop_ok:
  assumes "table_in_file b" "le32 b 28 \<noteq> 0" "\<forall>j < phdr_count b. segment_ok b (phdr_pos b j)"
    "ef_elf_memory f = memory" "memory mod 4096 = 0" "unat memory \<le> 2 ^ 31"
    "i + n \<le> phdr_count b" "process_space s q p c dir"
  shows "\<exists>s'. map_elf_loop n (int i) f b q s = Some (0, s') \<and> tables_step dir s s' \<and> process_space s' q p c dir \<and>
    (\<forall>k < 2 ^ 20. page_entry (objs s') dir k = foldl map_region (page_entry (objs s) dir)
      (map (\<lambda>j. segment_region memory b (phdr_pos b j)) [i..<i + n]) k)"
  using assms(7,8)
proof (induction n arbitrary: i s)
  case 0
  then show ?case by simp
next
  case (Suc n)
  have i: "i < phdr_count b" using Suc.prems(1) by simp
  note h = program_header_ok [OF assms(1,2) i]
  let ?p = "phdr_pos b i"
  let ?v = "le32 b (?p + 8)" and ?x = "memory + le32 b (?p + 4)" and ?m = "le32 b (?p + 20)"
  note g = segment_facts [OF assms(3) [rule_format, OF i] assms(5,6)]
  note r = segment_range [OF g(1)]
  let ?fl = "uint (if le32 b (?p + 24) AND PF_W \<noteq> 0 then (PAGING_IS_PRESENT OR PAGING_ACCESS_FROM_ALL) OR PAGING_IS_WRITEABLE
       else PAGING_IS_PRESENT OR PAGING_ACCESS_FROM_ALL)"
  have e: "paging_align_to_lower_page ?x mod 4096 = 0" "paging_align_to_lower_page ?v mod 4096 = 0" by (rule align_down(2))+
  have le: "unat (paging_align_to_lower_page ?v) + unat (paging_align_address (?x + ?m) - paging_align_to_lower_page ?x) \<le> 2 ^ 32"
    unfolding r(2) g(3) by (rule g(4))
  obtain s1 where s1: "paging_map_to c (paging_align_to_lower_page ?v) (paging_align_to_lower_page ?x)
      (paging_align_address (?x + ?m)) ?fl s = Some (0, s1)" "tables_step dir s s1" "process_space s1 q p c dir"
    "\<forall>k < 2 ^ 20. page_entry (objs s1) dir k = map_pages (page_entry (objs s) dir) (paging_align_to_lower_page ?v)
       (paging_align_to_lower_page ?x) (unat (paging_align_address (?x + ?m) - paging_align_to_lower_page ?x) div 4096) (to_u32 ?fl) k"
    by (rule process_space_map [OF Suc.prems(2) e(2,1) r(3,1) le])
  have m1: "page_entry (objs s1) dir k = map_region (page_entry (objs s) dir) (segment_region memory b ?p) k" if "k < 2 ^ 20" for k
    using s1(4) [rule_format, OF that] unfolding r(2) g(3)
    by (simp add: map_region_def segment_region_def paging_consts)
  have f: "elf_phdr_phys_address f b (int ?p) = Some ?x" "p_flags b (int ?p) = Some (le32 b (?p + 24))"
    "p_vaddr b (int ?p) = Some ?v" "p_memsz b (int ?p) = Some ?m"
    using field32_add [of ?p 4 b] field32_add [of ?p 8 b] field32_add [of ?p 20 b] field32_add [of ?p 24 b] h(2) assms(4)
    by (simp_all add: elf_phdr_phys_address_def p_offset_def p_flags_def p_vaddr_def p_memsz_def elf_memory_def)
  have l: "map_elf_loop (Suc n) (int i) f b q s = map_elf_loop n (int (Suc i)) f b q s1"
    using h(1) f process_space_get(2) [OF Suc.prems(2)] s1(1) by (simp add: Let_def add.commute)
  obtain s2 where s2: "map_elf_loop n (int (Suc i)) f b q s1 = Some (0, s2)" "tables_step dir s1 s2" "process_space s2 q p c dir"
    "\<forall>k < 2 ^ 20. page_entry (objs s2) dir k = foldl map_region (page_entry (objs s1) dir)
      (map (\<lambda>j. segment_region memory b (phdr_pos b j)) [Suc i..<Suc i + n]) k"
    using Suc.IH [OF _ s1(3), of "Suc i"] Suc.prems(1) by auto
  have "page_entry (objs s2) dir k = foldl map_region (page_entry (objs s) dir)
      (map (\<lambda>j. segment_region memory b (phdr_pos b j)) [i..<i + Suc n]) k" if k: "k < 2 ^ 20" for k
  proof -
    have "page_entry (objs s2) dir k = foldl map_region (map_region (page_entry (objs s) dir) (segment_region memory b ?p))
      (map (\<lambda>j. segment_region memory b (phdr_pos b j)) [Suc i..<Suc i + n]) k"
      unfolding s2(4) [rule_format, OF k] by (rule map_regions_cong) (rule m1 [OF k])
    then show ?thesis by (simp add: upt_conv_Cons del: upt_Suc)
  qed
  then show ?case unfolding l using s2(1-3) tables_step_trans [OF s1(2) s2(2)] by blast
qed
definition stack_region :: "u32 \<Rightarrow> region" where
  "stack_region stack = (PLUMOS_PROGRAM_VIRTUAL_STACK_ADDRESS_END, stack, 4, 7)"

text \<open>The regions of a loaded program in the order in which they are mapped.\<close>

definition program_regions :: "u32 \<Rightarrow> u8 list \<Rightarrow> u32 \<Rightarrow> region list" where
  "program_regions memory b stack =
     map (\<lambda>j. segment_region memory b (phdr_pos b j)) [0..<phdr_count b] @ [stack_region stack]"

lemma include_segment_memory: "ef_elf_memory (foldl include_segment f xs) = ef_elf_memory f"
  by (induction xs arbitrary: f) (auto simp: include_segment_def Let_def split: prod.splits)

lemma process_map_memory_ok:
  assumes "process_space s q p c dir" "p_filetype p = PROCESS_FILETYPE_ELF" "elf_loaded s (p_ptr p) memory b"
    "memory mod 4096 = 0" "unat memory \<le> 2 ^ 31" "table_in_file b" "le32 b 28 \<noteq> 0"
    "\<forall>j < phdr_count b. segment_ok b (phdr_pos b j)" "p_stack p mod 4096 = 0" "unat (p_stack p) + 16384 \<le> 2 ^ 31"
  obtains s' where "process_map_memory q s = Some (0, s')" "tables_step dir s s'" "process_space s' q p c dir"
    "\<forall>k < 2 ^ 20. page_entry (objs s') dir k =
       foldl map_region (page_entry (objs s) dir) (program_regions memory b (p_stack p)) k"
proof -
  let ?f = "foldl include_segment (zero_elf_file\<lparr>ef_elf_memory := memory\<rparr>) (load_segments b 0 (phdr_count b))"
  have f: "objs s (p_ptr p) = Some (OElfFile ?f)" "objs s memory = Some (OBytes b)" "ef_elf_memory ?f = memory"
    using assms(3) by (simp_all add: elf_loaded_def include_segment_memory)
  have ph: "e_phnum b = Some (int (phdr_count b))"
    using assms(6) by (simp add: e_phnum_def field16_def phdr_count_def table_in_file_def)
  note g = process_space_get [OF assms(1)]
  obtain s1 where s1: "map_elf_loop (phdr_count b) (int 0) ?f b q s = Some (0, s1)" "tables_step dir s s1" "process_space s1 q p c dir"
    "\<forall>k < 2 ^ 20. page_entry (objs s1) dir k = foldl map_region (page_entry (objs s) dir)
      (map (\<lambda>j. segment_region memory b (phdr_pos b j)) [0..<0 + phdr_count b]) k"
    using map_elf_loop_ok [OF assms(6-8) f(3) assms(4,5) _ assms(1), of 0 "phdr_count b"] by auto
  have e: "process_map_elf q s = Some (0, s1)"
    using g(1) f ph s1(1) by (simp add: process_map_elf_def get_defs elf_header_def)
  let ?E = "PLUMOS_PROGRAM_VIRTUAL_STACK_ADDRESS_END" and ?S = "PLUMOS_USER_PROGRAM_STACK_SIZE"
  have E: "?E mod 4096 = 0" "unat ?E = 0x3FB000"
    by (simp_all add: PLUMOS_PROGRAM_VIRTUAL_STACK_ADDRESS_END_def PLUMOS_PROGRAM_VIRTUAL_STACK_ADDRESS_START_def
        PLUMOS_USER_PROGRAM_STACK_SIZE_def)
  have S: "unat ?S = 16384" "blocks_for (unat ?S) = 4" by (simp_all add: PLUMOS_USER_PROGRAM_STACK_SIZE_def blocks_for_def)
  have b: "unat (p_stack p) + 4096 * blocks_for (unat ?S) < 2 ^ 32" unfolding S(2) using assms(10) by simp
  note a = align_end [OF assms(9) b]
  have le: "unat ?E + unat (paging_align_address (p_stack p + ?S) - p_stack p) \<le> 2 ^ 32" unfolding a(3) S(2) E by simp
  obtain s2 where s2: "paging_map_to c ?E (p_stack p) (paging_align_address (p_stack p + ?S)) user_flags s1 = Some (0, s2)"
    "tables_step dir s1 s2" "process_space s2 q p c dir" "\<forall>k < 2 ^ 20. page_entry (objs s2) dir k = map_pages (page_entry (objs s1) dir) ?E (p_stack p)
       (unat (paging_align_address (p_stack p + ?S) - p_stack p) div 4096) (to_u32 user_flags) k"
    by (rule process_space_map [OF s1(3) E(1) assms(9) a(1,2) le])
  have "process_map_memory q s = Some (0, s2)"
    using g(1) assms(2) e process_space_get(2) [OF s1(3)] s2(1) by (simp add: process_map_memory_def)
  moreover have "page_entry (objs s2) dir k =
      foldl map_region (page_entry (objs s) dir) (program_regions memory b (p_stack p)) k" if k: "k < 2 ^ 20" for k
  proof -
    have "page_entry (objs s2) dir k = map_region (page_entry (objs s1) dir) (stack_region (p_stack p)) k"
      using s2(4) [rule_format, OF k] unfolding a(3) S(2) by (simp add: map_region_def stack_region_def user_flags_word)
    also have "\<dots> = map_region (foldl map_region (page_entry (objs s) dir)
        (map (\<lambda>j. segment_region memory b (phdr_pos b j)) [0..<phdr_count b])) (stack_region (p_stack p)) k"
      by (rule map_region_cong) (use s1(4) k in simp)
    finally show ?thesis by (simp add: program_regions_def)
  qed
  ultimately show thesis using that s2(3) tables_step_trans [OF s1(2) s2(2)] by blast
qed

section \<open>Loading the program\<close>

text \<open>What the file system changes keeps the objects of tasks and processes and the table of processes.\<close>

lemma fs_stepD:
  assumes "fs_step s s'"
  shows "task_head s' = task_head s" "task_tail s' = task_tail s" "current_task s' = current_task s"
    "processes s' = processes s" "gdisk s' = gdisk s" "device s' = device s" "current_process s' = current_process s"
  using assms unfolding fs_step_def by (cases s; cases s'; simp)+

text \<open>What loading a program may change besides the table of processes.\<close>

definition load_step :: "kernel \<Rightarrow> kernel \<Rightarrow> bool" where
  "load_step s s' \<longleftrightarrow> s' = s\<lparr>kernel_heap := kernel_heap s', objs := objs s', io_log := io_log s',
       file_descriptors := file_descriptors s', task_head := task_head s', task_tail := task_tail s',
       current_task := current_task s'\<rparr> \<and>
     heap_shape (kernel_heap s') = heap_shape (kernel_heap s)"

lemma load_step_trans [trans]: "load_step s s' \<Longrightarrow> load_step s' s'' \<Longrightarrow> load_step s s''"
  unfolding load_step_def by (cases s; cases s'; cases s'') simp

lemma fs_load_step: "fs_step s s' \<Longrightarrow> load_step s s'"
  unfolding load_step_def fs_step_def by (cases s; cases s') simp

lemma words_fs_step: "words_step s s' \<Longrightarrow> fs_step s s'"
  unfolding fs_step_def words_step_def by (cases s; cases s') auto

lemma task_list_keep:
  assumes "task_list s ts" "task_head s' = task_head s" "task_tail s' = task_tail s"
    "\<And>a t. objs s a = Some (OTask t) \<Longrightarrow> objs s' a = Some (OTask t)"
    "\<And>a d. objs s a = Some (OChunk d) \<Longrightarrow> objs s' a = Some (OChunk d)"
  shows "task_list s' ts" "a \<in> set ts \<Longrightarrow> task_at s' a = task_at s a"
proof -
  have t: "task_at s' (ts ! i) = task_at s (ts ! i)" if "i < length ts" for i
    using task_list_nth(1) [OF assms(1) that] assms(4) [OF task_list_nth(1) [OF assms(1) that]] by (simp add: task_at_def)
  then show "a \<in> set ts \<Longrightarrow> task_at s' a = task_at s a" by (metis in_set_conv_nth)
  show "task_list s' ts"
    unfolding task_list_def
  proof (intro conjI allI impI)
    fix i assume i: "i < length ts"
    note n = task_list_nth [OF assms(1) i]
    show "objs s' (ts ! i) = Some (OTask (task_at s' (ts ! i)))" unfolding t [OF i] by (rule assms(4) [OF n(1)])
    show "t_next (task_at s' (ts ! i)) = (if Suc i < length ts then ts ! Suc i else 0)" unfolding t [OF i] by (rule n(3))
    show "t_prev (task_at s' (ts ! i)) = (if i = 0 then 0 else ts ! (i - 1))"
      using assms(1) i unfolding t [OF i] task_list_def by blast
    show "\<exists>d. objs s' (t_page_directory (task_at s' (ts ! i))) = Some (OChunk d)"
      unfolding t [OF i] using n(5) assms(5) by blast
  qed (use assms(1-3) in \<open>auto simp: task_list_def\<close>)
qed
text \<open>
  A program on the mounted volume: the table of descriptors has a free entry, and \<open>data\<close> are the bytes of
  the cluster chain of the file with the name in the root directory.
\<close>

definition program_on_disk :: "(nat \<Rightarrow> u8 list) \<Rightarrow> fat_private \<Rightarrow> kernel \<Rightarrow> u8 list \<Rightarrow> u8 list \<Rightarrow> bool" where
  "program_on_disk img fp s filename data \<longleftrightarrow> dk_filesystem (gdisk s) = Fat16Fs \<and> fat_mounted img fp s \<and> fat_layout fp \<and>
     (\<exists>i < 511. first_slot 0 (file_descriptors s) = Some i) \<and>
     (\<exists>b c. file_at s fp filename b \<and> unat (fat16_get_first_cluster b) = c \<and> c < 65536 \<and>
        length data = unat (item_filesize b) \<and> 0 < length data \<and> length data \<le> 2 ^ 31 - 4096 \<and>
        chain_ok img fp c 0 (length data) \<and> data = file_bytes img fp c 0 (length data))"

text \<open>The file is an ELF file whose header table lies in it and whose segments are well-formed.\<close>

definition loadable :: "u8 list \<Rightarrow> bool" where
  "loadable data \<longleftrightarrow> table_in_file data \<and> accepted data \<and> (\<forall>j < phdr_count data. segment_ok data (phdr_pos data j))"

lemma program_on_disk_step:
  assumes "program_on_disk img fp s filename data" "objs s \<subseteq>\<^sub>m objs s'" "heap_step s s'"
  shows "program_on_disk img fp s' filename data"
  using assms(1) fat_mounted_mono [OF _ assms(2)] file_at_mono [OF _ assms(2)] heap_stepD [OF assms(3)]
  unfolding program_on_disk_def by metis

lemma process_load_data_ok:
  assumes "mem_inv s" "low_heap s" "room s 8 (blocks_for (length data))" "program_on_disk img fp s filename data"
    "loadable data" "objs s q = Some (OProcess p)"
  obtains ef memory s' where "process_load_data filename q s = Some (0, s')" "mem_inv s'" "fs_step s s'"
    "free_blocks s \<le> free_blocks s' + 8 + blocks_for (length data)"
    "objs s' q = Some (OProcess (p\<lparr>p_filetype := PROCESS_FILETYPE_ELF, p_ptr := ef\<rparr>))" "elf_loaded s' ef memory data"
    "\<And>a y. objs s a = Some y \<Longrightarrow> a \<noteq> q \<Longrightarrow> \<forall>d. y \<noteq> OStream d \<Longrightarrow> objs s' a = Some y"
    "kept {q} s s'" "file_descriptors s' = file_descriptors s"
proof -
  let ?n = "length data"
  obtain i b c where a: "dk_filesystem (gdisk s) = Fat16Fs" "fat_mounted img fp s" "fat_layout fp" "i < 511"
    "first_slot 0 (file_descriptors s) = Some i" "file_at s fp filename b" "unat (fat16_get_first_cluster b) = c" "c < 65536"
    "?n = unat (item_filesize b)" "0 < ?n" "?n \<le> 2 ^ 31 - 4096" "chain_ok img fp c 0 ?n" "data = file_bytes img fp c 0 ?n"
    using assms(4) unfolding program_on_disk_def by blast
  have l: "table_in_file data" "accepted data" using assms(5) by (simp_all add: loadable_def)
  obtain ef memory s1 where e: "elf_load filename s = Some (if accepted data then (0, ef, s1) else (- EINVFORMAT, 0, s1))"
    "ef \<noteq> 0" "mem_inv s1" "file_descriptors s1 = file_descriptors s" "ef \<notin> dom (objs s)" "memory \<notin> dom (objs s)"
    "objs s1 memory = Some (OBytes data)" "accepted data \<Longrightarrow> elf_loaded s1 ef memory data"
    "\<And>a. a \<in> dom (objs s) \<Longrightarrow> a \<notin> fat_streams fp \<Longrightarrow> objs s1 a = objs s a"
    "fs_step s s1" "free_blocks s \<le> free_blocks s1 + 8 + blocks_for ?n" "kept {} s s1"
    by (rule elf_load_ok [OF assms(1-3) a(1,5,4,6,2,3,7-13) l(1)]) blast
  have k: "objs s1 x = Some y" if "objs s x = Some y" "\<forall>d. y \<noteq> OStream d" for x y
  proof -
    have "x \<notin> fat_streams fp" using a(2) that unfolding fat_mounted_def by fastforce
    then show ?thesis using e(9) [of x] that(1) by auto
  qed
  have q1: "objs s1 q = Some (OProcess p)" by (rule k [OF assms(6)]) simp
  let ?p = "p\<lparr>p_filetype := PROCESS_FILETYPE_ELF, p_ptr := ef\<rparr>"
  have "objs s1 q \<noteq> None" using q1 by simp
  then obtain s2 where s2: "put q (OProcess ?p) s1 = Some s2" "objs s2 = (objs s1)(q \<mapsto> OProcess ?p)" "mem_inv s2 = mem_inv s1"
    "free_blocks s2 = free_blocks s1" "heap_step s1 s2" by (rule put_live)
  have "process_load_data filename q s = Some (0, s2)"
    using e(1) l(2) q1 s2(1) by (simp add: process_load_data_def process_load_elf_def get_process_def EINVFORMAT_def)
  moreover have "elf_loaded s2 ef memory data" using e(8) [OF l(2)] s2(2) q1 by (auto simp: elf_loaded_def)
  moreover have "objs s2 x = Some y" if "objs s x = Some y" "x \<noteq> q" "\<forall>d. y \<noteq> OStream d" for x y
    using k [OF that(1,3)] that(2) s2(2) by simp
  moreover have "kept {q} s1 s2" by (rule kept_same) (use s2(2) in auto)
  from kept_trans [OF e(12) this] have "kept {q} s s2" by simp
  moreover have "file_descriptors s2 = file_descriptors s" using e(4) heap_stepD [OF s2(5)] by simp
  ultimately show thesis
    using that [of s2 ef memory] s2(2-4) e(3,11) fs_step_trans [OF e(10) heap_fs_step [OF s2(5)]] by simp
qed

lemma elf_loaded_keep:
  "elf_loaded s ef memory data \<Longrightarrow> (\<And>a y. objs s a = Some y \<Longrightarrow> \<forall>t. y \<noteq> OTask t \<Longrightarrow> \<forall>p. y \<noteq> OProcess p \<Longrightarrow> objs s' a = Some y) \<Longrightarrow>
     elf_loaded s' ef memory data"
  by (simp add: elf_loaded_def)

lemma elf_start_ip:
  assumes "elf_loaded s (p_ptr p) memory data" "p_filetype p = PROCESS_FILETYPE_ELF" "52 \<le> length data"
  shows "start_ip p s = Some (le32 data 24)"
proof -
  let ?f = "foldl include_segment (zero_elf_file\<lparr>ef_elf_memory := memory\<rparr>) (load_segments data 0 (phdr_count data))"
  have "ef_elf_memory ?f = memory" by (simp add: include_segment_memory)
  then show ?thesis using assms by (simp add: start_ip_def elf_loaded_def get_defs elf_header_def e_entry_def field32_def)
qed

text \<open>From a process with its program in memory and its stack to the mapped process with its task.\<close>

definition tail_of :: "u32 list \<Rightarrow> u32 set" where
  "tail_of ts = (if ts = [] then {} else {last ts})"

lemma launch_ok:
  assumes "mem_inv s" "low_heap s" "1027 \<le> free_blocks s" "objs s q = Some (OProcess p)" "p_filetype p = PROCESS_FILETYPE_ELF"
    "elf_loaded s (p_ptr p) memory data" "loadable data" "p_stack p mod 4096 = 0" "unat (p_stack p) + 16384 \<le> 2 ^ 31"
    "objs s (p_stack p) = Some (OBytes z)" "ts = [] \<and> task_head s = 0 \<or> task_list s ts"
  obtains task c dir s1 s2 s3 where "task_new q s = Some (task, s1)" "task \<noteq> 0" "get_process s1 q = Some p"
    "put q (OProcess (p\<lparr>p_task := task\<rparr>)) s1 = Some s2" "process_map_memory q s2 = Some (0, s3)" "mem_inv s3"
    "process_space s3 q (p\<lparr>p_task := task\<rparr>) c dir" "elf_loaded s3 (p_ptr p) memory data" "objs s3 (p_stack p) = Some (OBytes z)"
    "task_list s3 (ts @ [task])" "t_registers (task_at s3 task) = start_registers (le32 data 24)"
    "t_process (task_at s3 task) = q" "processes s3 = processes s"
    "\<forall>k < 2 ^ 20. page_entry (objs s3) dir k =
       foldl map_region (\<lambda>n. of_nat (4096 * n) OR 5) (program_regions memory data (p_stack p)) k"
    "kept (insert q (tail_of ts)) s s3" "\<forall>t. ts \<noteq> [] \<longrightarrow> objs s (last ts) = Some (OTask t) \<longrightarrow> objs s3 (last ts) = Some (OTask (t\<lparr>t_next := task\<rparr>))"
    "insert task (insert dir (tables_of (objs s3) dir)) \<inter> dom (objs s) = {}" "load_step s s3" "file_descriptors s3 = file_descriptors s"
    "free_blocks s = free_blocks s3 + 1027" "current_task s3 = (if ts = [] then task else current_task s)"
proof -
  have l: "table_in_file data" "accepted data" "52 \<le> length data" "le32 data 28 \<noteq> 0" "\<forall>j < phdr_count data. segment_ok data (phdr_pos data j)"
    using assms(7) by (simp_all add: loadable_def table_in_file_def accepted_def)
  obtain task c dir s1 where t: "task_new q s = Some (task, s1)" "mem_inv s1" "free_blocks s1 = free_blocks s - 1027"
    "task_added s ts task s1" "task mod 4096 = 0" "heap_shape (kernel_heap s1) = heap_shape (kernel_heap s)"
    "task_at s1 task = (new_task q (le32 data 24) c)\<lparr>t_prev := if ts = [] then 0 else last ts\<rparr>"
    "objs s1 c = Some (OChunk dir)" "pd_ok (objs s1) dir"
    "\<forall>n < 2 ^ 20. page_entry (objs s1) dir n = of_nat (4096 * n) OR 5"
    "s1 = s\<lparr>kernel_heap := kernel_heap s1, objs := objs s1, task_head := task_head s1, task_tail := task_tail s1,
       current_task := current_task s1\<rparr>" "insert dir (tables_of (objs s1) dir) \<inter> dom (objs s) = {}"
    by (rule task_new_ok [OF assms(1,3,4) elf_start_ip [OF assms(6,5) l(3)] assms(11)])
  have tl: "task_list s1 (ts @ [task])" "task \<noteq> 0" using t(4) by (simp_all add: task_added_def)
  have lt: "\<exists>r. objs s (last ts) = Some (OTask r)" if "ts \<noteq> []"
    using assms(11) that task_list_nth(1) [of s ts "length ts - 1"] by (auto simp: last_conv_nth)
  have k1: "objs s1 a = Some y" if "objs s a = Some y" "\<forall>t. y \<noteq> OTask t" for a y
    using t(4) that lt unfolding task_added_def by fastforce
  have q1: "objs s1 q = Some (OProcess p)" by (rule k1 [OF assms(4)]) simp
  have ta: "objs s1 task = Some (OTask (task_at s1 task))"
    using task_list_nth(1) [OF tl(1), of "length ts"] by simp
  let ?p = "p\<lparr>p_task := task\<rparr>"
  have "objs s1 q \<noteq> None" using q1 by simp
  then obtain s2 where s2: "put q (OProcess ?p) s1 = Some s2" "objs s2 = (objs s1)(q \<mapsto> OProcess ?p)" "mem_inv s2 = mem_inv s1"
    "free_blocks s2 = free_blocks s1" "heap_step s1 s2" by (rule put_live)
  have k2: "objs s2 a = Some y" if "objs s1 a = Some y" "\<forall>p. y \<noteq> OProcess p" for a y
    using that s2(2) q1 by auto
  have pd2: "pd_ok (objs s2) dir" "\<forall>n < 2 ^ 20. page_entry (objs s2) dir n = of_nat (4096 * n) OR 5"
    using keeps_words(1) [of "objs s1" "objs s2" dir] keeps_words(2) [of "objs s1" "objs s2" dir] k2 t(9,10) by simp_all
  have sp2: "process_space s2 q ?p c dir" unfolding process_space_def
    by (intro conjI pd2(1)) (use s2(2) k2 [OF ta] k2 [OF t(8)] t(7) in \<open>auto simp: new_task_def\<close>)
  have el2: "elf_loaded s2 (p_ptr ?p) memory data"
    using elf_loaded_keep [OF assms(6), of s2] k1 k2 by simp
  have m: "memory mod 4096 = 0" "unat memory \<le> 2 ^ 31"
    using live_place [OF assms(1,2), of memory] assms(6) by (simp_all add: elf_loaded_def)
  have st: "p_filetype ?p = PROCESS_FILETYPE_ELF" "p_stack ?p mod 4096 = 0" "unat (p_stack ?p) + 16384 \<le> 2 ^ 31"
    using assms(5,8,9) by simp_all
  obtain s3 where s3: "process_map_memory q s2 = Some (0, s3)" "tables_step dir s2 s3" "process_space s3 q ?p c dir"
    "\<forall>k < 2 ^ 20. page_entry (objs s3) dir k =
       foldl map_region (page_entry (objs s2) dir) (program_regions memory data (p_stack ?p)) k"
    by (rule process_map_memory_ok [OF sp2 st(1) el2 m l(1,4,5) st(2,3)])
  note w3 = tables_stepD(1) [OF s3(2)]
  have k3: "objs s3 a = Some y" if "objs s2 a = Some y" "\<forall>w. y \<noteq> OWords w" for a y
    by (rule words_step_keeps [OF w3 that(1)]) (use that(2) in blast)
  have g3: "task_head s3 = task_head s1" "task_tail s3 = task_tail s1" "processes s3 = processes s"
    using fs_stepD(1,2,4) [OF fs_step_trans [OF heap_fs_step [OF s2(5)] words_fs_step [OF w3]]] arg_cong [OF t(11), of processes]
    by simp_all
  have tl3: "task_list s3 (ts @ [task])" "task_at s3 task = task_at s1 task"
    using task_list_keep [OF tl(1) g3(1,2)] k2 k3 by simp_all
  have "page_entry (objs s3) dir k = foldl map_region (\<lambda>n. of_nat (4096 * n) OR 5) (program_regions memory data (p_stack p)) k"
    if k: "k < 2 ^ 20" for k
  proof -
    have "page_entry (objs s3) dir k = foldl map_region (page_entry (objs s2) dir) (program_regions memory data (p_stack p)) k"
      using s3(4) k by simp
    also have "\<dots> = foldl map_region (\<lambda>n. of_nat (4096 * n) OR 5) (program_regions memory data (p_stack p)) k"
      by (rule map_regions_cong) (use pd2(2) k in blast)
    finally show ?thesis .
  qed
  moreover have "elf_loaded s3 (p_ptr p) memory data" using el2 k3 by (simp add: elf_loaded_def)
  moreover have "objs s3 (p_stack p) = Some (OBytes z)" by (rule k3 [OF k2 [OF k1 [OF assms(10)]]]) simp_all
  moreover have "get_process s1 q = Some p" using q1 by (simp add: get_process_def)
  moreover have "mem_inv s3" using words_step_inv(1) [OF w3] s2(3) t(2) by simp
  moreover have qt: "q \<noteq> task" "q \<noteq> dir" using t(4,12) assms(4) by (auto simp: task_added_def)
  have tb2: "tables_of (objs s2) dir = tables_of (objs s1) dir" using s2(2) qt(2) by (simp add: tables_of_def)
  have fr: "insert task (insert dir (tables_of (objs s1) dir)) \<inter> dom (objs s) = {}"
    using t(4,12) by (auto simp: task_added_def)
  then have "insert task (insert dir (tables_of (objs s3) dir)) \<inter> dom (objs s) = {}"
    using tables_step_tables [OF s3(2)] tb2 by simp
  moreover have k: "objs s3 a = Some y" if "objs s1 a = Some y" "objs s a \<noteq> None" "a \<noteq> q" for a y
  proof -
    have "a \<notin> tables_of (objs s2) dir" using fr that(2) unfolding tb2 by auto
    then show ?thesis using tables_stepD(2) [OF s3(2), of a] s2(2) that(1,3) by simp
  qed
  have "kept (insert q (tail_of ts)) s s3"
    by (rule kept_same, rule k) (use t(4) in \<open>auto simp: task_added_def tail_of_def split: if_splits\<close>)
  moreover have "\<forall>r. ts \<noteq> [] \<longrightarrow> objs s (last ts) = Some (OTask r) \<longrightarrow> objs s3 (last ts) = Some (OTask (r\<lparr>t_next := task\<rparr>))"
    by (intro allI impI, rule k) (use t(4) assms(4) in \<open>auto simp: task_added_def task_at_def\<close>)
  moreover have "load_step s s1" "file_descriptors s1 = file_descriptors s"
    using t(6,11) by (cases s; cases s1; simp add: load_step_def)+
  then have "load_step s s3"
    using fs_load_step [OF heap_fs_step [OF s2(5)]] fs_load_step [OF words_fs_step [OF w3]] by (blast intro: load_step_trans)
  moreover have "file_descriptors s3 = file_descriptors s"
    using arg_cong [OF t(11), of file_descriptors] heap_stepD [OF s2(5)] heap_stepD [OF words_step_heap [OF w3]] by simp
  moreover have "free_blocks s = free_blocks s3 + 1027" using t(3) s2(4) words_step_inv(2) [OF w3] assms(3) by simp
  moreover have "current_task s3 = current_task s1"
    using fs_stepD(3) [OF fs_step_trans [OF heap_fs_step [OF s2(5)] words_fs_step [OF w3]]] .
  then have "current_task s3 = (if ts = [] then task else current_task s)" using t(4) by (simp add: task_added_def)
  ultimately show thesis using that t(1) tl(2) s2(1) s3(1,3) tl3 t(7) g3(3) by (simp add: new_task_def)
qed
section \<open>The loaded process\<close>

text \<open>The pages of the program header at position \<open>p\<close>; the headers and the stack do not share pages.\<close>

definition segment_pages :: "u8 list \<Rightarrow> nat \<Rightarrow> nat set" where
  "segment_pages b p = {page (le32 b (p + 8))..<page (le32 b (p + 8)) +
     blocks_for (unat (le32 b (p + 8)) mod 4096 + unat (le32 b (p + 20)))}"

definition stack_pages :: "nat set" where
  "stack_pages = {0x3FB..<0x3FF}"

definition separate_segments :: "u8 list \<Rightarrow> bool" where
  "separate_segments b \<longleftrightarrow> (\<forall>i < phdr_count b. segment_pages b (phdr_pos b i) \<inter> stack_pages = {} \<and>
     (\<forall>j < i. segment_pages b (phdr_pos b i) \<inter> segment_pages b (phdr_pos b j) = {}))"

lemma in_segment_region: "in_region n (segment_region m b p) \<longleftrightarrow> n \<in> segment_pages b p"
  by (simp add: in_region_def segment_region_def segment_pages_def align_down(3))

lemma in_stack_region: "in_region n (stack_region m) \<longleftrightarrow> n \<in> stack_pages"
  by (simp add: in_region_def stack_region_def stack_pages_def page_def PLUMOS_PROGRAM_VIRTUAL_STACK_ADDRESS_END_def
      PLUMOS_PROGRAM_VIRTUAL_STACK_ADDRESS_START_def PLUMOS_USER_PROGRAM_STACK_SIZE_def)

lemma program_regions_set:
  "set (program_regions m b st) = insert (stack_region st) ((\<lambda>i. segment_region m b (phdr_pos b i)) ` {..<phdr_count b})"
  by (auto simp: program_regions_def)

lemma separate_unique:
  assumes "separate_segments b" "r \<in> set (program_regions m b st)" "r' \<in> set (program_regions m b st)"
    "in_region n r" "in_region n r'"
  shows "r' = r"
proof -
  have s: "segment_pages b (phdr_pos b i) \<inter> stack_pages = {}"
    "segment_pages b (phdr_pos b i) \<inter> segment_pages b (phdr_pos b j) = {}"
    if "i < phdr_count b" "j < phdr_count b" "j \<noteq> i" for i j
    using that assms(1) unfolding separate_segments_def by (metis inf_commute linorder_neqE_nat)+
  have s': "segment_pages b (phdr_pos b i) \<inter> stack_pages = {}" if "i < phdr_count b" for i
    using that assms(1) by (simp add: separate_segments_def)
  from assms(2-5) show ?thesis unfolding program_regions_set
    by (auto simp: in_segment_region in_stack_region) (use s s' in blast)+
qed

lemma no_page_flags:
  fixes x f :: u32
  assumes "x mod 4096 = 0" "f AND 0xfffff000 = 0"
  shows "x AND f = 0"
proof -
  have "x AND f = (x AND 0xfffff000) AND f" using page_bits [of x] assms(1) by simp
  also have "\<dots> = x AND (f AND 0xfffff000)" by (simp only: ac_simps)
  finally show ?thesis using assms(2) by simp
qed

lemma frames_aligned: "(x :: u32) mod 4096 = 0 \<Longrightarrow> (x + of_nat (4096 * k)) mod 4096 = 0"
proof -
  assume "x mod 4096 = 0"
  then obtain q where q: "unat x = 4096 * q" by (auto simp: aligned_unat)
  have "x = of_nat (unat x)" by simp
  then have "x + of_nat (4096 * k) = of_nat (4096 * q + 4096 * k)" by (simp only: q of_nat_add)
  also have "4096 * q + 4096 * k = 4096 * (q + k)" by simp
  finally have "unat (x + of_nat (4096 * k)) = take_bit 32 (4096 * (q + k))" by (simp only: unsigned_of_nat) simp
  also have "\<dots> = 4096 * ((q + k) mod 2 ^ 20)" by (simp add: take_bit_eq_mod mult_mod_right)
  finally show ?thesis unfolding aligned_unat by simp
qed

text \<open>Translation in the address space of a loaded program.\<close>

lemma program_space:
  assumes "pd_ok (objs s) dir" "loadable data" "separate_segments data" "memory mod 4096 = 0" "unat memory \<le> 2 ^ 31"
    "stack mod 4096 = 0" "unat stack + 16384 \<le> 2 ^ 31"
    "\<forall>k < 2 ^ 20. page_entry (objs s) dir k = foldl map_region e (program_regions memory data stack) k"
  shows "i < phdr_count data \<Longrightarrow> j < unat (le32 data (phdr_pos data i + 20)) \<Longrightarrow>
      mmu dir (le32 data (phdr_pos data i + 8) + of_nat j) s = Some (memory + le32 data (phdr_pos data i + 4) + of_nat j)"
    "j < 16384 \<Longrightarrow> mmu dir (0x3FB000 + of_nat j) s = Some (stack + of_nat j)"
    "n < 2 ^ 20 \<Longrightarrow> n \<notin> stack_pages \<Longrightarrow> \<forall>i < phdr_count data. n \<notin> segment_pages data (phdr_pos data i) \<Longrightarrow>
      page_entry (objs s) dir n = e n"
    "i < phdr_count data \<Longrightarrow> n < 2 ^ 20 \<Longrightarrow> n \<in> segment_pages data (phdr_pos data i) \<Longrightarrow>
      page_entry (objs s) dir n AND 7 = (if le32 data (phdr_pos data i + 24) AND PF_W \<noteq> 0 then 7 else 5)"
proof -
  have one: "page_entry (objs s) dir n = map_region e r n"
    if "r \<in> set (program_regions memory data stack)" "n < 2 ^ 20" "in_region n r" for r n
    unfolding assms(8) [rule_format, OF that(2)]
    by (rule map_regions_in [OF that(1,3)]) (use separate_unique [OF assms(3) that(1) _ that(3)] in blast)
  show "mmu dir (le32 data (phdr_pos data i + 8) + of_nat j) s = Some (memory + le32 data (phdr_pos data i + 4) + of_nat j)"
    if i: "i < phdr_count data" and j: "j < unat (le32 data (phdr_pos data i + 20))"
  proof -
    let ?p = "phdr_pos data i" and ?m = "unat (le32 data (phdr_pos data i + 20))"
    have ok: "segment_ok data ?p" using assms(2) i by (simp add: loadable_def)
    note g = segment_facts [OF ok assms(4,5)]
    have b: "unat (le32 data (?p + 8)) + ?m \<le> 2 ^ 32" "unat (memory + le32 data (?p + 4)) + ?m \<le> 2 ^ 32"
      using ok g(1) by (simp_all add: segment_ok_def)
    have r: "segment_region memory data ?p \<in> set (program_regions memory data stack)"
      using i by (auto simp: program_regions_set)
    show ?thesis
      by (rule region_translate [OF assms(1) g(2) segment_region_def _ _ b j one [OF r]])
        (simp_all add: paging_consts)
  qed
  show "mmu dir (0x3FB000 + of_nat j) s = Some (stack + of_nat j)" if j: "j < 16384"
  proof -
    have st: "stack_region stack = (paging_align_to_lower_page 0x3FB000, paging_align_to_lower_page stack,
        blocks_for (unat (0x3FB000 :: u32) mod 4096 + 16384), 7)"
      using assms(6) by (simp add: stack_region_def paging_align_to_lower_page_def paging_consts blocks_for_def
          PLUMOS_PROGRAM_VIRTUAL_STACK_ADDRESS_END_def PLUMOS_PROGRAM_VIRTUAL_STACK_ADDRESS_START_def PLUMOS_USER_PROGRAM_STACK_SIZE_def)
    have r: "stack_region stack \<in> set (program_regions memory data stack)" by (simp add: program_regions_set)
    show ?thesis
      by (rule region_translate [OF assms(1) _ st _ _ _ _ j one [OF r]]) (use assms(6,7) in \<open>simp_all add: paging_consts\<close>)
  qed
  show "n < 2 ^ 20 \<Longrightarrow> n \<notin> stack_pages \<Longrightarrow> \<forall>i < phdr_count data. n \<notin> segment_pages data (phdr_pos data i) \<Longrightarrow>
      page_entry (objs s) dir n = e n"
    using assms(8) map_regions_out [of "program_regions memory data stack" n e]
    by (auto simp: program_regions_set in_segment_region in_stack_region)
  show "page_entry (objs s) dir n AND 7 = (if le32 data (phdr_pos data i + 24) AND PF_W \<noteq> 0 then 7 else 5)"
    if i: "i < phdr_count data" and n: "n < 2 ^ 20" "n \<in> segment_pages data (phdr_pos data i)"
  proof -
    let ?p = "phdr_pos data i"
    have r: "segment_region memory data ?p \<in> set (program_regions memory data stack)"
      using i by (auto simp: program_regions_set)
    have "in_region n (segment_region memory data ?p)" using n(2) by (simp add: in_segment_region)
    then obtain k where "page_entry (objs s) dir n = (paging_align_to_lower_page (memory + le32 data (?p + 4)) + of_nat (4096 * k)) OR
        (if le32 data (?p + 24) AND PF_W \<noteq> 0 then 7 else 5)"
      using one [OF r n(1)] by (simp add: in_region_def map_region_def segment_region_def map_pages_def del: of_nat_mult)
    then show ?thesis using no_page_flags [OF frames_aligned [OF align_down(2)], of 7]
      by (simp add: bit.conj_disj_distrib2 del: of_nat_mult)
  qed
qed
text \<open>The process and its stack: name, slot and stack are set after the program is read.\<close>

lemma stack_ok:
  assumes "mem_inv s" "low_heap s" "room s 0 4" "objs s q = Some (OProcess p)" "p_filename p = replicate PLUMOS_MAX_PATH 0"
    "0 \<in> set filename"
  obtains stack s1 name s2 where
    "kzalloc PLUMOS_USER_PROGRAM_STACK_SIZE (OBytes (replicate (unat PLUMOS_USER_PROGRAM_STACK_SIZE) 0)) s = Some (stack, s1)"
    "stack \<noteq> 0" "get_process s1 q = Some p" "strncpy (p_filename p) filename (int PLUMOS_MAX_PATH) = Some name"
    "cstr name = take 107 (cstr filename)" "put q (OProcess (p\<lparr>p_filename := name, p_stack := stack, p_id := w\<rparr>)) s1 = Some s2"
    "objs s2 = (objs s)(stack \<mapsto> OBytes (replicate 16384 0), q \<mapsto> OProcess (p\<lparr>p_filename := name, p_stack := stack, p_id := w\<rparr>))"
    "stack \<noteq> q" "objs s stack = None" "mem_inv s2" "heap_step s s2" "free_blocks s = free_blocks s2 + 4"
    "stack mod 4096 = 0" "unat stack + 16384 \<le> 2 ^ 31"
proof -
  let ?S = "PLUMOS_USER_PROGRAM_STACK_SIZE"
  have S: "unat ?S = 16384" "blocks_for (unat ?S) = 4" "size_ok ?S"
    by (simp_all add: PLUMOS_USER_PROGRAM_STACK_SIZE_def blocks_for_def size_ok_def)
  have r: "room s 0 (blocks_for (unat ?S))" unfolding S(2) by (rule assms(3))
  obtain stack s1 where k: "kzalloc ?S (OBytes (replicate (unat ?S) 0)) s = Some (stack, s1)" "stack \<noteq> 0" "objs s stack = None"
    "stack mod 4096 = 0" "objs s1 = (objs s)(stack \<mapsto> OBytes (replicate (unat ?S) 0))" "mem_inv s1"
    "free_blocks s = free_blocks s1 + blocks_for (unat ?S)" "heap_step s s1"
    by (rule kzalloc_run [OF assms(1) r S(3)])
  have ne: "stack \<noteq> q" using k(3) assms(4) by auto
  have q1: "objs s1 q = Some (OProcess p)" using k(5) ne assms(4) by simp
  let ?n = "min 107 (length (cstr filename))"
  let ?name = "take ?n (cstr filename) @ 0 # drop (Suc ?n) (p_filename p)"
  have "strncpy (p_filename p) filename (int PLUMOS_MAX_PATH) = Some ?name"
    by (rule strncpy_cstr) (use assms(5,6) in \<open>simp_all add: PLUMOS_MAX_PATH_def\<close>)
  moreover have "0 \<notin> set (take ?n (cstr filename))" using cstr_nonzero in_set_takeD by metis
  then have "cstr ?name = take 107 (cstr filename)" by (simp add: cstr_append_no0 min_def)
  moreover have "objs s1 q \<noteq> None" using q1 by simp
  then obtain s2 where s2: "put q (OProcess (p\<lparr>p_filename := ?name, p_stack := stack, p_id := w\<rparr>)) s1 = Some s2"
    "objs s2 = (objs s1)(q \<mapsto> OProcess (p\<lparr>p_filename := ?name, p_stack := stack, p_id := w\<rparr>))" "mem_inv s2 = mem_inv s1"
    "free_blocks s2 = free_blocks s1" "heap_step s1 s2" by (rule put_live)
  moreover have "unat stack + 16384 \<le> 2 ^ 31" using kzalloc_range(1) [OF assms(1,2) S(3) k(1,2)] S(2) by simp
  ultimately show thesis
    using that [of stack s1 ?name s2] k(1-4,6) ne q1 heap_step_trans [OF k(8) s2(5)] k(5,7) S(1,2)
    by (simp add: get_process_def)
qed

text \<open>The new process: a fresh object with the empty process.\<close>

lemma new_process_ok:
  assumes "mem_inv s" "room s 0 3"
  obtains new s1 s2 where "kzalloc 9364 (OProcess zero_process) s = Some (new, s1)" "new \<noteq> 0" "process_init new s1 = Some s2"
    "objs s new = None" "objs s2 = (objs s)(new \<mapsto> OProcess zero_process)" "mem_inv s2" "heap_step s s2"
    "free_blocks s = free_blocks s2 + 3"
proof -
  have S: "blocks_for (unat (9364 :: u32)) = 3" "size_ok 9364" by (simp_all add: blocks_for_def size_ok_def)
  have r: "room s 0 (blocks_for (unat (9364 :: u32)))" unfolding S(1) by (rule assms(2))
  obtain new s1 where k: "kzalloc 9364 (OProcess zero_process) s = Some (new, s1)" "new \<noteq> 0" "objs s new = None"
    "new mod 4096 = 0" "objs s1 = (objs s)(new \<mapsto> OProcess zero_process)" "mem_inv s1"
    "free_blocks s = free_blocks s1 + blocks_for (unat (9364 :: u32))" "heap_step s s1"
    by (rule kzalloc_run [OF assms(1) r S(2)])
  have "objs s1 new \<noteq> None" using k(5) by simp
  then obtain s2 where s2: "put new (OProcess zero_process) s1 = Some s2" "objs s2 = (objs s1)(new \<mapsto> OProcess zero_process)"
    "mem_inv s2 = mem_inv s1" "free_blocks s2 = free_blocks s1" "heap_step s1 s2" by (rule put_live)
  show thesis
    using that [of new s1 s2] k(1-3,5-7) s2(1-4) heap_step_trans [OF k(8) s2(5)] S(1) by (simp add: process_init_def)
qed
lemma read_program_ok:
  assumes "mem_inv s" "low_heap s" "room s (11 + blocks_for (length data)) (max 4 (blocks_for (length data)))"
    "program_on_disk img fp s filename data" "loadable data"
  obtains new s1 s2 ef memory s3 where "kzalloc 9364 (OProcess zero_process) s = Some (new, s1)" "new \<noteq> 0"
    "process_init new s1 = Some s2" "objs s new = None" "process_load_data filename new s2 = Some (0, s3)" "mem_inv s3"
    "low_heap s3" "room s3 0 4" "fs_step s s3" "free_blocks s \<le> free_blocks s3 + 11 + blocks_for (length data)"
    "objs s3 new = Some (OProcess (zero_process\<lparr>p_filetype := PROCESS_FILETYPE_ELF, p_ptr := ef\<rparr>))" "elf_loaded s3 ef memory data"
    "\<And>a y. objs s a = Some y \<Longrightarrow> \<forall>d. y \<noteq> OStream d \<Longrightarrow> objs s3 a = Some y"
    "kept {} s s3" "file_descriptors s3 = file_descriptors s"
proof -
  let ?n = "blocks_for (length data)"
  have r0: "room s 0 3" by (rule room_step [OF assms(3) refl, of 0]) simp_all
  obtain new s1 s2 where p: "kzalloc 9364 (OProcess zero_process) s = Some (new, s1)" "new \<noteq> 0" "process_init new s1 = Some s2"
    "objs s new = None" "objs s2 = (objs s)(new \<mapsto> OProcess zero_process)" "mem_inv s2" "heap_step s s2"
    "free_blocks s = free_blocks s2 + 3"
    by (rule new_process_ok [OF assms(1) r0])
  have r2: "room s2 8 ?n"
    by (rule room_step [OF assms(3) fs_step_shape [OF heap_fs_step [OF p(7)]], of 3]) (use p(8) in simp_all)
  have lh2: "low_heap s2" using assms(2) low_heap_step [OF p(7)] by simp
  have d2: "program_on_disk img fp s2 filename data"
    by (rule program_on_disk_step [OF assms(4) _ p(7)]) (use map_le_fresh [OF p(4,5)] in simp)
  have o2: "objs s2 new = Some (OProcess zero_process)" using p(5) by simp
  obtain ef memory s3 where e: "process_load_data filename new s2 = Some (0, s3)" "mem_inv s3" "fs_step s2 s3"
    "free_blocks s2 \<le> free_blocks s3 + 8 + ?n"
    "objs s3 new = Some (OProcess (zero_process\<lparr>p_filetype := PROCESS_FILETYPE_ELF, p_ptr := ef\<rparr>))" "elf_loaded s3 ef memory data"
    "\<And>a y. objs s2 a = Some y \<Longrightarrow> a \<noteq> new \<Longrightarrow> \<forall>d. y \<noteq> OStream d \<Longrightarrow> objs s3 a = Some y"
    "kept {new} s2 s3" "file_descriptors s3 = file_descriptors s2"
    by (rule process_load_data_ok [OF p(6) lh2 r2 d2 assms(5) o2]) blast
  have fs3: "fs_step s s3" by (rule fs_step_trans [OF heap_fs_step [OF p(7)] e(3)])
  have r3: "room s3 0 4" by (rule room_step [OF assms(3) fs_step_shape [OF fs3], of "11 + ?n"]) (use p(8) e(4) in simp_all)
  have lh3: "low_heap s3" using lh2 fs_step_shape [OF e(3)] by (simp add: low_heap_def)
  have k: "objs s3 a = Some y" if "objs s a = Some y" "\<forall>d. y \<noteq> OStream d" for a y
    using that p(4,5) by (intro e(7)) auto
  have fb: "free_blocks s \<le> free_blocks s3 + 11 + ?n" using p(8) e(4) by simp
  have "kept {} s s2" by (rule kept_mono [OF map_le_fresh [OF p(4,5)]])
  from kept_trans [OF this e(8)] have kp: "kept {} s s3" by (rule kept_drop) (use p(4) in auto)
  have fd: "file_descriptors s3 = file_descriptors s" using e(9) heap_stepD [OF p(7)] by simp
  show thesis by (rule that [OF p(1-4) e(1,2) lh3 r3 fs3 fb e(5,6) k kp fd])
qed

lemma process_load_ok:
  assumes "mem_inv s" "low_heap s" "room s (11 + blocks_for (length data)) (max 4 (blocks_for (length data)))"
    "1042 + blocks_for (length data) \<le> free_blocks s" "program_on_disk img fp s filename data" "0 \<in> set filename"
    "loadable data" "first_slot 0 (processes s) = Some k" "length (processes s) = 12"
    "ts = [] \<and> task_head s = 0 \<or> task_list s ts"
  obtains new ef memory stack task c dir name s' where "process_load filename s =
      Some (0, new, s'\<lparr>processes := (processes s)[k := new]\<rparr>)" "objs s new = None" "cstr name = take 107 (cstr filename)"
    "process_space s' new (zero_process\<lparr>p_id := of_nat k, p_filename := name, p_task := task,
      p_filetype := PROCESS_FILETYPE_ELF, p_ptr := ef, p_stack := stack\<rparr>) c dir"
    "elf_loaded s' ef memory data" "memory mod 4096 = 0" "unat memory \<le> 2 ^ 31" "stack mod 4096 = 0" "unat stack + 16384 \<le> 2 ^ 31"
    "objs s' stack = Some (OBytes (replicate 16384 0))" "mem_inv s'" "task_list s' (ts @ [task])"
    "t_registers (task_at s' task) = start_registers (le32 data 24)" "t_process (task_at s' task) = new"
    "\<forall>k < 2 ^ 20. page_entry (objs s') dir k =
       foldl map_region (\<lambda>n. of_nat (4096 * n) OR 5) (program_regions memory data stack) k"
    "kept (tail_of ts) s s'" "\<forall>t. ts \<noteq> [] \<longrightarrow> objs s (last ts) = Some (OTask t) \<longrightarrow> objs s' (last ts) = Some (OTask (t\<lparr>t_next := task\<rparr>))"
    "insert task (insert dir (tables_of (objs s') dir)) \<inter> dom (objs s) = {}" "load_step s s'" "file_descriptors s' = file_descriptors s"
    "free_blocks s \<le> free_blocks s' + 1042 + blocks_for (length data)" "current_task s' = (if ts = [] then task else current_task s)"
proof -
  obtain new s1 s2 ef memory s3 where e: "kzalloc 9364 (OProcess zero_process) s = Some (new, s1)" "new \<noteq> 0"
    "process_init new s1 = Some s2" "objs s new = None" "process_load_data filename new s2 = Some (0, s3)" "mem_inv s3"
    "low_heap s3" "room s3 0 4" "fs_step s s3" "free_blocks s \<le> free_blocks s3 + 11 + blocks_for (length data)"
    "objs s3 new = Some (OProcess (zero_process\<lparr>p_filetype := PROCESS_FILETYPE_ELF, p_ptr := ef\<rparr>))" "elf_loaded s3 ef memory data"
    "\<And>a y. objs s a = Some y \<Longrightarrow> \<forall>d. y \<noteq> OStream d \<Longrightarrow> objs s3 a = Some y"
    "kept {} s s3" "file_descriptors s3 = file_descriptors s"
    by (rule read_program_ok [OF assms(1-3,5,7)]) blast
  let ?p3 = "zero_process\<lparr>p_filetype := PROCESS_FILETYPE_ELF, p_ptr := ef\<rparr>"
  have z: "p_filename ?p3 = replicate PLUMOS_MAX_PATH 0" by (simp add: zero_process_def)
  obtain stack s4 name s5 where t:
    "kzalloc PLUMOS_USER_PROGRAM_STACK_SIZE (OBytes (replicate (unat PLUMOS_USER_PROGRAM_STACK_SIZE) 0)) s3 = Some (stack, s4)"
    "stack \<noteq> 0" "get_process s4 new = Some ?p3" "strncpy (p_filename ?p3) filename (int PLUMOS_MAX_PATH) = Some name"
    "cstr name = take 107 (cstr filename)"
    "put new (OProcess (?p3\<lparr>p_filename := name, p_stack := stack, p_id := word_of_int (int k)\<rparr>)) s4 = Some s5"
    "objs s5 = (objs s3)(stack \<mapsto> OBytes (replicate 16384 0),
       new \<mapsto> OProcess (?p3\<lparr>p_filename := name, p_stack := stack, p_id := word_of_int (int k)\<rparr>))"
    "stack \<noteq> new" "objs s3 stack = None" "mem_inv s5" "heap_step s3 s5" "free_blocks s3 = free_blocks s5 + 4"
    "stack mod 4096 = 0" "unat stack + 16384 \<le> 2 ^ 31"
    by (rule stack_ok [OF e(6-8,11) z assms(6)])
  let ?p5 = "?p3\<lparr>p_filename := name, p_stack := stack, p_id := word_of_int (int k)\<rparr>"
  have fs5: "fs_step s s5" by (rule fs_step_trans [OF e(9) heap_fs_step [OF t(11)]])
  note g5 = fs_stepD [OF fs5]
  have k5: "objs s5 a = Some y" if "objs s3 a = Some y" "a \<noteq> new" for a y using that t(7,9) by auto
  have keep: "objs s5 a = Some y" if "objs s a = Some y" "\<forall>d. y \<noteq> OStream d" for a y
    by (rule k5 [OF e(13) [OF that]]) (use that(1) e(4) in auto)
  have tl5: "ts = [] \<and> task_head s5 = 0 \<or> task_list s5 ts"
    using assms(10) task_list_keep(1) [OF _ g5(1,2)] keep g5(1) by auto
  have el5: "elf_loaded s5 (p_ptr ?p5) memory data"
  proof -
    have "ef \<noteq> new" "memory \<noteq> new" using e(11,12) by (auto simp: elf_loaded_def)
    then show ?thesis using e(12) k5 by (simp add: elf_loaded_def)
  qed
  have lh5: "low_heap s5" using e(7) low_heap_step [OF t(11)] by simp
  have f5: "1027 \<le> free_blocks s5" using assms(4) e(10) t(12) by linarith
  have o5: "objs s5 new = Some (OProcess ?p5)" "objs s5 (p_stack ?p5) = Some (OBytes (replicate 16384 0))" using t(7,8) by auto
  have st: "p_filetype ?p5 = PROCESS_FILETYPE_ELF" "p_stack ?p5 mod 4096 = 0" "unat (p_stack ?p5) + 16384 \<le> 2 ^ 31"
    using t(13,14) by simp_all
  obtain task c dir s6 s7 s8 where l: "task_new new s5 = Some (task, s6)" "task \<noteq> 0" "get_process s6 new = Some ?p5"
    "put new (OProcess (?p5\<lparr>p_task := task\<rparr>)) s6 = Some s7" "process_map_memory new s7 = Some (0, s8)" "mem_inv s8"
    "process_space s8 new (?p5\<lparr>p_task := task\<rparr>) c dir" "elf_loaded s8 (p_ptr ?p5) memory data"
    "objs s8 (p_stack ?p5) = Some (OBytes (replicate 16384 0))"
    "task_list s8 (ts @ [task])" "t_registers (task_at s8 task) = start_registers (le32 data 24)"
    "t_process (task_at s8 task) = new" "processes s8 = processes s5"
    "\<forall>k < 2 ^ 20. page_entry (objs s8) dir k =
       foldl map_region (\<lambda>n. of_nat (4096 * n) OR 5) (program_regions memory data (p_stack ?p5)) k"
    "kept (insert new (tail_of ts)) s5 s8" "\<forall>t. ts \<noteq> [] \<longrightarrow> objs s5 (last ts) = Some (OTask t) \<longrightarrow> objs s8 (last ts) = Some (OTask (t\<lparr>t_next := task\<rparr>))"
    "insert task (insert dir (tables_of (objs s8) dir)) \<inter> dom (objs s5) = {}" "load_step s5 s8" "file_descriptors s8 = file_descriptors s5"
    "free_blocks s5 = free_blocks s8 + 1027" "current_task s8 = (if ts = [] then task else current_task s5)"
    by (rule launch_ok [OF t(10) lh5 f5 o5(1) st(1) el5 assms(7) st(2,3) o5(2) tl5])
  have k: "k < 12" "processes s ! k = 0" using assms(8,9) by (auto simp: first_slot_Some)
  have slot: "process_get_free_slot s = int k" "process_get (int k) s = Some 0"
    using assms(8,9) k by (simp_all add: process_get_free_slot_def process_get_def PLUMOS_MAX_PROCESSES_def arr_get_def)
  have tz: "to_int task \<noteq> 0" using l(2) by (metis signed_0 word_eq_iff_signed)
  have "arr_set (processes s8) (int k) new = Some ((processes s)[k := new])"
    using l(13) g5(4) k(1) assms(9) by (simp add: arr_set_def)
  then have run: "process_load filename s = Some (0, new, s8\<lparr>processes := (processes s)[k := new]\<rparr>)"
    using slot e(1-3,5) t(1-4,6) l(1,3-5) tz
    by (simp add: process_load_def process_load_for_slot_def process_load_out_def)
  have m: "memory mod 4096 = 0" "unat memory \<le> 2 ^ 31"
    using live_place [OF e(6,7), of memory] e(12) by (simp_all add: elf_loaded_def)
  have pe: "?p5\<lparr>p_task := task\<rparr> = zero_process\<lparr>p_id := of_nat k, p_filename := name, p_task := task,
      p_filetype := PROCESS_FILETYPE_ELF, p_ptr := ef, p_stack := stack\<rparr>" by (rule process.equality) simp_all
  have el8: "elf_loaded s8 ef memory data" "objs s8 stack = Some (OBytes (replicate 16384 0))"
    "\<forall>k < 2 ^ 20. page_entry (objs s8) dir k =
       foldl map_region (\<lambda>n. of_nat (4096 * n) OR 5) (program_regions memory data stack) k"
    using l(8,9,14) by simp_all
  have "kept {new} s3 s5" by (rule kept_same) (use t(7,9) in auto)
  from kept_trans [OF kept_trans [OF e(14) this] l(15)]
  have kp: "kept (tail_of ts) s s8" by (rule kept_drop) (use e(4) in auto)
  have tl: "objs s8 (last ts) = Some (OTask (r\<lparr>t_next := task\<rparr>))" if "ts \<noteq> []" "objs s (last ts) = Some (OTask r)" for r
    using l(16) that(1) keep [OF that(2)] by simp
  have "dom (objs s) \<subseteq> dom (objs s5)"
  proof
    fix a assume "a \<in> dom (objs s)"
    then obtain y where "objs s a = Some y" by auto
    then have "objs s5 a \<noteq> None" using kept_obj [OF e(14), of a y] kept_stream [OF e(14), of a] k5 t(7)
      by (cases "a = new"; cases "\<exists>d. y = OStream d") fastforce+
    then show "a \<in> dom (objs s5)" by auto
  qed
  then have fr: "insert task (insert dir (tables_of (objs s8) dir)) \<inter> dom (objs s) = {}" using l(17) by blast
  have ls: "load_step s s8" by (rule load_step_trans [OF fs_load_step [OF fs5] l(18)])
  have fd: "file_descriptors s8 = file_descriptors s" using l(19) heap_stepD [OF t(11)] e(15) by simp
  have fb: "free_blocks s \<le> free_blocks s8 + 1042 + blocks_for (length data)" using e(10) t(12) l(20) by linarith
  have ct: "current_task s8 = (if ts = [] then task else current_task s)" using l(21) g5(3) by simp
  show thesis by (rule that [OF run e(4) t(5) l(7) [unfolded pe] el8(1) m t(13,14) el8(2) l(6,10-12) el8(3) kp _ fr ls fd fb ct]) (use tl in blast)
qed

section \<open>Properties\<close>

text \<open>
  C6. Loading a process. For an ELF file in the root directory of the mounted volume whose headers lie in it
  and whose segments do not share pages, with a free slot for a process, a free file descriptor and enough
  memory, \<open>process_load\<close> returns 0 and a fresh process in the first free slot: its program memory holds exactly the
  bytes of the file, its stack is zero, and its task, appended to the list of tasks, starts at the entry point of the
  file with the stack pointer at the top of the stack. In the address space of the task byte \<open>j\<close> of every segment is
  at the file's byte with the segment's offset, writable exactly for a writable segment, the stack is at
  \<open>0x3FB000\<close>, and every other page is mapped to itself, not writable. Every object there was stays, the position of the
  driver's streams and the link of the last task apart: no other process or address space is touched.
\<close>
theorem process_load_program:
  assumes "mem_inv s" "low_heap s" "room s (11 + blocks_for (length data)) (max 4 (blocks_for (length data)))"
    "1042 + blocks_for (length data) \<le> free_blocks s" "program_on_disk img fp s filename data" "0 \<in> set filename"
    "loadable data" "separate_segments data" "first_slot 0 (processes s) = Some k" "length (processes s) = 12"
    "ts = [] \<and> task_head s = 0 \<or> task_list s ts"
  shows "\<exists>new ef memory stack task dir name s'. process_load filename s = Some (0, new, s') \<and> mem_inv s' \<and>
    objs s new = None \<and> processes s' = (processes s)[k := new] \<and>
    objs s' new = Some (OProcess (zero_process\<lparr>p_id := of_nat k, p_filename := name, p_task := task,
      p_filetype := PROCESS_FILETYPE_ELF, p_ptr := ef, p_stack := stack\<rparr>)) \<and>
    cstr name = take 107 (cstr filename) \<and> elf_loaded s' ef memory data \<and>
    objs s' stack = Some (OBytes (replicate 16384 0)) \<and> task_list s' (ts @ [task]) \<and>
    t_process (task_at s' task) = new \<and> t_registers (task_at s' task) = start_registers (le32 data 24) \<and>
    objs s' (t_page_directory (task_at s' task)) = Some (OChunk dir) \<and>
    (\<forall>i < phdr_count data.
      (\<forall>j < unat (le32 data (phdr_pos data i + 20)). mmu dir (le32 data (phdr_pos data i + 8) + of_nat j) s' =
        Some (memory + le32 data (phdr_pos data i + 4) + of_nat j)) \<and>
      (\<forall>n < 2 ^ 20. n \<in> segment_pages data (phdr_pos data i) \<longrightarrow> page_entry (objs s') dir n AND 7 =
        (if le32 data (phdr_pos data i + 24) AND PF_W \<noteq> 0 then 7 else 5))) \<and>
    (\<forall>j < 16384. mmu dir (0x3FB000 + of_nat j) s' = Some (stack + of_nat j)) \<and>
    (\<forall>n < 2 ^ 20. n \<notin> stack_pages \<longrightarrow> (\<forall>i < phdr_count data. n \<notin> segment_pages data (phdr_pos data i)) \<longrightarrow>
      page_entry (objs s') dir n = of_nat (4096 * n) OR 5) \<and> kept (tail_of ts) s s'"
proof -
  obtain new ef memory stack task c dir name s' where l: "process_load filename s =
      Some (0, new, s'\<lparr>processes := (processes s)[k := new]\<rparr>)" "objs s new = None" "cstr name = take 107 (cstr filename)"
    "process_space s' new (zero_process\<lparr>p_id := of_nat k, p_filename := name, p_task := task,
      p_filetype := PROCESS_FILETYPE_ELF, p_ptr := ef, p_stack := stack\<rparr>) c dir"
    "elf_loaded s' ef memory data" "memory mod 4096 = 0" "unat memory \<le> 2 ^ 31" "stack mod 4096 = 0" "unat stack + 16384 \<le> 2 ^ 31"
    "objs s' stack = Some (OBytes (replicate 16384 0))" "mem_inv s'" "task_list s' (ts @ [task])"
    "t_registers (task_at s' task) = start_registers (le32 data 24)" "t_process (task_at s' task) = new"
    "\<forall>k < 2 ^ 20. page_entry (objs s') dir k =
       foldl map_region (\<lambda>n. of_nat (4096 * n) OR 5) (program_regions memory data stack) k"
    "kept (tail_of ts) s s'" "current_task s' = (if ts = [] then task else current_task s)"
    by (rule process_load_ok [OF assms(1-7,9-11)])
  let ?s = "s'\<lparr>processes := (processes s)[k := new]\<rparr>"
  have c: "objs ?s (t_page_directory (task_at ?s task)) = Some (OChunk dir)" "pd_ok (objs ?s) dir"
    using l(4) by (auto simp: process_space_def task_at_def)
  have o': "objs ?s new = Some (OProcess (zero_process\<lparr>p_id := of_nat k, p_filename := name, p_task := task,
      p_filetype := PROCESS_FILETYPE_ELF, p_ptr := ef, p_stack := stack\<rparr>))"
    using l(4) by (simp add: process_space_def)
  have t: "task_at ?s task = task_at s' task" by (simp add: task_at_def)
  have tl: "task_list ?s (ts @ [task])" "elf_loaded ?s ef memory data" "mem_inv ?s"
    by (rule task_list_keep(1) [OF l(12)]) (use l(5,11) in \<open>simp_all add: elf_loaded_def mem_inv_def\<close>)
  have e: "\<forall>k < 2 ^ 20. page_entry (objs ?s) dir k =
       foldl map_region (\<lambda>n. of_nat (4096 * n) OR 5) (program_regions memory data stack) k"
    using l(15) by simp
  note sp = program_space [OF c(2) assms(7,8) l(6-9) e]
  have segs: "\<forall>i < phdr_count data.
      (\<forall>j < unat (le32 data (phdr_pos data i + 20)). mmu dir (le32 data (phdr_pos data i + 8) + of_nat j) ?s =
        Some (memory + le32 data (phdr_pos data i + 4) + of_nat j)) \<and>
      (\<forall>n < 2 ^ 20. n \<in> segment_pages data (phdr_pos data i) \<longrightarrow> page_entry (objs ?s) dir n AND 7 =
        (if le32 data (phdr_pos data i + 24) AND PF_W \<noteq> 0 then 7 else 5))" by (intro allI impI conjI sp(1,4))
  have stack: "\<forall>j < 16384. mmu dir (0x3FB000 + of_nat j) ?s = Some (stack + of_nat j)" by (intro allI impI sp(2))
  have rest: "\<forall>n < 2 ^ 20. n \<notin> stack_pages \<longrightarrow> (\<forall>i < phdr_count data. n \<notin> segment_pages data (phdr_pos data i)) \<longrightarrow>
      page_entry (objs ?s) dir n = of_nat (4096 * n) OR 5" using sp(3) by blast
  have kp: "kept (tail_of ts) s ?s" using l(16) kept_cong [of ?s s'] by simp
  have ps: "processes ?s = (processes s)[k := new]" "objs ?s stack = Some (OBytes (replicate 16384 0))" by (simp_all add: l(10))
  show ?thesis
    by (intro exI conjI, rule l(1), rule tl(3), rule l(2), rule ps(1), rule o', rule l(3), rule tl(2), rule ps(2), rule tl(1),
        simp only: t l(14), simp only: t l(13), rule c(1), rule segs, rule stack, rule rest, rule kp)
qed

lemma sample_elf_segments:
  "phdr_count sample_elf = 2" "phdr_pos sample_elf 0 = 52" "phdr_pos sample_elf 1 = 84" "phdr_pos sample_elf (Suc 0) = 84"
  "le32 sample_elf 56 = 0" "le32 sample_elf 60 = 0x400000" "le32 sample_elf 72 = 0x64"
  "le32 sample_elf 88 = 0x64" "le32 sample_elf 92 = 0x401064" "le32 sample_elf 104 = 0x20"
  by (simp_all add: phdr_pos_def phdr_count_def sample_elf_def le32_def le16_def)

lemma sample_elf_loadable: "loadable sample_elf" "separate_segments sample_elf"
proof -
  have u: "unat (0x400000 :: u32) = 0x400000" "unat (0x401064 :: u32) = 0x401064" "blocks_for 0x64 = 1" "blocks_for 0x84 = 1"
    by (simp_all add: blocks_for_def)
  have "\<forall>j < 2. segment_ok sample_elf (phdr_pos sample_elf j)"
    by (auto simp: less_2_cases_iff sample_elf_segments segment_ok_def)
  then show "loadable sample_elf" by (simp add: loadable_def sample_elf_header sample_elf_segments)
  have "segment_pages sample_elf (phdr_pos sample_elf 0) = {0x400}" "segment_pages sample_elf (phdr_pos sample_elf 1) = {0x401}"
    by (auto simp: segment_pages_def sample_elf_segments page_def u)
  then show "separate_segments sample_elf"
    by (auto simp: separate_segments_def sample_elf_segments(1) less_2_cases_iff stack_pages_def)
qed

lemma sample_program_on_disk: "program_on_disk elf_volume sample_private (sample_elf_state [] 1500) (lit ''0:/a.elf'') sample_elf"
proof -
  have "first_slot 0 (replicate 512 (0 :: u32)) = Some 0" by (simp add: numeral_eq_Suc)
  moreover have "fat_layout sample_private" by (rule sample_mounted_ok(2) [of "[]"]) simp
  moreover have "unat (fat16_get_first_cluster elf_item) = 2" "unat (item_filesize elf_item) = 116" "length sample_elf = 116"
    by (simp_all add: fat16_get_first_cluster_def le16_def item_filesize_def le32_def elf_item_def sample_elf_def)
  ultimately show ?thesis
    using sample_elf_state_ok [of "[]" 1500] sample_elf_data unfolding program_on_disk_def by (auto intro!: exI [of _ elf_item])
qed

theorem process_load_program_witness:
  "\<exists>new memory task dir s'. process_load (lit ''0:/a.elf'') (sample_elf_state [] 1500) = Some (0, new, s') \<and>
     processes s' = new # replicate 11 0 \<and> objs s' memory = Some (OBytes sample_elf) \<and> task_list s' [task] \<and>
     objs s' (t_page_directory (task_at s' task)) = Some (OChunk dir) \<and> mmu dir (0x401064 + of_nat 3) s' = Some (memory + 0x64 + of_nat 3)"
proof -
  let ?s = "sample_elf_state [] 1500"
  note s = sample_elf_state_ok [of "[]" 1500]
  have l: "length sample_elf = 116" "blocks_for 116 = 1" by (simp_all add: sample_elf_def blocks_for_def)
  have p: "processes ?s = replicate 12 0" "task_head ?s = 0" by (simp_all add: sample_elf_state_def)
  have r: "room ?s (11 + blocks_for (length sample_elf)) (max 4 (blocks_for (length sample_elf)))"
    "1042 + blocks_for (length sample_elf) \<le> free_blocks ?s" using s(3,8) by (simp_all add: room_def l)
  have f: "first_slot 0 (processes ?s) = Some 0" "length (processes ?s) = 12" unfolding p by (simp_all add: numeral_eq_Suc)
  have z: "0 \<in> set (lit ''0:/a.elf'')" by (simp add: lit_def)
  have m: "mem_inv ?s" "low_heap ?s" using s(1,2) by simp_all
  have t: "[] = [] \<and> task_head ?s = 0 \<or> task_list ?s []" using p by simp
  have i: "(1 :: nat) < phdr_count sample_elf" "3 < unat (le32 sample_elf (phdr_pos sample_elf 1 + 20))"
    by (simp_all add: sample_elf_segments)
  from process_load_program [OF m r sample_program_on_disk z sample_elf_loadable f t]
  obtain new ef memory stack task dir name s' where "process_load (lit ''0:/a.elf'') ?s = Some (0, new, s')"
    "processes s' = (processes ?s)[0 := new]" "elf_loaded s' ef memory sample_elf" "task_list s' ([] @ [task])"
    "objs s' (t_page_directory (task_at s' task)) = Some (OChunk dir)"
    "mmu dir (le32 sample_elf (phdr_pos sample_elf 1 + 8) + of_nat 3) s' =
       Some (memory + le32 sample_elf (phdr_pos sample_elf 1 + 4) + of_nat 3)" using i by blast
  moreover have "(replicate 12 0)[0 := new] = new # replicate 11 0" by (simp add: numeral_eq_Suc)
  ultimately show ?thesis by (auto simp: p sample_elf_segments elf_loaded_def)
qed

end
