(* ===== verification/UserHeap.thy ===== *)
theory UserHeap
  imports AddressSpace
begin

text \<open>
  The memory of a process over a run of calls: what is well-formed about a process, its table of
  allocations and its address space, and that no sequence of allocations and releases breaks it.
\<close>

section \<open>Well-formed processes\<close>

text \<open>An entry is empty, or a live object of its size at an aligned place of the heap.\<close>

definition allocation_ok :: "kernel \<Rightarrow> process_allocation \<Rightarrow> bool" where
  "allocation_ok s a \<longleftrightarrow> (if pa_ptr a = 0 then pa_size a = 0
     else size_ok (pa_size a) \<and> unat (pa_ptr a) + 4096 * blocks_for (unat (pa_size a)) \<le> 2 ^ 31 \<and>
       (\<exists>b. objs s (pa_ptr a) = Some (OBytes b) \<and> length b = unat (pa_size a)))"

definition allocations_typed :: "kernel \<Rightarrow> process_allocation list \<Rightarrow> bool" where
  "allocations_typed s as \<longleftrightarrow> (\<forall>a \<in> set as. allocation_ok s a) \<and>
     (\<forall>i < length as. \<forall>j < length as. i \<noteq> j \<longrightarrow> pa_ptr (as ! i) \<noteq> 0 \<longrightarrow> pa_ptr (as ! i) \<noteq> pa_ptr (as ! j))"

definition process_typed :: "kernel \<Rightarrow> u32 \<Rightarrow> bool" where
  "process_typed s q \<longleftrightarrow> mem_inv s \<and> low_heap s \<and>
     (\<exists>p c dir. process_space s q p c dir \<and> allocations_typed s (p_allocations p))"

lemma allocation_ok_keep:
  "allocation_ok s a \<Longrightarrow> (\<And>b. objs s (pa_ptr a) = Some (OBytes b) \<Longrightarrow> pa_ptr a \<noteq> 0 \<Longrightarrow> objs s' (pa_ptr a) = Some (OBytes b)) \<Longrightarrow>
     allocation_ok s' a"
  by (auto simp: allocation_ok_def)

lemma allocations_typed_keep:
  assumes "allocations_typed s as" "\<And>x b. objs s x = Some (OBytes b) \<Longrightarrow> objs s' x = Some (OBytes b)"
  shows "allocations_typed s' as"
  using assms(1) allocation_ok_keep [of s _ s'] assms(2) unfolding allocations_typed_def by blast

text \<open>Filling an empty entry with a fresh object, and emptying one.\<close>

lemma allocations_typed_fill:
  assumes "allocations_typed s as" "i < length as" "allocation_ok s' a" "pa_ptr a \<noteq> 0" "objs s (pa_ptr a) = None"
    "\<And>x b. objs s x = Some (OBytes b) \<Longrightarrow> objs s' x = Some (OBytes b)"
  shows "allocations_typed s' (as[i := a])"
proof -
  have "pa_ptr b \<noteq> pa_ptr a" if "b \<in> set as" for b
    using assms(1,4,5) that unfolding allocations_typed_def allocation_ok_def by (metis option.distinct(1))
  then have ne: "pa_ptr (as ! j) \<noteq> pa_ptr a" if "j < length as" for j using that nth_mem by blast
  have "allocation_ok s' b" if "b \<in> set (as[i := a])" for b
    using set_update_subset_insert [of as i a] that assms(3) allocations_typed_keep [OF assms(1,6)]
    by (auto simp: allocations_typed_def)
  moreover have "pa_ptr (as[i := a] ! j) \<noteq> pa_ptr (as[i := a] ! k)"
    if "j < length as" "k < length as" "j \<noteq> k" "pa_ptr (as[i := a] ! j) \<noteq> 0" for j k
  proof -
    have "pa_ptr (as ! j) \<noteq> pa_ptr (as ! k)" if "j \<noteq> i"
      using \<open>j < length as\<close> \<open>k < length as\<close> \<open>j \<noteq> k\<close> \<open>pa_ptr (as[i := a] ! j) \<noteq> 0\<close> that assms(1)
      unfolding allocations_typed_def by simp
    then show ?thesis using that(1-3) ne [OF that(1)] ne [OF that(2)] by (cases "j = i"; cases "k = i") simp_all
  qed
  ultimately show ?thesis unfolding allocations_typed_def by simp
qed

lemma allocations_typed_clear:
  assumes "allocations_typed s as" "i < length as" "pa_ptr (as ! i) = x" "x \<noteq> 0"
    "\<And>y b. objs s y = Some (OBytes b) \<Longrightarrow> y \<noteq> x \<Longrightarrow> objs s' y = Some (OBytes b)"
  shows "allocations_typed s' (as[i := \<lparr>pa_ptr = 0, pa_size = 0\<rparr>])"
proof -
  let ?z = "\<lparr>pa_ptr = 0, pa_size = 0\<rparr>"
  have "allocation_ok s' (as[i := ?z] ! j)" if j: "j < length as" for j
  proof (cases "j = i")
    case True
    then show ?thesis using assms(2) by (simp add: allocation_ok_def)
  next
    case False
    have "pa_ptr (as ! i) \<noteq> pa_ptr (as ! j)"
      using assms(1-4) j False unfolding allocations_typed_def by blast
    then have "pa_ptr (as ! j) \<noteq> x" using assms(3) by simp
    moreover have ok: "allocation_ok s (as ! j)" using assms(1) j by (simp add: allocations_typed_def)
    ultimately have "allocation_ok s' (as ! j)" using allocation_ok_keep [OF ok, of s'] assms(5) by blast
    then show ?thesis using False by simp
  qed
  then have "\<forall>a \<in> set (as[i := ?z]). allocation_ok s' a" by (auto simp: in_set_conv_nth)
  moreover have "pa_ptr (as[i := ?z] ! j) \<noteq> pa_ptr (as[i := ?z] ! k)"
    if "j < length as" "k < length as" "j \<noteq> k" "pa_ptr (as[i := ?z] ! j) \<noteq> 0" for j k
  proof -
    have "j \<noteq> i" using that(1,4) by auto
    moreover have "pa_ptr (as ! j) \<noteq> pa_ptr (as ! k)"
      using that \<open>j \<noteq> i\<close> assms(1) unfolding allocations_typed_def by simp
    ultimately show ?thesis using that by (cases "k = i") simp_all
  qed
  ultimately show ?thesis unfolding allocations_typed_def by simp
qed

section \<open>Preservation\<close>

lemma process_malloc_typed:
  assumes "process_typed s q" "size_ok sz" "kzalloc sz (OBytes (replicate (unat sz) 0)) s = Some (a, s1)"
  obtains ptr s' where "process_malloc q sz s = Some (ptr, s')" "process_typed s' q"
proof -
  obtain p c dir where t: "mem_inv s" "low_heap s" "process_space s q p c dir" "allocations_typed s (p_allocations p)"
    using assms(1) by (auto simp: process_typed_def)
  let ?z = "OBytes (replicate (unat sz) 0)"
  note k = assms(3)
  show thesis
  proof (cases "a = 0")
    case True
    then have "s1 = s" using kzalloc_null [of sz ?z s s1] k t(1) assms(2) by simp
    then have "process_malloc q sz s = Some (0, s)" using k True by (simp add: process_malloc_def)
    then show thesis using that assms(1) by blast
  next
    case a0: False
    note k' = kzalloc_spec [OF t(1) assms(2) k a0] and r = kzalloc_range [OF t(1,2) assms(2) k a0]
    have lh: "low_heap s1" using t(2) low_heap_step [OF r(2)] by simp
    have sp1: "process_space s1 q p c dir" by (rule process_space_alloc(1) [OF t(3) k'(1,2)])
    have b1: "objs s1 x = Some (OBytes b)" if "objs s x = Some (OBytes b)" for x b using that k'(1,2) by auto
    show thesis
    proof (cases "first_slot 0 (map pa_ptr (p_allocations p))")
      case None
      then have "process_malloc q sz s = Some (0, s1)" using k a0 process_space_get(1) [OF sp1]
        by (simp add: process_malloc_def process_find_free_allocation_index_def status_defs)
      then show thesis using that k'(3) lh sp1 allocations_typed_keep [OF t(4) b1] unfolding process_typed_def by blast
    next
      case (Some i)
      let ?a = "\<lparr>pa_ptr = a, pa_size = sz\<rparr>"
      obtain s2 where s2: "process_malloc q sz s = Some (a, s2)" "mem_inv s2" "heap_step s1 s2"
        "process_space s2 q (p\<lparr>p_allocations := (p_allocations p)[i := ?a]\<rparr>) c dir" "objs s2 a = Some ?z"
        "\<forall>x y. objs s x = Some y \<longrightarrow> x \<noteq> q \<longrightarrow> (\<forall>w. y \<noteq> OWords w) \<longrightarrow> objs s2 x = Some y"
        by (rule process_malloc_ok [OF t(1-3) assms(2) k a0 Some]) blast
      have i: "i < length (p_allocations p)" using Some by (simp add: first_slot_Some)
      have "objs s2 x = Some (OBytes b)" if "objs s x = Some (OBytes b)" for x b
      proof -
        have "x \<noteq> q" using that process_space_get(5) [OF t(3)] by auto
        then show ?thesis using s2(6) that by blast
      qed
      moreover have "allocation_ok s2 ?a" using s2(5) assms(2) r(1) a0 by (simp add: allocation_ok_def)
      ultimately have "allocations_typed s2 ((p_allocations p)[i := ?a])"
        using allocations_typed_fill [OF t(4) i, of s2 ?a] a0 k'(1) by simp
      then have "process_typed s2 q" unfolding process_typed_def
        using s2(2,4) lh low_heap_step [OF s2(3)] by (intro conjI exI [of _ "p\<lparr>p_allocations := (p_allocations p)[i := ?a]\<rparr>"]) auto
      then show thesis using that s2(1) by blast
    qed
  qed
qed

lemma process_free_typed:
  assumes "process_typed s q" "ptr \<noteq> 0"
  obtains s' where "process_free q ptr s = Some s'" "process_typed s' q"
proof -
  obtain p c dir where t: "mem_inv s" "low_heap s" "process_space s q p c dir" "allocations_typed s (p_allocations p)"
    using assms(1) by (auto simp: process_typed_def)
  let ?as = "p_allocations p"
  show thesis
  proof (cases "process_get_allocation_by_address p ptr")
    case None
    then have "process_free q ptr s = Some s" using process_space_get(1) [OF t(3)] by (simp add: process_free_def)
    then show thesis using that assms(1) by blast
  next
    case (Some a)
    then obtain i where i: "i < length ?as" "pa_ptr (?as ! i) = ptr"
      by (auto simp: process_get_allocation_by_address_def find_Some_iff)
    have ok: "allocation_ok s (?as ! i)" using t(4) i(1) by (simp add: allocations_typed_def)
    then obtain b where b: "objs s ptr = Some (OBytes b)" "unat ptr + 4096 * blocks_for (unat (pa_size (?as ! i))) \<le> 2 ^ 31"
      using i(2) assms(2) by (auto simp: allocation_ok_def)
    have e: "?as ! i = \<lparr>pa_ptr = ptr, pa_size = pa_size (?as ! i)\<rparr>" using i(2) by (simp add: process_allocation.equality)
    have u: "\<forall>j < length ?as. j \<noteq> i \<longrightarrow> pa_ptr (?as ! j) \<noteq> ptr"
      using t(4) i assms(2) unfolding allocations_typed_def by metis
    have m: "ptr mod 4096 = 0" using live_place(1) [OF t(1,2), of ptr] b(1) by simp
    have le: "unat ptr + 4096 * blocks_for (unat (pa_size (?as ! i))) < 2 ^ 32" using b(2) by simp
    let ?as' = "?as[i := \<lparr>pa_ptr = 0, pa_size = 0\<rparr>]"
    obtain s' where s': "process_free q ptr s = Some s'" "mem_inv s'" "objs s' ptr = None"
      "process_space s' q (p\<lparr>p_allocations := ?as'\<rparr>) c dir"
      "\<forall>x y. objs s x = Some y \<longrightarrow> x \<noteq> q \<longrightarrow> x \<noteq> ptr \<longrightarrow> (\<forall>w. y \<noteq> OWords w) \<longrightarrow> objs s' x = Some y" "heap_step s s'"
      by (rule process_free_ok [OF t(1,3) i(1) assms(2) e u b(1) m le]) blast
    have keep: "objs s' y = Some (OBytes b)" if "objs s y = Some (OBytes b)" "y \<noteq> ptr" for y b
    proof -
      have "y \<noteq> q" using that(1) process_space_get(5) [OF t(3)] by auto
      then show ?thesis using s'(5) that by blast
    qed
    have "allocations_typed s' ?as'" by (rule allocations_typed_clear [OF t(4) i assms(2) keep])
    then have "process_typed s' q" unfolding process_typed_def
      using s'(2,4) t(2) low_heap_step [OF s'(6)] by (intro conjI exI [of _ "p\<lparr>p_allocations := ?as'\<rparr>"]) auto
    then show thesis using that s'(1) by blast
  qed
qed

section \<open>Runs\<close>

text \<open>A call of a process that returned, for its memory.\<close>

inductive memory_call :: "u32 \<Rightarrow> kernel \<Rightarrow> kernel \<Rightarrow> bool" for q where
  malloc: "size_ok sz \<Longrightarrow> process_malloc q sz s = Some (ptr, s') \<Longrightarrow> memory_call q s s'"
| free: "ptr \<noteq> 0 \<Longrightarrow> process_free q ptr s = Some s' \<Longrightarrow> memory_call q s s'"

inductive_cases memory_callE: "memory_call q s s'"

lemma memory_call_typed: "memory_call q s s' \<Longrightarrow> process_typed s q \<Longrightarrow> process_typed s' q"
proof (elim memory_callE)
  fix sz ptr assume a: "process_typed s q" "size_ok sz" "process_malloc q sz s = Some (ptr, s')"
  then obtain x s1 where k: "kzalloc sz (OBytes (replicate (unat sz) 0)) s = Some (x, s1)"
    by (auto simp: process_malloc_def bind_Some)
  show "process_typed s' q" by (rule process_malloc_typed [OF a(1,2) k]) (use a(3) in simp)
next
  fix ptr assume a: "process_typed s q" "ptr \<noteq> 0" "process_free q ptr s = Some s'"
  show "process_typed s' q" by (rule process_free_typed [OF a(1,2)]) (use a(3) in simp)
qed

lemma memory_calls_typed: "(memory_call q)\<^sup>*\<^sup>* s s' \<Longrightarrow> process_typed s q \<Longrightarrow> process_typed s' q"
  by (induction rule: rtranclp_induct) (auto intro: memory_call_typed)

section \<open>Properties\<close>



end
