(* ===== verification/Idt.thy ===== *)
theory Idt
  imports Terminal Disk
begin

unbundle bit_operations_syntax

text \<open>
  The tables of \<open>src/src/idt/idt.c\<close>: the interrupt descriptors, the callbacks of the interrupts and the
  functions of the system calls. \<open>idt_descriptors\<close> is a list; the addresses of the assembly stubs in
  \<open>idt.asm\<close> are parameters. Loading the descriptor register is not modelled: its contents are a result.
\<close>

definition PLUMOS_TOTAL_INTERRUPTS :: nat where "PLUMOS_TOTAL_INTERRUPTS = 512"
definition PLUMOS_MAX_ISR80H_COMMANDS :: int where "PLUMOS_MAX_ISR80H_COMMANDS = 1024"
definition KERNEL_CODE_SELECTOR :: u16 where "KERNEL_CODE_SELECTOR = 0x08"

record idt_desc =
  offset_lo :: u16
  selector :: u16
  reserved :: u8
  type_attr :: u8
  offset_hi :: u16

record idtr_desc =
  idtr_limit :: u16
  idtr_base :: u32

definition zero_desc :: idt_desc where
  "zero_desc = \<lparr>offset_lo = 0, selector = 0, reserved = 0, type_attr = 0, offset_hi = 0\<rparr>"

definition no_interrupt_handler :: "kernel \<Rightarrow> kernel" where
  "no_interrupt_handler s = outb 0x20 0x20 s"

definition idt_zero :: "kernel \<Rightarrow> kernel option" where
  "idt_zero s = print (lit ''Error: Divinding By Zero'' @ [0x0A, 0]) s"

definition idt_set :: "int \<Rightarrow> u32 \<Rightarrow> idt_desc list \<Rightarrow> idt_desc list option" where
  "idt_set interrupt_number addr descs =
     arr_set descs interrupt_number
       \<lparr>offset_lo = ucast (addr AND 0x0000ffff), selector = KERNEL_CODE_SELECTOR, reserved = 0,
        type_attr = 0xEE, offset_hi = ucast (drop_bit 16 addr)\<rparr>"

text \<open>The loops set the entries from \<open>i\<close> on.\<close>

fun idt_set_from :: "int \<Rightarrow> u32 list \<Rightarrow> idt_desc list \<Rightarrow> idt_desc list option" where
  "idt_set_from i [] descs = Some descs"
| "idt_set_from i (addr # addrs) descs =
     do { descs \<leftarrow> idt_set i addr descs; idt_set_from (i + 1) addrs descs }"

definition set_no_interrupt_handlers :: "u32 \<Rightarrow> idt_desc list \<Rightarrow> idt_desc list option" where
  "set_no_interrupt_handlers no_interrupt descs =
     idt_set_from 0 (replicate PLUMOS_TOTAL_INTERRUPTS no_interrupt) descs"

definition idt_register_interrupt_callback :: "int \<Rightarrow> interrupt_callback \<Rightarrow> kernel \<Rightarrow> (int \<times> kernel) option" where
  "idt_register_interrupt_callback interrupt callback s =
     (if interrupt < 0 \<or> interrupt \<ge> int PLUMOS_TOTAL_INTERRUPTS then Some (- EINVARG, s)
      else do {
        cs \<leftarrow> arr_set (interrupt_callbacks s) interrupt (Some callback);
        Some (0, s\<lparr>interrupt_callbacks := cs\<rparr>)
      })"

fun register_exceptions :: "nat \<Rightarrow> int \<Rightarrow> kernel \<Rightarrow> kernel option" where
  "register_exceptions 0 i s = Some s"
| "register_exceptions (Suc n) i s =
     do {
       (r, s) \<leftarrow> idt_register_interrupt_callback i HandleException s;
       register_exceptions n (i + 1) s
     }"

text \<open>\<open>base\<close> is the address of the descriptors.\<close>

definition idt_init ::
  "u32 \<Rightarrow> u32 list \<Rightarrow> u32 \<Rightarrow> idt_desc list \<Rightarrow> kernel \<Rightarrow> (idt_desc list \<times> idtr_desc \<times> kernel) option" where
  "idt_init base interrupt_pointer_table isr80h_wrapper descs s =
     do {
       let descs = replicate (length descs) zero_desc;
       let idtr = \<lparr>idtr_limit = of_nat (8 * length descs - 1), idtr_base = base\<rparr>;
       descs \<leftarrow> idt_set_from 0 (take PLUMOS_TOTAL_INTERRUPTS interrupt_pointer_table) descs;
       descs \<leftarrow> idt_set 0x80 isr80h_wrapper descs;
       s \<leftarrow> register_exceptions 0x20 0 s;
       (r, s) \<leftarrow> idt_register_interrupt_callback 0x20 Clock s;
       Some (descs, idtr, s)
     }"

text \<open>Both errors are panics.\<close>

definition isr80h_register_command :: "int \<Rightarrow> isr_command \<Rightarrow> kernel \<Rightarrow> kernel option" where
  "isr80h_register_command command_id command s =
     (if command_id < 0 \<or> command_id \<ge> PLUMOS_MAX_ISR80H_COMMANDS then None
      else do {
        old \<leftarrow> arr_get (isr80h_commands s) command_id;
        if old \<noteq> None then None
        else do {
          cs \<leftarrow> arr_set (isr80h_commands s) command_id (Some command);
          Some (s\<lparr>isr80h_commands := cs\<rparr>)
        }
      })"

end
