(* ===== verification/Keyboard.thy ===== *)
theory Keyboard
  imports Idt Process
begin

unbundle bit_operations_syntax

text \<open>
  The keyboard (\<open>src/src/keyboard/keyboard.c\<close>, \<open>src/src/keyboard/classic.c\<close>): the list of drivers, the
  queue of keys of a process and the driver, which translates scan codes and puts them in the queue of the
  current process.
\<close>

definition KEYBOARD_CAPSLOCK_OFF :: int where "KEYBOARD_CAPSLOCK_OFF = 0"
definition KEYBOARD_CAPSLOCK_ON :: int where "KEYBOARD_CAPSLOCK_ON = 1"
definition PS2_PORT :: u16 where "PS2_PORT = 0x64"
definition PS2_COMMAND_ENABLE_FIRST_PORT :: u8 where "PS2_COMMAND_ENABLE_FIRST_PORT = 0xAE"
definition KEYBOARD_INPUT_PORT :: u16 where "KEYBOARD_INPUT_PORT = 0x60"
definition CLASSIC_KEYBOARD_KEY_RELEASED :: u8 where "CLASSIC_KEYBOARD_KEY_RELEASED = 0x80"
definition ISR_KEYBOARD_INTERRUPT :: int where "ISR_KEYBOARD_INTERRUPT = 0x21"
definition CLASSIC_KEYBOARD_CAPSLOCK :: u8 where "CLASSIC_KEYBOARD_CAPSLOCK = 0x3A"

section \<open>The queue\<close>

text \<open>\<open>tail\<close> is converted to the unsigned type of \<open>sizeof\<close>.\<close>

definition keyboard_get_tail_index :: "keyboard_buffer \<Rightarrow> int" where
  "keyboard_get_tail_index k = uint (to_u32 (kb_tail k) mod of_nat PLUMOS_KEYBOARD_BUFFER_SIZE)"

definition keyboard_backspace :: "u32 \<Rightarrow> kernel \<Rightarrow> kernel option" where
  "keyboard_backspace process s =
     do {
       p \<leftarrow> get_process s process;
       let k = p_keyboard p;
       if kb_tail k = 0 then Some s
       else do {
         t \<leftarrow> s32 (kb_tail k - 1);
         let k = k\<lparr>kb_tail := t\<rparr>;
         b \<leftarrow> arr_set (kb_buffer k) (keyboard_get_tail_index k) 0;
         put process (OProcess (p\<lparr>p_keyboard := k\<lparr>kb_buffer := b\<rparr>\<rparr>)) s
       }
     }"

definition keyboard_push :: "u8 \<Rightarrow> kernel \<Rightarrow> kernel option" where
  "keyboard_push c s =
     (if process_current s = 0 then Some s
      else if c = 0 then Some s
      else do {
        p \<leftarrow> get_process s (process_current s);
        let k = p_keyboard p;
        b \<leftarrow> arr_set (kb_buffer k) (keyboard_get_tail_index k) c;
        t \<leftarrow> s32 (kb_tail k + 1);
        put (process_current s) (OProcess (p\<lparr>p_keyboard := k\<lparr>kb_buffer := b, kb_tail := t\<rparr>\<rparr>)) s
      })"

definition keyboard_pop :: "kernel \<Rightarrow> (u8 \<times> kernel) option" where
  "keyboard_pop s =
     (if task_current s = 0 then Some (0, s)
      else do {
        t \<leftarrow> get_task s (task_current s);
        p \<leftarrow> get_process s (t_process t);
        let k = p_keyboard p;
        let real_index = uint (to_u32 (kb_head k) mod of_nat PLUMOS_KEYBOARD_BUFFER_SIZE);
        c \<leftarrow> arr_get (kb_buffer k) real_index;
        if c = 0 then Some (0, s)
        else do {
          b \<leftarrow> arr_set (kb_buffer k) real_index 0;
          h \<leftarrow> s32 (kb_head k + 1);
          s \<leftarrow> put (t_process t) (OProcess (p\<lparr>p_keyboard := k\<lparr>kb_buffer := b, kb_head := h\<rparr>\<rparr>)) s;
          Some (c, s)
        }
      })"

section \<open>The driver\<close>

definition keyboard_set_capslock :: "keyboard_ptr \<Rightarrow> int \<Rightarrow> kernel \<Rightarrow> kernel option" where
  "keyboard_set_capslock keyboard st s =
     (if keyboard = NullKeyboard then None
      else Some (s\<lparr>classic_keyboard := (classic_keyboard s)\<lparr>kbd_capslock_state := st\<rparr>\<rparr>))"

definition keyboard_get_capslock :: "keyboard_ptr \<Rightarrow> kernel \<Rightarrow> int option" where
  "keyboard_get_capslock keyboard s =
     (if keyboard = NullKeyboard then None else Some (kbd_capslock_state (classic_keyboard s)))"

definition lit_chars :: "string \<Rightarrow> u8 list" where
  "lit_chars cs = map (\<lambda>c. of_nat (of_char c :: nat)) cs"

definition keyboard_scan_set_one :: "u8 list" where
  "keyboard_scan_set_one =
     [0x00, 0x1B] @ lit_chars ''1234567890-='' @ [0x08, 0x09] @
     lit_chars ''QWERTYUIOP[]'' @ [0x0D, 0x00] @ lit_chars ''ASDFGHJKL;'' @ [0x27, 0x60, 0x00, 0x5C] @
     lit_chars ''ZXCVBNM,./'' @ [0x00, 0x2A, 0x00, 0x20, 0x00, 0x00, 0x00, 0x00, 0x00,
      0x00, 0x00, 0x00, 0x00, 0x00, 0x00] @
     lit_chars ''789-456+1230.''"

definition classic_keyboard_scancode_to_char :: "u8 \<Rightarrow> kernel \<Rightarrow> u8 option" where
  "classic_keyboard_scancode_to_char scancode s =
     (if uint scancode \<ge> int (length keyboard_scan_set_one) then Some 0
      else do {
        c \<leftarrow> arr_get keyboard_scan_set_one (uint scancode);
        capslock \<leftarrow> keyboard_get_capslock TheClassic s;
        Some (if capslock = KEYBOARD_CAPSLOCK_OFF \<and> sint c \<ge> 0x41 \<and> sint c \<le> 0x5A then c + 32 else c)
      })"

definition classic_keyboard_init :: "kernel \<Rightarrow> (int \<times> kernel) option" where
  "classic_keyboard_init s =
     do {
       (r, s) \<leftarrow> idt_register_interrupt_callback ISR_KEYBOARD_INTERRUPT ClassicKeyboard s;
       s \<leftarrow> keyboard_set_capslock TheClassic KEYBOARD_CAPSLOCK_OFF s;
       Some (0, outb PS2_PORT PS2_COMMAND_ENABLE_FIRST_PORT s)
     }"

definition classic_init :: keyboard_ptr where
  "classic_init = TheClassic"

definition keyboard_insert :: "keyboard_ptr \<Rightarrow> kernel \<Rightarrow> (int \<times> kernel) option" where
  "keyboard_insert keyboard s =
     (if keyboard = NullKeyboard then None
      else if \<not> kbd_init (classic_keyboard s) then Some (- EINVARG, s)
      else classic_keyboard_init
        (if keyboard_list_last s \<noteq> NullKeyboard
         then s\<lparr>classic_keyboard := (classic_keyboard s)\<lparr>kbd_next := keyboard\<rparr>, keyboard_list_last := keyboard\<rparr>
         else s\<lparr>keyboard_list_head := keyboard, keyboard_list_last := keyboard\<rparr>))"

definition keyboard_init :: "kernel \<Rightarrow> kernel option" where
  "keyboard_init s = do { (r, s) \<leftarrow> keyboard_insert classic_init s; Some s }"

definition classic_keyboard_handle_interrupt :: "kernel \<Rightarrow> kernel option" where
  "classic_keyboard_handle_interrupt s =
     do {
       s \<leftarrow> kernel_page s;
       let (scancode, s) = insb KEYBOARD_INPUT_PORT s;
       let (ignored, s) = insb KEYBOARD_INPUT_PORT s;
       if scancode AND CLASSIC_KEYBOARD_KEY_RELEASED \<noteq> 0 then Some s
       else do {
         s \<leftarrow> (if scancode = CLASSIC_KEYBOARD_CAPSLOCK then do {
                old_state \<leftarrow> keyboard_get_capslock TheClassic s;
                keyboard_set_capslock TheClassic
                  (if old_state = KEYBOARD_CAPSLOCK_ON then KEYBOARD_CAPSLOCK_OFF else KEYBOARD_CAPSLOCK_ON) s
              } else Some s);
         c \<leftarrow> classic_keyboard_scancode_to_char scancode s;
         s \<leftarrow> (if c \<noteq> 0 then keyboard_push c s else Some s);
         (r, s) \<leftarrow> task_page s;
         Some s
       }
     }"

section \<open>A bounded queue\<close>

text \<open>
  The contract of a queue of capacity \<open>cap\<close> in which \<open>null\<close> means that nothing is there: \<open>rep n s q\<close> says
  that \<open>s\<close> holds the elements \<open>q\<close> and can still count \<open>n\<close> insertions.
\<close>

datatype 'a queue_event = Push 'a | Pop

fun run_events ::
  "('a \<Rightarrow> 's \<Rightarrow> 's option) \<Rightarrow> ('s \<Rightarrow> ('a \<times> 's) option) \<Rightarrow> 'a queue_event list \<Rightarrow> 's \<Rightarrow> ('a list \<times> 's) option" where
  "run_events push pop [] s = Some ([], s)"
| "run_events push pop (Push c # evs) s = do { s \<leftarrow> push c s; run_events push pop evs s }"
| "run_events push pop (Pop # evs) s =
     do { (c, s) \<leftarrow> pop s; (cs, s) \<leftarrow> run_events push pop evs s; Some (c # cs, s) }"

text \<open>The elements delivered and those that remain.\<close>

fun deliver :: "'a \<Rightarrow> 'a queue_event list \<Rightarrow> 'a list \<Rightarrow> 'a list \<times> 'a list" where
  "deliver null [] q = ([], q)"
| "deliver null (Push c # evs) q = deliver null evs (if c = null then q else q @ [c])"
| "deliver null (Pop # evs) [] = (let (cs, q) = deliver null evs [] in (null # cs, q))"
| "deliver null (Pop # evs) (c # q) = (let (cs, q) = deliver null evs q in (c # cs, q))"

fun pushes :: "'a queue_event list \<Rightarrow> nat" where
  "pushes [] = 0"
| "pushes (Push c # evs) = Suc (pushes evs)"
| "pushes (Pop # evs) = pushes evs"

fun fits :: "'a \<Rightarrow> nat \<Rightarrow> 'a queue_event list \<Rightarrow> nat \<Rightarrow> bool" where
  "fits null cap [] n \<longleftrightarrow> True"
| "fits null cap (Push c # evs) n \<longleftrightarrow> (if c = null then fits null cap evs n else n < cap \<and> fits null cap evs (Suc n))"
| "fits null cap (Pop # evs) n \<longleftrightarrow> fits null cap evs (n - 1)"

locale fifo =
  fixes rep :: "nat \<Rightarrow> 's \<Rightarrow> 'a list \<Rightarrow> bool"
    and push :: "'a \<Rightarrow> 's \<Rightarrow> 's option"
    and pop :: "'s \<Rightarrow> ('a \<times> 's) option"
    and null :: 'a
    and cap :: nat
  assumes push_rep: "rep (Suc n) s q \<Longrightarrow> c \<noteq> null \<Longrightarrow> length q < cap \<Longrightarrow>
      \<exists>s'. push c s = Some s' \<and> rep n s' (q @ [c])"
    and push_null: "rep n s q \<Longrightarrow> push null s = Some s"
    and pop_empty: "rep n s [] \<Longrightarrow> pop s = Some (null, s)"
    and pop_rep: "rep n s (c # q) \<Longrightarrow> \<exists>s'. pop s = Some (c, s') \<and> rep n s' q"
    and rep_less: "rep (Suc n) s q \<Longrightarrow> rep n s q"
begin

lemma run_rep:
  assumes "rep n s q" "pushes evs \<le> n" "fits null cap evs (length q)"
  shows "\<exists>s' m. run_events push pop evs s = Some (fst (deliver null evs q), s') \<and>
    rep m s' (snd (deliver null evs q))"
  using assms
proof (induction evs arbitrary: n s q)
  case (Cons ev evs)
  show ?case
  proof (cases ev)
    case (Push c)
    then obtain m where m: "n = Suc m" "pushes evs \<le> m" using Cons.prems(2) by (cases n) auto
    show ?thesis
    proof (cases "c = null")
      case True
      then show ?thesis using Cons.IH [of m s q] rep_less push_null Cons.prems m Push by simp
    next
      case False
      then obtain s1 where "push c s = Some s1" "rep m s1 (q @ [c])"
        using push_rep Cons.prems m Push by fastforce
      then show ?thesis using Cons.IH [of m s1 "q @ [c]"] Cons.prems m Push False by simp
    qed
  next
    case Pop
    show ?thesis
    proof (cases q)
      case Nil
      then show ?thesis using Cons.IH [of n s "[]"] pop_empty Cons.prems Pop
        by (fastforce split: prod.splits)
    next
      case (Cons c r)
      then obtain s1 where "pop s = Some (c, s1)" "rep n s1 r" using pop_rep Cons.prems by blast
      then show ?thesis using Cons.IH [of n s1 r] Cons.prems Pop Cons by (fastforce split: prod.splits)
    qed
  qed
qed auto

end

section \<open>The queue of keys\<close>

definition keys :: "nat \<Rightarrow> keyboard_buffer \<Rightarrow> u8 list \<Rightarrow> bool" where
  "keys n k q \<longleftrightarrow> length (kb_buffer k) = 1024 \<and> length q \<le> 1024 \<and> 0 \<notin> set q \<and>
     (\<exists>h. kb_head k = int h \<and> kb_tail k = int (h + length q) \<and> h + length q + n < 2 ^ 31 \<and>
        (\<forall>i < 1024. kb_buffer k ! ((h + i) mod 1024) = (if i < length q then q ! i else 0)))"

lemma key_index:
  assumes "h < 2 ^ 31"
  shows "uint (to_u32 (int h) mod of_nat PLUMOS_KEYBOARD_BUFFER_SIZE) = int (h mod 1024)"
proof -
  have "uint (of_nat h mod 1024 :: u32) = uint (of_nat h :: u32) mod uint (1024 :: u32)"
    by (rule uint_mod_distrib)
  also have "uint (of_nat h :: u32) = int h" using assms by (simp add: unsigned_of_nat take_bit_nat_eq_self)
  finally show ?thesis by (simp add: PLUMOS_KEYBOARD_BUFFER_SIZE_def zmod_int)
qed

lemma ring_inj:
  fixes h i j n :: nat
  assumes "(h + i) mod n = (h + j) mod n" "i < n" "j < n"
  shows "i = j"
proof -
  have le: "i = j" if "(h + i) mod n = (h + j) mod n" "i \<le> j" "j < n" for i j :: nat
  proof -
    have "n dvd (h + j) - (h + i)" using that(1,2) by (metis mod_eq_dvd_iff_nat add_left_mono)
    then have "n dvd j - i" by simp
    then show ?thesis using that(2,3) by (metis diff_is_0_eq' dvd_imp_le diff_diff_cancel diff_le_self
          le_neq_implies_less less_le_trans nat_less_le not_le zero_less_diff)
  qed
  show ?thesis using le [of i j] le [of j i] assms by (cases "i \<le> j") auto
qed

definition put_key :: "keyboard_buffer \<Rightarrow> nat \<Rightarrow> u8 \<Rightarrow> keyboard_buffer" where
  "put_key k t c = k\<lparr>kb_buffer := (kb_buffer k)[t mod 1024 := c], kb_tail := int t + 1\<rparr>"

definition take_key :: "keyboard_buffer \<Rightarrow> nat \<Rightarrow> keyboard_buffer" where
  "take_key k h = k\<lparr>kb_buffer := (kb_buffer k)[h mod 1024 := 0], kb_head := int h + 1\<rparr>"

lemma keys_put:
  assumes "keys (Suc n) k q" "c \<noteq> 0" "length q < 1024" "kb_tail k = int t"
  shows "keys n (put_key k t c) (q @ [c])"
proof -
  have l: "length (kb_buffer k) = 1024" "0 \<notin> set q" using assms(1) unfolding keys_def by blast+
  obtain h where h0: "kb_head k = int h" "kb_tail k = int (h + length q)" "h + length q + Suc n < 2 ^ 31"
    "\<forall>i < 1024. kb_buffer k ! ((h + i) mod 1024) = (if i < length q then q ! i else 0)"
    using assms(1) unfolding keys_def by blast
  have h: "t = h + length q" "\<And>i. i < 1024 \<Longrightarrow> kb_buffer k ! ((h + i) mod 1024) = (if i < length q then q ! i else 0)"
    using h0(2,4) assms(4) by (simp_all only: of_nat_eq_iff)
  have "(kb_buffer k)[t mod 1024 := c] ! ((h + i) mod 1024) = (if i < length (q @ [c]) then (q @ [c]) ! i else 0)"
    if i: "i < 1024" for i
  proof (cases "i = length q")
    case True
    then show ?thesis using l(1) h(1) by simp
  next
    case False
    then have "t mod 1024 \<noteq> (h + i) mod 1024" using ring_inj [of h i 1024 "length q"] i assms(3) h(1) by auto
    then show ?thesis using h(2) [OF i] False by (auto simp: nth_append)
  qed
  then show ?thesis using l h h0(1,3) assms(2,3) unfolding keys_def put_key_def by (intro conjI exI [of _ h]) auto
qed

lemma keys_take:
  assumes "keys n k (c # q)" "kb_head k = int h"
  shows "kb_buffer k ! (h mod 1024) = c" "c \<noteq> 0" "keys n (take_key k h) q"
proof -
  have b: "kb_tail k = int (h + Suc (length q))" "h + Suc (length q) + n < 2 ^ 31"
    "\<And>i. i < 1024 \<Longrightarrow> kb_buffer k ! ((h + i) mod 1024) = (if i < Suc (length q) then (c # q) ! i else 0)"
    and l: "length (kb_buffer k) = 1024" "c \<noteq> 0" "0 \<notin> set q" "Suc (length q) \<le> 1024"
    using assms unfolding keys_def by auto
  show "kb_buffer k ! (h mod 1024) = c" using b(3) [of 0] by simp
  show "c \<noteq> 0" by (rule l(2))
  have "(kb_buffer k)[h mod 1024 := 0] ! ((Suc h + i) mod 1024) = (if i < length q then q ! i else 0)"
    if i: "i < 1024" for i
  proof (cases "i = 1023")
    case True
    then have "(Suc h + i) mod 1024 = h mod 1024" by simp
    then show ?thesis using True l by simp
  next
    case False
    then have i': "Suc i < 1024" using i by simp
    then have "h mod 1024 \<noteq> (h + Suc i) mod 1024" using ring_inj [of h 0 1024 "Suc i"] by auto
    then show ?thesis using b(3) [OF i'] by simp
  qed
  then show "keys n (take_key k h) q" using l b assms(2) unfolding keys_def take_key_def
    by (intro conjI exI [of _ "Suc h"]) auto
qed

text \<open>The process that has the keyboard is the one of the running task.\<close>

definition key_state :: "u32 \<Rightarrow> nat \<Rightarrow> kernel \<Rightarrow> u8 list \<Rightarrow> bool" where
  "key_state process n s q \<longleftrightarrow> current_process s = process \<and> process \<noteq> 0 \<and> current_task s \<noteq> 0 \<and>
     (\<exists>t p. objs s (current_task s) = Some (OTask t) \<and> t_process t = process \<and>
        objs s process = Some (OProcess p) \<and> keys n (p_keyboard p) q)"

lemma key_state_put:
  assumes "key_state process n s q" "objs s process = Some (OProcess p)" "keys m k r"
  shows "key_state process m (s\<lparr>objs := (objs s)(process \<mapsto> OProcess (p\<lparr>p_keyboard := k\<rparr>))\<rparr>) r"
  using assms by (auto simp: key_state_def)

lemma keyboard_push_ok:
  assumes "current_process s = process" "process \<noteq> 0" "objs s process = Some (OProcess p)" "keys (Suc n) (p_keyboard p) q"
    "c \<noteq> 0" "kb_tail (p_keyboard p) = int t"
  shows "keyboard_push c s =
    Some (s\<lparr>objs := (objs s)(process \<mapsto> OProcess (p\<lparr>p_keyboard := put_key (p_keyboard p) t c\<rparr>))\<rparr>)"
proof -
  have t: "t < 2 ^ 31 - 1" and l: "length (kb_buffer (p_keyboard p)) = 1024"
    using assms(4,6) by (auto simp: keys_def)
  have i: "keyboard_get_tail_index (p_keyboard p) = int (t mod 1024)"
    unfolding keyboard_get_tail_index_def assms(6) by (rule key_index) (use t in simp)
  have s: "s32 (int t + 1) = Some (int t + 1)" using t by (simp add: s32_def)
  show ?thesis
    using assms(1-3,5) i s l assms(6)
    by (simp add: keyboard_push_def Let_def process_current_def get_process_def put_def put_key_def
        del: of_nat_mod zmod_int)
qed

lemma keyboard_pop_ok:
  assumes "current_task s \<noteq> 0" "objs s (current_task s) = Some (OTask t)" "objs s (t_process t) = Some (OProcess p)"
    "keys n (p_keyboard p) (c # q)" "kb_head (p_keyboard p) = int h"
  shows "keyboard_pop s =
    Some (c, s\<lparr>objs := (objs s)(t_process t \<mapsto> OProcess (p\<lparr>p_keyboard := take_key (p_keyboard p) h\<rparr>))\<rparr>)"
proof -
  have h: "h < 2 ^ 31 - 1" and l: "length (kb_buffer (p_keyboard p)) = 1024"
    using assms(4,5) by (auto simp: keys_def)
  note b = keys_take(1,2) [OF assms(4,5)]
  have i: "uint (to_u32 (int h) mod of_nat PLUMOS_KEYBOARD_BUFFER_SIZE) = int (h mod 1024)"
    by (rule key_index) (use h in simp)
  have s: "s32 (int h + 1) = Some (int h + 1)" using h by (simp add: s32_def)
  show ?thesis
    unfolding keyboard_pop_def Let_def using assms(1-3,5) i s l b
    by (simp add: task_current_def get_process_def get_task_def put_def take_key_def
        del: of_nat_mod zmod_int)
qed

lemma keyboard_pop_empty:
  assumes "current_task s \<noteq> 0" "objs s (current_task s) = Some (OTask t)" "objs s (t_process t) = Some (OProcess p)"
    "keys n (p_keyboard p) []"
  shows "keyboard_pop s = Some (0, s)"
proof -
  obtain h where h: "kb_head (p_keyboard p) = int h" "h < 2 ^ 31" "kb_buffer (p_keyboard p) ! (h mod 1024) = 0"
    "length (kb_buffer (p_keyboard p)) = 1024" using assms(4) by (auto simp: keys_def dest: spec [of _ 0])
  have i: "uint (to_u32 (int h) mod of_nat PLUMOS_KEYBOARD_BUFFER_SIZE) = int (h mod 1024)"
    by (rule key_index [OF h(2)])
  show ?thesis
    unfolding keyboard_pop_def Let_def using assms(1-3) h i
    by (simp add: task_current_def get_process_def get_task_def del: of_nat_mod zmod_int)
qed

lemma keys_less: "keys (Suc n) k q \<Longrightarrow> keys n k q"
  by (force simp: keys_def)

interpretation kbd: fifo "key_state process" keyboard_push keyboard_pop 0 1024 for process
proof
  fix n s q and c :: u8
  assume a: "key_state process (Suc n) s q" "c \<noteq> 0" "length q < 1024"
  then obtain p where p: "objs s process = Some (OProcess p)" "keys (Suc n) (p_keyboard p) q"
    by (auto simp: key_state_def)
  then obtain t where t: "kb_tail (p_keyboard p) = int t" unfolding keys_def by blast
  show "\<exists>s'. keyboard_push c s = Some s' \<and> key_state process n s' (q @ [c])"
    using keyboard_push_ok [OF _ _ p a(2) t] key_state_put [OF a(1) p(1) keys_put [OF p(2) a(2,3) t]] a(1)
    by (auto simp: key_state_def)
next
  fix n s q
  assume "key_state process n s q"
  then show "keyboard_push 0 s = Some s" by (simp add: keyboard_push_def)
next
  fix n s
  assume "key_state process n s []"
  then show "keyboard_pop s = Some (0, s)" using keyboard_pop_empty by (auto simp: key_state_def)
next
  fix n s c q
  assume a: "key_state process n s (c # q)"
  then obtain p where p: "objs s process = Some (OProcess p)" "keys n (p_keyboard p) (c # q)"
    by (auto simp: key_state_def)
  then obtain h where h: "kb_head (p_keyboard p) = int h" by (auto simp: keys_def)
  obtain t where t: "objs s (current_task s) = Some (OTask t)" "t_process t = process" "current_task s \<noteq> 0"
    using a by (auto simp: key_state_def)
  show "\<exists>s'. keyboard_pop s = Some (c, s') \<and> key_state process n s' q"
    using keyboard_pop_ok [OF t(3,1) _ p(2) h] key_state_put [OF a p(1) keys_take(3) [OF p(2) h]] t(2) p(1) by blast
next
  fix n s q
  assume "key_state process (Suc n) s q"
  then show "key_state process n s q" using keys_less by (force simp: key_state_def)
qed
section \<open>Properties\<close>

text \<open>
  C17. The keyboard buffer is a queue. Keys pushed for the process that has the keyboard come out of
  \<open>keyboard_pop\<close> in the order they were pushed, each once; an empty buffer gives 0 and a null character is
  never stored. This holds for every sequence of insertions and removals that never holds more than 1024
  keys, across the wrap-around of the indices.
\<close>
theorem keyboard_fifo:
  assumes "key_state process n s q" "pushes evs \<le> n" "fits 0 1024 evs (length q)"
  shows "\<exists>s' m. run_events keyboard_push keyboard_pop evs s = Some (fst (deliver 0 evs q), s') \<and>
    key_state process m s' (snd (deliver 0 evs q))"
  by (rule kbd.run_rep [OF assms])

definition sample_keys :: "kernel" where
  "sample_keys = (sample_terminal 0 0)\<lparr>current_process := 0x2000, current_task := 0x1000,
     objs := [0x1000 \<mapsto> OTask (zero_task\<lparr>t_process := 0x2000\<rparr>), 0x2000 \<mapsto> OProcess zero_process]\<rparr>"

lemma sample_keys_state: "key_state 0x2000 100 sample_keys []"
  by (simp add: key_state_def sample_keys_def keys_def zero_process_def zero_task_def
      PLUMOS_KEYBOARD_BUFFER_SIZE_def)

theorem keyboard_fifo_witness:
  "\<exists>s'. run_events keyboard_push keyboard_pop [Push 0x61, Push 0x62, Pop, Push 0, Push 0x63, Pop, Pop, Pop] sample_keys =
     Some ([0x61, 0x62, 0x63, 0], s')"
  using keyboard_fifo [OF sample_keys_state, of "[Push 0x61, Push 0x62, Pop, Push 0, Push 0x63, Pop, Pop, Pop]"]
  by auto

text \<open>
  C33. The buffer is not protected against overflow: with 1024 keys waiting, one more key overwrites the
  oldest one, and is the next to come out.
\<close>
theorem keyboard_overflow:
  assumes "key_state process (Suc n) s q" "length q = 1024" "c \<noteq> 0"
  shows "\<exists>s' s''. keyboard_push c s = Some s' \<and> keyboard_pop s' = Some (c, s'')"
proof -
  obtain t p where a: "objs s (current_task s) = Some (OTask t)" "t_process t = process" "current_task s \<noteq> 0"
    "objs s process = Some (OProcess p)" "keys (Suc n) (p_keyboard p) q"
    using assms(1) by (auto simp: key_state_def)
  have a6: "process \<noteq> current_task s" using a(1,4) by auto
  obtain h where h: "kb_head (p_keyboard p) = int h" "kb_tail (p_keyboard p) = int (h + 1024)" "h + 1024 < 2 ^ 31 - 1"
    and l: "length (kb_buffer (p_keyboard p)) = 1024"
    using a(5) assms(2) unfolding keys_def by auto
  let ?k = "put_key (p_keyboard p) (h + 1024) c"
  let ?s = "s\<lparr>objs := (objs s)(process \<mapsto> OProcess (p\<lparr>p_keyboard := ?k\<rparr>))\<rparr>"
  have k: "kb_head ?k = int h" "kb_buffer ?k = (kb_buffer (p_keyboard p))[h mod 1024 := c]"
    using h(1) by (simp_all add: put_key_def)
  have i: "uint (to_u32 (int h) mod of_nat PLUMOS_KEYBOARD_BUFFER_SIZE) = int (h mod 1024)"
    by (rule key_index) (use h(3) in simp)
  have s32: "s32 (int h + 1) = Some (int h + 1)" using h(3) by (simp add: s32_def)
  have "keyboard_push c s = Some ?s" by (rule keyboard_push_ok [OF _ _ a(4,5) assms(3) h(2)]) (use assms(1) in \<open>simp_all add: key_state_def\<close>)
  moreover have "\<exists>s''. keyboard_pop ?s = Some (c, s'')"
    unfolding keyboard_pop_def Let_def using a a6 i k l s32 assms(3)
    by (simp add: task_current_def get_process_def get_task_def put_def del: of_nat_mod zmod_int)
  ultimately show ?thesis by blast
qed

definition sample_full :: kernel where
  "sample_full = sample_keys\<lparr>objs := (objs sample_keys)(0x2000 \<mapsto> OProcess (zero_process\<lparr>p_keyboard :=
     \<lparr>kb_buffer = replicate 1024 0x61, kb_tail = 1024, kb_head = 0\<rparr>\<rparr>))\<rparr>"

theorem keyboard_overflow_witness:
  "\<exists>s' s''. keyboard_push 0x62 sample_full = Some s' \<and> keyboard_pop s' = Some (0x62, s'')"
proof -
  have "key_state 0x2000 (Suc 0) sample_full (replicate 1024 0x61)"
    by (simp add: key_state_def sample_full_def sample_keys_def keys_def zero_task_def)
  from keyboard_overflow [OF this, of "0x62"] show ?thesis by simp
qed

end
