(* ===== verification/Isr80h.thy ===== *)
theory Isr80h
  imports Keyboard
begin

unbundle bit_operations_syntax

text \<open>
  The system calls (\<open>src/src/isr80h/\<close>, and their dispatch in \<open>src/src/idt/idt.c\<close>). A call returns a
  value or does not return and enters user mode with new registers. \<open>flags\<close> are the flags of the
  processor in the kernel; \<open>junk\<close> is what the arrays on the kernel's stack hold before they are filled.
\<close>

datatype 'a outcome = Return 'a | Enter registers

section \<open>Memory of the caller\<close>

definition virt_store8 :: "u32 \<Rightarrow> u8 \<Rightarrow> kernel \<Rightarrow> kernel option" where
  "virt_store8 va v s = do { pa \<leftarrow> mmu (cr3 s) va s; store8 pa v s }"

definition virt_store32 :: "u32 \<Rightarrow> u32 \<Rightarrow> kernel \<Rightarrow> kernel option" where
  "virt_store32 va v s =
     do {
       s \<leftarrow> virt_store8 va (ucast v) s;
       s \<leftarrow> virt_store8 (va + 1) (ucast (drop_bit 8 v)) s;
       s \<leftarrow> virt_store8 (va + 2) (ucast (drop_bit 16 v)) s;
       virt_store8 (va + 3) (ucast (drop_bit 24 v)) s
     }"

text \<open>
  A linked list of \<open>struct command_argument\<close>: 512 bytes of text and the next element. A string is read up
  to its terminator, 511 characters at most.
\<close>

partial_function (option) command_arguments :: "u32 \<Rightarrow> kernel \<Rightarrow> u8 list list option" where
  "command_arguments argument s =
     (if argument = 0 then Some []
      else do {
        txt \<leftarrow> virt_string 511 argument s;
        next \<leftarrow> virt32 (argument + 512) s;
        rest \<leftarrow> command_arguments next s;
        Some (txt # rest)
      })"

section \<open>The calls\<close>

definition isr80h_command0_sum :: "kernel \<Rightarrow> (u32 outcome \<times> kernel) option" where
  "isr80h_command0_sum s =
     do {
       (v2, s) \<leftarrow> task_get_stack_item (task_current s) 1 s;
       (v1, s) \<leftarrow> task_get_stack_item (task_current s) 0 s;
       v \<leftarrow> s32 (to_int v1 + to_int v2);
       Some (Return (to_u32 v), s)
     }"

definition isr80h_command1_print :: "u8 list \<Rightarrow> kernel \<Rightarrow> (u32 outcome \<times> kernel) option" where
  "isr80h_command1_print junk s =
     do {
       (user_space_msg_buffer, s) \<leftarrow> task_get_stack_item (task_current s) 0 s;
       (res, buf, s) \<leftarrow> copy_string_from_task (task_current s) user_space_msg_buffer (take 1024 junk) 1024 s;
       s \<leftarrow> print buf s;
       Some (Return 0, s)
     }"

definition isr80h_command2_getkey :: "kernel \<Rightarrow> (u32 outcome \<times> kernel) option" where
  "isr80h_command2_getkey s = do { (c, s) \<leftarrow> keyboard_pop s; Some (Return (scast c), s) }"

definition isr80h_command3_putchar :: "kernel \<Rightarrow> (u32 outcome \<times> kernel) option" where
  "isr80h_command3_putchar s =
     do {
       (c, s) \<leftarrow> task_get_stack_item (task_current s) 0 s;
       s \<leftarrow> terminal_writechar (ucast c) 15 s;
       Some (Return 0, s)
     }"

definition isr80h_command4_malloc :: "kernel \<Rightarrow> (u32 outcome \<times> kernel) option" where
  "isr80h_command4_malloc s =
     do {
       (sz, s) \<leftarrow> task_get_stack_item (task_current s) 0 s;
       t \<leftarrow> get_task s (task_current s);
       (ptr, s) \<leftarrow> process_malloc (t_process t) sz s;
       Some (Return ptr, s)
     }"

definition isr80h_command5_free :: "kernel \<Rightarrow> (u32 outcome \<times> kernel) option" where
  "isr80h_command5_free s =
     do {
       (ptr_to_free, s) \<leftarrow> task_get_stack_item (task_current s) 0 s;
       t \<leftarrow> get_task s (task_current s);
       s \<leftarrow> process_free (t_process t) ptr_to_free s;
       Some (Return 0, s)
     }"

text \<open>Switching to the main task of a process and entering user mode with its registers.\<close>

definition enter_process :: "u32 \<Rightarrow> u32 \<Rightarrow> kernel \<Rightarrow> (u32 outcome \<times> kernel) option" where
  "enter_process flags process s =
     do {
       p \<leftarrow> get_process s process;
       (r, s) \<leftarrow> task_switch (p_task p) s;
       t \<leftarrow> get_task s (p_task p);
       Some (Enter (task_return flags (t_registers t)), s)
     }"

definition isr80h_command6_process_load_start ::
  "u32 \<Rightarrow> u8 list \<Rightarrow> kernel \<Rightarrow> (u32 outcome \<times> kernel) option" where
  "isr80h_command6_process_load_start flags junk s =
     do {
       (filename_user_ptr, s) \<leftarrow> task_get_stack_item (task_current s) 0 s;
       (res, filename, s) \<leftarrow> copy_string_from_task (task_current s) filename_user_ptr
         (take PLUMOS_MAX_PATH junk) (int PLUMOS_MAX_PATH) s;
       if res < 0 then Some (Return 0, s)
       else do {
         path \<leftarrow> strcpy (take PLUMOS_MAX_PATH (drop PLUMOS_MAX_PATH junk)) (lit ''0:/'');
         rest \<leftarrow> strcpy (drop 3 path) filename;
         (res, process, s) \<leftarrow> process_load_switch (take 3 path @ rest) s;
         if res < 0 then Some (Return 0, s) else enter_process flags process s
       }
     }"

definition isr80h_command7_invoke_system_command ::
  "u32 \<Rightarrow> u8 list \<Rightarrow> kernel \<Rightarrow> (u32 outcome \<times> kernel) option" where
  "isr80h_command7_invoke_system_command flags junk s =
     do {
       (item, s) \<leftarrow> task_get_stack_item (task_current s) 0 s;
       arguments \<leftarrow> task_virtual_address_to_physical (task_current s) item s;
       len \<leftarrow> (if arguments = 0 then Some 0 else Option.bind (virt_string 512 arguments s) strlen);
       if arguments = 0 \<or> len = 0 then Some (Return (to_u32 (- EINVARG)), s)
       else do {
         program_name \<leftarrow> virt_string 512 arguments s;
         path \<leftarrow> strcpy (take PLUMOS_MAX_PATH junk) (lit ''0:/'');
         rest \<leftarrow> strncpy (drop 3 path) program_name (int PLUMOS_MAX_PATH);
         (res, process, s) \<leftarrow> process_load_switch (take 3 path @ rest) s;
         if res < 0 then Some (Return (to_u32 res), s)
         else do {
           root_command_argument \<leftarrow> command_arguments arguments s;
           (res, s) \<leftarrow> process_inject_arguments process root_command_argument s;
           if res < 0 then Some (Return (to_u32 res), s) else enter_process flags process s
         }
       }
     }"

definition isr80h_command8_get_program_arguments :: "kernel \<Rightarrow> (u32 outcome \<times> kernel) option" where
  "isr80h_command8_get_program_arguments s =
     do {
       t \<leftarrow> get_task s (task_current s);
       (item, s) \<leftarrow> task_get_stack_item (task_current s) 0 s;
       arguments \<leftarrow> task_virtual_address_to_physical (task_current s) item s;
       (argc, argv) \<leftarrow> process_get_arguments (t_process t) s;
       s \<leftarrow> virt_store32 arguments (to_u32 argc) s;
       s \<leftarrow> virt_store32 (arguments + 4) argv s;
       Some (Return 0, s)
     }"

definition isr80h_command9_exit :: "u32 \<Rightarrow> kernel \<Rightarrow> (u32 outcome \<times> kernel) option" where
  "isr80h_command9_exit flags s =
     do {
       t \<leftarrow> get_task s (task_current s);
       (r, s) \<leftarrow> process_terminate (t_process t) s;
       (regs, s) \<leftarrow> task_next flags s;
       Some (Enter regs, s)
     }"

section \<open>Registration and dispatch\<close>

text \<open>\<open>enum SystemCommands\<close> in the order of its numbers.\<close>

definition system_commands :: "isr_command list" where
  "system_commands = [Sum, Print, GetKey, PutChar, Malloc, FreeMem, ProcessLoadStart, InvokeSystemCommand,
     GetProgramArguments, Exit]"

fun register_from :: "int \<Rightarrow> isr_command list \<Rightarrow> kernel \<Rightarrow> kernel option" where
  "register_from i [] s = Some s"
| "register_from i (c # cs) s = do { s \<leftarrow> isr80h_register_command i c s; register_from (i + 1) cs s }"

definition isr80h_register_commands :: "kernel \<Rightarrow> kernel option" where
  "isr80h_register_commands s = register_from 0 system_commands s"

fun run_command :: "isr_command \<Rightarrow> u32 \<Rightarrow> u8 list \<Rightarrow> kernel \<Rightarrow> (u32 outcome \<times> kernel) option" where
  "run_command Sum flags junk s = isr80h_command0_sum s"
| "run_command Print flags junk s = isr80h_command1_print junk s"
| "run_command GetKey flags junk s = isr80h_command2_getkey s"
| "run_command PutChar flags junk s = isr80h_command3_putchar s"
| "run_command Malloc flags junk s = isr80h_command4_malloc s"
| "run_command FreeMem flags junk s = isr80h_command5_free s"
| "run_command ProcessLoadStart flags junk s = isr80h_command6_process_load_start flags junk s"
| "run_command InvokeSystemCommand flags junk s = isr80h_command7_invoke_system_command flags junk s"
| "run_command GetProgramArguments flags junk s = isr80h_command8_get_program_arguments s"
| "run_command Exit flags junk s = isr80h_command9_exit flags s"

definition isr80h_handle_command ::
  "int \<Rightarrow> u32 \<Rightarrow> u8 list \<Rightarrow> kernel \<Rightarrow> (u32 outcome \<times> kernel) option" where
  "isr80h_handle_command command flags junk s =
     (if command < 0 \<or> command \<ge> PLUMOS_MAX_ISR80H_COMMANDS then Some (Return 0, s)
      else do {
        command_func \<leftarrow> arr_get (isr80h_commands s) command;
        case command_func of None \<Rightarrow> Some (Return 0, s) | Some c \<Rightarrow> run_command c flags junk s
      })"

definition isr80h_handler ::
  "int \<Rightarrow> interrupt_frame \<Rightarrow> u32 \<Rightarrow> u8 list \<Rightarrow> kernel \<Rightarrow> (u32 outcome \<times> kernel) option" where
  "isr80h_handler command frame flags junk s =
     do {
       s \<leftarrow> kernel_page s;
       s \<leftarrow> task_current_save_state frame s;
       (res, s) \<leftarrow> isr80h_handle_command command flags junk s;
       case res of
         Enter regs \<Rightarrow> Some (Enter regs, s)
       | Return v \<Rightarrow> do { (r, s) \<leftarrow> task_page s; Some (Return v, s) }
     }"

end
