(* ===== verification/SystemCalls.thy ===== *)
theory SystemCalls
  imports Isr80h ProcessLoad
begin

unbundle bit_operations_syntax

text \<open>
  The table of system calls after registration, and the linked list of arguments that a program passes to
  the kernel.
\<close>

section \<open>Dispatch\<close>

lemma register_from_ok:
  assumes "isr80h_commands s = pre @ replicate m None" "length cs \<le> m" "int (length pre) + int m = PLUMOS_MAX_ISR80H_COMMANDS"
  shows "register_from (int (length pre)) cs s =
    Some (s\<lparr>isr80h_commands := pre @ map Some cs @ replicate (m - length cs) None\<rparr>)"
  using assms
proof (induction cs arbitrary: pre m s)
  case Nil
  then show ?case by simp
next
  case (Cons c cs)
  obtain k where m: "m = Suc k" using Cons.prems(2) by (cases m) auto
  let ?s = "s\<lparr>isr80h_commands := (pre @ [Some c]) @ replicate k None\<rparr>"
  have b: "int (length pre) < PLUMOS_MAX_ISR80H_COMMANDS" using Cons.prems(3) m by simp
  have "isr80h_register_command (int (length pre)) c s = Some ?s"
    using b by (simp add: isr80h_register_command_def arr_get_def arr_set_def Cons.prems(1) m nth_append list_update_append)
  moreover have "register_from (int (length (pre @ [Some c]))) cs ?s =
      Some (?s\<lparr>isr80h_commands := (pre @ [Some c]) @ map Some cs @ replicate (k - length cs) None\<rparr>)"
    by (rule Cons.IH) (use Cons.prems(2,3) m in simp_all)
  ultimately show ?case by (simp add: m add.commute)
qed

section \<open>The list of arguments\<close>

text \<open>The nodes \<open>xs\<close> with the texts \<open>ts\<close> form a list in memory that starts at \<open>a\<close> and ends with null.\<close>

fun arguments_at :: "kernel \<Rightarrow> u32 \<Rightarrow> u32 list \<Rightarrow> u8 list list \<Rightarrow> bool" where
  "arguments_at s a [] [] = (a = 0)"
| "arguments_at s a (x # xs) (t # ts) = (a = x \<and> x \<noteq> 0 \<and> virt_string 511 x s = Some t \<and>
     (\<exists>y. virt32 (x + 512) s = Some y \<and> arguments_at s y xs ts))"
| "arguments_at s a xs ts = False"

text \<open>The node \<open>k\<close> links further.\<close>

fun argument_after :: "nat \<Rightarrow> kernel \<Rightarrow> u32 \<Rightarrow> u32 option" where
  "argument_after 0 s a = Some a"
| "argument_after (Suc k) s a = (if a = 0 then None else Option.bind (virt32 (a + 512) s) (argument_after k s))"

lemma command_arguments_list: "command_arguments a s = Some ts \<Longrightarrow> \<exists>xs. arguments_at s a xs ts"
proof (induction ts arbitrary: a)
  case Nil
  then have "a = 0" by (subst (asm) command_arguments.simps) (auto simp: bind_Some split: if_splits)
  then have "arguments_at s a [] []" by simp
  then show ?case by blast
next
  case (Cons t ts)
  have "a \<noteq> 0" using Cons.prems by (subst (asm) command_arguments.simps) (auto split: if_splits)
  moreover from this obtain y where "virt_string 511 a s = Some t" "virt32 (a + 512) s = Some y" "command_arguments y s = Some ts"
    using Cons.prems by (subst (asm) command_arguments.simps) (auto simp: bind_Some)
  moreover from this obtain xs where "arguments_at s y xs ts" using Cons.IH by blast
  ultimately have "arguments_at s a (a # xs) (t # ts)" by simp
  then show ?case by blast
qed

lemma list_command_arguments: "arguments_at s a xs ts \<Longrightarrow> command_arguments a s = Some ts"
proof (induction s a xs ts rule: arguments_at.induct)
  case (1 s a)
  then show ?case by (subst command_arguments.simps) simp
next
  case (2 s a x xs t ts)
  then show ?case by (subst command_arguments.simps) auto
qed simp_all

lemma command_arguments_after:
  assumes "argument_after k s a = Some b" "command_arguments a s = Some ts"
  shows "\<exists>us. command_arguments b s = Some us \<and> length ts = k + length us"
  using assms
proof (induction k arbitrary: a ts)
  case (Suc k)
  have a: "a \<noteq> 0" using Suc.prems(1) by (auto split: if_splits)
  obtain y where y: "virt32 (a + 512) s = Some y" "argument_after k s y = Some b"
    using Suc.prems(1) a by (auto simp: bind_Some)
  obtain t us where "ts = t # us" "command_arguments y s = Some us"
    using Suc.prems(2) a y(1) by (subst (asm) command_arguments.simps) (auto simp: bind_Some)
  then show ?case using Suc.IH [OF y(2)] by auto
qed simp

text \<open>A node that links to itself, in an address space that maps every page to itself.\<close>

lemma covering_start: "objs s a \<noteq> None \<Longrightarrow> 0 < n \<Longrightarrow> covering n a s = Some a"
  by (cases n) auto

lemma virt8_identity:
  assumes "pd_ok (objs s) (cr3 s)" "\<forall>n < 2 ^ 20. page_entry (objs s) (cr3 s) n = of_nat (4096 * n) OR 7"
    "objs s a = Some (OBytes b)" "a mod 4096 = 0" "i < 4096" "i < length b"
  shows "virt8 (a + of_nat i) s = Some (b ! i)"
proof -
  have d: "4096 dvd unat a" using assms(4) by (simp add: aligned_unat)
  then obtain k where k: "unat a = 4096 * k" by auto
  have "4096 * k < 2 ^ 32" using k unat_bound [of a] by simp
  then have k20: "k < 2 ^ 20" by simp
  have ui: "unat (of_nat i :: u32) = i" using assms(5) by (simp add: unat_of_small_nat)
  have "4096 * k + i < 2 ^ 32" using k20 assms(5) by simp
  then have u: "unat (a + of_nat i) = 4096 * k + i" using k ui by (simp add: unat_word_ariths)
  have p: "page (a + of_nat i) = k" unfolding page_def u using assms(5) by simp
  have m: "(a + of_nat i) mod 4096 = of_nat i"
    by (rule word_unat_eq_iff [THEN iffD2]) (use u ui assms(5) in \<open>simp add: unat_mod_distrib\<close>)
  have ak: "(of_nat (4096 * k) :: u32) = a" unfolding k [symmetric] by simp
  have "mmu (cr3 s) (a + of_nat i) s = Some (a + of_nat i)"
    using mmu_entry [OF assms(1), of "a + of_nat i" a 7] assms(2) [rule_format, OF k20] p m ak assms(4)
    by (simp add: paging_consts del: of_nat_mult)
  moreover have "(a + of_nat i) AND 0xfffff000 = a" using page_bits [of "a + of_nat i"] m by simp
  then have "phys_place (a + of_nat i) s = Some (a, i)"
    using covering_start [of s a 25600] assms(3,6) ui by (simp add: phys_place_def get_defs)
  ultimately show ?thesis using assms(3,6) by (simp add: virt8_def load8_def get_defs arr_get_def)
qed

lemma virt32_identity:
  assumes "pd_ok (objs s) (cr3 s)" "\<forall>n < 2 ^ 20. page_entry (objs s) (cr3 s) n = of_nat (4096 * n) OR 7"
    "objs s a = Some (OBytes b)" "a mod 4096 = 0" "i + 3 < 4096" "i + 3 < length b"
  shows "virt32 (a + of_nat i) s = Some (le32 b i)"
proof -
  have v: "virt8 (a + of_nat (i + j)) s = Some (b ! (i + j))" if "j \<le> 3" for j
    by (rule virt8_identity [OF assms(1-4)]) (use that assms(5,6) in simp_all)
  show ?thesis
    using v [of 0] v [of 1] v [of 2] v [of 3] by (simp add: virt32_def le32_def le16_def ac_simps eval_nat_numeral)
qed

section \<open>Properties\<close>




definition word_bytes :: "u32 \<Rightarrow> u8 list" where
  "word_bytes w = [ucast w, ucast (drop_bit 8 w), ucast (drop_bit 16 w), ucast (drop_bit 24 w)]"

lemma le32_word_bytes: "le32 (xs @ word_bytes w) (length xs) = w"
proof (rule bit_word_eqI)
  fix n assume "n < LENGTH(32)"
  then show "bit (le32 (xs @ word_bytes w) (length xs)) n = bit w n"
    by (cases "n < 8"; cases "n < 16"; cases "n < 24")
      (auto simp: le32_def le16_def word_bytes_def nth_append bit_simps)
qed

lemma cyclic_arguments:
  "\<exists>s a. a \<noteq> 0 \<and> virt_string 511 a s = Some [0] \<and> virt32 (a + 512) s = Some a"
proof -
  have fb: "1026 \<le> free_blocks (sample_kernel 2000)" using big_kernel_inv(2) by simp
  obtain c dir s1 where s1: "mem_inv s1" "free_blocks s1 = free_blocks (sample_kernel 2000) - 1026"
    "identity_space (objs (sample_kernel 2000)) c dir 7 (objs s1)"
    using paging_new_4gb_ok [OF big_kernel_inv(1) fb, of 7] by blast
  note i = identity_facts [OF s1(3)]
  have fb1: "0 < free_blocks s1" using s1(2) big_kernel_inv(2) by simp
  obtain a s2 where a: "kzalloc 516 (OBytes []) s1 = Some (a, s2)" "a \<noteq> 0" "objs s1 a = None" "a mod 4096 = 0"
    by (rule kzalloc_block [OF s1(1) fb1, of 516 "OBytes []"]) simp_all
  let ?b = "replicate 512 0 @ word_bytes a"
  let ?s = "s1\<lparr>cr3 := dir, objs := (objs s1)(a \<mapsto> OBytes ?b)\<rparr>"
  have w: "objs ?s x = Some (OWords y)" if "objs s1 x = Some (OWords y)" for x y using that a(3) by auto
  have pd: "pd_ok (objs ?s) (cr3 ?s)" using keeps_words(1) [of "objs s1" "objs ?s" dir] w i(2) by simp
  have e: "\<forall>n < 2 ^ 20. page_entry (objs ?s) (cr3 ?s) n = of_nat (4096 * n) OR 7"
    using keeps_words(2) [of "objs s1" "objs ?s" dir] w i(2,3) by simp
  have b: "objs ?s a = Some (OBytes ?b)" "length ?b = 516" by (simp_all add: word_bytes_def)
  have "virt8 (a + of_nat 0) ?s = Some (?b ! 0)" by (rule virt8_identity [OF pd e b(1) a(4)]) (simp_all add: word_bytes_def)
  then have v0: "virt8 a ?s = Some 0" by (simp add: nth_append)
  have "virt_string (Suc 510) a ?s = Some [0]" unfolding virt_string.simps(2) v0 by simp
  moreover have "virt32 (a + of_nat 512) ?s = Some (le32 ?b 512)" by (rule virt32_identity [OF pd e b(1) a(4)]) (simp_all add: word_bytes_def)
  ultimately show ?thesis using a(2) le32_word_bytes [of "replicate 512 0" a] by (intro exI [of _ ?s] exI [of _ a]) simp
qed


end
