(* ===== verification/Interrupts.thy ===== *)
theory Interrupts
  imports Isr80h
begin

unbundle bit_operations_syntax

text \<open>
  The handlers of \<open>src/src/idt/idt.c\<close> and scheduling by the clock. A handler that ends in \<open>task_return\<close>
  enters user mode with the registers of the next task; the others return to the interrupted task.
\<close>

definition idt_handle_exception :: "u32 \<Rightarrow> kernel \<Rightarrow> (unit outcome \<times> kernel) option" where
  "idt_handle_exception flags s =
     do {
       t \<leftarrow> get_task s (task_current s);
       (r, s) \<leftarrow> process_terminate (t_process t) s;
       (regs, s) \<leftarrow> task_next flags s;
       Some (Enter regs, s)
     }"

definition idt_clock :: "u32 \<Rightarrow> kernel \<Rightarrow> (unit outcome \<times> kernel) option" where
  "idt_clock flags s =
     do {
       let s = outb 0x20 0x20 s;
       (regs, s) \<leftarrow> task_next flags s;
       Some (Enter regs, s)
     }"

fun run_callback :: "interrupt_callback \<Rightarrow> u32 \<Rightarrow> kernel \<Rightarrow> (unit outcome \<times> kernel) option" where
  "run_callback HandleException flags s = idt_handle_exception flags s"
| "run_callback Clock flags s = idt_clock flags s"
| "run_callback ClassicKeyboard flags s =
     do { s \<leftarrow> classic_keyboard_handle_interrupt s; Some (Return (), s) }"

definition interrupt_handler ::
  "int \<Rightarrow> interrupt_frame \<Rightarrow> u32 \<Rightarrow> kernel \<Rightarrow> (unit outcome \<times> kernel) option" where
  "interrupt_handler interrupt frame flags s =
     do {
       s \<leftarrow> kernel_page s;
       callback \<leftarrow> arr_get (interrupt_callbacks s) interrupt;
       (res, s) \<leftarrow>
         (case callback of
            None \<Rightarrow> Some (Return (), s)
          | Some c \<Rightarrow> do { s \<leftarrow> task_current_save_state frame s; run_callback c flags s });
       case res of
         Enter regs \<Rightarrow> Some (Enter regs, s)
       | Return v \<Rightarrow> do { (r, s) \<leftarrow> task_page s; Some (Return (), outb 0x20 0x20 s) }
     }"

section \<open>Properties\<close>

text \<open>
  C34. No program ends in a defined way. Unless all 1024 entries of the allocations of the process are in
  use, \<open>process_terminate\<close> passes the null pointer of a free entry to \<open>kfree\<close>, which reads and clears bytes
  in front of the table of the heap: terminating the process, the exit call of the running task and an
  exception in it have no defined result.
\<close>
theorem terminate_frees_null:
  assumes "heap_away s" "objs s (current_task s) = Some (OTask t)" "objs s (t_process t) = Some (OProcess p)"
    "length (p_allocations p) = PLUMOS_MAX_PROGRAM_ALLOCATIONS"
    "\<exists>a \<in> set (p_allocations p). pa_ptr a = 0" "\<forall>a \<in> set (p_allocations p). pa_ptr a = 0 \<longrightarrow> pa_size a = 0"
  shows "process_terminate (t_process t) s = None \<and> isr80h_command9_exit flags s = None \<and>
    idt_handle_exception flags s = None"
proof -
  have n: "process_terminate (t_process t) s = None" by (rule process_terminate_null [OF assms(1,3-6)])
  then show ?thesis using assms(2)
    by (simp add: isr80h_command9_exit_def idt_handle_exception_def get_task_def task_current_def)
qed

theorem terminate_frees_null_witness:
  "idt_handle_exception 0 (sample_keys\<lparr>kernel_heap := sample_heap [Used 0, Free]\<rparr>) = None"
proof -
  let ?s = "sample_keys\<lparr>kernel_heap := sample_heap [Used 0, Free]\<rparr>"
  have "heap_away ?s" by (simp add: heap_away_def heap_place_def sample_heap_def)
  moreover have "objs ?s (current_task ?s) = Some (OTask (zero_task\<lparr>t_process := 0x2000\<rparr>))"
    "objs ?s (t_process (zero_task\<lparr>t_process := 0x2000\<rparr>)) = Some (OProcess zero_process)"
    by (simp_all add: sample_keys_def)
  moreover have "length (p_allocations zero_process) = PLUMOS_MAX_PROGRAM_ALLOCATIONS"
    "\<exists>a \<in> set (p_allocations zero_process). pa_ptr a = 0"
    "\<forall>a \<in> set (p_allocations zero_process). pa_ptr a = 0 \<longrightarrow> pa_size a = 0"
    by (simp_all add: zero_process_def PLUMOS_MAX_PROGRAM_ALLOCATIONS_def)
  ultimately show ?thesis using terminate_frees_null [of ?s _ _ 0] by blast
qed

end
