(* ===== verification/Scheduler.thy ===== *)
theory Scheduler
  imports Interrupts TaskList
begin

unbundle bit_operations_syntax

text \<open>
  Scheduling by the clock interrupt: one tick of the clock, and runs of the machine in
  which user programs run between ticks. User code changes its registers and the bytes it can reach, not
  the structures of the kernel.
\<close>

section \<open>One tick\<close>

text \<open>The scheduler's part of the kernel: task \<open>i\<close> of the ring is running.\<close>

definition scheduled :: "kernel \<Rightarrow> u32 list \<Rightarrow> nat \<Rightarrow> bool" where
  "scheduled s ts i \<longleftrightarrow> task_list s ts \<and> i < length ts \<and> current_task s = ts ! i \<and>
     (\<exists>d. objs s (kernel_chunk s) = Some (OChunk d)) \<and>
     0x20 < length (interrupt_callbacks s) \<and> interrupt_callbacks s ! 0x20 = Some Clock"

definition save_task :: "u32 \<Rightarrow> interrupt_frame \<Rightarrow> kernel \<Rightarrow> (u32 \<Rightarrow> obj option)" where
  "save_task a frame s = (objs s)(a \<mapsto> OTask ((task_at s a)\<lparr>t_registers :=
     save_registers frame (t_registers (task_at s a))\<rparr>))"

lemma clock_tick:
  assumes "scheduled s ts i"
  shows "\<exists>s'. interrupt_handler 0x20 frame flags s =
      Some (Enter (task_return flags (t_registers (task_at s' (ts ! (Suc i mod length ts))))), s') \<and>
    objs s' = save_task (ts ! i) frame s \<and> scheduled s' ts (Suc i mod length ts) \<and>
    io_log s' = OutB 0x20 0x20 # io_log s \<and>
    objs s' (t_page_directory (task_at s' (ts ! (Suc i mod length ts)))) = Some (OChunk (cr3 s')) \<and>
    s' = s\<lparr>objs := objs s', io_log := io_log s', cr3 := cr3 s', current_directory := cr3 s', current_task := current_task s'\<rparr>"
proof -
  let ?a = "ts ! i" and ?b = "ts ! (Suc i mod length ts)"
  have l: "task_list s ts" and i: "i < length ts" and c: "current_task s = ?a"
    and cb: "0x20 < length (interrupt_callbacks s)" "interrupt_callbacks s ! 0x20 = Some Clock"
    using assms by (simp_all add: scheduled_def)
  obtain kd where kd: "objs s (kernel_chunk s) = Some (OChunk kd)" using assms by (auto simp: scheduled_def)
  have j: "Suc i mod length ts < length ts" using i by (intro mod_less_divisor) linarith
  let ?s1 = "s\<lparr>cr3 := kd, current_directory := kd\<rparr>"
  let ?s2 = "s\<lparr>cr3 := kd, current_directory := kd, objs := save_task ?a frame s, io_log := OutB 0x20 0x20 # io_log s\<rparr>"
  have o2: "objs ?s2 = save_task ?a frame s" by simp
  have l2: "task_list ?s2 ts"
    by (rule task_list_cong [OF l])
      (use task_list_nth(1) [OF l i] same_registers in \<open>auto simp: save_task_def split: if_splits\<close>)
  obtain d where d: "objs ?s2 (t_page_directory (task_at ?s2 ?b)) = Some (OChunk d)"
    using task_list_nth(5) [OF l2 j] by blast
  let ?s3 = "?s2\<lparr>current_task := ?b, cr3 := d, current_directory := d\<rparr>"
  have at3: "task_at ?s3 = task_at ?s2" by (simp add: task_at_def fun_eq_iff)
  have n: "task_get_next ?s2 = Some ?b" by (rule task_get_next_ring [OF l2 i]) (simp add: c)
  have kp: "kernel_page s = Some ?s1"
    using kd by (simp add: kernel_page_def paging_switch_def paging_load_directory_def get_chunk_def)
  have gt: "get_task ?s2 ?b = Some (task_at ?s2 ?b)" by (rule task_list_nth(4) [OF l2 j])
  have sv: "task_current_save_state frame ?s1 = Some (?s1\<lparr>objs := save_task ?a frame s\<rparr>)"
    using task_list_nth(1,2) [OF l i] c
    by (simp add: task_current_save_state_def task_save_state_def task_current_def get_task_def put_def save_task_def)
  have g3: "get_task (?s2\<lparr>current_task := ?b\<rparr>) ?b = Some (task_at ?s2 ?b)"
    using gt by (simp add: get_task_def)
  have gc: "get_chunk (?s2\<lparr>current_task := ?b\<rparr>) (t_page_directory (task_at ?s2 ?b)) = Some d"
    using d by (simp add: get_chunk_def)
  have sw: "task_switch ?b ?s2 = Some (0, ?s3)"
    unfolding task_switch_def Let_def g3 bind.bind_lunit paging_switch_def gc
    by (simp add: paging_load_directory_def)
  have g4: "get_task ?s3 ?b = Some (task_at ?s2 ?b)" using gt by (simp add: get_task_def)
  have b0: "?b \<noteq> 0" by (rule task_list_nth(2) [OF l j])
  have tn: "task_next flags ?s2 = Some (task_return flags (t_registers (task_at ?s2 ?b)), ?s3)"
    unfolding task_next_def n bind.bind_lunit using b0 sw g4 by simp
  have ob: "outb 0x20 0x20 (?s1\<lparr>objs := save_task ?a frame s\<rparr>) = ?s2" by (simp add: outb_def)
  have ag: "arr_get (interrupt_callbacks ?s1) 32 = Some (Some Clock)"
    using cb arr_get_nat [of 32 "interrupt_callbacks s"] by simp
  have "interrupt_handler 0x20 frame flags s =
      Some (Enter (task_return flags (t_registers (task_at ?s2 ?b))), ?s3)"
    unfolding interrupt_handler_def kp bind.bind_lunit ag option.case sv run_callback.simps idt_clock_def
      Let_def ob tn by simp
  moreover have "scheduled ?s3 ts (Suc i mod length ts)"
    unfolding scheduled_def
  proof (intro conjI)
    show "task_list ?s3 ts"
      by (rule task_list_cong [OF l2]) (use same_registers in auto)
    show "\<exists>d. objs ?s3 (kernel_chunk ?s3) = Some (OChunk d)"
      using kd task_list_nth(1) [OF l i] by (auto simp: save_task_def)
  qed (use j cb in simp_all)
  ultimately show ?thesis
    using d at3 by (intro exI [of _ ?s3]) simp
qed

section \<open>Runs\<close>

text \<open>User code writes bytes of memory; no other object and no variable of the kernel changes.\<close>

definition user_step :: "kernel \<Rightarrow> kernel \<Rightarrow> bool" where
  "user_step s s' \<longleftrightarrow> s' = s\<lparr>objs := objs s'\<rparr> \<and>
     (\<forall>a. objs s' a = objs s a \<or>
        (\<exists>b b'. objs s a = Some (OBytes b) \<and> objs s' a = Some (OBytes b') \<and> length b = length b'))"

lemma user_step_keeps: "user_step s s' \<Longrightarrow> objs s a = Some x \<Longrightarrow> (\<forall>b. x \<noteq> OBytes b) \<Longrightarrow> objs s' a = Some x"
  unfolding user_step_def by (metis option.inject)

lemma user_step_scheduled:
  assumes "user_step s s'" "scheduled s ts i"
  shows "scheduled s' ts i" "j < length ts \<Longrightarrow> task_at s' (ts ! j) = task_at s (ts ! j)"
proof -
  have l: "task_list s ts" using assms(2) by (simp add: scheduled_def)
  note k = user_step_keeps [OF assms(1)]
  obtain m where m: "s' = s\<lparr>objs := m\<rparr>" using assms(1) by (auto simp: user_step_def)
  have "task_list s' ts"
    by (rule task_list_cong [OF l]) (use k same_registers in \<open>auto simp: m\<close>)
  then show "scheduled s' ts i" using assms(2) k by (auto simp: m scheduled_def)
  assume "j < length ts"
  then have "objs s (ts ! j) = Some (OTask (task_at s (ts ! j)))" by (rule task_list_nth(1) [OF l])
  from k [OF this] show "task_at s' (ts ! j) = task_at s (ts ! j)" by (simp add: task_at_def)
qed

text \<open>
  The frame the stub of the interrupt passes: the registers of the interrupted code, with the stack
  pointer \<open>pushad\<close> stored.
\<close>

definition frame_of :: "u32 \<Rightarrow> registers \<Rightarrow> interrupt_frame" where
  "frame_of e r = \<lparr>if_edi = r_edi r, if_esi = r_esi r, if_ebp = r_ebp r, if_reserved = e, if_ebx = r_ebx r,
     if_edx = r_edx r, if_ecx = r_ecx r, if_eax = r_eax r, if_ip = r_ip r, if_cs = r_cs r, if_flags = r_flags r,
     if_esp = r_esp r, if_ss = r_ss r\<rparr>"

lemma save_frame_of [simp]: "save_registers (frame_of e q) r = q"
  by (simp add: save_registers_def frame_of_def)

text \<open>
  Runs from user mode to user mode, one slice after the other: user code runs until the clock interrupts
  it with the registers \<open>q\<close>.
\<close>

inductive slices :: "registers \<times> kernel \<Rightarrow> registers list \<Rightarrow> registers \<times> kernel \<Rightarrow> bool" where
  none: "slices c [] c"
| slice: "user_step s s1 \<Longrightarrow> interrupt_handler 0x20 (frame_of e q) flags s1 = Some (Enter r', s2) \<Longrightarrow>
    slices (r', s2) qs c \<Longrightarrow> slices (r, s) (q # qs) c"

inductive_cases slices_NilE: "slices c [] c'"
inductive_cases slices_ConsE: "slices (r, s) (q # qs) c'"

abbreviation stored_registers :: "kernel \<Rightarrow> u32 list \<Rightarrow> nat \<Rightarrow> registers" where
  "stored_registers s ts j \<equiv> t_registers (task_at s (ts ! j))"

lemma one_slice:
  assumes "scheduled s ts i" "user_step s s1"
    "interrupt_handler 0x20 (frame_of e q) flags s1 = Some (Enter r', s2)"
  shows "scheduled s2 ts (Suc i mod length ts)" "stored_registers s2 ts i = q"
    "j < length ts \<Longrightarrow> j \<noteq> i \<Longrightarrow> stored_registers s2 ts j = stored_registers s ts j"
    "r' = task_return flags (stored_registers s2 ts (Suc i mod length ts))"
proof -
  have sch: "scheduled s1 ts i" by (rule user_step_scheduled(1) [OF assms(2,1)])
  obtain s' where s': "interrupt_handler 0x20 (frame_of e q) flags s1 =
      Some (Enter (task_return flags (stored_registers s' ts (Suc i mod length ts))), s')"
    "objs s' = save_task (ts ! i) (frame_of e q) s1" "scheduled s' ts (Suc i mod length ts)"
    using clock_tick [OF sch] by blast
  have eq: "s2 = s'" "r' = task_return flags (stored_registers s2 ts (Suc i mod length ts))"
    using assms(3) unfolding s'(1) by blast+
  show "scheduled s2 ts (Suc i mod length ts)" using s'(3) eq by simp
  show "stored_registers s2 ts i = q" using s'(2) eq by (simp add: task_at_def save_task_def)
  show "r' = task_return flags (stored_registers s2 ts (Suc i mod length ts))" by (rule eq(2))
  assume j: "j < length ts" "j \<noteq> i"
  then have "ts ! j \<noteq> ts ! i" using sch by (simp add: scheduled_def task_list_def nth_eq_iff_index_eq)
  then have "task_at s2 (ts ! j) = task_at s1 (ts ! j)"
    using s'(2) eq(1) by (simp add: task_at_def save_task_def)
  then show "stored_registers s2 ts j = stored_registers s ts j"
    using user_step_scheduled(2) [OF assms(2,1) j(1)] by simp
qed

lemma mod_ring_neq:
  fixes i k n :: nat
  assumes "i < n" "0 < k" "k < n"
  shows "(i + k) mod n \<noteq> i"
proof
  assume "(i + k) mod n = i"
  then have "(i + k) mod n = i mod n" using assms(1) by simp
  then have "k mod n = 0" by (metis add.commute add_diff_cancel_right' mod_eq_dvd_iff_nat le_add1 dvd_eq_mod_eq_0)
  then show False using assms by simp
qed

text \<open>Which task runs after a run, what is stored for the tasks that ran and for those that did not.\<close>

lemma slices_current:
  assumes "slices c qs c'" "scheduled (snd c) ts i"
  shows "scheduled (snd c') ts ((i + length qs) mod length ts)"
  using assms
proof (induction arbitrary: i rule: slices.induct)
  case (none c)
  then show ?case by (simp add: scheduled_def)
next
  case (slice s s1 e q flags r' s2 qs c r)
  have "scheduled s ts i" using slice.prems by simp
  then have "scheduled s2 ts (Suc i mod length ts)" using one_slice(1) slice.hyps(1,2) by blast
  from slice.IH [OF _ [unfolded snd_conv], of "Suc i mod length ts"] this
  have "scheduled (snd c) ts ((Suc i mod length ts + length qs) mod length ts)" by simp
  then show ?case by (simp add: mod_add_left_eq)
qed

lemma slices_kept:
  assumes "slices c qs c'" "scheduled (snd c) ts i" "j < length ts" "\<forall>k < length qs. (i + k) mod length ts \<noteq> j"
  shows "stored_registers (snd c') ts j = stored_registers (snd c) ts j"
  using assms
proof (induction arbitrary: i rule: slices.induct)
  case (slice s s1 e q flags r' s2 qs c r)
  let ?n = "length ts"
  let ?i = "Suc i mod ?n"
  have sch: "scheduled s ts i" using slice.prems by simp
  note os = one_slice [OF sch slice.hyps(1,2)]
  have "(i + 0) mod ?n \<noteq> j" using slice.prems(3) by (metis length_Cons zero_less_Suc)
  then have "j \<noteq> i" using sch by (simp add: scheduled_def)
  moreover have "(?i + m) mod ?n \<noteq> j" if "m < length qs" for m
    using slice.prems(3) [rule_format, of "Suc m"] that by (simp add: mod_add_left_eq)
  then have "stored_registers (snd c) ts j = stored_registers s2 ts j"
    using slice.IH [of ?i] os(1) slice.prems(2) by simp
  ultimately show ?case using os(3) [OF slice.prems(2)] by simp
qed simp

lemma slices_saved:
  assumes "slices c qs c'" "scheduled (snd c) ts i" "length qs \<le> length ts" "k < length qs"
  shows "stored_registers (snd c') ts ((i + k) mod length ts) = qs ! k"
  using assms
proof (induction arbitrary: i k rule: slices.induct)
  case (slice s s1 e q flags r' s2 qs c r)
  let ?n = "length ts"
  let ?i = "Suc i mod ?n"
  have shift: "(?i + m) mod ?n = (i + Suc m) mod ?n" for m by (simp add: mod_add_left_eq)
  have sch: "scheduled s ts i" and i: "i < ?n" using slice.prems by (simp_all add: scheduled_def)
  note os = one_slice [OF sch slice.hyps(1,2)]
  show ?case
  proof (cases k)
    case 0
    have "(?i + m) mod ?n \<noteq> i" if "m < length qs" for m
      unfolding shift by (rule mod_ring_neq) (use i that slice.prems(2) in auto)
    then have "stored_registers (snd c) ts i = stored_registers s2 ts i"
      using slices_kept [OF slice.hyps(3), of ts ?i i] os(1) i by simp
    then show ?thesis using os(2) i 0 by simp
  next
    case (Suc m)
    have "stored_registers (snd c) ts ((?i + m) mod ?n) = qs ! m"
      by (rule slice.IH) (use slice.prems Suc os(1) in auto)
    then show ?thesis unfolding shift Suc by simp
  qed
qed simp

lemma slices_entered:
  assumes "slices c qs c'" "scheduled (snd c) ts i" "qs \<noteq> []"
  shows "\<exists>flags. fst c' = task_return flags (stored_registers (snd c') ts ((i + length qs) mod length ts))"
  using assms
proof (induction arbitrary: i rule: slices.induct)
  case (slice s s1 e q flags r' s2 qs c r)
  have sch: "scheduled s ts i" using slice.prems by simp
  note os = one_slice [OF sch slice.hyps(1,2)]
  show ?case
  proof (cases "qs = []")
    case True
    then have "c = (r', s2)" using slice.hyps(3) by (auto elim: slices_NilE)
    then show ?thesis using os(4) True by auto
  next
    case False
    have sn: "snd (r', s2) = s2" by simp
    show ?thesis using slice.IH [unfolded sn, OF os(1) False] by (simp add: mod_add_left_eq)
  qed
qed simp

section \<open>Properties\<close>

text \<open>
  C11. Round robin. Let task \<open>i\<close> of the list of \<open>n\<close> tasks be running. Whatever user code does, the next
  clock interrupt enters user mode again, and after \<open>m\<close> interrupts the task \<open>i + m\<close> modulo \<open>n\<close> is running, so
  every task runs within \<open>n\<close> interrupts. After \<open>n\<close> interrupts the first task goes on with the registers it
  was interrupted with, except that \<open>ecx\<close> holds the value of \<open>ebx\<close> and the flags are those of the kernel.
\<close>
theorem round_robin:
  assumes "scheduled s ts i"
  shows "(\<forall>s1 e q flags. user_step s s1 \<longrightarrow>
        (\<exists>r' s2. interrupt_handler 0x20 (frame_of e q) flags s1 = Some (Enter r', s2))) \<and>
      (\<forall>qs r r' s'. slices (r, s) qs (r', s') \<longrightarrow> scheduled s' ts ((i + length qs) mod length ts)) \<and>
      (\<forall>j < length ts. \<exists>m < length ts. \<forall>qs r r' s'. length qs = m \<longrightarrow> slices (r, s) qs (r', s') \<longrightarrow>
        current_task s' = ts ! j) \<and>
      (\<forall>qs r r' s'. slices (r, s) qs (r', s') \<longrightarrow> length qs = length ts \<longrightarrow>
        r' = (hd qs)\<lparr>r_ecx := r_ebx (hd qs), r_flags := r_flags r'\<rparr>)"
proof (intro conjI allI impI)
  fix s1 e q flags
  assume "user_step s s1"
  then have "scheduled s1 ts i" using assms user_step_scheduled(1) by blast
  then show "\<exists>r' s2. interrupt_handler 0x20 (frame_of e q) flags s1 = Some (Enter r', s2)"
    using clock_tick by blast
next
  fix qs r r' s'
  assume "slices (r, s) qs (r', s')"
  from slices_current [OF this] show "scheduled s' ts ((i + length qs) mod length ts)" using assms by simp
next
  fix j
  assume j: "j < length ts"
  have i: "i < length ts" using assms by (simp add: scheduled_def)
  let ?m = "(j + (length ts - i)) mod length ts"
  have "(i + ?m) mod length ts = (i + (j + (length ts - i))) mod length ts" by (simp add: mod_add_right_eq)
  also have "i + (j + (length ts - i)) = j + length ts" using i by simp
  finally have "(i + ?m) mod length ts = j" using j by simp
  moreover have "?m < length ts" using i by (intro mod_less_divisor) linarith
  moreover have "current_task s' = ts ! ((i + ?m) mod length ts)"
    if "length qs = ?m" "slices (r, s) qs (r', s')" for qs r r' s'
    using slices_current [OF that(2)] assms that(1) by (simp add: scheduled_def)
  ultimately show "\<exists>m < length ts. \<forall>qs r r' s'. length qs = m \<longrightarrow> slices (r, s) qs (r', s') \<longrightarrow>
      current_task s' = ts ! j" by metis
next
  fix qs r r' s'
  assume run: "slices (r, s) qs (r', s')" and len: "length qs = length ts"
  have sch: "scheduled (snd (r, s)) ts i" using assms by simp
  have i: "i < length ts" using assms by (simp add: scheduled_def)
  then have tne: "ts \<noteq> []" by auto
  then have ne: "qs \<noteq> []" using len by auto
  have "stored_registers s' ts i = qs ! 0" using slices_saved [OF run sch, of 0] len i tne by simp
  moreover have "qs ! 0 = hd qs" using ne by (simp add: hd_conv_nth)
  moreover obtain flags where "r' = task_return flags (stored_registers s' ts i)"
    using slices_entered [OF run sch ne] len i by auto
  ultimately have "r' = task_return flags (hd qs)" by simp
  then show "r' = (hd qs)\<lparr>r_ecx := r_ebx (hd qs), r_flags := r_flags r'\<rparr>"
    by (simp add: task_return_def restore_general_purpose_registers_def)
qed

lemma sample_tasks_scheduled: "scheduled sample_tasks [slot 0, slot 1] 0"
  using sample_tasks_list sample_tasks_objs [of 2] by (auto simp: scheduled_def sample_tasks_def nth_append)

theorem round_robin_witness:
  "\<exists>r' s'. slices (zero_registers, sample_tasks) [zero_registers\<lparr>r_ebx := 7\<rparr>, zero_registers] (r', s') \<and>
     r_ecx r' = 7 \<and> r_ecx (zero_registers\<lparr>r_ebx := 7\<rparr>) = 0 \<and> current_task s' = slot 0"
proof -
  let ?q = "zero_registers\<lparr>r_ebx := 7\<rparr>"
  note rr = round_robin [OF sample_tasks_scheduled]
  have us: "user_step s s" for s by (simp add: user_step_def)
  obtain r1 s1 where h1: "interrupt_handler 0x20 (frame_of 0 ?q) 0 sample_tasks = Some (Enter r1, s1)"
    using rr us by blast
  have "slices (zero_registers, sample_tasks) [?q] (r1, s1)" by (intro slice [OF us h1] none)
  then have "scheduled s1 [slot 0, slot 1] ((0 + length [?q]) mod length [slot 0, slot 1])" using rr by blast
  then have "scheduled s1 [slot 0, slot 1] 1" by simp
  from round_robin [OF this] us
  obtain r2 s2 where h2: "interrupt_handler 0x20 (frame_of 0 zero_registers) 0 s1 = Some (Enter r2, s2)" by blast
  have run: "slices (zero_registers, sample_tasks) [?q, zero_registers] (r2, s2)"
    by (intro slice [OF us h1] slice [OF us h2] none)
  then have "r2 = ?q\<lparr>r_ecx := r_ebx ?q, r_flags := r_flags r2\<rparr>" using rr by fastforce
  then have "r_ecx r2 = r_ecx (?q\<lparr>r_ecx := r_ebx ?q, r_flags := r_flags r2\<rparr>)" by (rule arg_cong)
  moreover have "scheduled s2 [slot 0, slot 1] ((0 + length [?q, zero_registers]) mod length [slot 0, slot 1])"
    using rr run by blast
  ultimately show ?thesis using run by (auto simp: scheduled_def zero_registers_def)
qed

end
