(* ===== verification/Input.thy ===== *)
theory Input
  imports Scheduler SystemCalls "HOL-Library.Sublist"
begin

unbundle bit_operations_syntax

text \<open>
  From the keyboard to the programs: runs of the machine in which keys are pressed, the clock ticks and programs
  ask for keys, and the abstract machine they refine, one queue of characters per process.
\<close>

section \<open>Scancodes\<close>

text \<open>
  What the scancode \<open>sc\<close> types, with the state of the capslock key after it: nothing when a key is
  released, a letter in lower case unless capslock is on.
\<close>

definition char_of_key :: "bool \<Rightarrow> u8 \<Rightarrow> u8" where
  "char_of_key caps sc =
     (let c = (if unat sc < length keyboard_scan_set_one then keyboard_scan_set_one ! unat sc else 0)
      in if \<not> caps \<and> 0x41 \<le> c \<and> c \<le> 0x5A then c + 32 else c)"

definition decode_key :: "bool \<Rightarrow> u8 \<Rightarrow> bool \<times> u8 list" where
  "decode_key caps sc =
     (if bit sc 7 then (caps, [])
      else let caps' = (if sc = CLASSIC_KEYBOARD_CAPSLOCK then \<not> caps else caps); c = char_of_key caps' sc
        in (caps', if c = 0 then [] else [c]))"

definition capslock :: "bool \<Rightarrow> int" where
  "capslock caps = (if caps then KEYBOARD_CAPSLOCK_ON else KEYBOARD_CAPSLOCK_OFF)"

lemma scan_set_ascii: "c \<in> set keyboard_scan_set_one \<Longrightarrow> c < 0x80"
  by (auto simp: keyboard_scan_set_one_def lit_chars_def)

lemma sint_ascii: "c < 0x80 \<Longrightarrow> sint (c :: u8) = uint c"
proof -
  assume "c < 0x80"
  then have "uint c < 2 ^ 7" by (simp add: word_less_alt)
  moreover have "- (2 ^ 7) \<le> uint c" by (rule order_trans [OF _ unsigned_greater_eq]) simp
  ultimately have "signed_take_bit 7 (uint c) = uint c" by (intro signed_take_bit_int_eq_self)
  then show ?thesis by (simp add: sint_uint)
qed

lemma scancode_to_char:
  assumes "kbd_capslock_state (classic_keyboard s) = capslock caps"
  shows "classic_keyboard_scancode_to_char sc s = Some (char_of_key caps sc)"
proof (cases "unat sc < length keyboard_scan_set_one")
  case True
  let ?c = "keyboard_scan_set_one ! unat sc"
  have "?c < 0x80" using True by (intro scan_set_ascii nth_mem)
  then have c: "sint ?c = uint ?c" by (rule sint_ascii)
  have "uint sc = int (unat sc)" by simp
  then have "\<not> uint sc \<ge> int (length keyboard_scan_set_one)" using True by linarith
  then show ?thesis
    using True assms arr_get_nat [of "unat sc" keyboard_scan_set_one]
    by (simp add: classic_keyboard_scancode_to_char_def keyboard_get_capslock_def char_of_key_def capslock_def c Let_def
        KEYBOARD_CAPSLOCK_ON_def KEYBOARD_CAPSLOCK_OFF_def word_le_def)
next
  case False
  moreover have "uint sc = int (unat sc)" by simp
  ultimately have "uint sc \<ge> int (length keyboard_scan_set_one)" by linarith
  then show ?thesis using False by (simp add: classic_keyboard_scancode_to_char_def char_of_key_def Let_def)
qed
section \<open>The machine with its queues\<close>

text \<open>
  The task \<open>ts ! i\<close> runs; the task \<open>ts ! j\<close> belongs to the process \<open>ps ! j\<close>; keys go to the process \<open>f\<close>. Every process has
  its queue \<open>Q\<close> of characters and can take \<open>n\<close> more, and the interrupts and calls are registered.
\<close>

definition has_queue :: "nat \<Rightarrow> kernel \<Rightarrow> u32 \<Rightarrow> u8 list \<Rightarrow> bool" where
  "has_queue n s a q \<longleftrightarrow> (\<exists>p. objs s a = Some (OProcess p) \<and> keys n (p_keyboard p) q)"

definition input_ready ::
  "nat \<Rightarrow> kernel \<Rightarrow> u32 list \<Rightarrow> u32 list \<Rightarrow> u32 \<Rightarrow> (u32 \<Rightarrow> u8 list) \<Rightarrow> bool \<Rightarrow> nat \<Rightarrow> bool" where
  "input_ready n s ts ps f Q caps i \<longleftrightarrow> scheduled s ts i \<and> map (\<lambda>a. t_process (task_at s a)) ts = ps \<and>
     current_process s = f \<and> f \<noteq> 0 \<and> (\<forall>a \<in> insert f (set ps). has_queue n s a (Q a)) \<and>
     0x21 < length (interrupt_callbacks s) \<and> interrupt_callbacks s ! 0x21 = Some ClassicKeyboard \<and>
     2 < length (isr80h_commands s) \<and> isr80h_commands s ! 2 = Some GetKey \<and>
     kbd_capslock_state (classic_keyboard s) = capslock caps"

text \<open>What of the kernel's variables an input step leaves alone.\<close>

definition input_step :: "kernel \<Rightarrow> kernel \<Rightarrow> bool" where
  "input_step s s' \<longleftrightarrow> s' = s\<lparr>objs := objs s', io_log := io_log s', cr3 := cr3 s', current_directory := current_directory s',
     current_task := current_task s', classic_keyboard := classic_keyboard s', device := device s'\<rparr> \<and>
     (\<forall>a t. objs s a = Some (OTask t) \<longrightarrow> (\<exists>r. objs s' a = Some (OTask (t\<lparr>t_registers := r\<rparr>)))) \<and>
     (\<forall>a d. objs s a = Some (OChunk d) \<longrightarrow> objs s' a = Some (OChunk d))"

lemma input_stepD:
  assumes "input_step s s'"
  shows "task_head s' = task_head s" "task_tail s' = task_tail s" "kernel_chunk s' = kernel_chunk s"
    "interrupt_callbacks s' = interrupt_callbacks s" "isr80h_commands s' = isr80h_commands s" "current_process s' = current_process s"
    "objs s a = Some (OTask t) \<Longrightarrow> \<exists>r. objs s' a = Some (OTask (t\<lparr>t_registers := r\<rparr>))"
    "objs s a = Some (OChunk d) \<Longrightarrow> objs s' a = Some (OChunk d)"
proof -
  have e: "s' = s\<lparr>objs := objs s', io_log := io_log s', cr3 := cr3 s', current_directory := current_directory s',
     current_task := current_task s', classic_keyboard := classic_keyboard s', device := device s'\<rparr>"
    using assms by (simp add: input_step_def)
  show "task_head s' = task_head s" "task_tail s' = task_tail s" "kernel_chunk s' = kernel_chunk s"
    "interrupt_callbacks s' = interrupt_callbacks s" "isr80h_commands s' = isr80h_commands s" "current_process s' = current_process s"
    by (subst e, simp)+
  show "objs s a = Some (OTask t) \<Longrightarrow> \<exists>r. objs s' a = Some (OTask (t\<lparr>t_registers := r\<rparr>))"
    "objs s a = Some (OChunk d) \<Longrightarrow> objs s' a = Some (OChunk d)"
    using assms by (simp_all add: input_step_def)
qed

lemma input_ready_step:
  assumes "input_ready n s ts ps f Q caps i" "input_step s s'" "current_task s' = ts ! j" "j < length ts"
    "\<And>a. a \<in> insert f (set ps) \<Longrightarrow> has_queue n s a (Q a) \<Longrightarrow> has_queue m s' a (R a)"
    "kbd_capslock_state (classic_keyboard s') = capslock caps'"
  shows "input_ready m s' ts ps f R caps' j"
proof -
  note r = assms(1) [unfolded input_ready_def scheduled_def]
  note d = input_stepD [OF assms(2)]
  have l: "task_list s ts" using r by simp
  have l': "task_list s' ts" by (rule task_list_cong [OF l d(1,2)]) (fact d(7), fact d(8))
  have "t_process (task_at s' a) = t_process (task_at s a)" if a: "a \<in> set ts" for a
  proof -
    obtain k where "k < length ts" "ts ! k = a" using a unfolding in_set_conv_nth by blast
    then have "objs s a = Some (OTask (task_at s a))" using task_list_nth(1) [OF l] by blast
    from d(7) [OF this] show ?thesis by (auto simp: task_at_def)
  qed
  then have "map (\<lambda>a. t_process (task_at s' a)) ts = ps" using r by (auto intro!: map_cong)
  then show ?thesis
    unfolding input_ready_def scheduled_def using r l' d(3-6,8) assms(3-6) by auto
qed

section \<open>The steps\<close>

lemma input_page:
  assumes "input_ready n s ts ps f Q caps i"
  obtains kd where "objs s (kernel_chunk s) = Some (OChunk kd)" "kernel_page s = Some (s\<lparr>cr3 := kd, current_directory := kd\<rparr>)"
  using assms that
  by (auto simp: input_ready_def scheduled_def kernel_page_def paging_switch_def paging_load_directory_def get_chunk_def)

text \<open>The keyboard controller presents a scancode.\<close>

definition present :: "u8 \<Rightarrow> kernel \<Rightarrow> kernel" where
  "present sc s = s\<lparr>device := (\<lambda>log port. if port = KEYBOARD_INPUT_PORT then ucast sc else device s log port)\<rparr>"

text \<open>The registers of the running task are saved.\<close>

definition saved :: "kernel \<Rightarrow> interrupt_frame \<Rightarrow> (u32 \<Rightarrow> obj option)" where
  "saved s frame = save_task (current_task s) frame s"

lemma save_state_ok:
  assumes "objs s (current_task s) = Some (OTask (task_at s (current_task s)))" "current_task s \<noteq> 0"
  shows "task_current_save_state frame s = Some (s\<lparr>objs := saved s frame\<rparr>)"
  using assms
  by (simp add: task_current_save_state_def task_save_state_def get_task_def put_def save_task_def saved_def task_current_def)

lemma task_page_ok:
  assumes "objs s (current_task s) = Some (OTask t)" "objs s (t_page_directory t) = Some (OChunk d)"
  shows "task_page s = Some (0, s\<lparr>cr3 := d, current_directory := d\<rparr>)"
  using assms
  by (simp add: task_page_def task_switch_def get_task_def paging_switch_def get_chunk_def paging_load_directory_def Let_def)
lemma input_step_same: "objs s' = objs s \<Longrightarrow> s' = s\<lparr>io_log := io_log s', cr3 := cr3 s', current_directory := current_directory s',
     classic_keyboard := classic_keyboard s', device := device s'\<rparr> \<Longrightarrow> input_step s s'"
  unfolding input_step_def using same_registers by (cases s; cases s') auto

lemma input_ready_same:
  assumes "input_ready n s ts ps f Q caps i" "objs s' = objs s" "kbd_capslock_state (classic_keyboard s') = capslock caps'"
    "s' = s\<lparr>io_log := io_log s', cr3 := cr3 s', current_directory := current_directory s',
     classic_keyboard := classic_keyboard s', device := device s'\<rparr>"
  shows "input_ready n s' ts ps f Q caps' i"
proof (rule input_ready_step [OF assms(1) input_step_same [OF assms(2,4)]])
  have "current_task s' = current_task s" by (subst assms(4)) simp
  then show "current_task s' = ts ! i" "i < length ts" using assms(1) by (simp_all add: input_ready_def scheduled_def)
  show "has_queue n s a (Q a) \<Longrightarrow> has_queue n s' a (Q a)" for a by (simp add: has_queue_def assms(2))
qed (rule assms(3))

lemma input_task:
  assumes "input_ready n s ts ps f Q caps i"
  shows "current_task s = ts ! i" "ts ! i \<noteq> 0" "objs s (ts ! i) = Some (OTask (task_at s (ts ! i)))"
    "\<exists>d. objs s (t_page_directory (task_at s (ts ! i))) = Some (OChunk d)" "t_process (task_at s (ts ! i)) = ps ! i" "i < length ts"
    "length ps = length ts" "kbd_capslock_state (classic_keyboard s) = capslock caps"
proof -
  have l: "task_list s ts" "i < length ts" and ps: "map (\<lambda>a. t_process (task_at s a)) ts = ps"
    and c: "current_task s = ts ! i" "kbd_capslock_state (classic_keyboard s) = capslock caps"
    using assms by (simp_all add: input_ready_def scheduled_def)
  note n = task_list_nth [OF l]
  show "current_task s = ts ! i" "ts ! i \<noteq> 0" "objs s (ts ! i) = Some (OTask (task_at s (ts ! i)))"
    "\<exists>d. objs s (t_page_directory (task_at s (ts ! i))) = Some (OChunk d)" "i < length ts"
    "kbd_capslock_state (classic_keyboard s) = capslock caps"
    using n(1,2,5) l(2) c by simp_all
  show "t_process (task_at s (ts ! i)) = ps ! i" "length ps = length ts" using ps l(2) by auto
qed

lemma kernel_page_ready:
  assumes "input_ready n s ts ps f Q caps i"
  obtains s' where "kernel_page s = Some s'" "input_ready n s' ts ps f Q caps i" "io_log s' = io_log s" "device s' = device s"
proof -
  obtain kd where kd: "kernel_page s = Some (s\<lparr>cr3 := kd, current_directory := kd\<rparr>)" by (rule input_page [OF assms])
  show thesis
    by (rule that [OF kd input_ready_same [OF assms]]) (use input_task(8) [OF assms] in simp_all)
qed

lemma task_page_ready:
  assumes "input_ready n s ts ps f Q caps i"
  obtains s' where "task_page s = Some (0, s')" "input_ready n s' ts ps f Q caps i"
proof -
  note t = input_task [OF assms]
  obtain d where d: "objs s (t_page_directory (task_at s (ts ! i))) = Some (OChunk d)" using t(4) by blast
  have p: "task_page s = Some (0, s\<lparr>cr3 := d, current_directory := d\<rparr>)"
    by (rule task_page_ok [OF _ d]) (use t(1,3) in simp)
  show thesis by (rule that [OF p input_ready_same [OF assms]]) (use t(8) in simp_all)
qed

lemma save_state_ready:
  assumes "input_ready n s ts ps f Q caps i"
  obtains s' where "task_current_save_state frame s = Some s'" "input_ready n s' ts ps f Q caps i" "io_log s' = io_log s"
    "device s' = device s"
proof -
  note t = input_task [OF assms]
  have sv: "task_current_save_state frame s = Some (s\<lparr>objs := saved s frame\<rparr>)"
    by (rule save_state_ok) (use t(1-3) in simp_all)
  let ?s = "s\<lparr>objs := saved s frame\<rparr>"
  have st: "input_step s ?s"
    using t(3) same_registers by (auto simp: input_step_def saved_def save_task_def t(1))
  have "input_ready n ?s ts ps f Q caps i"
    by (rule input_ready_step [OF assms st]) (use t in \<open>auto simp: has_queue_def saved_def save_task_def\<close>)
  then show thesis by (rule that [OF sv]) simp_all
qed

lemma queue_put:
  assumes "input_ready n s ts ps f Q caps i" "objs s a = Some (OProcess p)" "keys m k q"
    "\<And>b. b \<in> insert f (set ps) \<Longrightarrow> b \<noteq> a \<Longrightarrow> has_queue n s b (Q b) \<Longrightarrow> has_queue m s b (Q b)"
  shows "input_ready m (s\<lparr>objs := (objs s)(a \<mapsto> OProcess (p\<lparr>p_keyboard := k\<rparr>))\<rparr>) ts ps f (Q(a := q)) caps i"
    (is "input_ready m ?s ts ps f ?Q caps i")
proof -
  note t = input_task [OF assms(1)]
  have st: "input_step s ?s" using assms(2) same_registers by (auto simp: input_step_def)
  show ?thesis
    by (rule input_ready_step [OF assms(1) st]) (use t assms(2-4) in \<open>auto simp: has_queue_def\<close>)
qed

lemma has_queue_less: "has_queue (Suc n) s a q \<Longrightarrow> has_queue n s a q"
  using keys_less by (auto simp: has_queue_def)

lemma push_ready:
  assumes "input_ready (Suc n) s ts ps f Q caps i" "c \<noteq> 0" "length (Q f) < 1024"
  obtains s' where "keyboard_push c s = Some s'" "input_ready n s' ts ps f (Q(f := Q f @ [c])) caps i"
proof -
  have f: "current_process s = f" "f \<noteq> 0" "has_queue (Suc n) s f (Q f)" using assms(1) by (simp_all add: input_ready_def)
  then obtain p where p: "objs s f = Some (OProcess p)" "keys (Suc n) (p_keyboard p) (Q f)" by (auto simp: has_queue_def)
  then obtain t where t: "kb_tail (p_keyboard p) = int t" unfolding keys_def by blast
  show thesis
    by (rule that [OF keyboard_push_ok [OF f(1,2) p assms(2) t] queue_put [OF assms(1) p(1) keys_put [OF p(2) assms(2,3) t]]])
      (rule has_queue_less)
qed

lemma input_ready_less:
  assumes "input_ready (Suc n) s ts ps f Q caps i"
  shows "input_ready n s ts ps f Q caps i"
  using assms has_queue_less by (auto simp: input_ready_def)

lemma pop_ready:
  assumes "input_ready n s ts ps f Q caps i"
  obtains s' where "keyboard_pop s = Some (case Q (ps ! i) of [] \<Rightarrow> 0 | c # q \<Rightarrow> c, s')"
    "input_ready n s' ts ps f (Q(ps ! i := tl (Q (ps ! i)))) caps i"
proof -
  note t = input_task [OF assms]
  have ct: "current_task s \<noteq> 0" "objs s (current_task s) = Some (OTask (task_at s (ts ! i)))" using t(1-3) by simp_all
  have "ps ! i \<in> set ps" using t(6,7) by simp
  then have "has_queue n s (ps ! i) (Q (ps ! i))" using assms by (simp add: input_ready_def)
  then obtain p where p: "objs s (t_process (task_at s (ts ! i))) = Some (OProcess p)" "keys n (p_keyboard p) (Q (ps ! i))"
    using t(5) by (auto simp: has_queue_def)
  show thesis
  proof (cases "Q (ps ! i)")
    case Nil
    have e: "Q(ps ! i := []) = Q" using Nil by (metis fun_upd_triv)
    show thesis
      by (rule that [of s]) (use keyboard_pop_empty [OF ct p(1)] p(2) Nil e assms in simp_all)
  next
    case (Cons c q)
    have kc: "keys n (p_keyboard p) (c # q)" using p(2) Cons by simp
    then obtain h where h: "kb_head (p_keyboard p) = int h" by (auto simp: keys_def)
    have r: "input_ready n (s\<lparr>objs := (objs s)(t_process (task_at s (ts ! i)) \<mapsto> OProcess (p\<lparr>p_keyboard := take_key (p_keyboard p) h\<rparr>))\<rparr>)
        ts ps f (Q(t_process (task_at s (ts ! i)) := q)) caps i"
      by (rule queue_put [OF assms p(1) keys_take(3) [OF kc h]])
    show thesis
      by (rule that) (use keyboard_pop_ok [OF ct p(1) kc h] r Cons t(5) in simp_all)
  qed
qed
section \<open>Interrupts and calls\<close>

lemma released_bit: "(sc :: u8) AND CLASSIC_KEYBOARD_KEY_RELEASED \<noteq> 0 \<longleftrightarrow> bit sc 7"
  using and_exp_eq_0_iff_not_bit [of sc 7] by (simp add: CLASSIC_KEYBOARD_KEY_RELEASED_def)

lemma capslock_toggle:
  assumes "input_ready n s ts ps f Q caps i"
  obtains s' where "(if sc = CLASSIC_KEYBOARD_CAPSLOCK then do {
       old_state \<leftarrow> keyboard_get_capslock TheClassic s;
       keyboard_set_capslock TheClassic (if old_state = KEYBOARD_CAPSLOCK_ON then KEYBOARD_CAPSLOCK_OFF else KEYBOARD_CAPSLOCK_ON) s
     } else Some s) = Some s'"
    "input_ready n s' ts ps f Q (if sc = CLASSIC_KEYBOARD_CAPSLOCK then \<not> caps else caps) i"
proof (cases "sc = CLASSIC_KEYBOARD_CAPSLOCK")
  case True
  let ?s = "s\<lparr>classic_keyboard := (classic_keyboard s)\<lparr>kbd_capslock_state := capslock (\<not> caps)\<rparr>\<rparr>"
  have "input_ready n ?s ts ps f Q (\<not> caps) i" by (rule input_ready_same [OF assms]) simp_all
  moreover have "kbd_capslock_state (classic_keyboard s) = capslock caps" by (rule input_task(8) [OF assms])
  ultimately show thesis
    using that [of ?s] True
    by (cases caps) (simp_all add: keyboard_get_capslock_def keyboard_set_capslock_def capslock_def
        KEYBOARD_CAPSLOCK_ON_def KEYBOARD_CAPSLOCK_OFF_def)
next
  case False
  then show thesis using that assms by simp
qed

lemma classic_ready:
  assumes "input_ready (Suc n) s ts ps f Q caps i" "length (Q f) < 1024" "\<And>log. device s log KEYBOARD_INPUT_PORT = ucast sc"
  obtains s' where "classic_keyboard_handle_interrupt s = Some s'"
    "input_ready n s' ts ps f (Q(f := Q f @ snd (decode_key caps sc))) (fst (decode_key caps sc)) i"
proof -
  obtain s1 where s1: "kernel_page s = Some s1" "input_ready (Suc n) s1 ts ps f Q caps i" "device s1 = device s"
    by (rule kernel_page_ready [OF assms(1)])
  let ?P = "KEYBOARD_INPUT_PORT"
  define s2 where "s2 = s1\<lparr>io_log := InB ?P # InB ?P # io_log s1\<rparr>"
  have uc: "ucast (ucast sc :: u16) = sc" by (rule bit_word_eqI) (simp add: bit_simps)
  have in2: "insb ?P s1 = (sc, s1\<lparr>io_log := InB ?P # io_log s1\<rparr>)" "insb ?P (s1\<lparr>io_log := InB ?P # io_log s1\<rparr>) = (sc, s2)"
    using assms(3) s1(3) uc by (simp_all add: insb_def s2_def)
  have r2: "input_ready (Suc n) s2 ts ps f Q caps i"
    by (rule input_ready_same [OF s1(2)]) (use input_task(8) [OF s1(2)] in \<open>simp_all add: s2_def\<close>)
  show thesis
  proof (cases "bit sc 7")
    case True
    have "classic_keyboard_handle_interrupt s = Some s2"
      using s1(1) in2 True by (simp add: classic_keyboard_handle_interrupt_def released_bit)
    moreover have "Q(f := Q f @ []) = Q" by simp
    ultimately show thesis using that [of s2] input_ready_less [OF r2] True by (simp add: decode_key_def)
  next
    case False
    let ?caps = "if sc = CLASSIC_KEYBOARD_CAPSLOCK then \<not> caps else caps"
    obtain s3 where s3: "(if sc = CLASSIC_KEYBOARD_CAPSLOCK then do {
         old_state \<leftarrow> keyboard_get_capslock TheClassic s2;
         keyboard_set_capslock TheClassic (if old_state = KEYBOARD_CAPSLOCK_ON then KEYBOARD_CAPSLOCK_OFF else KEYBOARD_CAPSLOCK_ON) s2
       } else Some s2) = Some s3" "input_ready (Suc n) s3 ts ps f Q ?caps i"
      by (rule capslock_toggle [OF r2])
    let ?c = "char_of_key ?caps sc"
    have c: "classic_keyboard_scancode_to_char sc s3 = Some ?c"
      by (rule scancode_to_char) (rule input_task(8) [OF s3(2)])
    obtain s4 where s4: "(if ?c \<noteq> 0 then keyboard_push ?c s3 else Some s3) = Some s4"
      "input_ready n s4 ts ps f (Q(f := Q f @ (if ?c = 0 then [] else [?c]))) ?caps i"
    proof (cases "?c = 0")
      case True
      then show ?thesis using that [of s3] input_ready_less [OF s3(2)] by simp
    next
      case False
      obtain s4 where "keyboard_push ?c s3 = Some s4" "input_ready n s4 ts ps f (Q(f := Q f @ [?c])) ?caps i"
        by (rule push_ready [OF s3(2) False assms(2)])
      then show ?thesis using that [of s4] False by simp
    qed
    obtain s5 where s5: "task_page s4 = Some (0, s5)"
      "input_ready n s5 ts ps f (Q(f := Q f @ (if ?c = 0 then [] else [?c]))) ?caps i"
      by (rule task_page_ready [OF s4(2)])
    have nb: "\<not> (sc AND CLASSIC_KEYBOARD_KEY_RELEASED \<noteq> 0)" using False by (simp only: released_bit not_False_eq_True)
    have "classic_keyboard_handle_interrupt s = Some s5"
      unfolding classic_keyboard_handle_interrupt_def s1(1) bind.bind_lunit in2 Let_def case_prod_conv if_not_P [OF nb]
        s3(1) c s4(1) s5(1) by simp
    then show thesis using that [of s5] s5(2) False by (simp add: decode_key_def Let_def)
  qed
qed

lemma present_ready:
  assumes "input_ready n s ts ps f Q caps i"
  shows "input_ready n (present sc s) ts ps f Q caps i" "device (present sc s) log KEYBOARD_INPUT_PORT = ucast sc"
  by (rule input_ready_same [OF assms]) (use input_task(8) [OF assms] in \<open>simp_all add: present_def\<close>)

lemma key_ready:
  assumes "input_ready (Suc n) s ts ps f Q caps i" "length (Q f) < 1024"
  obtains s' where "interrupt_handler 0x21 frame flags (present sc s) = Some (Return (), s')"
    "input_ready n s' ts ps f (Q(f := Q f @ snd (decode_key caps sc))) (fst (decode_key caps sc)) i"
proof -
  note p = present_ready [OF assms(1), where sc = sc]
  obtain s1 where s1: "kernel_page (present sc s) = Some s1" "input_ready (Suc n) s1 ts ps f Q caps i"
    "device s1 = device (present sc s)" by (rule kernel_page_ready [OF p(1)])
  obtain s2 where s2: "task_current_save_state frame s1 = Some s2" "input_ready (Suc n) s2 ts ps f Q caps i" "device s2 = device s1"
    by (rule save_state_ready [OF s1(2)])
  have d: "device s2 log KEYBOARD_INPUT_PORT = ucast sc" for log using p(2) s1(3) s2(3) by simp
  obtain s3 where s3: "classic_keyboard_handle_interrupt s2 = Some s3"
    "input_ready n s3 ts ps f (Q(f := Q f @ snd (decode_key caps sc))) (fst (decode_key caps sc)) i"
    by (rule classic_ready [OF s2(2) assms(2) d])
  obtain s4 where s4: "task_page s3 = Some (0, s4)"
    "input_ready n s4 ts ps f (Q(f := Q f @ snd (decode_key caps sc))) (fst (decode_key caps sc)) i"
    by (rule task_page_ready [OF s3(2)])
  have cb: "arr_get (interrupt_callbacks s1) 0x21 = Some (Some ClassicKeyboard)"
    using s1(2) arr_get_nat [of 33 "interrupt_callbacks s1"] by (simp add: input_ready_def)
  have "interrupt_handler 0x21 frame flags (present sc s) = Some (Return (), outb 0x20 0x20 s4)"
    using s1(1) s2(1) s3(1) s4(1) cb by (simp add: interrupt_handler_def)
  moreover have "input_ready n (outb 0x20 0x20 s4) ts ps f (Q(f := Q f @ snd (decode_key caps sc))) (fst (decode_key caps sc)) i"
    by (rule input_ready_same [OF s4(2)]) (use input_task(8) [OF s4(2)] in \<open>simp_all add: outb_def\<close>)
  ultimately show thesis by (rule that)
qed

lemma ask_ready:
  assumes "input_ready n s ts ps f Q caps i"
  obtains s' where "isr80h_handler 2 frame flags junk s = Some (Return (scast (case Q (ps ! i) of [] \<Rightarrow> 0 | c # q \<Rightarrow> c)), s')"
    "input_ready n s' ts ps f (Q(ps ! i := tl (Q (ps ! i)))) caps i"
proof -
  obtain s1 where s1: "kernel_page s = Some s1" "input_ready n s1 ts ps f Q caps i" by (rule kernel_page_ready [OF assms])
  obtain s2 where s2: "task_current_save_state frame s1 = Some s2" "input_ready n s2 ts ps f Q caps i"
    by (rule save_state_ready [OF s1(2)])
  obtain s3 where s3: "keyboard_pop s2 = Some (case Q (ps ! i) of [] \<Rightarrow> 0 | c # q \<Rightarrow> c, s3)"
    "input_ready n s3 ts ps f (Q(ps ! i := tl (Q (ps ! i)))) caps i" by (rule pop_ready [OF s2(2)])
  obtain s4 where s4: "task_page s3 = Some (0, s4)" "input_ready n s4 ts ps f (Q(ps ! i := tl (Q (ps ! i)))) caps i"
    by (rule task_page_ready [OF s3(2)])
  have cm: "arr_get (isr80h_commands s2) 2 = Some (Some GetKey)"
    using s2(2) arr_get_nat [of 2 "isr80h_commands s2"] by (simp add: input_ready_def)
  have "isr80h_handler 2 frame flags junk s = Some (Return (scast (case Q (ps ! i) of [] \<Rightarrow> 0 | c # q \<Rightarrow> c)), s4)"
    using s1(1) s2(1) s3(1) s4(1) cm
    by (simp add: isr80h_handler_def isr80h_handle_command_def isr80h_command2_getkey_def PLUMOS_MAX_ISR80H_COMMANDS_def)
  then show thesis by (rule that [OF _ s4(2)])
qed

lemma tick_ready:
  assumes "input_ready n s ts ps f Q caps i"
  obtains r s' where "interrupt_handler 0x20 frame flags s = Some (Enter r, s')"
    "input_ready n s' ts ps f Q caps (Suc i mod length ts)"
proof -
  let ?j = "Suc i mod length ts"
  note t = input_task [OF assms]
  have sc: "scheduled s ts i" using assms by (simp add: input_ready_def)
  obtain r s' where s': "interrupt_handler 0x20 frame flags s = Some (Enter r, s')" "objs s' = save_task (ts ! i) frame s"
    "scheduled s' ts ?j"
    "s' = s\<lparr>objs := objs s', io_log := io_log s', cr3 := cr3 s', current_directory := cr3 s', current_task := current_task s'\<rparr>"
    using clock_tick [OF sc, where frame = frame and flags = flags] by (elim exE conjE) (rule that)
  have "objs s a = Some (OTask u) \<Longrightarrow> \<exists>r. objs s' a = Some (OTask (u\<lparr>t_registers := r\<rparr>))"
    "objs s a = Some (OChunk d) \<Longrightarrow> objs s' a = Some (OChunk d)" for a u d
    using t(3) same_registers by (auto simp: s'(2) save_task_def)
  moreover have "s' = s\<lparr>objs := objs s', io_log := io_log s', cr3 := cr3 s', current_directory := current_directory s',
     current_task := current_task s', classic_keyboard := classic_keyboard s', device := device s'\<rparr>"
    using s'(4) by (cases s; cases s') simp
  ultimately have st: "input_step s s'" by (simp add: input_step_def)
  have "current_task s' = ts ! ?j" "?j < length ts" using s'(3) by (simp_all add: scheduled_def)
  moreover have "classic_keyboard s' = classic_keyboard s" by (subst s'(4)) simp
  ultimately have "input_ready n s' ts ps f Q caps ?j"
    by (intro input_ready_step [OF assms st]) (use t in \<open>auto simp: has_queue_def s'(2) save_task_def\<close>)
  then show thesis by (rule that [OF s'(1)])
qed

lemma user_ready:
  assumes "input_ready n s ts ps f Q caps i" "user_step s s'"
  shows "input_ready n s' ts ps f Q caps i"
proof -
  note k = user_step_keeps [OF assms(2)]
  obtain m where m: "s' = s\<lparr>objs := m\<rparr>" using assms(2) by (auto simp: user_step_def)
  note t = input_task [OF assms(1)]
  have st: "input_step s s'" using k same_registers by (auto simp: input_step_def m)
  show ?thesis
    by (rule input_ready_step [OF assms(1) st]) (use t k in \<open>auto simp: has_queue_def m\<close>)
qed
section \<open>Runs\<close>

datatype input_event = Scan u8 | Ask | Tick

text \<open>
  Runs of the machine with the answers to the programs' calls for a key and the processes that asked: user
  code runs, a key is pressed or released and the keyboard interrupts, the running program asks for a key, the
  clock interrupts and the next task runs.
\<close>

inductive input_run :: "kernel \<Rightarrow> input_event list \<Rightarrow> (u32 \<times> u32) list \<Rightarrow> kernel \<Rightarrow> bool" where
  run_end: "input_run s [] [] s"
| run_user: "user_step s s1 \<Longrightarrow> input_run s1 evs vs s2 \<Longrightarrow> input_run s evs vs s2"
| run_key: "interrupt_handler 0x21 frame flags (present sc s) = Some (Return (), s1) \<Longrightarrow> input_run s1 evs vs s2 \<Longrightarrow>
    input_run s (Scan sc # evs) vs s2"
| run_ask: "isr80h_handler 2 frame flags junk s = Some (Return v, s1) \<Longrightarrow> input_run s1 evs vs s2 \<Longrightarrow>
    input_run s (Ask # evs) ((t_process (task_at s (current_task s)), v) # vs) s2"
| run_tick: "interrupt_handler 0x20 frame flags s = Some (Enter r, s1) \<Longrightarrow> input_run s1 evs vs s2 \<Longrightarrow>
    input_run s (Tick # evs) vs s2"

fun presses :: "input_event list \<Rightarrow> nat" where
  "presses [] = 0"
| "presses (Scan sc # evs) = Suc (presses evs)"
| "presses (ev # evs) = presses evs"

text \<open>The answers of the abstract machine, and the characters typed.\<close>

fun answers :: "u32 list \<Rightarrow> u32 \<Rightarrow> input_event list \<Rightarrow> (u32 \<Rightarrow> u8 list) \<Rightarrow> bool \<Rightarrow> nat \<Rightarrow> (u32 \<times> u32) list" where
  "answers ps f [] Q caps i = []"
| "answers ps f (Scan sc # evs) Q caps i =
     answers ps f evs (Q(f := Q f @ snd (decode_key caps sc))) (fst (decode_key caps sc)) i"
| "answers ps f (Ask # evs) Q caps i =
     (ps ! i, scast (case Q (ps ! i) of [] \<Rightarrow> 0 | c # q \<Rightarrow> c)) # answers ps f evs (Q(ps ! i := tl (Q (ps ! i)))) caps i"
| "answers ps f (Tick # evs) Q caps i = answers ps f evs Q caps (Suc i mod length ps)"

fun typed :: "bool \<Rightarrow> input_event list \<Rightarrow> u8 list" where
  "typed caps [] = []"
| "typed caps (Scan sc # evs) = snd (decode_key caps sc) @ typed (fst (decode_key caps sc)) evs"
| "typed caps (ev # evs) = typed caps evs"

text \<open>The characters a process got.\<close>

definition received :: "u32 \<Rightarrow> (u32 \<times> u32) list \<Rightarrow> u32 list" where
  "received a vs = map snd (filter (\<lambda>(b, v). b = a \<and> v \<noteq> 0) vs)"

lemma decode_length: "length (snd (decode_key caps sc)) \<le> 1"
  by (simp add: decode_key_def Let_def)

lemma decode_nonzero: "0 \<notin> set (snd (decode_key caps sc))"
  by (simp add: decode_key_def Let_def)

lemma scast_nonzero: "(scast (c :: u8) :: u32) = 0 \<longleftrightarrow> c = 0"
proof
  assume "(scast c :: u32) = 0"
  then have "ucast (scast c :: u32) = (0 :: u8)" by simp
  moreover have "ucast (scast c :: u32) = c" by (rule bit_word_eqI) (auto simp: bit_simps)
  ultimately show "c = 0" by simp
qed simp

lemma in_set_tlD: "x \<in> set (tl xs) \<Longrightarrow> x \<in> set xs"
  by (cases xs) simp_all

lemma answers_typed:
  assumes "\<forall>a \<in> insert f (set ps). 0 \<notin> set (Q a)" "i < length ps" "a \<in> insert f (set ps)"
  shows "prefix (received a (answers ps f evs Q caps i)) (map scast (Q a @ (if a = f then typed caps evs else [])))"
  using assms(1,2)
proof (induction evs arbitrary: Q caps i)
  case Nil
  then show ?case by (simp add: received_def)
next
  case (Cons ev evs)
  show ?case
  proof (cases ev)
    case (Scan sc)
    have "\<forall>a \<in> insert f (set ps). 0 \<notin> set ((Q(f := Q f @ snd (decode_key caps sc))) a)"
      using Cons.prems(1) decode_nonzero by auto
    from Cons.IH [OF this Cons.prems(2), of "fst (decode_key caps sc)"] show ?thesis
      by (cases "a = f") (simp_all add: Scan fun_upd_def)
  next
    case Ask
    let ?p = "ps ! i"
    have p: "?p \<in> set ps" using Cons.prems(2) by simp
    have "\<forall>a \<in> insert f (set ps). 0 \<notin> set ((Q(?p := tl (Q ?p))) a)"
      using Cons.prems(1) p by (auto dest: in_set_tlD)
    note ih = Cons.IH [OF this Cons.prems(2), of caps]
    show ?thesis
    proof (cases "Q ?p")
      case Nil
      then have "Q(?p := tl (Q ?p)) = Q" by (metis fun_upd_triv list.sel(2))
      then show ?thesis using ih Nil by (cases "a = f") (simp_all add: Ask received_def fun_upd_def)
    next
      case (Cons c q)
      then have "c \<noteq> 0" using Cons.prems(1) p by fastforce
      then show ?thesis using ih Cons by (cases "a = ?p") (auto simp: Ask received_def scast_nonzero fun_upd_def)
    qed
  next
    case Tick
    have "Suc i mod length ps < length ps" using Cons.prems(2) by (intro mod_less_divisor) linarith
    from Cons.IH [OF Cons.prems(1) this, of caps] show ?thesis by (simp add: Tick split: if_splits)
  qed
qed

lemma input_run_answers:
  assumes "input_run s evs vs s'" "input_ready n s ts ps f Q caps i" "presses evs \<le> n" "length (Q f) + presses evs \<le> 1024"
  shows "vs = answers ps f evs Q caps i"
  using assms
proof (induction arbitrary: n Q caps i rule: input_run.induct)
  case (run_end s)
  then show ?case by simp
next
  case (run_user s s1 evs vs s2)
  show ?case by (rule run_user.IH [OF user_ready [OF run_user.prems(1) run_user.hyps(1)] run_user.prems(2,3)])
next
  case (run_key frame flags sc s s1 evs vs s2)
  obtain m where m: "n = Suc m" "presses evs \<le> m" using run_key.prems(2) by (cases n) auto
  have l: "length (Q f) < 1024" using run_key.prems(3) by simp
  obtain t where t: "interrupt_handler 0x21 frame flags (present sc s) = Some (Return (), t)"
    "input_ready m t ts ps f (Q(f := Q f @ snd (decode_key caps sc))) (fst (decode_key caps sc)) i"
    by (rule key_ready [OF run_key.prems(1) [unfolded m(1)] l])
  have "t = s1" using t(1) run_key.hyps(1) by simp
  then show ?case using run_key.IH [OF t(2) [unfolded \<open>t = s1\<close>] m(2)] run_key.prems(3) decode_length [of caps sc] by (simp add: fun_upd_def)
next
  case (run_ask frame flags junk s v s1 evs vs s2)
  obtain t where t: "isr80h_handler 2 frame flags junk s = Some (Return (scast (case Q (ps ! i) of [] \<Rightarrow> 0 | c # q \<Rightarrow> c)), t)"
    "input_ready n t ts ps f (Q(ps ! i := tl (Q (ps ! i)))) caps i" by (rule ask_ready [OF run_ask.prems(1)])
  have e: "t = s1" "v = scast (case Q (ps ! i) of [] \<Rightarrow> 0 | c # q \<Rightarrow> c)" using t(1) run_ask.hyps(1) by simp_all
  have "length ((Q(ps ! i := tl (Q (ps ! i)))) f) + presses evs \<le> 1024" using run_ask.prems(3) by auto
  then show ?case using run_ask.IH [OF t(2) [unfolded e(1)]] run_ask.prems(2) e(2) input_task(1,5) [OF run_ask.prems(1)] by (simp add: fun_upd_def)
next
  case (run_tick frame flags s r s1 evs vs s2)
  obtain r' t where t: "interrupt_handler 0x20 frame flags s = Some (Enter r', t)" "input_ready n t ts ps f Q caps (Suc i mod length ts)"
    by (rule tick_ready [OF run_tick.prems(1)])
  have "t = s1" using t(1) run_tick.hyps(1) by simp
  then show ?case using run_tick.IH [OF t(2) [unfolded \<open>t = s1\<close>]] run_tick.prems(2,3) input_task(7) [OF run_tick.prems(1)] by simp
qed

lemma input_run_exists:
  assumes "input_ready n s ts ps f Q caps i" "presses evs \<le> n" "length (Q f) + presses evs \<le> 1024"
  shows "\<exists>vs s'. input_run s evs vs s'"
  using assms
proof (induction evs arbitrary: n s Q caps i)
  case Nil
  then show ?case using input_run.run_end by blast
next
  case (Cons ev evs)
  show ?case
  proof (cases ev)
    case (Scan sc)
    obtain m where m: "n = Suc m" "presses evs \<le> m" using Cons.prems(2) Scan by (cases n) auto
    have l: "length (Q f) < 1024" using Cons.prems(3) Scan by simp
    obtain t where t: "interrupt_handler 0x21 undefined undefined (present sc s) = Some (Return (), t)"
      "input_ready m t ts ps f (Q(f := Q f @ snd (decode_key caps sc))) (fst (decode_key caps sc)) i"
      by (rule key_ready [OF Cons.prems(1) [unfolded m(1)] l])
    have "length ((Q(f := Q f @ snd (decode_key caps sc))) f) + presses evs \<le> 1024"
      using Cons.prems(3) Scan decode_length [of caps sc] by simp
    then show ?thesis using Cons.IH [OF t(2) m(2)] input_run.run_key [OF t(1)] Scan by blast
  next
    case Ask
    obtain t where t: "isr80h_handler 2 undefined undefined undefined s =
        Some (Return (scast (case Q (ps ! i) of [] \<Rightarrow> 0 | c # q \<Rightarrow> c)), t)"
      "input_ready n t ts ps f (Q(ps ! i := tl (Q (ps ! i)))) caps i" by (rule ask_ready [OF Cons.prems(1)])
    have "presses evs \<le> n" "length ((Q(ps ! i := tl (Q (ps ! i)))) f) + presses evs \<le> 1024" using Cons.prems(2,3) Ask by auto
    then show ?thesis using Cons.IH [OF t(2)] input_run.run_ask [OF t(1)] Ask by blast
  next
    case Tick
    obtain r t where t: "interrupt_handler 0x20 undefined undefined s = Some (Enter r, t)"
      "input_ready n t ts ps f Q caps (Suc i mod length ts)" by (rule tick_ready [OF Cons.prems(1)])
    have "presses evs \<le> n" "length (Q f) + presses evs \<le> 1024" using Cons.prems(2,3) Tick by simp_all
    then show ?thesis using Cons.IH [OF t(2)] input_run.run_tick [OF t(1)] Tick by blast
  qed
qed

lemma input_ready_queues: "input_ready n s ts ps f Q caps i \<Longrightarrow> \<forall>a \<in> insert f (set ps). 0 \<notin> set (Q a)"
  by (auto simp: input_ready_def has_queue_def keys_def)

section \<open>Properties\<close>

text \<open>
  C8. Keys reach the programs. While tasks run and the clock switches between them, keys are pressed and released
  and programs ask for keys with system call 2, in any order (at most 1024 presses): no step panics, and the
  answers are those of the machine with a queue of characters per process, where a press appends the character
  of its scancode, in the case the capslock key gives it, to the queue of the process \<open>f\<close> that has the
  keyboard, whichever task runs, and a call takes the first character of the queue of the caller, 0 when it is empty. So
  \<open>f\<close> receives what is typed in order, nothing twice and nothing else, and no other process receives any of it.
\<close>
theorem typed_keys_reach_process:
  assumes "input_ready n s ts ps f Q caps i" "presses evs \<le> n" "length (Q f) + presses evs \<le> 1024"
  shows "(\<exists>vs s'. input_run s evs vs s') \<and>
    (\<forall>vs s'. input_run s evs vs s' \<longrightarrow> vs = answers ps f evs Q caps i \<and>
      (\<forall>a \<in> insert f (set ps). prefix (received a vs) (map scast (Q a @ (if a = f then typed caps evs else [])))))"
proof -
  have i: "i < length ps" using input_task(6,7) [OF assms(1)] by simp
  note pr = answers_typed [OF input_ready_queues [OF assms(1)] i]
  show ?thesis
  proof (intro conjI allI impI ballI)
    show "\<exists>vs s'. input_run s evs vs s'" by (rule input_run_exists [OF assms])
    fix vs s' assume r: "input_run s evs vs s'"
    show v: "vs = answers ps f evs Q caps i" by (rule input_run_answers [OF r assms])
    show "prefix (received a vs) (map scast (Q a @ (if a = f then typed caps evs else [])))" if "a \<in> insert f (set ps)" for a
      unfolding v by (rule pr [OF that])
  qed
qed
definition sample_input :: kernel where
  "sample_input = (sample_terminal 0 0)\<lparr>current_process := 0x4000, current_task := 0x1000, task_head := 0x1000, task_tail := 0x2000,
     kernel_chunk := 0x5000, interrupt_callbacks := replicate 0x20 (Some HandleException) @ [Some Clock, Some ClassicKeyboard],
     isr80h_commands := map Some system_commands,
     classic_keyboard := \<lparr>kbd_init = True, kbd_name = [], kbd_capslock_state = KEYBOARD_CAPSLOCK_OFF, kbd_next = NullKeyboard\<rparr>,
     objs := [0x1000 \<mapsto> OTask (zero_task\<lparr>t_page_directory := 0x5000, t_process := 0x3000, t_next := 0x2000\<rparr>),
       0x2000 \<mapsto> OTask (zero_task\<lparr>t_page_directory := 0x5000, t_process := 0x4000, t_prev := 0x1000\<rparr>),
       0x3000 \<mapsto> OProcess zero_process, 0x4000 \<mapsto> OProcess zero_process, 0x5000 \<mapsto> OChunk 0x9000]\<rparr>"

lemma sample_input_ready: "input_ready 100 sample_input [0x1000, 0x2000] [0x3000, 0x4000] 0x4000 (\<lambda>_. []) False 0"
proof -
  have t: "task_at sample_input 0x1000 = zero_task\<lparr>t_page_directory := 0x5000, t_process := 0x3000, t_next := 0x2000\<rparr>"
    "task_at sample_input 0x2000 = zero_task\<lparr>t_page_directory := 0x5000, t_process := 0x4000, t_prev := 0x1000\<rparr>"
    by (simp_all add: task_at_def sample_input_def)
  have o: "objs sample_input 0x1000 = Some (OTask (zero_task\<lparr>t_page_directory := 0x5000, t_process := 0x3000, t_next := 0x2000\<rparr>))"
    "objs sample_input 0x2000 = Some (OTask (zero_task\<lparr>t_page_directory := 0x5000, t_process := 0x4000, t_prev := 0x1000\<rparr>))"
    "objs sample_input 0x3000 = Some (OProcess zero_process)" "objs sample_input 0x4000 = Some (OProcess zero_process)"
    "objs sample_input 0x5000 = Some (OChunk 0x9000)"
    by (simp_all add: sample_input_def)
  have f: "task_head sample_input = 0x1000" "task_tail sample_input = 0x2000" "current_task sample_input = 0x1000"
    "kernel_chunk sample_input = 0x5000" "current_process sample_input = 0x4000"
    "interrupt_callbacks sample_input = replicate 0x20 (Some HandleException) @ [Some Clock, Some ClassicKeyboard]"
    "isr80h_commands sample_input = map Some system_commands"
    "kbd_capslock_state (classic_keyboard sample_input) = KEYBOARD_CAPSLOCK_OFF"
    by (simp_all add: sample_input_def)
  have l: "task_list sample_input [0x1000, 0x2000]"
    unfolding task_list_def by (auto simp: less_Suc_eq t o f) (simp_all add: zero_task_def)
  have "keys 100 (p_keyboard zero_process) []" by (simp add: keys_def zero_process_def PLUMOS_KEYBOARD_BUFFER_SIZE_def)
  then have "has_queue 100 sample_input 0x3000 []" "has_queue 100 sample_input 0x4000 []"
    by (simp_all add: has_queue_def o)
  moreover have "scheduled sample_input [0x1000, 0x2000] 0"
    using l by (simp add: scheduled_def f o nth_append)
  ultimately show ?thesis
    by (simp add: input_ready_def t f nth_append system_commands_def capslock_def)
qed

theorem typed_keys_reach_process_witness:
  "\<exists>s'. input_run sample_input [Scan 0x1E, Ask, Tick, Ask, Scan 0x3A, Scan 0x9E, Scan 0x1E, Ask, Ask]
     [(0x3000, 0), (0x4000, 0x61), (0x4000, 0x41), (0x4000, 0)] s'"
proof -
  let ?evs = "[Scan 0x1E, Ask, Tick, Ask, Scan 0x3A, Scan 0x9E, Scan 0x1E, Ask, Ask]"
  have k: "char_of_key False 0x1E = 0x61" "char_of_key True 0x3A = 0" "char_of_key True 0x1E = 0x41"
    by (simp_all add: char_of_key_def keyboard_scan_set_one_def lit_chars_def)
  have b: "\<not> bit (0x1E :: u8) 7" "\<not> bit (0x3A :: u8) 7" "bit (0x9E :: u8) 7" by simp_all
  have d: "decode_key False 0x1E = (False, [0x61])" "decode_key False 0x3A = (True, [])" "decode_key True 0x9E = (True, [])"
    "decode_key True 0x1E = (True, [0x41])"
    unfolding decode_key_def Let_def CLASSIC_KEYBOARD_CAPSLOCK_def using k b by simp_all
  have a: "answers [0x3000, 0x4000] 0x4000 ?evs (\<lambda>_. []) False 0 = [(0x3000, 0), (0x4000, 0x61), (0x4000, 0x41), (0x4000, 0)]"
    by (simp add: d)
  have p: "presses ?evs \<le> 100" "length ((\<lambda>_. []) (0x4000 :: u32) :: u8 list) + presses ?evs \<le> 1024" by simp_all
  from typed_keys_reach_process [OF sample_input_ready p] a show ?thesis by fastforce
qed

end
