(* ===== verification/KernelMain.thy ===== *)
theory KernelMain
  imports Interrupts Gdt
begin

unbundle bit_operations_syntax

text \<open>
  \<open>kernel_main\<close> of \<open>src/src/kernel.c\<close>: the order in which the parts of the kernel are set up and the
  first programs started. The instructions that load the descriptor tables, the task register and the
  paging bit are not modelled; what they load is part of the result.
\<close>

definition KERNEL_DATA_SELECTOR :: u32 where "KERNEL_DATA_SELECTOR = 0x10"

record tss =
  tss_link :: u32
  tss_esp0 :: u32
  tss_ss0 :: u32
  tss_esp1 :: u32
  tss_esp2 :: u32
  tss_ss1 :: u32
  tss_sr3 :: u32
  tss_eip :: u32
  tss_eflags :: u32
  tss_eax :: u32
  tss_ecx :: u32
  tss_edx :: u32
  tss_ebx :: u32
  tss_esp :: u32
  tss_ebp :: u32
  tss_esi :: u32
  tss_edi :: u32
  tss_es :: u32
  tss_cs :: u32
  tss_ss :: u32
  tss_ds :: u32
  tss_fs :: u32
  tss_gs :: u32
  tss_ldtr :: u32
  tss_iopb :: u32

definition zero_tss :: tss where
  "zero_tss = \<lparr>tss_link = 0, tss_esp0 = 0, tss_ss0 = 0, tss_esp1 = 0, tss_esp2 = 0, tss_ss1 = 0, tss_sr3 = 0,
     tss_eip = 0, tss_eflags = 0, tss_eax = 0, tss_ecx = 0, tss_edx = 0, tss_ebx = 0, tss_esp = 0, tss_ebp = 0,
     tss_esi = 0, tss_edi = 0, tss_es = 0, tss_cs = 0, tss_ss = 0, tss_ds = 0, tss_fs = 0, tss_gs = 0,
     tss_ldtr = 0, tss_iopb = 0\<rparr>"

text \<open>The addresses the linker and the assembler fix.\<close>

record image =
  tss_address :: u32
  idt_address :: u32
  interrupt_stubs :: "u32 list"
  isr80h_wrapper_address :: u32

record descriptor_tables =
  gdt_real :: "u8 list list"
  idt_descriptors :: "idt_desc list"
  idtr_descriptor :: idtr_desc
  the_tss :: tss

text \<open>One of the two blocks that start a program with one argument; a failure is a panic.\<close>

definition start_program :: "u8 list \<Rightarrow> u8 list \<Rightarrow> u8 list \<Rightarrow> kernel \<Rightarrow> (u8 list \<times> kernel) option" where
  "start_program path argument letter s =
     do {
       (res, process, s) \<leftarrow> process_load_switch path s;
       if res \<noteq> PLUMOS_ALL_OK then None
       else do {
         argument \<leftarrow> strcpy argument letter;
         (r, s) \<leftarrow> process_inject_arguments process [argument] s;
         Some (argument, s)
       }
     }"

text \<open>
  \<open>text_memory\<close> is the text memory of the screen, \<open>table_memory\<close> that of the heap's table, \<open>junk\<close> that of
  \<open>argument\<close> on the stack.
\<close>

definition kernel_main ::
  "image \<Rightarrow> u16 list \<Rightarrow> u8 list \<Rightarrow> u8 list \<Rightarrow> u32 \<Rightarrow> kernel \<Rightarrow> (registers \<times> descriptor_tables \<times> kernel) option" where
  "kernel_main im text_memory table_memory junk flags s =
     do {
       s \<leftarrow> terminal_initialize text_memory s;
       let gdt = replicate (nat PLUMOS_TOTAL_GDT_SEGMENTS) (replicate 8 0);
       gdt \<leftarrow> gdt_structured_to_gdt gdt (gdt_structured_table (tss_address im)) PLUMOS_TOTAL_GDT_SEGMENTS;
       s \<leftarrow> kheap_init table_memory s;
       s \<leftarrow> fs_init s;
       s \<leftarrow> disk_search_and_init s;
       (idt, idtr, s) \<leftarrow> idt_init (idt_address im) (interrupt_stubs im) (isr80h_wrapper_address im)
         (replicate PLUMOS_TOTAL_INTERRUPTS zero_desc) s;
       let tss = zero_tss\<lparr>tss_esp0 := 0x600000, tss_ss0 := KERNEL_DATA_SELECTOR\<rparr>;
       (chunk, s) \<leftarrow> paging_new_4gb
         (ucast (PAGING_IS_WRITEABLE OR PAGING_IS_PRESENT OR PAGING_ACCESS_FROM_ALL)) s;
       let s = s\<lparr>kernel_chunk := chunk\<rparr>;
       s \<leftarrow> paging_switch chunk s;
       (ptr, s) \<leftarrow> kzalloc 4096 (OBytes (replicate 4096 0)) s;
       directory \<leftarrow> paging_4gb_chunk_get_directory chunk s;
       (r, s) \<leftarrow> paging_set directory 0x1000
         (ptr OR PAGING_IS_WRITEABLE OR PAGING_IS_PRESENT OR PAGING_ACCESS_FROM_ALL) s;
       s \<leftarrow> isr80h_register_commands s;
       s \<leftarrow> keyboard_init s;
       (argument, s) \<leftarrow> start_program (lit ''0:/blank.elf'') junk (lit ''B'') s;
       (argument, s) \<leftarrow> start_program (lit ''0:/blank.elf'') argument (lit ''A'') s;
       (regs, s) \<leftarrow> task_run_first_ever_task flags s;
       Some (regs, \<lparr>gdt_real = gdt, idt_descriptors = idt, idtr_descriptor = idtr, the_tss = tss\<rparr>, s)
     }"

end
