(* ===== verification/Setup.thy ===== *)
theory Setup
  imports KernelMain SystemCalls FatMount Vfs
begin

unbundle bit_operations_syntax

text \<open>
  What each step of \<open>kernel_main\<close> before the first program sets up: the cleared screen, the gates of the
  interrupts and their callbacks, the keyboard, and the kernel's own address space.
\<close>

section \<open>The screen\<close>

abbreviation blank_cell :: u16 where
  "blank_cell \<equiv> terminal_make_char 0x20 0"

lemma clear_row_ok:
  assumes "c + n = 80" "y < 20" "1600 \<le> length (video_mem s)"
  shows "\<exists>v. clear_row y n s = Some (s\<lparr>video_mem := v\<rparr>) \<and> length v = length (video_mem s) \<and>
    (\<forall>i < length v. v ! i = (if 80 * y + c \<le> i \<and> i < 80 * y + 80 then blank_cell else video_mem s ! i))"
  using assms
proof (induction n arbitrary: s c)
  case 0
  then show ?case by (intro exI [of _ "video_mem s"]) auto
next
  case (Suc n)
  have i: "80 * y + c < length (video_mem s)" using Suc.prems by linarith
  define w where "w = (video_mem s)[80 * y + c := blank_cell]"
  have e: "VGA_WIDTH - Suc n = c" "int y * int VGA_WIDTH + int c = int (80 * y + c)"
    using Suc.prems(1) by (simp_all add: VGA_WIDTH_def)
  have p: "terminal_putchar (int (VGA_WIDTH - Suc n)) (int y) 0x20 0 s = Some (s\<lparr>video_mem := w\<rparr>)"
    unfolding terminal_putchar_def e using i by (simp add: arr_set_def w_def del: of_nat_add of_nat_mult)
  have l: "Suc c + n = 80" "1600 \<le> length (video_mem (s\<lparr>video_mem := w\<rparr>))" using Suc.prems by (simp_all add: w_def)
  obtain v where v: "clear_row y n (s\<lparr>video_mem := w\<rparr>) = Some (s\<lparr>video_mem := v\<rparr>)" "length v = length w"
    "\<forall>i < length v. v ! i = (if 80 * y + Suc c \<le> i \<and> i < 80 * y + 80 then blank_cell else w ! i)"
    using Suc.IH [OF l(1) Suc.prems(2) l(2)] by auto
  have "v ! j = (if 80 * y + c \<le> j \<and> j < 80 * y + 80 then blank_cell else video_mem s ! j)" if "j < length v" for j
    using v(3) [rule_format, OF that] Suc.prems(1) i by (cases "j = 80 * y + c") (auto simp: w_def)
  then show ?case using p v(1,2) by (intro exI [of _ v]) (simp add: w_def)
qed

lemma clear_rows_ok:
  assumes "r + n = 20" "1600 \<le> length (video_mem s)"
  shows "\<exists>v. clear_rows n s = Some (s\<lparr>video_mem := v\<rparr>) \<and> length v = length (video_mem s) \<and>
    (\<forall>i < length v. v ! i = (if 80 * r \<le> i \<and> i < 1600 then blank_cell else video_mem s ! i))"
  using assms
proof (induction n arbitrary: s r)
  case 0
  then show ?case by (intro exI [of _ "video_mem s"]) auto
next
  case (Suc n)
  have e: "VGA_HEIGHT - Suc n = r" "VGA_WIDTH = 80" using Suc.prems(1) by (simp_all add: VGA_HEIGHT_def VGA_WIDTH_def)
  have r: "0 + 80 = (80 :: nat)" "r < 20" "Suc r + n = 20" using Suc.prems(1) by simp_all
  obtain w where w: "clear_row r 80 s = Some (s\<lparr>video_mem := w\<rparr>)" "length w = length (video_mem s)"
    "\<forall>i < length w. w ! i = (if 80 * r + 0 \<le> i \<and> i < 80 * r + 80 then blank_cell else video_mem s ! i)"
    using clear_row_ok [OF r(1,2) Suc.prems(2)] by (elim exE conjE) (rule that)
  have l: "1600 \<le> length (video_mem (s\<lparr>video_mem := w\<rparr>))" using Suc.prems(2) w(2) by simp
  obtain v where v: "clear_rows n (s\<lparr>video_mem := w\<rparr>) = Some (s\<lparr>video_mem := v\<rparr>)" "length v = length w"
    "\<forall>i < length v. v ! i = (if 80 * Suc r \<le> i \<and> i < 1600 then blank_cell else w ! i)"
    using Suc.IH [OF r(3) l] by auto
  have "v ! i = (if 80 * r \<le> i \<and> i < 1600 then blank_cell else video_mem s ! i)" if i: "i < length v" for i
  proof -
    have "80 * r + 80 \<le> 1600" using r(2) by simp
    then show ?thesis using v(3) [rule_format, OF i] w(3) [rule_format, of i] i v(2) by auto
  qed
  then show ?case using w(1,2) v(1,2) by (intro exI [of _ v]) (simp add: e)
qed

lemma terminal_initialize_ok:
  assumes "1600 \<le> length text_memory"
  obtains v where "terminal_initialize text_memory s = Some (s\<lparr>video_mem := v\<rparr>)" "length v = length text_memory"
    "\<forall>i < 1600. v ! i = blank_cell"
  using clear_rows_ok [of 0 20 "s\<lparr>video_mem := text_memory\<rparr>"] assms that
  by (auto simp: terminal_initialize_def VGA_HEIGHT_def)

section \<open>Interrupts\<close>

text \<open>The gate \<open>d\<close> leads to \<open>addr\<close> in the code segment of the kernel, open to user mode.\<close>

definition gate_to :: "idt_desc \<Rightarrow> u32 \<Rightarrow> bool" where
  "gate_to d addr \<longleftrightarrow> push_bit 16 (ucast (offset_hi d)) OR ucast (offset_lo d) = addr \<and>
     selector d = KERNEL_CODE_SELECTOR \<and> type_attr d = 0xEE \<and> reserved d = 0"

lemma gate_ok:
  "gate_to \<lparr>offset_lo = ucast (addr AND 0x0000ffff), selector = KERNEL_CODE_SELECTOR, reserved = 0,
     type_attr = 0xEE, offset_hi = ucast (drop_bit 16 addr)\<rparr> addr"
proof -
  have m: "(0xffff :: u32) = mask 16" by (simp add: mask_eq_exp_minus_1)
  show ?thesis unfolding gate_to_def m
    by (auto intro!: bit_word_eqI simp: bit_simps)
qed

lemma idt_set_ok:
  assumes "i < length descs"
  obtains d where "idt_set (int i) addr descs = Some (descs[i := d])" "gate_to d addr"
  using assms gate_ok that by (auto simp: idt_set_def arr_set_def)

lemma idt_set_from_ok:
  assumes "i + length addrs \<le> length descs"
  shows "\<exists>descs'. idt_set_from (int i) addrs descs = Some descs' \<and> length descs' = length descs \<and>
    (\<forall>k < length descs. if i \<le> k \<and> k < i + length addrs then gate_to (descs' ! k) (addrs ! (k - i)) else descs' ! k = descs ! k)"
  using assms
proof (induction addrs arbitrary: i descs)
  case (Cons addr addrs)
  obtain d where d: "idt_set (int i) addr descs = Some (descs[i := d])" "gate_to d addr"
    by (rule idt_set_ok [where i = i and addr = addr]) (use Cons.prems in auto)
  obtain ds where ds: "idt_set_from (int (Suc i)) addrs (descs[i := d]) = Some ds" "length ds = length descs"
    "\<forall>k < length descs. if Suc i \<le> k \<and> k < Suc i + length addrs then gate_to (ds ! k) (addrs ! (k - Suc i)) else ds ! k = descs[i := d] ! k"
    using Cons.IH [of "Suc i" "descs[i := d]"] Cons.prems by auto
  have "if i \<le> k \<and> k < i + length (addr # addrs) then gate_to (ds ! k) ((addr # addrs) ! (k - i)) else ds ! k = descs ! k"
    if k: "k < length descs" for k
    using ds(3) [rule_format, OF k] d(2) Cons.prems k by (cases "k = i") (auto simp: nth_Cons' split: if_splits)
  then show ?case using d(1) ds(1,2) by (simp add: add.commute)
qed auto

lemma register_exceptions_ok:
  assumes "interrupt_callbacks s = pre @ replicate (n + m) None" "length pre + n + m = 512"
  shows "register_exceptions n (int (length pre)) s =
    Some (s\<lparr>interrupt_callbacks := pre @ replicate n (Some HandleException) @ replicate m None\<rparr>)"
  using assms
proof (induction n arbitrary: pre s)
  case 0
  then show ?case by (cases s) simp
next
  case (Suc n)
  let ?s = "s\<lparr>interrupt_callbacks := (pre @ [Some HandleException]) @ replicate (n + m) None\<rparr>"
  have b: "\<not> (int (length pre) < 0 \<or> int PLUMOS_TOTAL_INTERRUPTS \<le> int (length pre))"
    using Suc.prems(2) by (simp add: PLUMOS_TOTAL_INTERRUPTS_def)
  have "arr_set (interrupt_callbacks s) (int (length pre)) (Some HandleException) =
      Some ((pre @ [Some HandleException]) @ replicate (n + m) None)"
    using Suc.prems by (simp add: arr_set_def)
  then have "idt_register_interrupt_callback (int (length pre)) HandleException s = Some (0, ?s)"
    unfolding idt_register_interrupt_callback_def if_not_P [OF b] by simp
  moreover have "register_exceptions n (int (length (pre @ [Some HandleException]))) ?s =
      Some (?s\<lparr>interrupt_callbacks := (pre @ [Some HandleException]) @ replicate n (Some HandleException) @ replicate m None\<rparr>)"
    by (rule Suc.IH) (use Suc.prems in simp_all)
  ultimately show ?case by (simp add: add.commute replicate_append_same)
qed

definition boot_callbacks :: "interrupt_callback option list" where
  "boot_callbacks = replicate 0x20 (Some HandleException) @ Some Clock # replicate 479 None"

lemma idt_init_ok:
  assumes "interrupt_callbacks s = replicate 512 None" "length stubs = 512"
  obtains descs idtr where "idt_init base stubs wrapper (replicate PLUMOS_TOTAL_INTERRUPTS zero_desc) s =
      Some (descs, idtr, s\<lparr>interrupt_callbacks := boot_callbacks\<rparr>)" "length descs = 512"
    "\<forall>k < 512. gate_to (descs ! k) (if k = 0x80 then wrapper else stubs ! k)" "idtr = \<lparr>idtr_limit = 4095, idtr_base = base\<rparr>"
proof -
  have t: "take PLUMOS_TOTAL_INTERRUPTS stubs = stubs" using assms(2) by (simp add: PLUMOS_TOTAL_INTERRUPTS_def)
  obtain ds where ds: "idt_set_from (int 0) stubs (replicate 512 zero_desc) = Some ds" "length ds = 512"
    "\<forall>k < 512. gate_to (ds ! k) (stubs ! k)"
    using idt_set_from_ok [of 0 stubs "replicate 512 zero_desc"] assms(2) by auto
  obtain d where d: "idt_set (int 0x80) wrapper ds = Some (ds[0x80 := d])" "gate_to d wrapper"
    by (rule idt_set_ok [where i = 128 and addr = wrapper]) (use ds(2) in auto)
  have "interrupt_callbacks s = [] @ replicate (0x20 + 480) None" using assms(1) by simp
  then have "register_exceptions 0x20 0 s = Some (s\<lparr>interrupt_callbacks := replicate 0x20 (Some HandleException) @ replicate 480 None\<rparr>)"
    using register_exceptions_ok [of s "[]" "0x20" 480] by simp
  moreover have "(replicate 0x20 (Some HandleException) @ replicate 480 None)[0x20 := Some Clock] = boot_callbacks"
    by (rule nth_equalityI) (auto simp: boot_callbacks_def nth_append nth_list_update nth_Cons')
  ultimately have "idt_init base stubs wrapper (replicate PLUMOS_TOTAL_INTERRUPTS zero_desc) s =
      Some (ds[0x80 := d], \<lparr>idtr_limit = 4095, idtr_base = base\<rparr>, s\<lparr>interrupt_callbacks := boot_callbacks\<rparr>)"
    using ds(1) d(1) unfolding idt_init_def t
    by (simp add: idt_register_interrupt_callback_def arr_set_def PLUMOS_TOTAL_INTERRUPTS_def Let_def)
  then show thesis by (rule that) (use ds d(2) in \<open>auto simp: nth_list_update\<close>)
qed
section \<open>The keyboard\<close>

lemma keyboard_init_ok:
  assumes "kbd_init (classic_keyboard s)" "keyboard_list_last s = NullKeyboard" "length (interrupt_callbacks s) = 512"
  shows "keyboard_init s = Some (s\<lparr>keyboard_list_head := TheClassic, keyboard_list_last := TheClassic,
     interrupt_callbacks := (interrupt_callbacks s)[0x21 := Some ClassicKeyboard],
     classic_keyboard := (classic_keyboard s)\<lparr>kbd_capslock_state := KEYBOARD_CAPSLOCK_OFF\<rparr>,
     io_log := OutB PS2_PORT PS2_COMMAND_ENABLE_FIRST_PORT # io_log s\<rparr>)"
  using assms
  by (simp add: keyboard_init_def keyboard_insert_def classic_init_def classic_keyboard_init_def idt_register_interrupt_callback_def
      ISR_KEYBOARD_INTERRUPT_def PLUMOS_TOTAL_INTERRUPTS_def arr_set_def keyboard_set_capslock_def outb_def)

section \<open>The kernel before its first program\<close>

text \<open>
  The kernel's data when \<open>kernel_main\<close> starts: nothing is allocated and nothing registered. The initialised
  variable of the keyboard driver and the zeroed tables are those of the image.
\<close>

definition boot_state :: "kernel \<Rightarrow> bool" where
  "boot_state s \<longleftrightarrow> objs s = (\<lambda>_. None) \<and> processes s = replicate 12 0 \<and> task_head s = 0 \<and> current_task s = 0 \<and>
     kbd_init (classic_keyboard s) \<and> keyboard_list_last s = NullKeyboard \<and>
     interrupt_callbacks s = replicate 512 None \<and> isr80h_commands s = replicate 1024 None"

text \<open>
  The kernel's own address space \<open>dir\<close>: every page is mapped to itself, open to all, page 1 apart, which is mapped to
  an object of its own.
\<close>

definition kernel_space :: "kernel \<Rightarrow> u32 \<Rightarrow> bool" where
  "kernel_space s dir \<longleftrightarrow> objs s (kernel_chunk s) = Some (OChunk dir) \<and> pd_ok (objs s) dir \<and>
     (\<exists>a. objs s a = Some (OBytes (replicate 4096 0)) \<and>
        (\<forall>n < 2 ^ 20. page_entry (objs s) dir n = (if n = 1 then a OR 7 else of_nat (4096 * n) OR 7)))"

text \<open>The parts of the kernel that stay as \<open>kernel_main\<close> leaves them before the first program.\<close>

definition registered :: "kernel \<Rightarrow> bool" where
  "registered s \<longleftrightarrow> interrupt_callbacks s = boot_callbacks[0x21 := Some ClassicKeyboard] \<and>
     isr80h_commands s = map Some system_commands @ replicate 1014 None \<and>
     (\<forall>i < 1600. video_mem s ! i = blank_cell) \<and> kbd_capslock_state (classic_keyboard s) = KEYBOARD_CAPSLOCK_OFF"

lemma mount_stepD:
  assumes "mount_step s s'"
  shows "s' = s\<lparr>kernel_heap := kernel_heap s', objs := objs s', gdisk := gdisk s', io_log := io_log s'\<rparr>"
    "heap_shape (kernel_heap s') = heap_shape (kernel_heap s)"
  using assms unfolding mount_step_def by (cases s; cases s'; simp)+

lemma mount_step_same:
  assumes "mount_step s s'"
  shows "device s' = device s" "file_descriptors s' = file_descriptors s" "processes s' = processes s" "task_head s' = task_head s"
    "current_task s' = current_task s" "interrupt_callbacks s' = interrupt_callbacks s" "isr80h_commands s' = isr80h_commands s"
    "classic_keyboard s' = classic_keyboard s" "keyboard_list_last s' = keyboard_list_last s" "video_mem s' = video_mem s"
  by (subst mount_stepD(1) [OF assms], simp)+

lemma heap_step_eq: "heap_step s s' \<Longrightarrow> s' = s\<lparr>kernel_heap := kernel_heap s', objs := objs s'\<rparr>"
  by (simp add: heap_step_def)

lemma kernel_paging_ok:
  assumes "mem_inv s" "1027 \<le> free_blocks s"
  obtains c dir s1 ptr s2 where
    "paging_new_4gb (ucast (PAGING_IS_WRITEABLE OR PAGING_IS_PRESENT OR PAGING_ACCESS_FROM_ALL)) s = Some (c, s1)"
    "paging_switch c (s1\<lparr>kernel_chunk := c\<rparr>) = Some (s1\<lparr>kernel_chunk := c, cr3 := dir, current_directory := dir\<rparr>)"
    "kzalloc 4096 (OBytes (replicate 4096 0)) (s1\<lparr>kernel_chunk := c, cr3 := dir, current_directory := dir\<rparr>) = Some (ptr, s2)"
    "paging_4gb_chunk_get_directory c s2 = Some dir"
    "\<exists>s3. paging_set dir 0x1000 (ptr OR PAGING_IS_WRITEABLE OR PAGING_IS_PRESENT OR PAGING_ACCESS_FROM_ALL) s2 = Some (0, s3) \<and>
       mem_inv s3 \<and> kernel_space s3 dir \<and> free_blocks s \<le> free_blocks s3 + 1027 \<and> objs s \<subseteq>\<^sub>m objs s3 \<and>
       heap_shape (kernel_heap s3) = heap_shape (kernel_heap s) \<and>
       s3 = s\<lparr>kernel_heap := kernel_heap s3, objs := objs s3, kernel_chunk := c, cr3 := dir, current_directory := dir\<rparr>"
proof -
  let ?fl = "ucast (PAGING_IS_WRITEABLE OR PAGING_IS_PRESENT OR PAGING_ACCESS_FROM_ALL) :: u8"
  have fl: "ucast ?fl = (7 :: u32)" by (simp add: paging_consts)
  have fb: "1026 \<le> free_blocks s" using assms(2) by simp
  obtain c dir s1 where n: "paging_new_4gb ?fl s = Some (c, s1)" "mem_inv s1" "heap_step s s1"
    "free_blocks s1 = free_blocks s - 1026" "c \<noteq> 0" "identity_space (objs s) c dir ?fl (objs s1)"
    using paging_new_4gb_ok [OF assms(1) fb, of ?fl] by (elim exE conjE) (rule that)
  have i: "objs s1 c = Some (OChunk dir)" "pd_ok (objs s1) dir" "\<forall>a \<in> dom (objs s). objs s1 a = objs s a"
    "\<forall>n < 2 ^ 20. page_entry (objs s1) dir n = of_nat (4096 * n) OR 7"
    using n(6) fl unfolding identity_space_def by metis+
  define t where "t = s1\<lparr>kernel_chunk := c, cr3 := dir, current_directory := dir\<rparr>"
  have t: "mem_inv t" "0 < free_blocks t" "free_blocks t = free_blocks s - 1026" "objs t = objs s1"
    "kernel_heap t = kernel_heap s1" "kernel_chunk t = c"
    using n(2,4) assms(2) by (simp_all add: t_def mem_inv_def free_blocks_def)
  have sw: "paging_switch c (s1\<lparr>kernel_chunk := c\<rparr>) = Some t"
    using i(1) by (simp add: paging_switch_def get_chunk_def paging_load_directory_def t_def Let_def)
  have sz: "0 < unat (4096 :: u32)" "unat (4096 :: u32) \<le> 4096" by simp_all
  obtain ptr s2 where z: "kzalloc 4096 (OBytes (replicate 4096 0)) t = Some (ptr, s2)" "ptr \<noteq> 0" "objs t ptr = None" "ptr mod 4096 = 0"
    "objs s2 = (objs t)(ptr \<mapsto> OBytes (replicate 4096 0))" "mem_inv s2" "free_blocks s2 = free_blocks t - 1" "heap_step t s2"
    by (rule kzalloc_block [OF t(1,2) sz])
  have fresh: "a \<noteq> ptr" if "objs s1 a \<noteq> None" for a using that z(3) t(4) by auto
  have sp: "objs s2 a = objs s1 a" if "a \<in> insert dir (tables_of (objs s1) dir)" for a
    using pd_ok_tables [OF i(2)] that z(5) t(4) fresh [of a] by auto
  note ss = same_space [of dir "objs s1" "objs s2", OF sp i(2)]
  have ch: "objs s2 c = Some (OChunk dir)" using z(5) t(4) i(1) fresh by simp
  have al: "(0x1000 :: u32) mod 4096 = 0" by simp
  let ?v = "ptr OR PAGING_IS_WRITEABLE OR PAGING_IS_PRESENT OR PAGING_ACCESS_FROM_ALL"
  have v: "?v = ptr OR 7" by (simp add: paging_consts or.assoc)
  obtain s3 where s3: "paging_set dir 0x1000 ?v s2 = Some (0, s3)" "tables_step dir s2 s3" "pd_ok (objs s3) dir"
    "\<forall>n < 2 ^ 20. page_entry (objs s3) dir n = (if n = page 0x1000 then ?v else page_entry (objs s2) dir n)"
    by (rule paging_set_ok [OF ss(1) al])
  note w = tables_stepD(1) [OF s3(2)]
  have h: "heap_step t s3" by (rule heap_step_trans [OF z(8) words_step_heap [OF w]])
  have e: "s3 = s\<lparr>kernel_heap := kernel_heap s3, objs := objs s3, kernel_chunk := c, cr3 := dir, current_directory := dir\<rparr>"
    using heap_step_eq [OF n(3)] heap_step_eq [OF h] unfolding t_def by (cases s; cases s1; cases s3) simp
  have "objs s3 c = Some (OChunk dir)" by (rule words_step_keeps [OF w ch]) simp
  moreover have "objs s3 ptr = Some (OBytes (replicate 4096 0))" by (rule words_step_keeps [OF w]) (simp_all add: z(5))
  moreover have "page 0x1000 = 1" by (simp add: page_def)
  moreover have "kernel_chunk s3 = c" by (subst e) simp
  ultimately have ks: "kernel_space s3 dir"
    using s3(3,4) ss(3) i(4) v by (auto simp: kernel_space_def)
  have m: "objs s \<subseteq>\<^sub>m objs s3"
    unfolding map_le_def
  proof
    fix a assume a: "a \<in> dom (objs s)"
    then have "a \<notin> tables_of (objs s2) dir" using identity_fresh [OF n(6)] ss(2) by auto
    then have "objs s3 a = objs s2 a" by (rule tables_stepD(2) [OF s3(2)])
    then show "objs s a = objs s3 a" using i(3) a z(5) t(4) fresh [of a] by auto
  qed
  have sh: "heap_shape (kernel_heap s3) = heap_shape (kernel_heap s)"
    using n(3) h by (simp add: heap_step_def t(5))
  have fbs: "free_blocks s \<le> free_blocks s3 + 1027" "mem_inv s3" using words_step_inv [OF w] z(6,7) t(3) assms(2) by simp_all
  have gd: "paging_4gb_chunk_get_directory c s2 = Some dir" using ch by (simp add: paging_4gb_chunk_get_directory_def get_chunk_def)
  show thesis
    by (rule that [OF n(1) sw [unfolded t_def] z(1) [unfolded t_def] gd])
      (use s3(1) fbs ks m sh e in blast)
qed
lemma volume_mounted_mono:
  assumes "volume_mounted img h n m fp s" "objs s \<subseteq>\<^sub>m objs s'" "gdisk s' = gdisk s" "device s' = device s"
  shows "volume_mounted img h n m fp s'"
  using assms(1) fat_mounted_mono [OF _ assms(2-4)] map_le_Some [OF assms(2)] unfolding volume_mounted_def by blast

lemma kernel_table_ok:
  obtains gdt where "gdt_structured_to_gdt (replicate (nat PLUMOS_TOTAL_GDT_SEGMENTS) (replicate 8 0)) (gdt_structured_table tss)
      PLUMOS_TOTAL_GDT_SEGMENTS = Some gdt" "length gdt = 6" "\<forall>k < 6. describes (gdt ! k) (gdt_structured_table tss ! k)"
proof -
  have l: "length (gdt_structured_table tss) = 6" by (simp add: gdt_structured_table_def)
  have "(0xFFFFFFFF :: u32) AND 0xFFF = 0xFFF" by simp
  then have "\<forall>g \<in> set (gdt_structured_table tss). encodable g"
    by (simp add: encodable_def gdt_structured_table_def)
  then have "\<forall>k < 6. encodable (gdt_structured_table tss ! k)" using nth_mem l by metis
  then obtain gdt where "encode_entries 6 (int 0) (replicate 6 (replicate 8 0)) (gdt_structured_table tss) = Some gdt" "length gdt = 6"
    "\<forall>k < 6. describes (gdt ! k) (gdt_structured_table tss ! k)"
    using encode_entries_ok [of 0 6 "replicate 6 (replicate 8 0)" "gdt_structured_table tss"] l by auto
  then show thesis using that by (simp add: gdt_structured_to_gdt_def PLUMOS_TOTAL_GDT_SEGMENTS_def)
qed

text \<open>The tables the processor reads.\<close>

definition tables_ok :: "image \<Rightarrow> descriptor_tables \<Rightarrow> bool" where
  "tables_ok im d \<longleftrightarrow> length (gdt_real d) = 6 \<and>
     (\<forall>k < 6. describes (gdt_real d ! k) (gdt_structured_table (tss_address im) ! k)) \<and> length (idt_descriptors d) = 512 \<and>
     (\<forall>k < 512. gate_to (idt_descriptors d ! k) (if k = 0x80 then isr80h_wrapper_address im else interrupt_stubs im ! k)) \<and>
     idtr_descriptor d = \<lparr>idtr_limit = 4095, idtr_base = idt_address im\<rparr> \<and>
     the_tss d = zero_tss\<lparr>tss_esp0 := 0x600000, tss_ss0 := KERNEL_DATA_SELECTOR\<rparr>"

text \<open>The screen, the heap and the file system table.\<close>

lemma boot_memory:
  assumes "boot_state s" "1600 \<le> length text_memory" "length table_memory = 25600"
  obtains v hp s' where "terminal_initialize text_memory s = Some (s\<lparr>video_mem := v\<rparr>)" "\<forall>i < 1600. v ! i = blank_cell"
    "kheap_init table_memory (s\<lparr>video_mem := v\<rparr>) = Some (s\<lparr>video_mem := v, kernel_heap := hp\<rparr>)"
    "fs_init (s\<lparr>video_mem := v, kernel_heap := hp\<rparr>) = Some s'"
    "s' = s\<lparr>video_mem := v, kernel_heap := hp, file_descriptors := replicate PLUMOS_MAX_FILE_DESCRIPTORS 0,
       filesystems := Fat16Fs # replicate 11 NullFs\<rparr>"
    "mem_inv s'" "free_blocks s' = 25600" "heap_shape (kernel_heap s') = (PLUMOS_HEAP_ADDRESS, 25600)"
proof -
  obtain v where v: "terminal_initialize text_memory s = Some (s\<lparr>video_mem := v\<rparr>)" "length v = length text_memory"
    "\<forall>i < 1600. v ! i = blank_cell" by (rule terminal_initialize_ok [OF assms(2)])
  have o: "objs (s\<lparr>video_mem := v\<rparr>) = (\<lambda>_. None)" using assms(1) by (simp add: boot_state_def)
  obtain hp where hp: "kheap_init table_memory (s\<lparr>video_mem := v\<rparr>) = Some (s\<lparr>video_mem := v, kernel_heap := hp\<rparr>)"
    "mem_inv (s\<lparr>video_mem := v, kernel_heap := hp\<rparr>)" "heap_shape hp = (PLUMOS_HEAP_ADDRESS, 25600)"
    "free_blocks (s\<lparr>video_mem := v, kernel_heap := hp\<rparr>) = 25600"
    using kheap_init_ok [OF assms(3) o] by (elim exE conjE)
  show thesis
    by (rule that [OF v(1,3) hp(1) _ refl]) (use hp(2-4) in \<open>simp_all add: fs_init_ok mem_inv_def free_blocks_def\<close>)
qed

text \<open>The last steps before the programs: the system calls and the keyboard.\<close>

lemma boot_interface:
  assumes "interrupt_callbacks s = boot_callbacks" "isr80h_commands s = replicate 1024 None" "kbd_init (classic_keyboard s)"
    "keyboard_list_last s = NullKeyboard" "\<forall>i < 1600. video_mem s ! i = blank_cell"
  obtains s1 s2 cs cb k out where "isr80h_register_commands s = Some s1" "keyboard_init s1 = Some s2" "registered s2"
    "s2 = s\<lparr>isr80h_commands := cs, keyboard_list_head := TheClassic, keyboard_list_last := TheClassic,
       interrupt_callbacks := cb, classic_keyboard := k, io_log := out\<rparr>"
proof -
  define s1 where "s1 = s\<lparr>isr80h_commands := map Some system_commands @ replicate 1014 None\<rparr>"
  have "length system_commands = 10" by (simp add: system_commands_def)
  then have rg: "isr80h_register_commands s = Some s1"
    using register_from_ok [of s "[]" 1024 system_commands] assms(2)
    by (simp add: isr80h_register_commands_def PLUMOS_MAX_ISR80H_COMMANDS_def s1_def)
  define s2 where "s2 = s1\<lparr>keyboard_list_head := TheClassic, keyboard_list_last := TheClassic,
     interrupt_callbacks := boot_callbacks[0x21 := Some ClassicKeyboard],
     classic_keyboard := (classic_keyboard s1)\<lparr>kbd_capslock_state := KEYBOARD_CAPSLOCK_OFF\<rparr>,
     io_log := OutB PS2_PORT PS2_COMMAND_ENABLE_FIRST_PORT # io_log s1\<rparr>"
  have "kbd_init (classic_keyboard s1)" "keyboard_list_last s1 = NullKeyboard" "length (interrupt_callbacks s1) = 512"
    using assms by (simp_all add: s1_def boot_callbacks_def)
  then have kb: "keyboard_init s1 = Some s2" using keyboard_init_ok [of s1] assms(1) by (simp add: s2_def s1_def)
  have "registered s2" using assms(5) by (simp add: registered_def s2_def s1_def)
  then show thesis using that [OF rg kb] by (simp add: s2_def s1_def)
qed

text \<open>The descriptor tables and the handlers of the interrupts.\<close>

lemma boot_tables:
  assumes "length (interrupt_stubs im) = 512" "interrupt_callbacks s = replicate 512 None"
  obtains gdt descs idtr where "gdt_structured_to_gdt (replicate (nat PLUMOS_TOTAL_GDT_SEGMENTS) (replicate 8 0))
      (gdt_structured_table (tss_address im)) PLUMOS_TOTAL_GDT_SEGMENTS = Some gdt"
    "idt_init (idt_address im) (interrupt_stubs im) (isr80h_wrapper_address im)
      (replicate PLUMOS_TOTAL_INTERRUPTS zero_desc) s = Some (descs, idtr, s\<lparr>interrupt_callbacks := boot_callbacks\<rparr>)"
    "tables_ok im \<lparr>gdt_real = gdt, idt_descriptors = descs, idtr_descriptor = idtr,
       the_tss = zero_tss\<lparr>tss_esp0 := 0x600000, tss_ss0 := KERNEL_DATA_SELECTOR\<rparr>\<rparr>"
proof -
  obtain gdt where gdt: "gdt_structured_to_gdt (replicate (nat PLUMOS_TOTAL_GDT_SEGMENTS) (replicate 8 0))
      (gdt_structured_table (tss_address im)) PLUMOS_TOTAL_GDT_SEGMENTS = Some gdt" "length gdt = 6"
    "\<forall>k < 6. describes (gdt ! k) (gdt_structured_table (tss_address im) ! k)" by (rule kernel_table_ok)
  obtain descs idtr where idt: "idt_init (idt_address im) (interrupt_stubs im) (isr80h_wrapper_address im)
      (replicate PLUMOS_TOTAL_INTERRUPTS zero_desc) s = Some (descs, idtr, s\<lparr>interrupt_callbacks := boot_callbacks\<rparr>)"
    "length descs = 512" "\<forall>k < 512. gate_to (descs ! k) (if k = 0x80 then isr80h_wrapper_address im else interrupt_stubs im ! k)"
    "idtr = \<lparr>idtr_limit = 4095, idtr_base = idt_address im\<rparr>" by (rule idt_init_ok [OF assms(2,1)])
  show thesis by (rule that [OF gdt(1) idt(1)]) (use gdt(2,3) idt(2-4) in \<open>simp add: tables_ok_def\<close>)
qed

text \<open>The whole of \<open>kernel_main\<close> up to its two programs.\<close>

lemma kernel_setup_ok:
  assumes "boot_state s" "1600 \<le> length text_memory" "length table_memory = 25600" "length (interrupt_stubs im) = 512"
    "ata_serves (device s) img" "h = disk_bytes img 0 62" "header_signature h = PLUMOS_FAT16_SIGNATURE" "boot_ok img h n m"
  obtains tables fp dir s' where "kernel_main im text_memory table_memory junk flags s =
      do {
        (argument, s) \<leftarrow> start_program (lit ''0:/blank.elf'') junk (lit ''B'') s';
        (argument, s) \<leftarrow> start_program (lit ''0:/blank.elf'') argument (lit ''A'') s;
        (regs, s) \<leftarrow> task_run_first_ever_task flags s;
        Some (regs, tables, s)
      }" "tables_ok im tables" "mem_inv s'" "heap_shape (kernel_heap s') = (PLUMOS_HEAP_ADDRESS, 25600)" "24568 \<le> free_blocks s'"
    "volume_mounted img h n m fp s'" "dk_filesystem (gdisk s') = Fat16Fs" "file_descriptors s' = replicate PLUMOS_MAX_FILE_DESCRIPTORS 0"
    "processes s' = replicate 12 0" "task_head s' = 0" "current_task s' = 0" "kernel_space s' dir" "registered s'"
proof -
  note b = assms(1) [unfolded boot_state_def]
  obtain v hp s2 where m: "terminal_initialize text_memory s = Some (s\<lparr>video_mem := v\<rparr>)" "\<forall>i < 1600. v ! i = blank_cell"
    "kheap_init table_memory (s\<lparr>video_mem := v\<rparr>) = Some (s\<lparr>video_mem := v, kernel_heap := hp\<rparr>)"
    "fs_init (s\<lparr>video_mem := v, kernel_heap := hp\<rparr>) = Some s2"
    "s2 = s\<lparr>video_mem := v, kernel_heap := hp, file_descriptors := replicate PLUMOS_MAX_FILE_DESCRIPTORS 0,
       filesystems := Fat16Fs # replicate 11 NullFs\<rparr>"
    "mem_inv s2" "free_blocks s2 = 25600" "heap_shape (kernel_heap s2) = (PLUMOS_HEAP_ADDRESS, 25600)"
    by (rule boot_memory [OF assms(1-3)])
  have p2: "5 < free_blocks s2" "ata_serves (device s2) img" "filesystems s2 = Fat16Fs # replicate 11 NullFs"
    using m(5,7) assms(5) by simp_all
  obtain fp s3 where s3: "disk_search_and_init s2 = Some s3" "volume_mounted img h n m fp s3" "mem_inv s3"
    "dk_filesystem (gdisk s3) = Fat16Fs" "\<forall>a \<in> dom (objs s2). objs s3 a = objs s2 a" "mount_step s2 s3"
    "free_blocks s2 \<le> free_blocks s3 + 5"
    by (rule disk_mount_ok [OF m(6) p2(1,2) assms(6-8) p2(3)])
  have e3: "s3 = s2\<lparr>kernel_heap := kernel_heap s3, objs := objs s3, gdisk := gdisk s3, io_log := io_log s3\<rparr>"
    by (rule mount_stepD(1) [OF s3(6)])
  have c3: "interrupt_callbacks s3 = replicate 512 None" by (subst e3) (use b m(5) in simp)
  obtain gdt descs idtr where tb: "gdt_structured_to_gdt (replicate (nat PLUMOS_TOTAL_GDT_SEGMENTS) (replicate 8 0))
      (gdt_structured_table (tss_address im)) PLUMOS_TOTAL_GDT_SEGMENTS = Some gdt"
    "idt_init (idt_address im) (interrupt_stubs im) (isr80h_wrapper_address im)
      (replicate PLUMOS_TOTAL_INTERRUPTS zero_desc) s3 = Some (descs, idtr, s3\<lparr>interrupt_callbacks := boot_callbacks\<rparr>)"
    "tables_ok im \<lparr>gdt_real = gdt, idt_descriptors = descs, idtr_descriptor = idtr,
       the_tss = zero_tss\<lparr>tss_esp0 := 0x600000, tss_ss0 := KERNEL_DATA_SELECTOR\<rparr>\<rparr>"
    by (rule boot_tables [OF assms(4) c3])
  define s4 where "s4 = s3\<lparr>interrupt_callbacks := boot_callbacks\<rparr>"
  have p4: "mem_inv s4" "1027 \<le> free_blocks s4" "25595 \<le> free_blocks s4" "objs s4 = objs s3"
    using s3(3,7) m(7) by (simp_all add: s4_def mem_inv_def free_blocks_def)
  obtain c dir s5 ptr s6 s7 where pg:
    "paging_new_4gb (ucast (PAGING_IS_WRITEABLE OR PAGING_IS_PRESENT OR PAGING_ACCESS_FROM_ALL)) s4 = Some (c, s5)"
    "paging_switch c (s5\<lparr>kernel_chunk := c\<rparr>) = Some (s5\<lparr>kernel_chunk := c, cr3 := dir, current_directory := dir\<rparr>)"
    "kzalloc 4096 (OBytes (replicate 4096 0)) (s5\<lparr>kernel_chunk := c, cr3 := dir, current_directory := dir\<rparr>) = Some (ptr, s6)"
    "paging_4gb_chunk_get_directory c s6 = Some dir"
    "paging_set dir 0x1000 (ptr OR PAGING_IS_WRITEABLE OR PAGING_IS_PRESENT OR PAGING_ACCESS_FROM_ALL) s6 = Some (0, s7)"
    "mem_inv s7" "kernel_space s7 dir" "free_blocks s4 \<le> free_blocks s7 + 1027" "objs s4 \<subseteq>\<^sub>m objs s7"
    "heap_shape (kernel_heap s7) = heap_shape (kernel_heap s4)"
    "s7 = s4\<lparr>kernel_heap := kernel_heap s7, objs := objs s7, kernel_chunk := c, cr3 := dir, current_directory := dir\<rparr>"
    by (rule kernel_paging_ok [OF p4(1,2)]) (elim exE conjE, blast)
  note f3 = mount_step_same [OF s3(6)]
  have f7: "gdisk s7 = gdisk s3" "device s7 = device s3" "file_descriptors s7 = replicate PLUMOS_MAX_FILE_DESCRIPTORS 0"
    "processes s7 = replicate 12 0" "task_head s7 = 0" "current_task s7 = 0" "interrupt_callbacks s7 = boot_callbacks"
    "isr80h_commands s7 = replicate 1024 None" "kbd_init (classic_keyboard s7)" "keyboard_list_last s7 = NullKeyboard" "video_mem s7 = v"
    by (subst pg(11), use b f3 m(5) in \<open>simp add: s4_def\<close>)+
  have v7: "\<forall>i < 1600. video_mem s7 ! i = blank_cell" using m(2) f7(11) by simp
  obtain s8 s9 cs cb k out where kb: "isr80h_register_commands s7 = Some s8" "keyboard_init s8 = Some s9" "registered s9"
    "s9 = s7\<lparr>isr80h_commands := cs, keyboard_list_head := TheClassic, keyboard_list_last := TheClassic,
       interrupt_callbacks := cb, classic_keyboard := k, io_log := out\<rparr>"
    by (rule boot_interface [OF f7(7-10) v7])
  have f9: "objs s9 = objs s7" "kernel_heap s9 = kernel_heap s7" "gdisk s9 = gdisk s3" "device s9 = device s3"
    "kernel_chunk s9 = kernel_chunk s7" "processes s9 = replicate 12 0" "task_head s9 = 0" "current_task s9 = 0"
    "file_descriptors s9 = replicate PLUMOS_MAX_FILE_DESCRIPTORS 0"
    using f7 kb(4) by simp_all
  let ?t = "\<lparr>gdt_real = gdt, idt_descriptors = descs, idtr_descriptor = idtr,
    the_tss = zero_tss\<lparr>tss_esp0 := 0x600000, tss_ss0 := KERNEL_DATA_SELECTOR\<rparr>\<rparr>"
  have run: "kernel_main im text_memory table_memory junk flags s =
      do {
        (argument, s) \<leftarrow> start_program (lit ''0:/blank.elf'') junk (lit ''B'') s9;
        (argument, s) \<leftarrow> start_program (lit ''0:/blank.elf'') argument (lit ''A'') s;
        (regs, s) \<leftarrow> task_run_first_ever_task flags s;
        Some (regs, ?t, s)
      }"
    using m(1,3,4) s3(1) tb(1,2) pg(1-5) kb(1,2) by (simp add: kernel_main_def s4_def [symmetric] Let_def)
  have vm: "volume_mounted img h n m fp s9"
    by (rule volume_mounted_mono [OF s3(2)]) (use f9 pg(9) p4(4) in simp_all)
  have ks: "kernel_space s9 dir" using pg(7) by (simp add: kernel_space_def f9)
  have hs: "heap_shape (kernel_heap s9) = (PLUMOS_HEAP_ADDRESS, 25600)"
    using pg(10) mount_stepD(2) [OF s3(6)] m(8) f9(2) by (simp add: s4_def)
  have mi: "mem_inv s9" "24568 \<le> free_blocks s9"
    using pg(6,8) p4(3) f9(1,2) by (simp_all add: mem_inv_def free_blocks_def)
  have dk: "dk_filesystem (gdisk s9) = Fat16Fs" using s3(4) f9(3) by simp
  show thesis by (rule that [OF run tb(3) mi(1) hs mi(2) vm dk f9(9,6-8) ks kb(3)])
qed

end
