(* ===== verification/Launch.thy ===== *)
theory Launch
  imports KernelMain ProcessLoad Arguments
begin

unbundle bit_operations_syntax

text \<open>
  Starting a program: loading it as the current process and passing it its argument, and what the start of
  one program leaves of another.
\<close>

section \<open>A started program\<close>

text \<open>
  The process \<open>q\<close> of slot \<open>k\<close> with the task \<open>task\<close> and the address space \<open>dir\<close>: the file \<open>data\<close> in its memory, an empty
  stack, the argument \<open>arg\<close>, and the pages of all of them.
\<close>

definition program_started :: "kernel \<Rightarrow> u8 list \<Rightarrow> u8 list \<Rightarrow> nat \<Rightarrow> u32 \<Rightarrow> u32 \<Rightarrow> u32 \<Rightarrow> bool" where
  "program_started s data arg k q task dir \<longleftrightarrow> (\<exists>p c memory argv b.
     process_space s q p c dir \<and> p_id p = of_nat k \<and> p_task p = task \<and> t_process (task_at s task) = q \<and>
     t_registers (task_at s task) = start_registers (le32 data 24) \<and>
     elf_loaded s (p_ptr p) memory data \<and> memory mod 4096 = 0 \<and> unat memory \<le> 2 ^ 31 \<and>
     p_stack p mod 4096 = 0 \<and> unat (p_stack p) + 16384 \<le> 2 ^ 31 \<and> objs s (p_stack p) = Some (OBytes (replicate 16384 0)) \<and>
     p_arguments p = \<lparr>arg_argc = 1, arg_argv = argv\<rparr> \<and> objs s argv = Some (OBytes b) \<and> length b = 4 \<and> argv mod 4096 = 0 \<and>
     argument_at s (le32 b 0) arg \<and> le32 b 0 mod 4096 = 0 \<and> 4096 \<le> page argv \<and> 4096 \<le> page (le32 b 0) \<and>
     (\<forall>n < 2 ^ 20. page_entry (objs s) dir n =
        (if n \<in> page ` {argv, le32 b 0} then of_nat (4096 * n) OR 7
         else foldl map_region (\<lambda>n. of_nat (4096 * n) OR 5) (program_regions memory data (p_stack p)) n)) \<and>
     p_keyboard p = p_keyboard zero_process)"

text \<open>What may change without touching the program: other processes, tasks and page tables.\<close>

definition kernel_objects :: "u32 set \<Rightarrow> kernel \<Rightarrow> bool" where
  "kernel_objects X s \<longleftrightarrow> (\<forall>a \<in> X. \<forall>y. objs s a = Some y \<longrightarrow> (\<exists>t. y = OTask t) \<or> (\<exists>p. y = OProcess p) \<or> (\<exists>w. y = OWords w))"

lemma kept_kernel:
  assumes "kept X s s'" "kernel_objects X s" "objs s a = Some y" "\<forall>d. y \<noteq> OStream d"
    "\<forall>t. y \<noteq> OTask t" "\<forall>p. y \<noteq> OProcess p" "\<forall>w. y \<noteq> OWords w"
  shows "objs s' a = Some y"
  by (rule kept_obj [OF assms(1,3) _ assms(4)]) (use assms(2,3,5-7) in \<open>auto simp: kernel_objects_def\<close>)

lemma kept_tables:
  assumes "pd_ok (objs s) dir" "kept X s s'" "insert dir (tables_of (objs s) dir) \<inter> X = {}"
    "a \<in> insert dir (tables_of (objs s) dir)"
  shows "objs s' a = objs s a"
proof -
  obtain d where "objs s dir = Some (OWords d)" "\<And>i. i < 1024 \<Longrightarrow> \<exists>t. objs s (table_of d i) = Some (OWords t)"
    using assms(1) unfolding pd_ok_def by blast
  then obtain w where w: "objs s a = Some (OWords w)" using assms(4) by (fastforce simp: tables_of_def)
  have "objs s' a = Some (OWords w)" by (rule kept_obj [OF assms(2) w]) (use assms(3,4) in auto)
  then show ?thesis using w by simp
qed

lemma program_started_kept:
  assumes "program_started s data arg k q task dir" "kept X s s'" "kernel_objects X s" "q \<notin> X"
    "insert dir (tables_of (objs s) dir) \<inter> X = {}" "objs s' task = Some (OTask ((task_at s task)\<lparr>t_next := n\<rparr>))"
  shows "program_started s' data arg k q task dir"
proof -
  obtain p c memory argv b where p: "process_space s q p c dir" "p_id p = of_nat k" "p_task p = task" "t_process (task_at s task) = q"
    "t_registers (task_at s task) = start_registers (le32 data 24)"
    "elf_loaded s (p_ptr p) memory data" "memory mod 4096 = 0" "unat memory \<le> 2 ^ 31"
    "p_stack p mod 4096 = 0" "unat (p_stack p) + 16384 \<le> 2 ^ 31" "objs s (p_stack p) = Some (OBytes (replicate 16384 0))"
    "p_arguments p = \<lparr>arg_argc = 1, arg_argv = argv\<rparr>" "objs s argv = Some (OBytes b)" "length b = 4" "argv mod 4096 = 0"
    "argument_at s (le32 b 0) arg" "le32 b 0 mod 4096 = 0" "4096 \<le> page argv" "4096 \<le> page (le32 b 0)"
    "\<forall>n < 2 ^ 20. page_entry (objs s) dir n =
        (if n \<in> page ` {argv, le32 b 0} then of_nat (4096 * n) OR 7
         else foldl map_region (\<lambda>n. of_nat (4096 * n) OR 5) (program_regions memory data (p_stack p)) n)"
    "p_keyboard p = p_keyboard zero_process"
    using assms(1) unfolding program_started_def by (elim exE conjE) (rule that)
  note k = kept_kernel [OF assms(2,3)]
  note g = process_space_get [OF p(1)]
  note sp = kept_tables [OF g(4) assms(2,5)]
  note ss = same_space [of dir "objs s" "objs s'", OF sp g(4)]
  have t: "task_at s' task = (task_at s task)\<lparr>t_next := n\<rparr>" by (rule task_at_Some [OF assms(6)])
  have ps: "process_space s' q p c dir"
  proof -
    have "objs s' q = Some (OProcess p)" by (rule kept_obj [OF assms(2) g(5) assms(4)]) simp
    moreover have "objs s' c = Some (OChunk dir)" using k [OF g(3)] by simp
    moreover have "t_page_directory (task_at s task) = c" using p(1,3) by (auto simp: process_space_def task_at_def)
    ultimately show ?thesis using ss(1) assms(6) p(3) by (simp add: process_space_def)
  qed
  have el: "elf_loaded s' (p_ptr p) memory data" using p(6) k by (simp add: elf_loaded_def)
  have ar: "argument_at s' (le32 b 0) arg" using p(16) k unfolding argument_at_def by (metis obj.distinct obj.simps)
  have st: "objs s' (p_stack p) = Some (OBytes (replicate 16384 0))" "objs s' argv = Some (OBytes b)"
    using k [OF p(11)] k [OF p(13)] by simp_all
  have e: "\<forall>n < 2 ^ 20. page_entry (objs s') dir n =
        (if n \<in> page ` {argv, le32 b 0} then of_nat (4096 * n) OR 7
         else foldl map_region (\<lambda>n. of_nat (4096 * n) OR 5) (program_regions memory data (p_stack p)) n)"
    using p(20) ss(3) by simp
  have "t_process (task_at s' task) = q" "t_registers (task_at s' task) = start_registers (le32 data 24)"
    using p(4,5) by (simp_all add: t)
  then show ?thesis unfolding program_started_def
    by (intro exI conjI) (rule ps p(2,3) el p(7-10) st(1) p(12) st(2) p(14,15) ar p(17-19) e p(21) | assumption)+
qed
section \<open>Starting a program\<close>

text \<open>A kernel with a file to load, on the heap \<open>kheap_init\<close> creates.\<close>

definition can_start :: "(nat \<Rightarrow> u8 list) \<Rightarrow> fat_private \<Rightarrow> u8 list \<Rightarrow> u8 list \<Rightarrow> kernel \<Rightarrow> bool" where
  "can_start img fp path data s \<longleftrightarrow> mem_inv s \<and> low_heap s \<and> fst (heap_shape (kernel_heap s)) = PLUMOS_HEAP_ADDRESS \<and>
     program_on_disk img fp s path data \<and> length (processes s) = 12"

definition start_step :: "kernel \<Rightarrow> kernel \<Rightarrow> bool" where
  "start_step s s' \<longleftrightarrow> s' = s\<lparr>kernel_heap := kernel_heap s', objs := objs s', io_log := io_log s',
       file_descriptors := file_descriptors s', task_head := task_head s', task_tail := task_tail s',
       current_task := current_task s', processes := processes s', current_process := current_process s'\<rparr> \<and>
     heap_shape (kernel_heap s') = heap_shape (kernel_heap s)"

lemma start_step_trans [trans]: "start_step s s' \<Longrightarrow> start_step s' s'' \<Longrightarrow> start_step s s''"
  unfolding start_step_def by (cases s; cases s'; cases s'') simp

lemma load_start_step: "load_step s s' \<Longrightarrow> start_step s s'"
  unfolding start_step_def load_step_def by (cases s; cases s') simp

lemma heap_start_step: "heap_step s s' \<Longrightarrow> start_step s s'"
  unfolding start_step_def heap_step_def by (cases s; cases s') simp

lemma switch_start_step: "start_step s (s\<lparr>processes := ps, current_process := q\<rparr>)"
  by (simp add: start_step_def)

lemma start_stepD:
  assumes "start_step s s'"
  shows "gdisk s' = gdisk s" "device s' = device s" "interrupt_callbacks s' = interrupt_callbacks s"
    "isr80h_commands s' = isr80h_commands s" "kernel_chunk s' = kernel_chunk s" "video_mem s' = video_mem s"
    "heap_shape (kernel_heap s') = heap_shape (kernel_heap s)" "classic_keyboard s' = classic_keyboard s"
  using assms unfolding start_step_def by (cases s; cases s'; simp)+

lemma heap_step_tasks:
  assumes "heap_step s s'"
  shows "task_head s' = task_head s" "task_tail s' = task_tail s" "current_task s' = current_task s"
    "processes s' = processes s" "current_process s' = current_process s"
  using assms unfolding heap_step_def by (cases s; cases s'; simp)+

lemma file_at_private: "file_at s fp path b \<Longrightarrow> \<exists>d. objs s (dir_item (fp_root_directory fp)) = Some (OBytes d)"
  by (auto simp: file_at_def root_dir_def)

lemma program_on_disk_kept:
  assumes "program_on_disk img fp s path data" "kept X s s'" "kernel_objects X s" "gdisk s' = gdisk s" "device s' = device s"
    "file_descriptors s' = file_descriptors s"
  shows "program_on_disk img fp s' path data"
proof -
  obtain b c where a: "dk_filesystem (gdisk s) = Fat16Fs" "fat_mounted img fp s" "fat_layout fp"
    "\<exists>i < 511. first_slot 0 (file_descriptors s) = Some i" "file_at s fp path b" "unat (fat16_get_first_cluster b) = c" "c < 65536"
    "length data = unat (item_filesize b)" "0 < length data" "length data \<le> 2 ^ 31 - 4096"
    "chain_ok img fp c 0 (length data)" "data = file_bytes img fp c 0 (length data)"
    using assms(1) unfolding program_on_disk_def by blast
  have m: "objs s (dk_fs_private (gdisk s)) = Some (OFatPrivate fp)"
    "\<And>st. st \<in> fat_streams fp \<Longrightarrow> \<exists>d. objs s st = Some (OStream d)"
    using a(2) unfolding fat_mounted_def by blast+
  have "dk_fs_private (gdisk s) \<notin> X" using m(1) assms(3) by (fastforce simp: kernel_objects_def)
  moreover have "st \<notin> X" if "st \<in> fat_streams fp" for st using m(2) [OF that] assms(3) by (fastforce simp: kernel_objects_def)
  moreover have "dir_item (fp_root_directory fp) \<notin> X" using file_at_private [OF a(5)] assms(3) by (fastforce simp: kernel_objects_def)
  ultimately have x: "X \<inter> insert (dk_fs_private (gdisk s)) (fat_streams fp) = {}"
    "X \<inter> {dk_fs_private (gdisk s), dir_item (fp_root_directory fp)} = {}" by auto
  have "fat_mounted img fp s'" by (rule fat_mounted_kept [OF a(2) assms(2) x(1) assms(4,5)])
  moreover have "file_at s' fp path b" by (rule file_at_kept [OF a(5) assms(2) x(2) assms(4)])
  ultimately show ?thesis using a(1,3,4,6-12) assms(4,6) unfolding program_on_disk_def by metis
qed

lemma copy_letter:
  assumes "0 \<in> set letter" "length (cstr letter) < length buf"
  obtains buf' where "strcpy buf letter = Some buf'" "length buf' = length buf" "0 \<in> set buf'" "cstr buf' = cstr letter"
proof -
  let ?b = "cstr letter @ 0 # drop (Suc (length (cstr letter))) buf"
  have "0 \<notin> set (cstr letter)" using cstr_nonzero by metis
  then have "cstr ?b = cstr letter" by (simp add: cstr_append_no0)
  then show thesis using that [of ?b] assms by (simp add: strcpy_cstr)
qed

lemma live_page:
  assumes "mem_inv s" "low_heap s" "fst (heap_shape (kernel_heap s)) = PLUMOS_HEAP_ADDRESS" "objs s a \<noteq> None"
  shows "a mod 4096 = 0" "4096 \<le> page a"
proof -
  note l = live_place [OF assms(1,2,4)]
  show "a mod 4096 = 0" by (rule l(1))
  have "0x1000000 \<le> unat a" using l(3) by (simp add: assms(3) PLUMOS_HEAP_ADDRESS_def)
  then have "0x1000000 div 4096 \<le> unat a div 4096" by (rule div_le_mono)
  then show "4096 \<le> page a" by (simp add: page_def)
qed

lemma space_objects: "process_space s q p c dir \<Longrightarrow> kernel_objects (insert q (tables_of (objs s) dir)) s"
proof -
  assume sp: "process_space s q p c dir"
  note g = process_space_get [OF sp]
  obtain d where "objs s dir = Some (OWords d)" "\<And>i. i < 1024 \<Longrightarrow> \<exists>t. objs s (table_of d i) = Some (OWords t)"
    using g(4) unfolding pd_ok_def by blast
  then show ?thesis using g(5) by (fastforce simp: kernel_objects_def tables_of_def)
qed

lemma space_keeps_other:
  assumes "process_space s q p c dir" "objs s a = Some y" "\<forall>p. y \<noteq> OProcess p" "\<forall>w. y \<noteq> OWords w"
  shows "a \<notin> insert q (tables_of (objs s) dir)"
proof -
  note g = process_space_get [OF assms(1)]
  obtain d where "objs s dir = Some (OWords d)" "\<And>i. i < 1024 \<Longrightarrow> \<exists>t. objs s (table_of d i) = Some (OWords t)"
    using g(4) unfolding pd_ok_def by blast
  then show ?thesis using g(5) assms(2-4) by (fastforce simp: tables_of_def)
qed
text \<open>Passing one argument to a loaded program.\<close>

lemma argument_ok:
  assumes "mem_inv s" "low_heap s" "fst (heap_shape (kernel_heap s)) = PLUMOS_HEAP_ADDRESS" "2 \<le> free_blocks s"
    "process_space s q p c dir" "p_allocations p = replicate 1024 no_allocation" "0 \<in> set a"
    "t_process (task_at s (p_task p)) = q" "t_registers (task_at s (p_task p)) = start_registers (le32 data 24)"
    "elf_loaded s (p_ptr p) memory data" "memory mod 4096 = 0" "unat memory \<le> 2 ^ 31"
    "p_stack p mod 4096 = 0" "unat (p_stack p) + 16384 \<le> 2 ^ 31" "objs s (p_stack p) = Some (OBytes (replicate 16384 0))"
    "\<forall>n < 2 ^ 20. page_entry (objs s) dir n =
       foldl map_region (\<lambda>n. of_nat (4096 * n) OR 5) (program_regions memory data (p_stack p)) n" "p_id p = of_nat k"
    "p_keyboard p = p_keyboard zero_process"
  obtains s' where "process_inject_arguments q [a] s = Some (0, s')" "mem_inv s'" "heap_step s s'"
    "program_started s' data a k q (p_task p) dir" "kept (insert q (tables_of (objs s) dir)) s s'"
    "tables_of (objs s') dir = tables_of (objs s) dir" "free_blocks s = free_blocks s' + 2"
proof -
  have l: "[a] \<noteq> []" "length [a] \<le> 1024" "length [a] < free_blocks s" "\<forall>x \<in> set [a]. 0 \<in> set x" using assms(4,7) by simp_all
  have al: "p_allocations p = [] @ replicate (Suc (length [a] + 1022)) no_allocation" using assms(6) by (simp del: replicate_Suc)
  obtain argv b ps s' where i: "process_inject_arguments q [a] s = Some (0, s')"
    "process_space s' q (p\<lparr>p_allocations := ([] @ \<lparr>pa_ptr = argv, pa_size = of_nat (4 * length [a])\<rparr> #
        map (\<lambda>a. \<lparr>pa_ptr = a, pa_size = 512\<rparr>) ps) @ replicate 1022 no_allocation,
      p_arguments := \<lparr>arg_argc = int (length [a]), arg_argv = argv\<rparr>\<rparr>) c dir"
    "mem_inv s'" "heap_step s s'" "length ps = length [a]" "0 \<notin> set (argv # ps)" "set (argv # ps) \<inter> dom (objs s) = {}"
    "objs s' argv = Some (OBytes b)" "length b = 4 * length [a]"
    "\<forall>k < length [a]. le32 b (4 * k) = ps ! k \<and> argument_at s' (ps ! k) ([a] ! k)"
    "\<forall>x y. objs s x = Some y \<longrightarrow> x \<noteq> q \<longrightarrow> x \<notin> tables_of (objs s) dir \<longrightarrow> objs s' x = Some y"
    "tables_of (objs s') dir = tables_of (objs s) dir" "free_blocks s = free_blocks s' + length [a] + 1"
    "\<forall>n < 2 ^ 20. page_entry (objs s') dir n =
       (if n \<in> page ` set (argv # ps) then of_nat (4096 * n) OR 7 else page_entry (objs s) dir n)"
    by (rule process_inject_ok [OF assms(1,2,5) l(1-3) al _ l(4)]) simp
  have kp: "kept (insert q (tables_of (objs s) dir)) s s'" by (rule kept_same) (use i(11) in auto)
  note k = kept_kernel [OF kp space_objects [OF assms(5)]]
  obtain ptr where ps: "ps = [ptr]" using i(5) by (cases ps) auto
  have ptr: "le32 b 0 = ptr" "argument_at s' ptr a" using i(10) ps by auto
  have lh: "low_heap s'" "fst (heap_shape (kernel_heap s')) = PLUMOS_HEAP_ADDRESS"
    using assms(2,3) low_heap_step [OF i(4)] i(4) by (simp_all add: heap_step_def)
  note pg = live_page [OF i(3) lh]
  have "objs s' ptr \<noteq> None" "objs s' argv \<noteq> None" using ptr(2) i(8) by (auto simp: argument_at_def)
  note pa = pg [OF this(1)] pg [OF this(2)]
  obtain t where "objs s (p_task p) = Some (OTask t)" using assms(5) by (auto simp: process_space_def)
  moreover from this have "p_task p \<notin> insert q (tables_of (objs s) dir)" by (rule space_keeps_other [OF assms(5)]) simp_all
  ultimately have "objs s' (p_task p) = Some (OTask t)" using i(11) by blast
  then have t: "task_at s' (p_task p) = task_at s (p_task p)"
    using \<open>objs s (p_task p) = Some (OTask t)\<close> by (simp add: task_at_def)
  have el: "elf_loaded s' (p_ptr p) memory data" using assms(10) k by (simp add: elf_loaded_def)
  have st: "objs s' (p_stack p) = Some (OBytes (replicate 16384 0))" by (rule k [OF assms(15)]) simp_all
  have e: "\<forall>n < 2 ^ 20. page_entry (objs s') dir n = (if n \<in> page ` {argv, le32 b 0} then of_nat (4096 * n) OR 7
         else foldl map_region (\<lambda>n. of_nat (4096 * n) OR 5) (program_regions memory data (p_stack p)) n)"
    using i(14) assms(16) by (simp add: ps ptr(1))
  have "program_started s' data a k q (p_task p) dir"
    unfolding program_started_def
    by (rule exI, rule exI [of _ c], rule exI [of _ memory], rule exI [of _ argv], rule exI [of _ b], intro conjI, rule i(2))
      (use assms(8-14,17,18) t el st i(8,9) pa ptr e in \<open>simp_all\<close>)
  then show thesis by (intro that [OF i(1,3,4) _ kp i(12)]) (use i(13) in simp_all)
qed
section \<open>One program after the other\<close>

text \<open>
  \<open>start_program\<close> on a kernel that runs the tasks \<open>ts\<close>: the program runs in the first free slot, and everything there
  was stays, the link of the last task apart.
\<close>

lemma heap_step_files: "heap_step s s' \<Longrightarrow> file_descriptors s' = file_descriptors s"
  unfolding heap_step_def by (cases s; cases s') simp

lemma load_stepD:
  assumes "load_step s s'"
  shows "heap_shape (kernel_heap s') = heap_shape (kernel_heap s)" "gdisk s' = gdisk s" "device s' = device s"
    "processes s' = processes s"
  using assms unfolding load_step_def by (cases s; cases s'; simp)+

lemma task_list_objects: "ts = [] \<or> task_list s ts \<Longrightarrow> kernel_objects (tail_of ts) s"
proof (cases "ts = []")
  case False
  assume "ts = [] \<or> task_list s ts"
  then have "task_list s ts" using False by simp
  then have "objs s (last ts) = Some (OTask (task_at s (last ts)))"
    using task_list_nth(1) [of s ts "length ts - 1"] False by (simp add: last_conv_nth)
  then show ?thesis by (simp add: kernel_objects_def tail_of_def)
qed (simp add: kernel_objects_def tail_of_def)

lemma program_started_buffer: "cstr a = cstr b \<Longrightarrow> program_started s data a k q task dir = program_started s data b k q task dir"
  by (simp add: program_started_def argument_at_def)

lemma start_program_ok:
  assumes "can_start img fp path data s" "0 \<in> set path" "loadable data"
    "room s (11 + blocks_for (length data)) (max 4 (blocks_for (length data)))" "1044 + blocks_for (length data) \<le> free_blocks s"
    "first_slot 0 (processes s) = Some k" "ts = [] \<and> task_head s = 0 \<or> task_list s ts"
    "0 \<in> set letter" "length (cstr letter) < length buf"
  obtains buf' q task dir s' where "start_program path buf letter s = Some (buf', s')" "length buf' = length buf"
    "can_start img fp path data s'" "program_started s' data letter k q task dir" "task_list s' (ts @ [task])"
    "kept (tail_of ts) s s'"
    "\<forall>t. ts \<noteq> [] \<longrightarrow> objs s (last ts) = Some (OTask t) \<longrightarrow> objs s' (last ts) = Some (OTask (t\<lparr>t_next := task\<rparr>))"
    "insert q (insert task (insert dir (tables_of (objs s') dir))) \<inter> dom (objs s) = {}" "start_step s s'"
    "processes s' = (processes s)[k := q]" "current_process s' = q" "current_task s' = (if ts = [] then task else current_task s)"
    "free_blocks s \<le> free_blocks s' + 1044 + blocks_for (length data)"
proof -
  note c = assms(1) [unfolded can_start_def]
  have c': "mem_inv s" "low_heap s" "fst (heap_shape (kernel_heap s)) = PLUMOS_HEAP_ADDRESS" "program_on_disk img fp s path data"
    "length (processes s) = 12" using c by simp_all
  have fb: "1042 + blocks_for (length data) \<le> free_blocks s" using assms(5) by simp
  obtain q ef memory stack task ch dir name s1 where l: "process_load path s =
      Some (0, q, s1\<lparr>processes := (processes s)[k := q]\<rparr>)" "objs s q = None" "cstr name = take 107 (cstr path)"
    "process_space s1 q (zero_process\<lparr>p_id := of_nat k, p_filename := name, p_task := task,
      p_filetype := PROCESS_FILETYPE_ELF, p_ptr := ef, p_stack := stack\<rparr>) ch dir"
    "elf_loaded s1 ef memory data" "memory mod 4096 = 0" "unat memory \<le> 2 ^ 31" "stack mod 4096 = 0" "unat stack + 16384 \<le> 2 ^ 31"
    "objs s1 stack = Some (OBytes (replicate 16384 0))" "mem_inv s1" "task_list s1 (ts @ [task])"
    "t_registers (task_at s1 task) = start_registers (le32 data 24)" "t_process (task_at s1 task) = q"
    "\<forall>k < 2 ^ 20. page_entry (objs s1) dir k =
       foldl map_region (\<lambda>n. of_nat (4096 * n) OR 5) (program_regions memory data stack) k"
    "kept (tail_of ts) s s1" "\<forall>t. ts \<noteq> [] \<longrightarrow> objs s (last ts) = Some (OTask t) \<longrightarrow> objs s1 (last ts) = Some (OTask (t\<lparr>t_next := task\<rparr>))"
    "insert task (insert dir (tables_of (objs s1) dir)) \<inter> dom (objs s) = {}" "load_step s s1" "file_descriptors s1 = file_descriptors s"
    "free_blocks s \<le> free_blocks s1 + 1042 + blocks_for (length data)" "current_task s1 = (if ts = [] then task else current_task s)"
    by (rule process_load_ok [OF c'(1,2) assms(4) fb c'(4) assms(2,3,6) c'(5) assms(7)])
  let ?p = "zero_process\<lparr>p_id := of_nat k, p_filename := name, p_task := task, p_filetype := PROCESS_FILETYPE_ELF,
    p_ptr := ef, p_stack := stack\<rparr>"
  define s2 where "s2 = s1\<lparr>processes := (processes s)[k := q], current_process := q\<rparr>"
  have o2: "objs s2 = objs s1" "kernel_heap s2 = kernel_heap s1" by (simp_all add: s2_def)
  have fb2: "free_blocks s2 = free_blocks s1" by (simp add: free_blocks_def o2(2))
  have run1: "process_load_switch path s = Some (0, q, s2)" by (simp add: process_load_switch_def l(1) process_switch_def s2_def)
  obtain buf' where b: "strcpy buf letter = Some buf'" "length buf' = length buf" "0 \<in> set buf'" "cstr buf' = cstr letter"
    by (rule copy_letter [OF assms(8,9)])
  have t2: "task_at s2 = task_at s1" by (simp add: task_at_def fun_eq_iff o2(1))
  have m2: "mem_inv s2" "low_heap s2" "fst (heap_shape (kernel_heap s2)) = PLUMOS_HEAP_ADDRESS" "2 \<le> free_blocks s2"
    "process_space s2 q ?p ch dir" "elf_loaded s2 ef memory data"
    using l(4,5,11,21) c'(2,3) load_stepD(1) [OF l(19)] assms(5)
    by (simp_all add: mem_inv_def o2 low_heap_def process_space_def elf_loaded_def fb2)
  have e2: "p_allocations ?p = replicate 1024 no_allocation" "p_task ?p = task" "p_stack ?p = stack" "p_ptr ?p = ef" "p_id ?p = of_nat k"
    "p_keyboard ?p = p_keyboard zero_process"
    by (simp_all add: zero_process_def PLUMOS_MAX_PROGRAM_ALLOCATIONS_def)
  note inject = argument_ok [OF m2(1-5) e2(1) b(3), unfolded e2(2-6) t2 o2(1), OF l(14,13) m2(6) l(6-9) l(10) l(15) refl refl]
  obtain s3 where i: "process_inject_arguments q [buf'] s2 = Some (0, s3)" "mem_inv s3" "heap_step s2 s3"
    "program_started s3 data buf' k q task dir" "kept (insert q (tables_of (objs s1) dir)) s2 s3"
    "tables_of (objs s3) dir = tables_of (objs s1) dir" "free_blocks s2 = free_blocks s3 + 2"
    by (rule inject)
  have run: "start_program path buf letter s = Some (buf', s3)"
    by (simp add: start_program_def run1 b(1) i(1) PLUMOS_ALL_OK_def)
  have k13: "kept (insert q (tables_of (objs s1) dir)) s1 s3"
    using i(5) unfolding kept_def o2(1) .
  have fr: "insert q (insert task (insert dir (tables_of (objs s3) dir))) \<inter> dom (objs s) = {}"
    using l(2,18) i(6) by (auto simp: dom_def)
  have kp: "kept (tail_of ts) s s3"
    by (rule kept_drop [OF kept_trans [OF l(16) k13]]) (use fr i(6) in auto)
  note ks = kept_kernel [OF k13 space_objects [OF l(4)]]
  have kt: "objs s3 a = Some y" if "objs s1 a = Some y" "\<exists>t. y = OTask t" for a y
    by (rule kept_obj [OF k13 that(1)]) (use space_keeps_other [OF l(4) that(1)] that(2) in auto)
  have st: "start_step s s3"
    using start_step_trans [OF load_start_step [OF l(19)] start_step_trans [OF switch_start_step heap_start_step]] i(3)
    unfolding s2_def by blast
  have hs: "task_head s3 = task_head s1" "task_tail s3 = task_tail s1" "current_task s3 = current_task s1"
    "processes s3 = (processes s)[k := q]" "current_process s3 = q" "file_descriptors s3 = file_descriptors s"
    using heap_step_tasks [OF i(3)] heap_step_files [OF i(3)] l(20) by (simp_all add: s2_def)
  have tl: "task_list s3 (ts @ [task])"
    by (rule task_list_keep(1) [OF l(12) hs(1,2)]) (use kt ks in auto)
  have ts: "ts = [] \<or> task_list s ts" using assms(7) by blast
  have lk: "\<forall>t. ts \<noteq> [] \<longrightarrow> objs s (last ts) = Some (OTask t) \<longrightarrow> objs s3 (last ts) = Some (OTask (t\<lparr>t_next := task\<rparr>))"
    using l(17) kt by blast
  note sd = start_stepD [OF st]
  have pd: "program_on_disk img fp s3 path data"
    by (rule program_on_disk_kept [OF c'(4) kp task_list_objects [OF ts] sd(1,2) hs(6)])
  have cs: "can_start img fp path data s3"
    using i(2) c'(2,3,5) sd(7) hs(4) pd by (simp add: can_start_def low_heap_def)
  have ps: "program_started s3 data letter k q task dir" using i(4) program_started_buffer [OF b(4)] by simp
  have ct: "current_task s3 = (if ts = [] then task else current_task s)" using hs(3) l(22) by simp
  have ff: "free_blocks s \<le> free_blocks s3 + 1044 + blocks_for (length data)" using l(21) i(7) fb2 by simp
  show thesis by (rule that [OF run b(2) cs ps tl kp lk fr st hs(4,5) ct ff])
qed

end
