(* ===== verification/Boot.thy ===== *)
theory Boot
  imports Setup Launch Input
begin

unbundle bit_operations_syntax

text \<open>
  \<open>kernel_main\<close> from the image of the disk to user mode: the file \<open>0:/blank.elf\<close> of a FAT16 volume is
  started twice, and the first task runs.
\<close>

section \<open>A file of a volume\<close>

text \<open>The layout of the volume, which decides where its clusters are.\<close>

definition volume_layout :: "(nat \<Rightarrow> u8 list) \<Rightarrow> nat \<Rightarrow> fat_private" where
  "volume_layout img n = zero_fat_private\<lparr>fp_header := disk_bytes img 0 62,
     fp_root_directory := zero_fat_directory\<lparr>dir_end_sector_pos := int (root_start (disk_bytes img 0 62) + 32 * n div 512)\<rparr>\<rparr>"

text \<open>
  The image is a FAT16 volume with a root directory of \<open>n\<close> entries, the first blank one at \<open>m\<close>, which the kernel
  can mount; among the entries it looks at exactly one has the name of the path, and \<open>data\<close> are the bytes of
  its chain of clusters.
\<close>

definition file_on_volume :: "(nat \<Rightarrow> u8 list) \<Rightarrow> nat \<Rightarrow> nat \<Rightarrow> u8 list \<Rightarrow> u8 list \<Rightarrow> bool" where
  "file_on_volume img n m path data \<longleftrightarrow>
     (let h = disk_bytes img 0 62; dir = disk_bytes img (512 * root_start h) (32 * n);
          items = length (used_items img (512 * root_start h) m); fp = volume_layout img n in
      header_signature h = PLUMOS_FAT16_SIGNATURE \<and> boot_ok img h n m \<and> h ! 13 \<noteq> 0 \<and> items \<le> n \<and>
      (\<exists>cs w j c. 0 \<in> set path \<and> cstr path = 0x30 # 0x3A # 0x2F # cs \<and> components cs = [w] \<and>
        length (cstr path) \<le> PLUMOS_MAX_PATH \<and> j < items \<and> name_matches (dir_entry dir j) (w @ [0]) \<and>
        (\<forall>i < items. i \<noteq> j \<longrightarrow> \<not> name_matches (dir_entry dir i) (w @ [0])) \<and>
        item_attribute (dir_entry dir j) AND FAT_FILE_SUBDIRECTORY = 0 \<and>
        c = unat (fat16_get_first_cluster (dir_entry dir j)) \<and> c < 65536 \<and>
        length data = unat (item_filesize (dir_entry dir j)) \<and> 0 < length data \<and> length data \<le> 2 ^ 31 - 4096 \<and>
        chain_ok img fp c 0 (length data) \<and> data = file_bytes img fp c 0 (length data)))"

lemma layout_cong:
  assumes "fp_header fp = fp_header fp'" "dir_end_sector_pos (fp_root_directory fp) = dir_end_sector_pos (fp_root_directory fp')"
  shows "chain_ok img fp c off n = chain_ok img fp' c off n" "file_bytes img fp c off n = file_bytes img fp' c off n"
proof -
  have cs: "cluster_size fp = cluster_size fp'" using assms by (simp add: cluster_size_def)
  have cp: "cluster_pos fp k = cluster_pos fp' k" for k using assms by (simp add: cluster_pos_def)
  have e: "fat_entry img fp c = fat_entry img fp' c" for c using assms by (simp add: fat_entry_def)
  have f: "follow img fp k c = follow img fp' k c" for k c by (induction k arbitrary: c) (simp_all add: e Let_def)
  have "cluster_ok fp k = cluster_ok fp' k" for k by (simp add: cluster_ok_def cp cs)
  then show "chain_ok img fp c off n = chain_ok img fp' c off n" by (simp add: chain_ok_def cs f)
  show "file_bytes img fp c off n = file_bytes img fp' c off n" by (simp add: file_bytes_def file_byte_def cs cp f split: option.split)
qed

lemma mounted_program:
  assumes "volume_mounted img (disk_bytes img 0 62) n m fp s" "file_on_volume img n m path data"
    "dk_filesystem (gdisk s) = Fat16Fs" "file_descriptors s = replicate PLUMOS_MAX_FILE_DESCRIPTORS 0"
  shows "program_on_disk img fp s path data"
proof -
  let ?h = "disk_bytes img 0 62"
  let ?dir = "disk_bytes img (512 * root_start ?h) (32 * n)" and ?items = "length (used_items img (512 * root_start ?h) m)"
  note v = assms(1) [unfolded volume_mounted_def]
  note f = assms(2) [unfolded file_on_volume_def Let_def]
  have lay: "chain_ok img fp c off k = chain_ok img (volume_layout img n) c off k"
    "file_bytes img fp c off k = file_bytes img (volume_layout img n) c off k" for c off k
    by (rule layout_cong; use v in \<open>simp add: volume_layout_def\<close>)+
  obtain cs w j c where j: "0 \<in> set path" "cstr path = 0x30 # 0x3A # 0x2F # cs" "components cs = [w]"
    "length (cstr path) \<le> PLUMOS_MAX_PATH" "j < ?items" "name_matches (dir_entry ?dir j) (w @ [0])"
    "\<forall>i < ?items. i \<noteq> j \<longrightarrow> \<not> name_matches (dir_entry ?dir i) (w @ [0])"
    "item_attribute (dir_entry ?dir j) AND FAT_FILE_SUBDIRECTORY = 0"
    "c = unat (fat16_get_first_cluster (dir_entry ?dir j))" "c < 65536"
    "length data = unat (item_filesize (dir_entry ?dir j))" "0 < length data" "length data \<le> 2 ^ 31 - 4096"
    "chain_ok img (volume_layout img n) c 0 (length data)" "data = file_bytes img (volume_layout img n) c 0 (length data)"
    using f by (elim exE conjE) (rule that)
  have "root_dir s fp ?dir ?items" using v f by (auto simp: root_dir_def fat_mounted_def)
  then have "file_at s fp path (dir_entry ?dir j)" unfolding file_at_def using j(1-8) by blast
  moreover have "fat_layout fp" using v f by (auto simp: fat_layout_def)
  moreover have "first_slot 0 (file_descriptors s) = Some 0"
    unfolding assms(4) by (simp add: PLUMOS_MAX_FILE_DESCRIPTORS_def numeral_eq_Suc)
  ultimately show ?thesis using v assms(3) j(9-15) lay unfolding program_on_disk_def
    by (intro conjI exI [of _ 0] exI [of _ "dir_entry ?dir j"] exI [of _ c]) simp_all
qed

section \<open>A program ready to run\<close>

text \<open>
  The process \<open>q\<close> of slot \<open>k\<close> with the task \<open>task\<close> and the page tables \<open>dir\<close>: its task starts at the entry point, its segments
  are at the bytes of the file, its stack is zero, and its argument vector leads to \<open>arg\<close>, both where
  the kernel has them.
\<close>

definition program_ready :: "kernel \<Rightarrow> u8 list \<Rightarrow> u8 list \<Rightarrow> nat \<Rightarrow> u32 \<Rightarrow> u32 \<Rightarrow> u32 \<Rightarrow> bool" where
  "program_ready s data arg k q task dir \<longleftrightarrow> (\<exists>p memory argv b.
     objs s q = Some (OProcess p) \<and> p_id p = of_nat k \<and> p_task p = task \<and> t_process (task_at s task) = q \<and>
     t_registers (task_at s task) = start_registers (le32 data 24) \<and>
     objs s (t_page_directory (task_at s task)) = Some (OChunk dir) \<and>
     elf_loaded s (p_ptr p) memory data \<and>
     (\<forall>i < phdr_count data. \<forall>j < unat (le32 data (phdr_pos data i + 20)).
        mmu dir (le32 data (phdr_pos data i + 8) + of_nat j) s = Some (memory + le32 data (phdr_pos data i + 4) + of_nat j)) \<and>
     objs s (p_stack p) = Some (OBytes (replicate 16384 0)) \<and>
     (\<forall>j < 16384. mmu dir (0x3FB000 + of_nat j) s = Some (p_stack p + of_nat j)) \<and>
     p_arguments p = \<lparr>arg_argc = 1, arg_argv = argv\<rparr> \<and> objs s argv = Some (OBytes b) \<and> length b = 4 \<and>
     (\<forall>j < 4096. mmu dir (argv + of_nat j) s = Some (argv + of_nat j)) \<and>
     argument_at s (le32 b 0) arg \<and> (\<forall>j < 4096. mmu dir (le32 b 0 + of_nat j) s = Some (le32 b 0 + of_nat j)))"

lemma mmu_identity_page:
  assumes "pd_ok (objs s) dir" "page_entry (objs s) dir (page a) = of_nat (4096 * page a) OR 7" "a mod 4096 = 0" "j < 4096"
  shows "mmu dir (a + of_nat j) s = Some (a + of_nat j)"
proof -
  have jw: "unat (of_nat j :: u32) = j" using assms(4) by (simp add: unat_of_small_nat)
  have a: "unat a = 4096 * page a" using assms(3) by (auto simp: page_def aligned_unat)
  then have lt: "unat a + j < 2 ^ 32" using page_less [of a] assms(4) by simp
  then have u: "unat (a + of_nat j) = unat a + j" using jw by (simp add: unat_word_ariths)
  have pg: "page (a + of_nat j) = page a" using assms(4) by (simp add: page_def [of "a + of_nat j"] u) (simp add: a)
  have x: "of_nat (4096 * page a) = a" using map_pages_identity [OF assms(3) order_refl] by simp
  have e: "page_entry (objs s) dir (page (a + of_nat j)) = a OR 7" unfolding pg assms(2) x by (rule refl)
  have "mmu dir (a + of_nat j) s = Some (a + (a + of_nat j) mod 4096)"
    by (rule mmu_entry [OF assms(1) e assms(3)]) (simp_all add: paging_consts)
  moreover have "unat ((a + of_nat j) mod 4096) = j" using assms(4) a by (simp add: unat_mod_distrib u)
  then have "(a + of_nat j) mod 4096 = of_nat j" using jw by (simp add: word_unat_eq_iff)
  ultimately show ?thesis by simp
qed
text \<open>The segments of the program lie below the kernel's heap.\<close>

definition low_segments :: "u8 list \<Rightarrow> bool" where
  "low_segments data \<longleftrightarrow> (\<forall>i < phdr_count data. segment_pages data (phdr_pos data i) \<subseteq> {..<4096})"

lemma started_ready:
  assumes "program_started s data arg k q task dir" "loadable data" "separate_segments data" "low_segments data"
  shows "program_ready s data arg k q task dir" "pd_ok (objs s) dir"
proof -
  obtain p c memory argv b where p: "process_space s q p c dir" "p_id p = of_nat k" "p_task p = task" "t_process (task_at s task) = q"
    "t_registers (task_at s task) = start_registers (le32 data 24)"
    "elf_loaded s (p_ptr p) memory data" "memory mod 4096 = 0" "unat memory \<le> 2 ^ 31"
    "p_stack p mod 4096 = 0" "unat (p_stack p) + 16384 \<le> 2 ^ 31" "objs s (p_stack p) = Some (OBytes (replicate 16384 0))"
    "p_arguments p = \<lparr>arg_argc = 1, arg_argv = argv\<rparr>" "objs s argv = Some (OBytes b)" "length b = 4" "argv mod 4096 = 0"
    "argument_at s (le32 b 0) arg" "le32 b 0 mod 4096 = 0" "4096 \<le> page argv" "4096 \<le> page (le32 b 0)"
    "\<forall>n < 2 ^ 20. page_entry (objs s) dir n =
        (if n \<in> page ` {argv, le32 b 0} then of_nat (4096 * n) OR 7
         else foldl map_region (\<lambda>n. of_nat (4096 * n) OR 5) (program_regions memory data (p_stack p)) n)"
    "p_keyboard p = p_keyboard zero_process"
    using assms(1) unfolding program_started_def by (elim exE conjE) (rule that)
  note g = process_space_get [OF p(1)]
  show pd: "pd_ok (objs s) dir" by (rule g(4))
  let ?A = "page ` {argv, le32 b 0}" and ?rs = "program_regions memory data (p_stack p)"
  let ?e = "\<lambda>n. if n \<in> ?A then of_nat (4096 * n) OR 7 else (of_nat (4096 * n) OR 5 :: u32)"
  have high: "4096 \<le> n" if "n \<in> ?A" for n using that p(18,19) by auto
  have out: "\<not> in_region n r" if "r \<in> set ?rs" "n \<in> ?A" for n r
  proof
    assume "in_region n r"
    then have "n < 4096"
      using that(1) assms(4) by (fastforce simp: program_regions_set in_segment_region in_stack_region low_segments_def stack_pages_def)
    then show False using high [OF that(2)] by simp
  qed
  have e: "\<forall>n < 2 ^ 20. page_entry (objs s) dir n = foldl map_region ?e ?rs n"
  proof (intro allI impI)
    fix n :: nat assume n: "n < 2 ^ 20"
    show "page_entry (objs s) dir n = foldl map_region ?e ?rs n"
    proof (cases "n \<in> ?A")
      case True
      then have "foldl map_region ?e ?rs n = ?e n" using out by (intro map_regions_out) blast
      then show ?thesis using p(20) n True by simp
    next
      case False
      have "foldl map_region ?e ?rs n = foldl map_region (\<lambda>n. of_nat (4096 * n) OR 5) ?rs n"
        by (rule map_regions_cong) (use False in simp)
      then show ?thesis using p(20) n False by simp
    qed
  qed
  note sp = program_space [OF pd assms(2,3) p(7-10) e]
  have id: "mmu dir (a + of_nat j) s = Some (a + of_nat j)" if a: "a \<in> {argv, le32 b 0}" and j: "j < 4096" for a j
  proof (rule mmu_identity_page [OF pd _ _ j])
    have "page a \<in> ?A" using a by blast
    then show "page_entry (objs s) dir (page a) = of_nat (4096 * page a) OR 7" using p(20) page_less [of a] by simp
    show "a mod 4096 = 0" using a p(15,17) by (elim insertE emptyE) simp_all
  qed
  have ch: "objs s (t_page_directory (task_at s task)) = Some (OChunk dir)"
    using p(1,3) by (auto simp: process_space_def task_at_def)
  have segs: "\<forall>i < phdr_count data. \<forall>j < unat (le32 data (phdr_pos data i + 20)).
        mmu dir (le32 data (phdr_pos data i + 8) + of_nat j) s = Some (memory + le32 data (phdr_pos data i + 4) + of_nat j)"
    "\<forall>j < 16384. mmu dir (0x3FB000 + of_nat j) s = Some (p_stack p + of_nat j)"
    "\<forall>j < 4096. mmu dir (argv + of_nat j) s = Some (argv + of_nat j)"
    "\<forall>j < 4096. mmu dir (le32 b 0 + of_nat j) s = Some (le32 b 0 + of_nat j)"
    using sp(1,2) id by blast+
  show "program_ready s data arg k q task dir"
    unfolding program_ready_def
    by (intro exI conjI; (rule g(5) p(2-6) ch segs p(11-14,16))?)
qed

section \<open>What stays\<close>

lemma kernel_space_kept:
  assumes "kernel_space s dir" "kept X s s'" "kernel_objects X s" "kernel_chunk s' = kernel_chunk s"
    "insert dir (tables_of (objs s) dir) \<inter> X = {}"
  shows "kernel_space s' dir"
proof -
  obtain a where a: "objs s (kernel_chunk s) = Some (OChunk dir)" "pd_ok (objs s) dir" "objs s a = Some (OBytes (replicate 4096 0))"
    "\<forall>n < 2 ^ 20. page_entry (objs s) dir n = (if n = 1 then a OR 7 else of_nat (4096 * n) OR 7)"
    using assms(1) unfolding kernel_space_def by blast
  note k = kept_kernel [OF assms(2,3)]
  note ss = same_space [of dir "objs s" "objs s'", OF kept_tables [OF a(2) assms(2,5)] a(2)]
  show ?thesis unfolding kernel_space_def using k [OF a(1)] k [OF a(3)] ss(1,3) a(4) assms(4) by auto
qed
lemma registered_step: "registered s \<Longrightarrow> start_step s s' \<Longrightarrow> registered s'"
  using start_stepD [of s s'] by (simp add: registered_def)

lemma program_list_keeps:
  assumes "program_started s data arg k q task dir"
  shows "objs s q \<noteq> None" "objs s task \<noteq> None" "insert dir (tables_of (objs s) dir) \<subseteq> dom (objs s)"
    "task \<notin> insert q (insert dir (tables_of (objs s) dir))" "objs s task = Some (OTask (task_at s task))"
    "objs s (t_page_directory (task_at s task)) = Some (OChunk dir)" "pd_ok (objs s) dir"
proof -
  obtain p c where p: "process_space s q p c dir" "p_task p = task"
    using assms unfolding program_started_def by (elim exE conjE) (rule that)
  note g = process_space_get [OF p(1)]
  obtain t where t: "objs s task = Some (OTask t)" "objs s (t_page_directory t) = Some (OChunk dir)"
    using p by (auto simp: process_space_def)
  show "pd_ok (objs s) dir" by (rule g(4))
  show "objs s q \<noteq> None" "objs s task \<noteq> None" using g(5) t(1) by simp_all
  show "insert dir (tables_of (objs s) dir) \<subseteq> dom (objs s)" by (rule pd_ok_tables [OF g(4)])
  obtain w where "objs s dir = Some (OWords w)" using g(4) by (auto simp: pd_ok_def)
  then show "task \<notin> insert q (insert dir (tables_of (objs s) dir))"
    using space_keeps_other [OF p(1) t(1)] t(1) by auto
  show "objs s task = Some (OTask (task_at s task))" "objs s (t_page_directory (task_at s task)) = Some (OChunk dir)"
    using t by (simp_all add: task_at_def)
qed

lemma started_queue:
  assumes "program_started s data arg k q task dir" "n < 2 ^ 31"
  shows "has_queue n s q []" "t_process (task_at s task) = q"
proof -
  obtain p c where p: "process_space s q p c dir" "p_keyboard p = p_keyboard zero_process" "t_process (task_at s task) = q"
    using assms(1) unfolding program_started_def by (elim exE conjE) (rule that)
  have "keys n (p_keyboard zero_process) []"
    using assms(2) by (simp add: keys_def zero_process_def PLUMOS_KEYBOARD_BUFFER_SIZE_def)
  then show "has_queue n s q []" using process_space_get(5) [OF p(1)] p(2) by (simp add: has_queue_def)
  show "t_process (task_at s task) = q" by (rule p(3))
qed

lemma booted_input:
  assumes "registered s" "kernel_space s kd" "task_list s [t1, t2]" "current_task s = t1" "current_process s = q2" "q2 \<noteq> 0"
    "program_started s data a i q1 t1 dir1" "program_started s data b j q2 t2 dir2"
  shows "input_ready (2 ^ 31 - 1) s [t1, t2] [q1, q2] q2 (\<lambda>_. []) False 0"
proof -
  note q = started_queue [OF assms(7), of "2 ^ 31 - 1"] started_queue [OF assms(8), of "2 ^ 31 - 1"]
  have k: "0x21 < length (interrupt_callbacks s)" "interrupt_callbacks s ! 0x21 = Some ClassicKeyboard"
    "0x20 < length (interrupt_callbacks s)" "interrupt_callbacks s ! 0x20 = Some Clock"
    using assms(1) by (simp_all add: registered_def boot_callbacks_def nth_append)
  have c: "2 < length (isr80h_commands s)" "isr80h_commands s ! 2 = Some GetKey"
    using assms(1) by (simp_all add: registered_def system_commands_def)
  have "scheduled s [t1, t2] 0" using assms(2-4) k by (auto simp: scheduled_def kernel_space_def)
  then show ?thesis
    unfolding input_ready_def using q k c assms(1,5,6) by (simp add: registered_def capslock_def)
qed

lemma kept_dom: "kept {} s s' \<Longrightarrow> dom (objs s) \<subseteq> dom (objs s')"
proof
  fix a assume k: "kept {} s s'" and "a \<in> dom (objs s)"
  then obtain y where y: "objs s a = Some y" by blast
  then show "a \<in> dom (objs s')"
    using kept_obj [OF k y] kept_stream [OF k, of a] by (cases "\<exists>d. y = OStream d") auto
qed

lemma apart: "insert q (insert t B) \<inter> D = {} \<Longrightarrow> S \<subseteq> D \<Longrightarrow> A \<subseteq> D \<Longrightarrow> B \<inter> (S \<union> A) = {}"
  by blast

lemma program_nonnull:
  assumes "can_start img fp path data s" "program_started s d a k q t dir"
  shows "q \<noteq> 0"
proof -
  have "mem_inv s" "low_heap s" "fst (heap_shape (kernel_heap s)) = PLUMOS_HEAP_ADDRESS"
    using assms(1) by (simp_all add: can_start_def)
  then have "4096 \<le> page q" by (rule live_page(2)) (rule program_list_keeps(1) [OF assms(2)])
  then show ?thesis by (auto simp: page_def)
qed

text \<open>Two programs, one after the other, on the kernel \<open>s\<close>.\<close>

lemma two_programs:
  assumes "can_start img fp path data s" "0 \<in> set path" "loadable data" "length data \<le> 40960"
    "heap_shape (kernel_heap s) = (PLUMOS_HEAP_ADDRESS, 25600)" "24568 \<le> free_blocks s" "processes s = replicate 12 0"
    "task_head s = 0" "0 \<in> set a" "length (cstr a) < length buf" "0 \<in> set b" "length (cstr b) < length buf"
  obtains buf1 s1 buf2 s2 q1 t1 dir1 q2 t2 dir2 where
    "start_program path buf a s = Some (buf1, s1)" "start_program path buf1 b s1 = Some (buf2, s2)"
    "mem_inv s2" "program_started s2 data a 0 q1 t1 dir1" "program_started s2 data b 1 q2 t2 dir2" "task_list s2 [t1, t2]"
    "processes s2 = q1 # q2 # replicate 10 0" "current_process s2 = q2" "current_task s2 = t1" "start_step s s2"
    "kept {} s s2" "insert dir1 (tables_of (objs s2) dir1) \<inter> dom (objs s) = {}"
    "insert dir2 (tables_of (objs s2) dir2) \<inter> (dom (objs s) \<union> insert dir1 (tables_of (objs s2) dir1)) = {}"
    "q2 \<noteq> 0" "q1 \<noteq> q2"
proof -
  let ?n = "blocks_for (length data)"
  have n: "?n \<le> 10" using assms(4) by (simp add: blocks_for_def)
  have m: "max 4 ?n \<le> 10" "11 + ?n \<le> 21" using n by simp_all
  have r1: "room s (11 + ?n) (max 4 ?n)" "1044 + ?n \<le> free_blocks s"
  proof -
    have "max 4 ?n * (25600 - free_blocks s + (11 + ?n) + 1) \<le> 10 * (25600 - free_blocks s + 21 + 1)"
      using m by (intro mult_le_mono) simp_all
    then show "room s (11 + ?n) (max 4 ?n)" using m assms(5,6) by (simp add: room_def)
    show "1044 + ?n \<le> free_blocks s" using n assms(6) by simp
  qed
  have sl: "first_slot 0 (processes s) = Some 0" unfolding assms(7) by (simp add: numeral_eq_Suc)
  have ts: "([] :: u32 list) = [] \<and> task_head s = 0 \<or> task_list s []" using assms(8) by simp
  obtain buf1 q1 t1 dir1 s1 where a: "start_program path buf a s = Some (buf1, s1)" "length buf1 = length buf"
    "can_start img fp path data s1" "program_started s1 data a 0 q1 t1 dir1" "task_list s1 ([] @ [t1])"
    "kept (tail_of []) s s1"
    "\<forall>t. ([] :: u32 list) \<noteq> [] \<longrightarrow> objs s (last []) = Some (OTask t) \<longrightarrow> objs s1 (last []) = Some (OTask (t\<lparr>t_next := t1\<rparr>))"
    "insert q1 (insert t1 (insert dir1 (tables_of (objs s1) dir1))) \<inter> dom (objs s) = {}" "start_step s s1"
    "processes s1 = (processes s)[0 := q1]" "current_process s1 = q1" "current_task s1 = (if ([] :: u32 list) = [] then t1 else current_task s)"
    "free_blocks s \<le> free_blocks s1 + 1044 + ?n"
    by (rule start_program_ok [OF assms(1-3) r1 sl ts assms(9,10)])
  have sh: "heap_shape (kernel_heap s1) = (PLUMOS_HEAP_ADDRESS, 25600)" using start_stepD(7) [OF a(9)] assms(5) by simp
  have fb: "23514 \<le> free_blocks s1" using a(13) n assms(6) by simp
  have r2: "room s1 (11 + ?n) (max 4 ?n)" "1044 + ?n \<le> free_blocks s1"
  proof -
    have "max 4 ?n * (25600 - free_blocks s1 + (11 + ?n) + 1) \<le> 10 * (25600 - free_blocks s1 + 21 + 1)"
      using m by (intro mult_le_mono) simp_all
    then show "room s1 (11 + ?n) (max 4 ?n)" using m sh fb by (simp add: room_def)
    show "1044 + ?n \<le> free_blocks s1" using n fb by simp
  qed
  have q1: "q1 \<noteq> 0" by (rule program_nonnull [OF a(3,4)])
  have ps: "processes s1 = q1 # replicate 11 0" using a(10) by (simp add: assms(7) numeral_eq_Suc)
  have sl1: "first_slot 0 (processes s1) = Some 1" unfolding ps using q1 by (simp add: numeral_eq_Suc)
  have ts1: "[t1] = [] \<and> task_head s1 = 0 \<or> task_list s1 [t1]" using a(5) by simp
  have lb: "length (cstr b) < length buf1" using assms(12) a(2) by simp
  obtain buf2 q2 t2 dir2 s2 where b: "start_program path buf1 b s1 = Some (buf2, s2)" "length buf2 = length buf1"
    "can_start img fp path data s2" "program_started s2 data b 1 q2 t2 dir2" "task_list s2 ([t1] @ [t2])"
    "kept (tail_of [t1]) s1 s2"
    "\<forall>t. [t1] \<noteq> [] \<longrightarrow> objs s1 (last [t1]) = Some (OTask t) \<longrightarrow> objs s2 (last [t1]) = Some (OTask (t\<lparr>t_next := t2\<rparr>))"
    "insert q2 (insert t2 (insert dir2 (tables_of (objs s2) dir2))) \<inter> dom (objs s1) = {}" "start_step s1 s2"
    "processes s2 = (processes s1)[1 := q2]" "current_process s2 = q2" "current_task s2 = (if [t1] = [] then t2 else current_task s1)"
    "free_blocks s1 \<le> free_blocks s2 + 1044 + ?n"
    by (rule start_program_ok [OF a(3) assms(2,3) r2 sl1 ts1 assms(11) lb])
  note g = program_list_keeps [OF a(4)]
  have tl: "tail_of [t1] = {t1}" by (simp add: tail_of_def)
  have ko: "kernel_objects {t1} s1" using g(5) by (simp add: kernel_objects_def)
  have kp: "kept {t1} s1 s2" using b(6) by (simp only: tl)
  have nx: "objs s2 t1 = Some (OTask ((task_at s1 t1)\<lparr>t_next := t2\<rparr>))" using b(7) g(5) by simp
  have dj: "q1 \<notin> {t1}" "insert dir1 (tables_of (objs s1) dir1) \<inter> {t1} = {}" using g(4) by auto
  have st1: "program_started s2 data a 0 q1 t1 dir1"
    by (rule program_started_kept [OF a(4) kp ko dj nx])
  note ss = same_space [of dir1 "objs s1" "objs s2", OF kept_tables [OF g(7) kp dj(2)] g(7)]
  have d1: "insert dir1 (tables_of (objs s2) dir1) \<inter> dom (objs s) = {}" using a(8) ss(2) by auto
  have d2: "insert dir2 (tables_of (objs s2) dir2) \<inter> (dom (objs s) \<union> insert dir1 (tables_of (objs s2) dir1)) = {}"
    by (rule apart [OF b(8)]) (use kept_dom [of s s1] a(6) g(3) ss(2) in \<open>simp_all add: tail_of_def\<close>)
  have "kept (tail_of [] \<union> {t1}) s s2" by (rule kept_trans [OF a(6) kp])
  then have k: "kept {} s s2" by (rule kept_drop) (use a(8) in \<open>auto simp: tail_of_def\<close>)
  have q2: "q2 \<noteq> 0" "q1 \<noteq> q2" using program_nonnull [OF b(3,4)] b(8) g(1) by auto
  have mi: "mem_inv s2" using b(3) by (simp add: can_start_def)
  have pr: "processes s2 = q1 # q2 # replicate 10 0" using b(10) by (simp add: ps numeral_eq_Suc)
  have tk: "task_list s2 [t1, t2]" "current_task s2 = t1" using b(5,12) a(12) by simp_all
  show thesis
    by (rule that [OF a(1) b(1) mi st1 b(4) tk(1) pr b(11) tk(2) start_step_trans [OF a(9) b(9)] k d1 d2 q2])
qed

lemma three_spaces:
  assumes "A \<inter> D = {}" "B \<inter> (D \<union> A) = {}" "K \<subseteq> D"
  shows "A \<inter> B = {}" "K \<inter> (A \<union> B) = {}"
  using assms by blast+

section \<open>Booting\<close>

text \<open>
  C1. From the disk to user mode. On a machine whose disk is a FAT16 volume with an ELF file \<open>blank.elf\<close> of at most 40
  KiB in its root directory, with headers that lie in the file and segments below the kernel's heap that
  share no pages, \<open>kernel_main\<close> does not panic and enters user mode at the entry point of the file: the descriptor
  tables, the callbacks, the system calls, the cleared screen and the kernel's own address space are as described, the
  file is loaded twice, as process 0 with the argument \<open>B\<close> and process 1 with \<open>A\<close>, each in an address space
  that shares no table with the other's or the kernel's, the two tasks form the list of tasks, the first
  runs with its page tables loaded, and the machine is ready for keys, which go to the second process.
\<close>
theorem kernel_main_boots:
  assumes "boot_state s" "1600 \<le> length text_memory" "length table_memory = 25600" "length (interrupt_stubs im) = 512"
    "2 \<le> length junk" "ata_serves (device s) img" "file_on_volume img n m (lit ''0:/blank.elf'') data"
    "loadable data" "separate_segments data" "low_segments data" "length data \<le> 40960"
  shows "\<exists>tables s' q1 t1 dir1 q2 t2 dir2 kernel_dir.
    kernel_main im text_memory table_memory junk flags s = Some (task_return flags (start_registers (le32 data 24)), tables, s') \<and>
    tables_ok im tables \<and> registered s' \<and> mem_inv s' \<and> kernel_space s' kernel_dir \<and>
    processes s' = q1 # q2 # replicate 10 0 \<and> task_list s' [t1, t2] \<and>
    current_task s' = t1 \<and> cr3 s' = dir1 \<and> current_process s' = q2 \<and>
    program_ready s' data (lit ''B'') 0 q1 t1 dir1 \<and> program_ready s' data (lit ''A'') 1 q2 t2 dir2 \<and>
    insert dir1 (tables_of (objs s') dir1) \<inter> insert dir2 (tables_of (objs s') dir2) = {} \<and>
    insert kernel_dir (tables_of (objs s') kernel_dir) \<inter>
      (insert dir1 (tables_of (objs s') dir1) \<union> insert dir2 (tables_of (objs s') dir2)) = {} \<and>
    q1 \<noteq> q2 \<and> input_ready (2 ^ 31 - 1) s' [t1, t2] [q1, q2] q2 (\<lambda>_. []) False 0"
proof -
  let ?h = "disk_bytes img 0 62" and ?path = "lit ''0:/blank.elf''"
  have h: "header_signature ?h = PLUMOS_FAT16_SIGNATURE" "boot_ok img ?h n m"
    using assms(7) by (auto simp: file_on_volume_def Let_def)
  obtain tables fp kd s0 where s0: "kernel_main im text_memory table_memory junk flags s =
      do {
        (argument, s) \<leftarrow> start_program ?path junk (lit ''B'') s0;
        (argument, s) \<leftarrow> start_program ?path argument (lit ''A'') s;
        (regs, s) \<leftarrow> task_run_first_ever_task flags s;
        Some (regs, tables, s)
      }" "tables_ok im tables" "mem_inv s0" "heap_shape (kernel_heap s0) = (PLUMOS_HEAP_ADDRESS, 25600)" "24568 \<le> free_blocks s0"
    "volume_mounted img ?h n m fp s0" "dk_filesystem (gdisk s0) = Fat16Fs" "file_descriptors s0 = replicate PLUMOS_MAX_FILE_DESCRIPTORS 0"
    "processes s0 = replicate 12 0" "task_head s0 = 0" "current_task s0 = 0" "kernel_space s0 kd" "registered s0"
    by (rule kernel_setup_ok [OF assms(1-4,6) refl h])
  have cs: "can_start img fp ?path data s0"
    using s0(3,4,9) mounted_program [OF s0(6) assms(7) s0(7,8)]
    by (simp add: can_start_def low_heap_def PLUMOS_HEAP_ADDRESS_def)
  have l: "0 \<in> set ?path" "0 \<in> set (lit ''B'')" "0 \<in> set (lit ''A'')" "length (cstr (lit ''B'')) < length junk"
    "length (cstr (lit ''A'')) < length junk" using assms(5) by (simp_all add: lit_def)
  obtain buf1 s1 buf2 s2 q1 t1 dir1 q2 t2 dir2 where p: "start_program ?path junk (lit ''B'') s0 = Some (buf1, s1)"
    "start_program ?path buf1 (lit ''A'') s1 = Some (buf2, s2)" "mem_inv s2" "program_started s2 data (lit ''B'') 0 q1 t1 dir1"
    "program_started s2 data (lit ''A'') 1 q2 t2 dir2" "task_list s2 [t1, t2]"
    "processes s2 = q1 # q2 # replicate 10 0" "current_process s2 = q2" "current_task s2 = t1" "start_step s0 s2"
    "kept {} s0 s2" "insert dir1 (tables_of (objs s2) dir1) \<inter> dom (objs s0) = {}"
    "insert dir2 (tables_of (objs s2) dir2) \<inter> (dom (objs s0) \<union> insert dir1 (tables_of (objs s2) dir1)) = {}"
    "q2 \<noteq> 0" "q1 \<noteq> q2"
    by (rule two_programs [OF cs l(1) assms(8,11) s0(4,5,9,10) l(2,4,3,5)])
  define s3 where "s3 = s2\<lparr>current_task := t1, cr3 := dir1, current_directory := dir1\<rparr>"
  note g = program_list_keeps [OF p(4)]
  have t1: "t1 \<noteq> 0" "task_head s2 = t1" using p(6) by (auto simp: task_list_def)
  have reg: "t_registers (task_at s2 t1) = start_registers (le32 data 24)"
    using p(4) unfolding program_started_def by blast
  have run: "task_run_first_ever_task flags s2 = Some (task_return flags (start_registers (le32 data 24)), s3)"
    using t1 p(9) g(5,6) reg
    by (simp add: task_run_first_ever_task_def task_switch_def get_task_def paging_switch_def get_chunk_def paging_load_directory_def
        s3_def Let_def)
  have o3: "objs s3 = objs s2" "kernel_heap s3 = kernel_heap s2" by (simp_all add: s3_def)
  have cg: "program_started s3 data x k q t d = program_started s2 data x k q t d" for x k q t d
    by (simp add: program_started_def process_space_def task_at_def elf_loaded_def argument_at_def o3)
  have ready: "program_ready s3 data (lit ''B'') 0 q1 t1 dir1" "program_ready s3 data (lit ''A'') 1 q2 t2 dir2"
    by (rule started_ready(1) [OF _ assms(8-10)]; simp only: cg p(4,5))+
  have pd0: "pd_ok (objs s0) kd" using s0(12) by (simp add: kernel_space_def)
  have ko: "kernel_objects {} s0" by (simp add: kernel_objects_def)
  have ks2: "kernel_space s2 kd" by (rule kernel_space_kept [OF s0(12) p(11) ko start_stepD(5) [OF p(10)]]) simp
  note ss = same_space [of kd "objs s0" "objs s2", OF kept_tables [OF pd0 p(11)] pd0]
  have kt: "insert kd (tables_of (objs s2) kd) \<subseteq> dom (objs s0)" using pd_ok_tables [OF pd0] ss(2) by simp
  have dj: "insert dir1 (tables_of (objs s3) dir1) \<inter> insert dir2 (tables_of (objs s3) dir2) = {}"
    "insert kd (tables_of (objs s3) kd) \<inter> (insert dir1 (tables_of (objs s3) dir1) \<union> insert dir2 (tables_of (objs s3) dir2)) = {}"
    unfolding o3 by (rule three_spaces [OF p(12,13) kt])+
  have ks: "kernel_space s3 kd" using ks2 by (simp add: kernel_space_def s3_def)
  have rg: "registered s3" using registered_step [OF s0(13) p(10)] by (simp add: registered_def s3_def)
  have tl: "task_list s3 [t1, t2]" by (rule task_list_keep(1) [OF p(6)]) (simp_all add: s3_def)
  have mi: "mem_inv s3" using p(3) by (simp add: mem_inv_def o3)
  have st: "processes s3 = q1 # q2 # replicate 10 0" "current_task s3 = t1" "cr3 s3 = dir1" "current_process s3 = q2"
    using p(7,8) by (simp_all add: s3_def)
  have ip: "input_ready (2 ^ 31 - 1) s3 [t1, t2] [q1, q2] q2 (\<lambda>_. []) False 0"
    by (rule booted_input [OF rg ks tl st(2,4) p(14) p(4) [folded cg] p(5) [folded cg]])
  have main: "kernel_main im text_memory table_memory junk flags s = Some (task_return flags (start_registers (le32 data 24)), tables, s3)"
    by (simp only: s0(1) p(1,2) run bind.simps case_prod_conv)
  show ?thesis
    by (intro exI conjI, rule main, rule s0(2), rule rg, rule mi, rule ks, rule st(1), rule tl, rule st(2), rule st(3),
        rule st(4), rule ready(1), rule ready(2), rule dj(1), rule dj(2),
        rule p(15), rule ip)
qed
text \<open>A disk with one file, and the kernel's data when it starts.\<close>

definition blank_item :: "u8 list" where
  "blank_item = [0x42, 0x4C, 0x41, 0x4E, 0x4B, 0x20, 0x20, 0x20, 0x45, 0x4C, 0x46, 0, 0, 0, 0, 0,
     0, 0, 0, 0, 0, 0, 0, 0, 0, 0, 2, 0, 116, 0, 0, 0]"

definition boot_disk :: "nat \<Rightarrow> u8 list" where
  "boot_disk i = (if i = 2 then pad_to 512 blank_item else if i = 3 then pad_to 512 sample_elf else sample_volume i)"

definition sample_boot_state :: kernel where
  "sample_boot_state = (sample_kernel 0)\<lparr>objs := (\<lambda>_. None), device := ata_device boot_disk, task_head := 0, current_task := 0,
     classic_keyboard := \<lparr>kbd_init = True, kbd_name = lit ''Classic'', kbd_capslock_state = 0, kbd_next = NullKeyboard\<rparr>,
     keyboard_list_last := NullKeyboard, interrupt_callbacks := replicate 512 None, isr80h_commands := replicate 1024 None\<rparr>"

lemma boot_disk_header: "disk_bytes boot_disk 0 62 = sample_header"
  by (rule nth_equalityI)
    (simp_all add: disk_bytes_def disk_byte_def boot_disk_def sample_volume_def nth_pad_to sample_header_def)

lemma boot_disk_file: "file_on_volume boot_disk 16 1 (lit ''0:/blank.elf'') sample_elf"
proof -
  have r: "root_start sample_header = 2" by (simp add: root_start_def le16_def sample_header_def)
  have d: "disk_byte boot_disk (512 * k + j) = boot_disk k ! j" if "j < 512" for k j
    using that by (simp add: disk_byte_def)
  have b: "disk_byte boot_disk (1024 + j) = pad_to 512 blank_item ! j" if "j < 512" for j
    using d [OF that, of 2] by (simp add: boot_disk_def)
  have l: "length sample_elf = 116" "length blank_item = 32" by (simp_all add: sample_elf_def blank_item_def)
  have i0: "dir_item_at boot_disk 1024 0 ! 0 = 0x42" "dir_item_at boot_disk 1024 1 ! 0 = 0"
    using b [of 0] b [of 32] l by (simp_all add: dir_item_at_def disk_bytes_def nth_pad_to) (simp_all add: blank_item_def)
  have de: "dir_ends boot_disk 1024 1" "used_items boot_disk 1024 1 = [0]"
    using i0 by (simp_all add: dir_ends_def used_items_def)
  have e: "dir_entry (disk_bytes boot_disk 1024 512) 0 = blank_item"
  proof (rule nth_equalityI)
    fix i assume "i < length (dir_entry (disk_bytes boot_disk 1024 512) 0)"
    then have i: "i < 32" by (simp add: dir_entry_def)
    then have "dir_entry (disk_bytes boot_disk 1024 512) 0 ! i = disk_byte boot_disk (1024 + i)"
      by (simp add: dir_entry_def disk_bytes_def del: upt_rec_numeral)
    then show "dir_entry (disk_bytes boot_disk 1024 512) 0 ! i = blank_item ! i" using b [of i] i l by (simp add: nth_pad_to)
  qed (simp add: dir_entry_def l)
  let ?w = "[0x62, 0x6C, 0x61, 0x6E, 0x6B, 0x2E, 0x65, 0x6C, 0x66] :: u8 list"
  have mt: "name_matches blank_item (?w @ [0])"
    by (simp add: name_matches_def item_name_def trimmed_def blank_item_def tolower_def PLUMOS_MAX_PATH_def)
  have f: "cstr (lit ''0:/blank.elf'') = 0x30 # 0x3A # 0x2F # ?w" "0 \<in> set (lit ''0:/blank.elf'')"
    by (simp_all add: lit_def)
  have c: "components ?w = [?w]" by (simp add: components.simps)
  have it: "unat (fat16_get_first_cluster blank_item) = 2" "unat (item_filesize blank_item) = 116"
    "item_attribute blank_item AND FAT_FILE_SUBDIRECTORY = 0"
    by (simp_all add: fat16_get_first_cluster_def le16_def item_filesize_def le32_def blank_item_def item_attribute_def
        FAT_FILE_SUBDIRECTORY_def)
  have lay: "chain_ok boot_disk (volume_layout boot_disk 16) x off k = chain_ok boot_disk sample_private x off k"
    "file_bytes boot_disk (volume_layout boot_disk 16) x off k = file_bytes boot_disk sample_private x off k" for x off k
    by (rule layout_cong; simp add: volume_layout_def sample_private_def boot_disk_header r)+
  have fl: "follow boot_disk sample_private 0 2 = Some 2" by simp
  have ch: "chain_ok boot_disk sample_private 2 0 116"
    using fl by (auto simp: chain_ok_def sample_cluster cluster_ok_def)
  have fb: "file_bytes boot_disk sample_private 2 0 116 = sample_elf"
  proof (rule nth_equalityI)
    fix i assume "i < length (file_bytes boot_disk sample_private 2 0 116)"
    then have i: "i < 116" by (simp add: file_bytes_def)
    have "file_bytes boot_disk sample_private 2 0 116 ! i = disk_byte boot_disk (1536 + i)"
      using i fl by (simp add: file_bytes_def file_byte_def sample_cluster)
    then show "file_bytes boot_disk sample_private 2 0 116 ! i = sample_elf ! i"
      using d [of i 3] i l by (simp add: boot_disk_def nth_pad_to)
  qed (simp add: file_bytes_def l)
  have h: "header_signature sample_header = PLUMOS_FAT16_SIGNATURE" "unat (le16 sample_header 17) = 16" "sample_header ! 13 \<noteq> 0"
    by (simp_all add: header_signature_def sample_header_def PLUMOS_FAT16_SIGNATURE_def le16_def)
  have bo: "boot_ok boot_disk sample_header 16 1" using h(2) de(1) by (simp add: boot_ok_def r)
  show ?thesis
    unfolding file_on_volume_def Let_def boot_disk_header r
    by (intro conjI exI [of _ ?w] exI [of _ 0] exI [of _ 2])
      (use h bo de e mt f c it lay ch fb l in \<open>simp_all add: PLUMOS_MAX_PATH_def\<close>)
qed

theorem kernel_main_boots_witness:
  "\<exists>regs tables s' t1 t2 q dir. kernel_main \<lparr>tss_address = 0x9000, idt_address = 0xA000, interrupt_stubs = replicate 512 0x100100,
       isr80h_wrapper_address = 0x100200\<rparr> (replicate 2000 0) (replicate 25600 7) (replicate 512 9) 2 sample_boot_state =
       Some (regs, tables, s') \<and> r_ip regs = 0x400000 \<and> task_list s' [t1, t2] \<and> cr3 s' = dir \<and>
       program_ready s' sample_elf (lit ''B'') 0 q t1 dir"
proof -
  let ?im = "\<lparr>tss_address = 0x9000, idt_address = 0xA000, interrupt_stubs = replicate 512 0x100100, isr80h_wrapper_address = 0x100200\<rparr>"
  have b: "boot_state sample_boot_state"
    by (simp add: boot_state_def sample_boot_state_def sample_kernel_def del: replicate_Suc)
  have l: "1600 \<le> length (replicate 2000 (0 :: u16))" "length (replicate 25600 (7 :: u8)) = 25600"
    "length (interrupt_stubs ?im) = 512" "2 \<le> length (replicate 512 (9 :: u8))" "length sample_elf \<le> 40960"
    by (simp_all add: sample_elf_def del: replicate_Suc)
  have d: "ata_serves (device sample_boot_state) boot_disk"
    by (simp add: sample_boot_state_def) (rule ata_device_serves, simp add: boot_disk_def sample_volume_def)
  have "segment_pages sample_elf (phdr_pos sample_elf 0) = {0x400}" "segment_pages sample_elf (phdr_pos sample_elf 1) = {0x401}"
    by (auto simp: segment_pages_def sample_elf_segments page_def blocks_for_def)
  then have low: "low_segments sample_elf"
    by (auto simp: low_segments_def sample_elf_segments(1) less_2_cases_iff)
  have ip: "r_ip (task_return 2 (start_registers (le32 sample_elf 24))) = 0x400000"
    by (simp add: task_return_def restore_general_purpose_registers_def start_registers_def sample_elf_def le32_def le16_def)
  from kernel_main_boots [OF b l(1-4) d boot_disk_file sample_elf_loadable low l(5), of 2]
  show ?thesis by (elim exE conjE) (intro exI conjI, assumption, rule ip, assumption, assumption, assumption)
qed

end
