(* ===== verification/Spec2Isabelle.thy ===== *)
theory Spec2Isabelle
  imports Prelude CLib Heap KernelState Terminal KHeap Room PathParser Paging Disk Samples Fat16 FatData FatFiles FatMount Slots Vfs Gdt Stdlib Shell
    Elf ElfLoad Task TaskList Process AddressSpace Arguments ProcessLoad UserHeap Idt Keyboard Isr80h SystemCalls Interrupts Scheduler Input KernelMain
    Setup Launch Boot
begin

text \<open>
  PlumOS, a 32-bit multitasking kernel with a FAT16 filesystem, an ELF loader, paged processes and a small
  user library: its C code as definitions, and theorems about them.

  How the kernel works. \<open>kernel_main\<close> (\<open>src/src/kernel.c\<close>) sets up the terminal, the segment descriptors, the
  kernel heap, the filesystem and the disk, the interrupt table, the page tables, the system calls and the
  keyboard, loads the first programs and enters user mode. Loading a program opens a file by its path
  (path parser, virtual file system, FAT16 driver, byte stream, disk), reads it into the heap, reads its ELF
  headers, makes a task with page tables of its own and maps the segments and a stack there. Programs call
  the kernel by interrupt \<open>0x80\<close>; the clock interrupt switches to the next task of a linked list.

  The model. A kernel function is a HOL function from the state to an optional result and the new state;
  \<open>None\<close> says that there is no normal return: a panic, a division by zero, a signed overflow, an access outside
  an object or through a null, dangling or mistyped pointer, or a loop that does not end (these loops are
  \<open>partial_function (option)\<close>). Error codes are ordinary negative results, \<open>goto out\<close> a function of its own
  where the common end does something. \<open>u8\<close>, \<open>u16\<close>, \<open>u32\<close> are words of that width and wrap; C's \<open>int\<close> is \<open>int\<close>
  with \<open>s32\<close> where it may overflow, \<open>to_int\<close> and \<open>to_u32\<close> where it is converted. The state is the record
  \<open>kernel\<close> of \<open>KernelState\<close>: the global variables, and \<open>objs\<close>, a map from addresses to the objects the heap
  has handed out, each with the C type it was allocated for. An array parameter that a function fills is
  a result; what an array on the stack holds before is a parameter (\<open>junk\<close>), as are the flags of the
  processor. Function pointers (the driver of a disk, the keyboard driver, interrupt callbacks, system
  calls) are datatypes with a case distinction at the call.

  The theories, in the order of their imports, with the files under \<open>src/\<close> they model.

  \<^item> \<open>Prelude\<close>: integer types, \<open>status.h\<close>, \<open>config.h\<close>, checked array access, general lemmas.
  \<^item> \<open>CLib\<close>: \<open>string/string.c\<close>, \<open>memory/memory.c\<close>. What each routine computes on terminated strings.
  \<^item> \<open>Heap\<close>: \<open>memory/heap/heap.c\<close>. A table of entries encodes a list of free blocks and allocations (\<open>seg\<close>);
    \<open>heap_malloc\<close> and \<open>heap_free\<close> refine first-fit allocation (\<open>spec_alloc\<close>) and release (\<open>spec_free\<close>) on it.
  \<^item> \<open>KernelState\<close>: the structures of the headers and the state. \<open>Terminal\<close>: the terminal of \<open>kernel.c\<close>.
  \<^item> \<open>KHeap\<close>: \<open>memory/heap/kheap.c\<close>; the interface of the heap (\<open>locale allocator\<close>, interpreted on \<open>kzalloc\<close>
    and \<open>kfree\<close>), the invariant \<open>mem_inv\<close> that ties objects to blocks, and \<open>free_blocks\<close>, from which allocations
    of one block succeed. \<open>Room\<close>: when allocations of several blocks succeed.
  \<^item> \<open>PathParser\<close>: \<open>fs/pparser.c\<close>. \<open>Paging\<close>: \<open>memory/paging/paging.c\<close>; \<open>pd_ok\<close> is a well-formed two-level table
    and \<open>page_entry\<close> its entry for a page. \<open>Disk\<close>: \<open>disk/disk.c\<close>, \<open>disk/streamer.c\<close>, the ports of \<open>io.asm\<close>.
  \<^item> \<open>Fat16\<close>: \<open>fs/fat/fat16.c\<close>; \<open>FatData\<close>, \<open>FatFiles\<close>, \<open>FatMount\<close>: reading data along the chain of clusters, names
    and directories, mounting. \<open>Slots\<close>: tables of pointers with a first free entry (\<open>locale slot_table\<close>,
    interpreted on the descriptors, the processes and the filesystems). \<open>Vfs\<close>: \<open>fs/file.c\<close> and the search for
    the disk.
  \<^item> \<open>Gdt\<close>: \<open>gdt/gdt.c\<close>. \<open>Elf\<close>: \<open>loader/formats/elf.h\<close>, \<open>elf.c\<close>, \<open>elfloader.c\<close>; \<open>ElfLoad\<close>: loading by path.
  \<^item> \<open>Task\<close>, \<open>TaskList\<close>: \<open>task/task.c\<close>, \<open>task/task.asm\<close>; \<open>Process\<close>: \<open>task/process.c\<close>; \<open>AddressSpace\<close>: the memory of a
    process; \<open>Arguments\<close>: \<open>process_inject_arguments\<close>; \<open>ProcessLoad\<close>: from the path to the mapped process; \<open>UserHeap\<close>: runs
    of allocations.
  \<^item> \<open>Idt\<close>, \<open>Interrupts\<close>: \<open>idt/idt.c\<close>; \<open>Keyboard\<close>: \<open>keyboard/keyboard.c\<close>, \<open>keyboard/classic.c\<close> (\<open>locale fifo\<close>,
    interpreted on the queue of keys); \<open>Isr80h\<close>, \<open>SystemCalls\<close>: \<open>isr80h/\<close> and the dispatch; \<open>Scheduler\<close>: the clock
    and the tasks, as a step relation; \<open>Input\<close>: runs with keys, ticks and calls for keys, refining a queue per process;
    \<open>KernelMain\<close>: \<open>kernel_main\<close>.
  \<^item> \<open>Setup\<close>, \<open>Launch\<close>, \<open>Boot\<close>: the run of \<open>kernel_main\<close>: its steps before the first program, the start of one program
    and what it leaves alone (\<open>kept\<close>), and the two programs up to user mode (\<open>kernel_main_boots\<close>).
  \<^item> \<open>Stdlib\<close>, \<open>Shell\<close>: \<open>programs/stdlib\<close>, \<open>programs/shell\<close>, \<open>programs/blank\<close>; the state of a user program is
    the buffers it works on and the calls it makes in order.
  \<^item> \<open>Samples\<close>: concrete states for the witnesses.

  What is shown. For each operation its result on every path the theorem names, errors included, and what it
  leaves alone. The heap: allocation is first fit, disjoint from what is live, and undone by release. The page
  tables: exactly the pages of a range change. Files: exactly the bytes of the cluster chain are read.
  Programs: the loaded process has the file's bytes at its segments' addresses. Processes: no run of
  allocations and releases breaks the tables. The queue of keys is a queue, the list of tasks a ring in which
  every task runs again, the system calls are those of their numbers. The kernel as a whole: from the image of
  a FAT16 volume with the program, \<open>kernel_main\<close> gets to user mode with two loaded programs in address spaces of their own. Where the code does not do what
  it means to, a theorem says what it does: a backspace at the start of a row, a key that overwrites the
  oldest one, the read that ends a cluster at the wrong place, the release of null on termination, the
  dangling link to a removed task, descriptor 512, a cyclic list of arguments.

  Hypotheses about the machine. The device behind the ports serves the sectors of an image (\<open>ata_serves\<close>, the
  ATA read protocol); a volume on it has a layout that does not overflow (\<open>fat_layout\<close>). \<open>low_heap\<close> puts the
  heap below 2 GiB, where an address is not taken for an error code; the kernel's heap of 100 MiB from
  \<open>0x1000000\<close> is there. \<open>room\<close> and bounds on \<open>free_blocks\<close> say that the heap has the memory.

  Bounds. The processor's access to memory looks for the object that covers a physical address from its page
  down over 25600 blocks, the size of the kernel's heap, so no object of the heap is missed. A string argument is read
  up to 511 characters, the size of its field without the terminator (up to 512 where the code takes the
  length of an unterminated field). All other recursions are structural, have a measure, or are partial
  functions.

  Not modelled. The boot loader (\<open>boot.asm\<close>), the entry code and the interrupt controller (\<open>kernel.asm\<close>): machine
  set-up in assembly. Of the other assembly files only what the C code relies on is modelled: port access,
  the registers restored by \<open>task_return\<close>, the register that holds the page directory; loading segment
  registers, descriptor table registers and the task register, and the paging bit, have no counterpart in the
  state. The stubs of \<open>idt.asm\<close> are the frames they pass to the handlers, the stubs of
  \<open>programs/stdlib/src/plumos.asm\<close> parameters. \<open>src/tests.c\<close> is commented out. Access by a user program to memory is
  modelled for the kernel's copies and stores, not for the program's own instructions.
\<close>

end
